(* ===== verification/Go_Prelude.thy ===== *)
theory Go_Prelude
  imports Main "HOL-Library.Char_ord" "HOL-Library.List_Lexorder" "HOL-Library.Product_Lexorder"
    "HOL-Library.Sublist"
begin

text \<open>
  The part of Go's standard library the program uses, on Go strings as byte lists, and the
  generic lemmas the component theories share. A Go \<open>string\<close> is a sequence of bytes, which is
  what Isabelle's \<^typ>\<open>string\<close> is; \<open>len\<close> is \<^const>\<open>length\<close>, \<open>s[a:b]\<close> is
  \<open>take\<close>/\<open>drop\<close>, and \<open>strings.Index\<close> returning \<open>-1\<close> is \<^const>\<open>None\<close>.
  \<open>strings.ToLower\<close>, \<open>strings.EqualFold\<close> and \<open>strings.TrimSpace\<close> are modelled on their
  ASCII behaviour: bytes from 128 on are left as they are.
\<close>

named_theorems go_defs \<open>definitions of the model that the component proofs unfold together\<close>

section \<open>Early returns\<close>

text \<open>\<open>if v := f(); v != nil { return v }\<close> followed by more code.\<close>

lemma early_return_None [simp]:
  "(case r of None \<Rightarrow> k | Some v \<Rightarrow> Some v) = None \<longleftrightarrow> r = None \<and> k = None"
  by (cases r) auto

lemma early_return_Some:
  "(case r of None \<Rightarrow> k | Some v \<Rightarrow> Some v) = Some w \<longleftrightarrow> r = Some w \<or> r = None \<and> k = Some w"
  by (cases r) auto

section \<open>Bytes\<close>

definition byte_of :: "char \<Rightarrow> nat" where
  "byte_of c = of_char c"

definition is_upper :: "char \<Rightarrow> bool" where
  "is_upper c \<longleftrightarrow> 65 \<le> byte_of c \<and> byte_of c \<le> 90"

definition is_lower :: "char \<Rightarrow> bool" where
  "is_lower c \<longleftrightarrow> 97 \<le> byte_of c \<and> byte_of c \<le> 122"

definition is_digit :: "char \<Rightarrow> bool" where
  "is_digit c \<longleftrightarrow> 48 \<le> byte_of c \<and> byte_of c \<le> 57"

definition is_alpha :: "char \<Rightarrow> bool" where
  "is_alpha c \<longleftrightarrow> is_upper c \<or> is_lower c"

definition newline :: char where
  "newline = CHR 0x0A"

definition is_space :: "char \<Rightarrow> bool" where
  "is_space c \<longleftrightarrow> c = CHR '' '' \<or> (9 \<le> byte_of c \<and> byte_of c \<le> 13)"

definition lower_char :: "char \<Rightarrow> char" where
  "lower_char c = (if is_upper c then char_of (byte_of c + 32) else c)"

lemma byte_of_lt: "byte_of c < 256"
proof -
  have "of_char c \<in> {0::nat..<256}"
    using range_nat_of_char by blast
  then show ?thesis by (simp add: byte_of_def)
qed

lemma byte_of_eq_iff [simp]: "byte_of c = byte_of d \<longleftrightarrow> c = d"
  by (simp add: byte_of_def)

lemma byte_of_char_of [simp]: "n < 256 \<Longrightarrow> byte_of (char_of n) = n"
  by (simp add: byte_of_def)

lemma lower_char_idem [simp]: "lower_char (lower_char c) = lower_char c"
  using byte_of_lt [of c] by (auto simp: lower_char_def is_upper_def)

section \<open>Strings\<close>

definition to_lower :: "string \<Rightarrow> string" where
  "to_lower s = map lower_char s"

definition equal_fold :: "string \<Rightarrow> string \<Rightarrow> bool" where
  "equal_fold a b \<longleftrightarrow> to_lower a = to_lower b"

lemma length_to_lower [simp]: "length (to_lower s) = length s"
  by (simp add: to_lower_def)

lemma to_lower_idem [simp]: "to_lower (to_lower s) = to_lower s"
  by (simp add: to_lower_def comp_def)

lemma to_lower_eq_Nil [simp]: "to_lower s = [] \<longleftrightarrow> s = []"
  by (simp add: to_lower_def)

lemma to_lower_append [simp]: "to_lower (a @ b) = to_lower a @ to_lower b"
  by (simp add: to_lower_def)

lemma equal_fold_refl [simp]: "equal_fold a a"
  by (simp add: equal_fold_def)

lemma equal_fold_sym: "equal_fold a b \<longleftrightarrow> equal_fold b a"
  by (auto simp: equal_fold_def)

lemma equal_fold_trans: "equal_fold a b \<Longrightarrow> equal_fold b c \<Longrightarrow> equal_fold a c"
  by (simp add: equal_fold_def)

definition has_prefix :: "string \<Rightarrow> string \<Rightarrow> bool" where
  "has_prefix s p \<longleftrightarrow> take (length p) s = p"

definition trim_prefix :: "string \<Rightarrow> string \<Rightarrow> string" where
  "trim_prefix s p = (if has_prefix s p then drop (length p) s else s)"

definition has_suffix :: "string \<Rightarrow> string \<Rightarrow> bool" where
  "has_suffix s p \<longleftrightarrow> length p \<le> length s \<and> drop (length s - length p) s = p"

definition trim_suffix :: "string \<Rightarrow> string \<Rightarrow> string" where
  "trim_suffix s p = (if has_suffix s p then take (length s - length p) s else s)"

lemma has_prefixE:
  assumes "has_prefix s p"
  obtains t where "s = p @ t"
proof
  show "s = p @ drop (length p) s"
    using assms append_take_drop_id [of "length p" s] by (simp add: has_prefix_def)
qed

lemma has_prefix_append [simp]: "has_prefix (p @ t) p"
  by (simp add: has_prefix_def)

lemma has_prefix_length: "has_prefix s p \<Longrightarrow> length p \<le> length s"
  by (auto elim: has_prefixE)

lemma has_prefix_self [simp]: "has_prefix s s"
  by (simp add: has_prefix_def)

lemma has_prefix_Nil [simp]: "has_prefix s []"
  by (simp add: has_prefix_def)

lemma trim_prefix_append [simp]: "trim_prefix (p @ t) p = t"
  by (simp add: trim_prefix_def)

text \<open>\<open>strings.Index\<close> and \<open>strings.LastIndex\<close>.\<close>

fun str_index :: "string \<Rightarrow> string \<Rightarrow> nat option" where
  "str_index [] sub = (if sub = [] then Some 0 else None)"
| "str_index (c # s) sub =
     (if has_prefix (c # s) sub then Some 0 else map_option Suc (str_index s sub))"

fun str_last_index :: "string \<Rightarrow> string \<Rightarrow> nat option" where
  "str_last_index [] sub = (if sub = [] then Some 0 else None)"
| "str_last_index (c # s) sub =
     (case str_last_index s sub of
        Some i \<Rightarrow> Some (Suc i)
      | None \<Rightarrow> if has_prefix (c # s) sub then Some 0 else None)"

lemma str_index_Some:
  "str_index s sub = Some i \<Longrightarrow> has_prefix (drop i s) sub \<and> i + length sub \<le> length s"
proof (induction s arbitrary: i)
  case Nil
  then show ?case by (simp split: if_splits)
next
  case (Cons c s)
  then show ?case
    by (auto split: if_splits dest: has_prefix_length)
qed

lemma str_index_first: "str_index s sub = Some i \<Longrightarrow> j < i \<Longrightarrow> \<not> has_prefix (drop j s) sub"
proof (induction s arbitrary: i j)
  case Nil
  then show ?case by (simp split: if_splits)
next
  case (Cons c s)
  then show ?case by (cases j) (auto split: if_splits)
qed

lemma str_index_None: "str_index s sub = None \<Longrightarrow> j \<le> length s \<Longrightarrow> \<not> has_prefix (drop j s) sub"
proof (induction s arbitrary: j)
  case Nil
  then show ?case by (auto simp: has_prefix_def split: if_splits)
next
  case (Cons c s)
  then show ?case by (cases j) (auto split: if_splits)
qed

lemma str_last_index_Some:
  "str_last_index s sub = Some i \<Longrightarrow> has_prefix (drop i s) sub \<and> i + length sub \<le> length s"
proof (induction s arbitrary: i)
  case Nil
  then show ?case by (simp split: if_splits)
next
  case (Cons c s)
  then show ?case
    by (auto split: if_splits option.splits dest: has_prefix_length)
qed

lemma str_last_index_None:
  "str_last_index s sub = None \<Longrightarrow> j \<le> length s \<Longrightarrow> \<not> has_prefix (drop j s) sub"
proof (induction s arbitrary: j)
  case Nil
  then show ?case by (auto simp: has_prefix_def split: if_splits)
next
  case (Cons c s)
  then show ?case by (cases j) (auto split: if_splits option.splits)
qed

lemma str_last_index_last:
  "str_last_index s sub = Some i \<Longrightarrow> i < j \<Longrightarrow> j \<le> length s \<Longrightarrow> \<not> has_prefix (drop j s) sub"
proof (induction s arbitrary: i j)
  case Nil
  then show ?case by simp
next
  case (Cons c s)
  then obtain j' where "j = Suc j'" by (cases j) auto
  with Cons show ?case
    by (auto split: if_splits option.splits dest: str_last_index_None)
qed

text \<open>\<open>strings.Split\<close> and \<open>strings.SplitAfter\<close> on a single-byte separator.\<close>

fun cons_head :: "'a \<Rightarrow> 'a list list \<Rightarrow> 'a list list" where
  "cons_head x [] = [[x]]"
| "cons_head x (p # ps) = (x # p) # ps"

fun split_on :: "'a \<Rightarrow> 'a list \<Rightarrow> 'a list list" where
  "split_on c [] = [[]]"
| "split_on c (x # xs) = (if x = c then [] # split_on c xs else cons_head x (split_on c xs))"

fun split_after :: "'a \<Rightarrow> 'a list \<Rightarrow> 'a list list" where
  "split_after c [] = [[]]"
| "split_after c (x # xs) = (if x = c then [x] # split_after c xs else cons_head x (split_after c xs))"

fun join_with :: "'a list \<Rightarrow> 'a list list \<Rightarrow> 'a list" where
  "join_with sep [] = []"
| "join_with sep [p] = p"
| "join_with sep (p # q # ps) = p @ sep @ join_with sep (q # ps)"

lemma concat_cons_head [simp]: "concat (cons_head x ps) = x # concat ps"
  by (cases ps) auto

lemma concat_split_after [simp]: "concat (split_after c s) = s"
  by (induction s) auto

lemma split_on_nonempty [simp]: "split_on c s \<noteq> []"
  by (induction s) (auto elim: cons_head.elims)

lemma join_Cons_Cons: "join_with sep ((x # p) # ps) = x # join_with sep (p # ps)"
  by (cases ps) auto

lemma join_cons_head: "ps \<noteq> [] \<Longrightarrow> join_with sep (cons_head x ps) = x # join_with sep ps"
  by (cases ps) (auto simp: join_Cons_Cons)

lemma join_split_on: "join_with [c] (split_on c s) = s"
proof (induction s)
  case (Cons x s)
  then show ?case
    by (cases "split_on c s") (auto simp: join_Cons_Cons)
qed simp

lemma set_join_with: "set (join_with sep ps) \<subseteq> set sep \<union> (\<Union>p \<in> set ps. set p)"
proof (induction ps)
  case (Cons p ps)
  then show ?case by (cases ps) auto
qed simp

lemma split_on_no_sep: "c \<notin> set s \<Longrightarrow> split_on c s = [s]"
  by (induction s) auto

lemma split_on_append: "c \<notin> set a \<Longrightarrow> split_on c (a @ c # b) = a # split_on c b"
  by (induction a) auto

lemma split_on_parts: "p \<in> set (split_on c s) \<Longrightarrow> c \<notin> set p \<and> set p \<subseteq> set s"
proof (induction s arbitrary: p)
  case (Cons x s)
  show ?case
  proof (cases "x = c")
    case True
    with Cons show ?thesis by fastforce
  next
    case False
    then obtain q qs where q: "split_on c s = q # qs"
      by (cases "split_on c s") auto
    with Cons.IH [of q] Cons.IH [of p] Cons.prems False show ?thesis
      by auto
  qed
qed simp

text \<open>
  \<open>strings.TrimRight\<close> with a cutset, and \<open>strings.TrimSpace\<close>: it strips the runes with the Unicode
  property \<open>White_Space\<close>, here as the strings of their bytes.
\<close>

definition trim_right_set :: "('a \<Rightarrow> bool) \<Rightarrow> 'a list \<Rightarrow> 'a list" where
  "trim_right_set P s = rev (dropWhile P (rev s))"

definition white_space :: "string list" where
  "white_space =
     map (\<lambda>c. [c]) [CHR 0x09, CHR 0x0A, CHR 0x0B, CHR 0x0C, CHR 0x0D, CHR 0x20]
     @ map (\<lambda>c. [CHR 0xC2, c]) [CHR 0x85, CHR 0xA0]
     @ map (\<lambda>c. [CHR 0xE2, CHR 0x80, c]) [CHR 0x80, CHR 0x81, CHR 0x82, CHR 0x83, CHR 0x84, CHR 0x85, CHR 0x86, CHR 0x87,
         CHR 0x88, CHR 0x89, CHR 0x8A, CHR 0xA8, CHR 0xA9, CHR 0xAF]
     @ [[CHR 0xE1, CHR 0x9A, CHR 0x80], [CHR 0xE2, CHR 0x81, CHR 0x9F], [CHR 0xE3, CHR 0x80, CHR 0x80]]"

function strip_any :: "string list \<Rightarrow> string \<Rightarrow> string" where
  "strip_any ws s =
     (case find (\<lambda>w. w \<noteq> [] \<and> has_prefix s w) ws of None \<Rightarrow> s | Some w \<Rightarrow> strip_any ws (drop (length w) s))"
  by pat_completeness auto
termination
proof (relation "measure (length \<circ> snd)")
  fix ws s w
  assume "find (\<lambda>w. w \<noteq> [] \<and> has_prefix s w) ws = Some w"
  then have "w \<noteq> [] \<and> has_prefix s w" by (auto simp: find_Some_iff)
  then have "w \<noteq> []" "s \<noteq> []" by (auto simp: has_prefix_def)
  then show "((ws, drop (length w) s), (ws, s)) \<in> measure (length \<circ> snd)" by simp
qed simp

declare strip_any.simps [simp del]

definition trim_space :: "string \<Rightarrow> string" where
  "trim_space s = rev (strip_any (map rev white_space) (rev (strip_any white_space s)))"

text \<open>A text that starts and ends with no white space.\<close>

definition trimmed :: "string \<Rightarrow> bool" where
  "trimmed s \<longleftrightarrow> (\<forall>w \<in> set white_space. \<not> has_prefix s w \<and> \<not> has_prefix (rev s) (rev w))"

lemma trim_right_no_tail: "(\<forall>c \<in> set s. \<not> P c) \<Longrightarrow> trim_right_set P s = s"
  by (cases s rule: rev_cases) (auto simp: trim_right_set_def)

lemma strip_any_id: "\<forall>w \<in> set ws. \<not> has_prefix s w \<Longrightarrow> strip_any ws s = s"
proof -
  assume "\<forall>w \<in> set ws. \<not> has_prefix s w"
  then have "find (\<lambda>w. w \<noteq> [] \<and> has_prefix s w) ws = None" by (auto simp: find_None_iff)
  then show ?thesis by (subst strip_any.simps) simp
qed

lemma trim_space_trimmed: "trimmed s \<Longrightarrow> trim_space s = s"
  by (simp add: trim_space_def trimmed_def strip_any_id)

lemma white_space_bytes:
  assumes "w \<in> set white_space"
  shows "w \<noteq> [] \<and> (is_space (hd w) \<or> 128 \<le> byte_of (hd w)) \<and> (is_space (last w) \<or> 128 \<le> byte_of (last w))"
proof -
  have "list_all (\<lambda>w. w \<noteq> [] \<and> (is_space (hd w) \<or> 128 \<le> byte_of (hd w))
      \<and> (is_space (last w) \<or> 128 \<le> byte_of (last w))) white_space"
    by code_simp
  with assms show ?thesis by (auto simp: list_all_iff)
qed

lemma trimmed_ascii:
  assumes "\<forall>c \<in> set s. \<not> is_space c \<and> byte_of c < 128" shows "trimmed s"
proof -
  have no: "\<not> has_prefix t w" if "w \<noteq> []" "is_space (hd w) \<or> 128 \<le> byte_of (hd w)" "set t \<subseteq> set s" for t w
    using that assms by (cases w; cases t) (auto simp: has_prefix_def)
  show ?thesis
    unfolding trimmed_def
  proof (intro ballI conjI)
    fix w assume w: "w \<in> set white_space"
    show "\<not> has_prefix s w" using white_space_bytes [OF w] by (intro no) auto
    show "\<not> has_prefix (rev s) (rev w)" using white_space_bytes [OF w] by (intro no) (auto simp: hd_rev)
  qed
qed

lemma trim_space_no_space: "(\<forall>c \<in> set s. \<not> is_space c \<and> byte_of c < 128) \<Longrightarrow> trim_space s = s"
  by (rule trim_space_trimmed [OF trimmed_ascii])

lemma trim_space_Nil [simp]: "trim_space [] = []"
  by (simp add: trim_space_no_space)

lemma trim_space_space:
  assumes "trimmed s" shows "trim_space (CHR '' '' # s) = s"
proof -
  have "find (\<lambda>w. w \<noteq> [] \<and> has_prefix (CHR '' '' # s) w) white_space = Some '' ''"
    by (simp add: white_space_def has_prefix_def)
  then have "strip_any white_space (CHR '' '' # s) = strip_any white_space s"
    by (subst strip_any.simps) simp
  with assms show ?thesis by (simp add: trim_space_def trimmed_def strip_any_id)
qed

text \<open>\<open>strings.Count(s, c)\<close> for a one-byte \<open>c\<close>.\<close>

abbreviation count_byte :: "string \<Rightarrow> char \<Rightarrow> nat" where
  "count_byte s c \<equiv> count_list s c"

section \<open>Numbers in strings\<close>

definition digit_val :: "char \<Rightarrow> nat" where
  "digit_val c = byte_of c - 48"

definition digit_char :: "nat \<Rightarrow> char" where
  "digit_char d = char_of (48 + d)"

definition digits_val :: "string \<Rightarrow> nat" where
  "digits_val s = foldl (\<lambda>n c. 10 * n + digit_val c) 0 s"

text \<open>\<open>strconv.ParseUint(s, 10, 32)\<close>: digits only, at least one, below \<open>2 ^ 32\<close>.\<close>

definition parse_uint32 :: "string \<Rightarrow> nat option" where
  "parse_uint32 s =
     (if s \<noteq> [] \<and> list_all is_digit s \<and> int (digits_val s) < 2 ^ 32 then Some (digits_val s) else None)"

text \<open>\<open>strconv.Atoi\<close>: an optional sign, at least one digit, in the range of a 64-bit \<open>int\<close>.\<close>

definition atoi :: "string \<Rightarrow> int option" where
  "atoi s =
     (let neg = has_prefix s ''-'';
          ds = (if has_prefix s ''-'' \<or> has_prefix s ''+'' then tl s else s);
          v = (if neg then - int (digits_val ds) else int (digits_val ds))
      in if ds \<noteq> [] \<and> list_all is_digit ds \<and> - (2 ^ 63) \<le> v \<and> v < 2 ^ 63 then Some v else None)"

fun itoa_nat :: "nat \<Rightarrow> string" where
  "itoa_nat n = (if n < 10 then [digit_char n] else itoa_nat (n div 10) @ [digit_char (n mod 10)])"

declare itoa_nat.simps [simp del]

text \<open>\<open>strconv.Itoa\<close>.\<close>

definition itoa :: "int \<Rightarrow> string" where
  "itoa i = (if i < 0 then CHR ''-'' # itoa_nat (nat (- i)) else itoa_nat (nat i))"

lemma byte_of_digit_char [simp]: "d < 10 \<Longrightarrow> byte_of (digit_char d) = 48 + d"
  unfolding digit_char_def by (rule byte_of_char_of) simp

lemma digit_char_props [simp]:
  assumes "d < 10"
  shows "is_digit (digit_char d)" "digit_val (digit_char d) = d"
  using assms by (simp_all add: is_digit_def digit_val_def)

lemma itoa_nat_nonempty [simp]: "itoa_nat n \<noteq> []"
  by (subst itoa_nat.simps) simp

lemma itoa_nat_digits: "list_all is_digit (itoa_nat n)"
proof (induction n rule: itoa_nat.induct)
  case (1 n)
  then show ?case
    by (cases "n < 10") (simp_all add: itoa_nat.simps [of n])
qed

lemma digits_val_snoc [simp]: "digits_val (s @ [c]) = 10 * digits_val s + digit_val c"
  by (simp add: digits_val_def)

lemma digits_val_itoa_nat [simp]: "digits_val (itoa_nat n) = n"
proof (induction n rule: itoa_nat.induct)
  case (1 n)
  show ?case
  proof (cases "n < 10")
    case True
    then show ?thesis
      by (simp add: itoa_nat.simps [of n] digits_val_def)
  next
    case False
    with "1.IH" show ?thesis
      by (simp add: itoa_nat.simps [of n])
  qed
qed

lemma itoa_nat_single: "n < 10 \<Longrightarrow> itoa_nat n = [digit_char n]"
  by (simp add: itoa_nat.simps [of n])

lemma digit_not_sign: "is_digit c \<Longrightarrow> c \<noteq> CHR ''-'' \<and> c \<noteq> CHR ''+''"
  by (auto simp: is_digit_def byte_of_def)

lemma atoi_digits:
  assumes "s \<noteq> []" "list_all is_digit s" "digits_val s < 2 ^ 63"
  shows "atoi s = Some (int (digits_val s))"
proof -
  obtain c t where s: "s = c # t" using assms(1) by (cases s) auto
  with assms(2) have "c \<noteq> CHR ''-''" "c \<noteq> CHR ''+''" by (auto dest: digit_not_sign)
  then have "\<not> has_prefix s ''-''" "\<not> has_prefix s ''+''"
    by (simp_all add: has_prefix_def s)
  moreover have "int (digits_val s) < 2 ^ 63"
    using assms(3) by simp
  ultimately show ?thesis
    using assms by (simp add: atoi_def Let_def)
qed

lemma atoi_itoa_nat: "n < 2 ^ 63 \<Longrightarrow> atoi (itoa_nat n) = Some (int n)"
  by (simp add: atoi_digits itoa_nat_digits)

section \<open>Quoting\<close>

text \<open>
  The \<open>%q\<close> verb (\<open>strconv.Quote\<close>) on ASCII: the quote, the backslash and the control
  characters are escaped; other bytes are copied.
\<close>

definition hex_digit :: "nat \<Rightarrow> char" where
  "hex_digit d = (if d < 10 then char_of (48 + d) else char_of (87 + d))"

definition quote_char :: "char \<Rightarrow> string" where
  "quote_char c =
     (let b = byte_of c in
      if b = 34 then [CHR 0x5C, CHR 0x22]
      else if b = 92 then [CHR 0x5C, CHR 0x5C]
      else if b = 7 then [CHR 0x5C, CHR ''a'']
      else if b = 8 then [CHR 0x5C, CHR ''b'']
      else if b = 12 then [CHR 0x5C, CHR ''f'']
      else if b = 10 then [CHR 0x5C, CHR ''n'']
      else if b = 13 then [CHR 0x5C, CHR ''r'']
      else if b = 9 then [CHR 0x5C, CHR ''t'']
      else if b = 11 then [CHR 0x5C, CHR ''v'']
      else if b < 32 \<or> b = 127 then [CHR 0x5C, CHR ''x'', hex_digit (b div 16), hex_digit (b mod 16)]
      else [c])"

definition quote :: "string \<Rightarrow> string" where
  "quote s = CHR 0x22 # concat (map quote_char s) @ [CHR 0x22]"

section \<open>Outcomes, binary search\<close>

text \<open>A call that panics, with the message it panics with, or returns.\<close>

datatype 'a outcome = Panic string | Ret 'a

fun obind :: "'a outcome \<Rightarrow> ('a \<Rightarrow> 'b outcome) \<Rightarrow> 'b outcome" where
  "obind (Panic e) f = Panic e"
| "obind (Ret x) f = f x"

lemma obind_eq_Ret: "obind r f = Ret y \<longleftrightarrow> (\<exists>x. r = Ret x \<and> f x = Ret y)"
  by (cases r) auto

lemma obind_assoc: "obind (obind r f) g = obind r (\<lambda>x. obind (f x) g)"
  by (cases r) auto

lemma fold_obind_Panic: "fold (\<lambda>x r. obind r (f x)) xs (Panic e) = Panic e"
  by (induction xs) auto

text \<open>\<open>sort.Search(n, f)\<close>: the binary search of the library, on the half-open range \<open>[i, j)\<close>.\<close>

function search_between :: "(nat \<Rightarrow> bool) \<Rightarrow> nat \<Rightarrow> nat \<Rightarrow> nat" where
  "search_between f i j =
     (if i < j then
        (let h = (i + j) div 2 in
         if f h then search_between f i h else search_between f (Suc h) j)
      else i)"
  by pat_completeness auto
termination
  by (relation "measure (\<lambda>(f, i, j). j - i)") auto

declare search_between.simps [simp del]

definition sort_search :: "nat \<Rightarrow> (nat \<Rightarrow> bool) \<Rightarrow> nat" where
  "sort_search n f = search_between f 0 n"

lemma search_between_correct:
  assumes "i \<le> j" "\<And>a b. a \<le> b \<Longrightarrow> b < n \<Longrightarrow> f a \<Longrightarrow> f b" "j \<le> n"
    "\<And>a. a < i \<Longrightarrow> \<not> f a" "\<And>a. j \<le> a \<Longrightarrow> a < n \<Longrightarrow> f a"
  shows "search_between f i j \<le> n \<and> (\<forall>a < search_between f i j. \<not> f a)
         \<and> (\<forall>a. search_between f i j \<le> a \<longrightarrow> a < n \<longrightarrow> f a)"
  using assms
proof (induction f i j rule: search_between.induct)
  case (1 f i j)
  show ?case
  proof (cases "i < j")
    case False
    then have "search_between f i j = i" by (simp add: search_between.simps [of f i j])
    with "1.prems" False show ?thesis by auto
  next
    case True
    define h where "h = (i + j) div 2"
    have h: "i \<le> h" "h < j" using True by (auto simp: h_def)
    show ?thesis
    proof (cases "f h")
      case fh: True
      have "search_between f i h \<le> n \<and> (\<forall>a < search_between f i h. \<not> f a)
         \<and> (\<forall>a. search_between f i h \<le> a \<longrightarrow> a < n \<longrightarrow> f a)"
        using "1.prems" h fh
        by (intro "1.IH"(1) [OF True h_def]) (auto intro: "1.prems"(2) [of h])
      with True fh show ?thesis
        by (simp add: search_between.simps [of f i j] flip: h_def)
    next
      case fh: False
      have "\<not> f a" if "a < Suc h" for a
        using "1.prems"(2) [of a h] "1.prems"(3) h fh that by auto
      then have "search_between f (Suc h) j \<le> n \<and> (\<forall>a < search_between f (Suc h) j. \<not> f a)
         \<and> (\<forall>a. search_between f (Suc h) j \<le> a \<longrightarrow> a < n \<longrightarrow> f a)"
        using "1.prems" h
        by (intro "1.IH"(2) [OF True h_def fh]) auto
      with True fh show ?thesis
        by (simp add: search_between.simps [of f i j] flip: h_def)
    qed
  qed
qed

lemma sort_search_correct:
  assumes "\<And>a b. a \<le> b \<Longrightarrow> b < n \<Longrightarrow> f a \<Longrightarrow> f b"
  shows "sort_search n f \<le> n" "a < sort_search n f \<Longrightarrow> \<not> f a"
    "sort_search n f \<le> a \<Longrightarrow> a < n \<Longrightarrow> f a"
  using search_between_correct [of 0 n n f] assms by (auto simp: sort_search_def)

section \<open>Deduplication\<close>

text \<open>
  The \<open>seen\<close>-map loop: keep the first element for each key. \<open>seen\<close> holds the keys met so far.
\<close>

fun dedup_on :: "('a \<Rightarrow> 'k) \<Rightarrow> 'k list \<Rightarrow> 'a list \<Rightarrow> 'a list" where
  "dedup_on f seen [] = []"
| "dedup_on f seen (x # xs) =
     (if f x \<in> set seen then dedup_on f seen xs else x # dedup_on f (f x # seen) xs)"

lemma dedup_on_keys: "f ` set (dedup_on f seen xs) = f ` set xs - set seen"
  by (induction f seen xs rule: dedup_on.induct) auto

lemma dedup_on_subset: "set (dedup_on f seen xs) \<subseteq> set xs"
  by (induction f seen xs rule: dedup_on.induct) auto

lemma dedup_on_distinct: "distinct (map f (dedup_on f seen xs))"
  by (induction f seen xs rule: dedup_on.induct) (auto simp: dedup_on_keys)

lemma dedup_on_cong: "set seen = set seen' \<Longrightarrow> dedup_on f seen xs = dedup_on f seen' xs"
  by (induction f seen xs arbitrary: seen' rule: dedup_on.induct) auto

lemma dedup_on_append:
  "dedup_on f seen (xs @ ys) = dedup_on f seen xs @ dedup_on f (map f xs @ seen) ys"
proof (induction f seen xs rule: dedup_on.induct)
  case (2 f seen x xs)
  have "dedup_on f (map f xs @ f x # seen) ys = dedup_on f (f x # map f xs @ seen) ys"
    "f x \<in> set seen \<Longrightarrow> dedup_on f (map f xs @ seen) ys = dedup_on f (f x # map f xs @ seen) ys"
    by (rule dedup_on_cong, auto)+
  with 2 show ?case by simp
qed simp

lemma dedup_on_id: "distinct (map f xs) \<Longrightarrow> f ` set xs \<inter> set seen = {} \<Longrightarrow> dedup_on f seen xs = xs"
  by (induction f seen xs rule: dedup_on.induct) auto

section \<open>Sorting\<close>

text \<open>
  A sort by a comparator that is a strict total order on a key is \<^const>\<open>sort_key\<close>: equal keys
  keep their order, as \<open>sort.SliceStable\<close> does.
\<close>

lemma sorted_take: "sorted xs \<Longrightarrow> sorted (take n xs)"
  by (rule sorted_wrt_take)

lemma set_take_sort_subset: "set (take n (sort_key f xs)) \<subseteq> set xs"
  using set_take_subset by fastforce

end
