(* ===== verification/Output.thy ===== *)
theory Output
  imports Go_Prelude
begin

text \<open>
  Package \<open>internal/output\<close>: the response envelope and its error entries (\<open>envelope.go\<close>), the
  renderer that switches between text and JSON (\<open>render.go\<close>) and the target-version helpers
  (\<open>version.go\<close>). A Go \<open>map[string]any\<close> literal is an association list in the order the source
  writes its keys; a nil pointer or slice is \<^const>\<open>None\<close> or the empty list.
\<close>

section \<open>Envelope\<close>

record position =
  line :: int
  column :: int
  byte_offset :: int

record range =
  range_start :: int
  range_end :: int

text \<open>\<open>Confidence\<close> is a float rounded to two decimals; the model keeps it in hundredths.\<close>

record suggestion =
  replacement :: string
  srange :: range
  confidence_pct :: nat
  reason :: string

datatype ctx_val = CStr string | CStrs "string list" | CInt int | CInts "int list"

type_synonym ctx = "(string \<times> ctx_val) list"

datatype severity = SevError | SevWarning | SevNotice | SevFatal | SevPanic | SevOther string

record error_entry =
  code :: string
  severity :: severity
  message :: string
  position :: "position option"
  category :: string
  econtext :: ctx
  suggestions :: "suggestion list"

datatype tier = TierUnset | TierZeroConfig | TierSchemaFile | TierConnected

datatype connection_status = ConnectionDisconnected | ConnectionConnected

record envelope =
  etier :: tier
  parser_version :: string
  target_version :: string
  econnection :: connection_status
  eerrors :: "error_entry list"
  edata :: "string option"

definition CodeTargetVersionMismatch :: string where
  "CodeTargetVersionMismatch = ''target_version_mismatch''"

definition CodeFeatureNotYetIntroduced :: string where
  "CodeFeatureNotYetIntroduced = ''feature_not_yet_introduced''"

definition CodeSafetyViolation :: string where
  "CodeSafetyViolation = ''safety_violation''"

definition CodeInputPreprocessed :: string where
  "CodeInputPreprocessed = ''input_preprocessed''"

text \<open>An entry with every optional field at its zero value.\<close>

definition plain_error :: "string \<Rightarrow> severity \<Rightarrow> string \<Rightarrow> error_entry" where
  "plain_error c s m =
     \<lparr>code = c, severity = s, message = m, position = None, category = [], econtext = [],
      suggestions = []\<rparr>"

lemma plain_error_sel [simp]:
  "code (plain_error c s m) = c" "severity (plain_error c s m) = s"
  "message (plain_error c s m) = m" "position (plain_error c s m) = None"
  "category (plain_error c s m) = []" "econtext (plain_error c s m) = []"
  "suggestions (plain_error c s m) = []"
  by (simp_all add: plain_error_def)

section \<open>Rendering\<close>

datatype format = FormatText | FormatJSON | FormatOther string

fun ParseFormat :: "string \<Rightarrow> string + format" where
  "ParseFormat s =
     (if s = ''text'' then Inr FormatText
      else if s = ''json'' then Inr FormatJSON
      else Inl (''invalid --output '' @ quote s @ '': valid choices are '' @ quote ''text'' @ '', ''
                @ quote ''json''))"

text \<open>
  What a call can fail with: a broken pipe, another error with its text, the sentinel that says
  the failure has already been rendered, or a joined pair.
\<close>

datatype go_error = EPIPE | Err string | ErrRendered | Joined go_error go_error

text \<open>\<open>errors.Is\<close> looks into a joined error.\<close>

fun errors_is :: "go_error \<Rightarrow> go_error \<Rightarrow> bool" where
  "errors_is (Joined a b) t \<longleftrightarrow> Joined a b = t \<or> errors_is a t \<or> errors_is b t"
| "errors_is e t \<longleftrightarrow> e = t"

fun suppressEPIPE :: "go_error option \<Rightarrow> go_error option" where
  "suppressEPIPE None = None"
| "suppressEPIPE (Some e) = (if errors_is e EPIPE then None else Some e)"

text \<open>
  The writer is the text written so far with the outcome of a \<open>Write\<close>; \<open>json.MarshalIndent\<close>
  on the envelope and the subcommand's \<open>textFn\<close> are arguments.
\<close>

type_synonym writer = "string \<Rightarrow> string \<Rightarrow> string \<times> go_error option"

definition Render ::
    "(envelope \<Rightarrow> string + string) \<Rightarrow> writer \<Rightarrow> format \<Rightarrow> (string \<Rightarrow> string \<times> go_error option) \<Rightarrow>
     envelope \<Rightarrow> string \<Rightarrow> string \<times> go_error option" where
  "Render marshal write fmt textFn env out =
     (case fmt of
        FormatJSON \<Rightarrow>
          (case marshal env of
             Inl e \<Rightarrow> (out, Some (Err (''marshal envelope: '' @ e)))
           | Inr buf \<Rightarrow> (case write (buf @ [newline]) out of (out', e) \<Rightarrow> (out', suppressEPIPE e)))
      | FormatText \<Rightarrow> (case textFn out of (out', e) \<Rightarrow> (out', suppressEPIPE e))
      | FormatOther f \<Rightarrow> (out, Some (Err (''unsupported output format '' @ quote f))))"

definition RenderErrorEntry ::
    "(envelope \<Rightarrow> string + string) \<Rightarrow> writer \<Rightarrow> format \<Rightarrow> envelope \<Rightarrow> go_error \<Rightarrow> error_entry \<Rightarrow>
     string \<Rightarrow> string \<times> go_error" where
  "RenderErrorEntry marshal write fmt env failure entry out =
     (if fmt \<noteq> FormatJSON then (out, failure)
      else
        (let env' = env\<lparr>eerrors := eerrors env @ [entry], edata := None\<rparr>
         in case Render marshal write fmt (\<lambda>w. (w, None)) env' out of
              (out', Some (Err e)) \<Rightarrow>
                (out', Joined failure (Err (''render error envelope: '' @ e)))
            | (out', Some e) \<Rightarrow> (out', Joined failure e)
            | (out', None) \<Rightarrow> (out', ErrRendered)))"

definition RenderError ::
    "(go_error \<Rightarrow> string) \<Rightarrow> (envelope \<Rightarrow> string + string) \<Rightarrow> writer \<Rightarrow> format \<Rightarrow> envelope \<Rightarrow>
     go_error \<Rightarrow> string \<Rightarrow> string \<times> go_error" where
  "RenderError error_text marshal write fmt env failure out =
     RenderErrorEntry marshal write fmt env failure
       (plain_error ''internal_error'' SevError (error_text failure)) out"

lemma suppressEPIPE_never: "suppressEPIPE e = Some e' \<Longrightarrow> \<not> errors_is e' EPIPE"
  by (cases e) (auto split: if_splits)

section \<open>Target versions\<close>

definition ValidateTargetVersion :: "string \<Rightarrow> string + string" where
  "ValidateTargetVersion s0 =
     (let s = trim_space s0 in
      if s = [] then Inl ''target version must not be empty''
      else
        (let canonical = trim_prefix s ''v'';
             parts = split_on CHR ''.'' canonical
         in if length parts < 2 \<or> length parts > 3
            then Inl (''target version '' @ quote s @ '' is not MAJOR.MINOR or MAJOR.MINOR.PATCH'')
            else
              (case find (\<lambda>p. p = [] \<or> parse_uint32 p = None) parts of
                 None \<Rightarrow> Inr canonical
               | Some p \<Rightarrow>
                   if p = [] then Inl (''target version '' @ quote s @ '' has an empty component'')
                   else Inl (''target version '' @ quote s @ '' has non-numeric component '' @ quote p))))"

definition majorMinor :: "string \<Rightarrow> string option" where
  "majorMinor v0 =
     (let v = trim_prefix v0 ''v''; parts = split_on CHR ''.'' v in
      if length parts < 2 then None
      else if parse_uint32 (parts ! 0) = None then None
      else if parse_uint32 (parts ! 1) = None then None
      else Some (parts ! 0 @ ''.'' @ parts ! 1))"

definition VersionMismatchWarning :: "string \<Rightarrow> string \<Rightarrow> error_entry option" where
  "VersionMismatchWarning parserVersion targetVersion =
     (case majorMinor parserVersion of
        None \<Rightarrow> None
      | Some p \<Rightarrow>
          (case majorMinor targetVersion of
             None \<Rightarrow> None
           | Some t \<Rightarrow>
               if p = t then None
               else Some (plain_error CodeTargetVersionMismatch SevWarning
                      (''parser is v'' @ p @ '' but target is v'' @ t @ '' '' @
                       [CHR 0xE2, CHR 0x80, CHR 0x94] @ '' results may differ''))))"

lemma parse_uint32_Nil [simp]: "parse_uint32 [] = None"
  by (simp add: parse_uint32_def)

lemma parse_uint32_digits: "parse_uint32 p = Some n \<Longrightarrow> p \<noteq> [] \<and> list_all is_digit p \<and> digits_val p = n \<and> n < 2 ^ 32"
  by (auto simp: parse_uint32_def split: if_splits)

lemma digit_not_v: "is_digit c \<Longrightarrow> c \<noteq> CHR ''v''"
  by (auto simp: is_digit_def byte_of_def)

lemma digit_not_dot: "is_digit c \<Longrightarrow> c \<noteq> CHR ''.''"
  by (auto simp: is_digit_def byte_of_def)

lemma digit_not_space: "is_digit c \<Longrightarrow> \<not> is_space c \<and> byte_of c < 128"
  by (auto simp: is_digit_def is_space_def byte_of_def)

lemma ValidateTargetVersion_Inr:
  assumes "ValidateTargetVersion s = Inr c"
  shows "c = trim_prefix (trim_space s) ''v''"
    and "length (split_on CHR ''.'' c) \<in> {2, 3}"
    and "\<forall>p \<in> set (split_on CHR ''.'' c). parse_uint32 p \<noteq> None"
proof -
  from assms show c: "c = trim_prefix (trim_space s) ''v''"
    by (auto simp: ValidateTargetVersion_def Let_def split: if_splits option.splits)
  from assms show "length (split_on CHR ''.'' c) \<in> {2, 3}"
    by (auto simp: ValidateTargetVersion_def Let_def split: if_splits option.splits)
  from assms show "\<forall>p \<in> set (split_on CHR ''.'' c). parse_uint32 p \<noteq> None"
    by (fastforce simp: ValidateTargetVersion_def Let_def find_None_iff
        split: if_splits option.splits)
qed

lemma canonical_chars:
  assumes "\<forall>p \<in> set (split_on CHR ''.'' c). parse_uint32 p \<noteq> None" "x \<in> set c"
  shows "is_digit x \<or> x = CHR ''.''"
proof -
  have "x \<in> set (join_with [CHR ''.''] (split_on CHR ''.'' c))"
    using assms(2) by (simp add: join_split_on)
  then have "x = CHR ''.'' \<or> (\<exists>p \<in> set (split_on CHR ''.'' c). x \<in> set p)"
    by (auto dest: set_join_with [THEN subsetD])
  with assms(1) show ?thesis
    by (fastforce simp: parse_uint32_def list_all_iff split: if_splits)
qed

lemma ValidateTargetVersion_fixed:
  assumes "length (split_on CHR ''.'' c) \<in> {2, 3}"
    and parts: "\<forall>p \<in> set (split_on CHR ''.'' c). parse_uint32 p \<noteq> None"
  shows "ValidateTargetVersion c = Inr c"
proof -
  have "\<not> is_space CHR ''.'' \<and> byte_of CHR ''.'' < 128" by (simp add: is_space_def byte_of_def)
  then have "\<forall>x \<in> set c. \<not> is_space x \<and> byte_of x < 128"
    using canonical_chars [OF parts] digit_not_space by blast
  then have ts: "trim_space c = c" by (rule trim_space_no_space)
  have "c \<noteq> []" using parts by (auto simp: parse_uint32_def split: if_splits)
  then obtain x t where c: "c = x # t" by (cases c) auto
  have "x \<noteq> CHR ''v''"
    using canonical_chars [OF parts, of x] by (auto dest: digit_not_v simp: c)
  then have tp: "trim_prefix c ''v'' = c"
    by (simp add: trim_prefix_def has_prefix_def c)
  have "find (\<lambda>p. p = [] \<or> parse_uint32 p = None) (split_on CHR ''.'' c) = None"
    using parts by (force simp: find_None_iff)
  with assms(1) \<open>c \<noteq> []\<close> show ?thesis
    by (auto simp: ValidateTargetVersion_def Let_def ts tp)
qed

lemma majorMinor_canonical:
  assumes "length (split_on CHR ''.'' c) \<in> {2, 3}"
    and parts: "\<forall>p \<in> set (split_on CHR ''.'' c). parse_uint32 p \<noteq> None"
  shows "majorMinor c = Some (split_on CHR ''.'' c ! 0 @ ''.'' @ split_on CHR ''.'' c ! 1)"
proof -
  have "c \<noteq> []" using parts by (auto simp: parse_uint32_def split: if_splits)
  then obtain x t where c: "c = x # t" by (cases c) auto
  have "x \<noteq> CHR ''v''"
    using canonical_chars [OF parts, of x] by (auto dest: digit_not_v simp: c)
  then have tp: "trim_prefix c ''v'' = c"
    by (simp add: trim_prefix_def has_prefix_def c)
  have "split_on CHR ''.'' c ! 0 \<in> set (split_on CHR ''.'' c)"
       "split_on CHR ''.'' c ! 1 \<in> set (split_on CHR ''.'' c)"
    using assms(1) by (auto intro!: nth_mem)
  with parts assms(1) show ?thesis
    by (auto simp: majorMinor_def Let_def tp)
qed

end
