(* ===== verification/Diag_Position.thy ===== *)
theory Diag_Position
  imports Output
begin

text \<open>
  \<open>internal/diag/position.go\<close>: source positions of errors. A position pairs a 0-based byte offset
  with a 1-based line and column; \<open>ExtractPosition\<close> recovers it from the caret rendering of the
  parser's detail text, \<open>CharIndexToByteOffset\<close> from a character index, \<open>AdjustPosition\<close> moves it
  through an offset map. The locale \<open>offset_map\<close> is the contract \<open>AdjustPosition\<close> expects of its
  \<open>translate\<close> argument; the prompt stripper provides it.
\<close>

section \<open>Lines and columns\<close>

definition lineColumn :: "string \<Rightarrow> nat \<Rightarrow> int \<times> int" where
  "lineColumn sql byteOffset0 =
     (let byteOffset = (if byteOffset0 > length sql then length sql else byteOffset0);
          prefix = take byteOffset sql;
          line = int (count_byte prefix newline) + 1
      in case str_last_index prefix [newline] of
           None \<Rightarrow> (line, int byteOffset + 1)
         | Some lastNL \<Rightarrow> (line, int byteOffset - int lastNL))"

definition PositionFromByteOffset :: "string \<Rightarrow> int \<Rightarrow> position option" where
  "PositionFromByteOffset fullSQL byteOffset =
     (if byteOffset < 0 then None
      else case lineColumn fullSQL (nat byteOffset) of
             (l, c) \<Rightarrow> Some \<lparr>line = l, column = c, byte_offset = byteOffset\<rparr>)"

definition detailPrefix :: string where
  "detailPrefix = ''source SQL:'' @ [newline]"

definition caretColumn :: "string \<Rightarrow> nat option" where
  "caretColumn s = str_index s ''^''"

definition ExtractPosition :: "string \<Rightarrow> string \<Rightarrow> position option" where
  "ExtractPosition detail fullSQL =
     (if \<not> has_prefix detail detailPrefix then None
      else
        (let body = drop (length detailPrefix) detail in
         case str_last_index body [newline] of
           None \<Rightarrow> None
         | Some lastNL \<Rightarrow>
             (let caretLine = drop (lastNL + 1) body; stmtFragment = take lastNL body in
              case caretColumn caretLine of
                None \<Rightarrow> None
              | Some caretCol \<Rightarrow>
                  (let stmtByteOffset =
                         (case str_last_index stmtFragment [newline] of
                            None \<Rightarrow> caretCol
                          | Some lastStmtNL \<Rightarrow> lastStmtNL + 1 + caretCol)
                   in case str_last_index fullSQL stmtFragment of
                        None \<Rightarrow> None
                      | Some stmtOffset \<Rightarrow>
                          (let fullByteOffset = stmtOffset + stmtByteOffset in
                           case lineColumn fullSQL fullByteOffset of
                             (l, c) \<Rightarrow>
                               Some \<lparr>line = l, column = c, byte_offset = int fullByteOffset\<rparr>)))))"

definition AdjustPosition :: "position option \<Rightarrow> string \<Rightarrow> (int \<Rightarrow> int) \<Rightarrow> position option outcome" where
  "AdjustPosition pos originalSQL translate =
     (case pos of
        None \<Rightarrow> Ret None
      | Some p \<Rightarrow>
          (let origOffset = translate (byte_offset p) in
           if origOffset < 0 then Panic ''slice bounds out of range''
           else case lineColumn originalSQL (nat origOffset) of
                  (l, c) \<Rightarrow> Ret (Some \<lparr>line = l, column = c, byte_offset = origOffset\<rparr>)))"

text \<open>
  The reference for lines and columns: line \<open>l\<close> is the \<open>l\<close>-th piece of the text split at newlines,
  and column \<open>c\<close> of it starts at this offset.
\<close>

definition line_start :: "string list \<Rightarrow> nat \<Rightarrow> nat" where
  "line_start ls n = sum_list (map (\<lambda>l. length l + 1) (take n ls))"

lemma line_start_Cons: "line_start (l # ls) (Suc n) = length l + 1 + line_start ls n"
  by (simp add: line_start_def)

lemma line_start_0 [simp]: "line_start ls 0 = 0"
  by (simp add: line_start_def)

text \<open>\<open>lineColumn\<close> by recursion on the text: the form the proofs use.\<close>

fun line_col :: "string \<Rightarrow> nat \<Rightarrow> nat \<times> nat" where
  "line_col [] n = (1, 1)"
| "line_col (x # xs) 0 = (1, 1)"
| "line_col (x # xs) (Suc n) =
     (case line_col xs n of (l, c) \<Rightarrow> if x = newline then (Suc l, c) else if l = 1 then (1, Suc c) else (l, c))"

lemma str_last_index_single_None: "str_last_index s [c] = None \<longleftrightarrow> c \<notin> set s"
  by (induction s) (auto simp: has_prefix_def split: option.splits)

lemma line_col_fst: "fst (line_col s n) = Suc (count_list (take n s) newline)"
  by (induction s n rule: line_col.induct) (auto split: prod.splits)

lemma line_col_snd:
  "snd (line_col s n) =
     (case str_last_index (take n s) [newline] of
        None \<Rightarrow> Suc (min n (length s)) | Some i \<Rightarrow> min n (length s) - i)"
proof (induction s n rule: line_col.induct)
  case (3 x xs n)
  obtain l c where lc: "line_col xs n = (l, c)" by (cases "line_col xs n")
  have l: "l = Suc (count_list (take n xs) newline)"
    using line_col_fst [of xs n] lc by simp
  show ?case
  proof (cases "str_last_index (take n xs) [newline]")
    case None
    then have "newline \<notin> set (take n xs)" by (simp add: str_last_index_single_None)
    then have "l = 1" using l by (simp add: count_list_0_iff)
    with None 3 lc show ?thesis by (auto simp: has_prefix_def)
  next
    case (Some i)
    then have "newline \<in> set (take n xs)"
      by (metis option.distinct(1) str_last_index_single_None)
    then have "l \<noteq> 1" using l by (simp add: count_list_0_iff)
    with Some 3 lc show ?thesis by auto
  qed
qed auto

lemma lineColumn_line_col:
  "lineColumn sql n = (int (fst (line_col sql n)), int (snd (line_col sql n)))"
proof -
  let ?n = "min n (length sql)"
  have t: "take (if n > length sql then length sql else n) sql = take n sql" by simp
  have t2: "take ?n sql = take n sql" by (simp add: min_def)
  have m: "(if n > length sql then length sql else n) = ?n" by (simp add: min_def)
  show ?thesis
  proof (cases "str_last_index (take n sql) [newline]")
    case None
    then show ?thesis
      by (simp add: lineColumn_def Let_def t t2 m line_col_fst line_col_snd)
  next
    case (Some i)
    then have "i \<le> ?n" using str_last_index_Some [OF Some] by (simp add: min.commute)
    with Some show ?thesis
      by (simp add: lineColumn_def Let_def t t2 m line_col_fst line_col_snd)
  qed
qed

lemma line_col_bounds:
  assumes "n \<le> length s"
  shows "case line_col s n of (l, c) \<Rightarrow>
     1 \<le> l \<and> l \<le> length (split_on newline s) \<and> 1 \<le> c
     \<and> n = line_start (split_on newline s) (l - 1) + (c - 1)
     \<and> c - 1 \<le> length (split_on newline s ! (l - 1))"
  using assms
proof (induction s n rule: line_col.induct)
  case (2 x xs)
  then show ?case
    using split_on_nonempty [of newline "x # xs"]
    by (simp del: split_on.simps split_on_nonempty add: Suc_le_eq)
next
  case (3 x xs n)
  obtain l c where lc: "line_col xs n = (l, c)" by (cases "line_col xs n")
  obtain p ps where ps: "split_on newline xs = p # ps" by (cases "split_on newline xs") auto
  from 3 lc have IH: "1 \<le> l" "l \<le> Suc (length ps)" "1 \<le> c"
    "n = line_start (p # ps) (l - 1) + (c - 1)" "c - 1 \<le> length ((p # ps) ! (l - 1))"
    by (auto simp: ps)
  show ?case
  proof (cases "x = newline")
    case True
    then have eq: "line_col (x # xs) (Suc n) = (Suc l, c)" using lc by simp
    obtain m where "l = Suc m" using IH(1) by (cases l) auto
    with IH True show ?thesis unfolding eq by (simp add: ps line_start_Cons)
  next
    case False
    show ?thesis
    proof (cases "l = 1")
      case True
      then have eq: "line_col (x # xs) (Suc n) = (1, Suc c)" using lc False by simp
      from IH True False show ?thesis unfolding eq by (simp add: ps)
    next
      case l: False
      then have eq: "line_col (x # xs) (Suc n) = (l, c)" using lc False by simp
      from l obtain m where "l = Suc (Suc m)" using IH(1) by (cases l; cases "l - 1") auto
      with IH False show ?thesis unfolding eq by (simp add: ps line_start_Cons)
    qed
  qed
qed auto

text \<open>
  A position produced from an offset inside the text points at that offset: the line's start plus
  the column gives the offset back, and the column lies in the line.
\<close>

definition points_at :: "string \<Rightarrow> position \<Rightarrow> bool" where
  "points_at sql p \<longleftrightarrow>
     (let ls = split_on newline sql; l = nat (line p); c = nat (column p) in
      1 \<le> line p \<and> l \<le> length ls \<and> 1 \<le> column p \<and> c - 1 \<le> length (ls ! (l - 1))
      \<and> byte_offset p = int (line_start ls (l - 1) + (c - 1)))"

lemma lineColumn_points_at:
  assumes "n \<le> length sql" "lineColumn sql n = (l, c)"
  shows "points_at sql \<lparr>line = l, column = c, byte_offset = int n\<rparr>"
proof -
  obtain l' c' where lc: "line_col sql n = (l', c')" by (cases "line_col sql n")
  with assms(2) have "l = int l'" "c = int c'" by (simp_all add: lineColumn_line_col)
  with line_col_bounds [OF assms(1)] lc show ?thesis
    by (auto simp: points_at_def Let_def)
qed

lemma PositionFromByteOffset_points_at:
  "PositionFromByteOffset sql k = Some p \<Longrightarrow> k \<le> int (length sql) \<Longrightarrow> points_at sql p \<and> byte_offset p = k"
  using lineColumn_points_at [of "nat k" sql]
  by (auto simp: PositionFromByteOffset_def split: if_splits prod.splits)

section \<open>Character indexes\<close>

definition is_cont :: "char \<Rightarrow> bool" where
  "is_cont c \<longleftrightarrow> 128 \<le> byte_of c \<and> byte_of c \<le> 191"

text \<open>
  Bytes of the rune that starts a non-empty text, by UTF-8 as \<open>for i := range sql\<close> decodes it:
  an invalid or truncated sequence is one byte wide.
\<close>

definition second_ok :: "nat \<Rightarrow> char \<Rightarrow> bool" where
  "second_ok b0 c =
     (let b = byte_of c in
      if b0 = 224 then 160 \<le> b \<and> b \<le> 191
      else if b0 = 237 then 128 \<le> b \<and> b \<le> 159
      else if b0 = 240 then 144 \<le> b \<and> b \<le> 191
      else if b0 = 244 then 128 \<le> b \<and> b \<le> 143
      else 128 \<le> b \<and> b \<le> 191)"

definition rune_width :: "string \<Rightarrow> nat" where
  "rune_width s =
     (case s of
        [] \<Rightarrow> 0
      | c # r \<Rightarrow>
          (let b0 = byte_of c in
           if 194 \<le> b0 \<and> b0 \<le> 223 then (case r of c1 # _ \<Rightarrow> if second_ok b0 c1 then 2 else 1 | _ \<Rightarrow> 1)
           else if 224 \<le> b0 \<and> b0 \<le> 239 then
             (case r of c1 # c2 # _ \<Rightarrow> if second_ok b0 c1 \<and> is_cont c2 then 3 else 1 | _ \<Rightarrow> 1)
           else if 240 \<le> b0 \<and> b0 \<le> 244 then
             (case r of c1 # c2 # c3 # _ \<Rightarrow>
                if second_ok b0 c1 \<and> is_cont c2 \<and> is_cont c3 then 4 else 1 | _ \<Rightarrow> 1)
           else 1))"

lemma rune_width_bounds: "s \<noteq> [] \<Longrightarrow> 1 \<le> rune_width s \<and> rune_width s \<le> length s"
  by (auto simp: rune_width_def Let_def split: list.splits)

function runes :: "string \<Rightarrow> string list" where
  "runes s = (if s = [] then [] else take (rune_width s) s # runes (drop (rune_width s) s))"
  by pat_completeness auto
termination
  by (relation "measure length") (auto dest: rune_width_bounds)

declare runes.simps [simp del]

function rune_scan :: "string \<Rightarrow> nat \<Rightarrow> int \<Rightarrow> int \<Rightarrow> nat" where
  "rune_scan s i count charIdx =
     (if s = [] then i
      else if count = charIdx then i
      else rune_scan (drop (rune_width s) s) (i + rune_width s) (count + 1) charIdx)"
  by pat_completeness auto
termination
  by (relation "measure (\<lambda>(s, i, count, charIdx). length s)") (auto dest: rune_width_bounds)

declare rune_scan.simps [simp del]

definition CharIndexToByteOffset :: "string \<Rightarrow> int \<Rightarrow> nat" where
  "CharIndexToByteOffset sql charIdx = (if charIdx \<le> 0 then 0 else rune_scan sql 0 0 charIdx)"

lemma runes_Nil [simp]: "runes [] = []"
  by (subst runes.simps) simp

lemma concat_runes [simp]: "concat (runes s) = s"
proof (induction s rule: runes.induct)
  case (1 s)
  then show ?case by (cases "s = []") (auto simp: runes.simps [of s])
qed

lemma rune_scan_runes:
  "count \<le> charIdx \<Longrightarrow>
   rune_scan s i count charIdx = i + length (concat (take (nat (charIdx - count)) (runes s)))"
proof (induction s i count charIdx rule: rune_scan.induct)
  case (1 s i count charIdx)
  show ?case
  proof (cases "s = [] \<or> count = charIdx")
    case True
    then show ?thesis by (auto simp: rune_scan.simps [of s] runes.simps [of s])
  next
    case False
    then have d: "nat (charIdx - count) = Suc (nat (charIdx - (count + 1)))"
      using "1.prems" by auto
    have w: "rune_width s \<le> length s" using rune_width_bounds False by auto
    from False "1.prems" have "rune_scan (drop (rune_width s) s) (i + rune_width s) (count + 1) charIdx
      = i + rune_width s + length (concat (take (nat (charIdx - (count + 1))) (runes (drop (rune_width s) s))))"
      by (intro "1.IH") auto
    with False w show ?thesis
      by (simp add: rune_scan.simps [of s] runes.simps [of s] d)
  qed
qed

lemma CharIndexToByteOffset_runes:
  "CharIndexToByteOffset sql k = length (concat (take (nat k) (runes sql)))"
  using rune_scan_runes [of 0 k sql 0] by (simp add: CharIndexToByteOffset_def)

lemma CharIndexToByteOffset_le: "CharIndexToByteOffset sql k \<le> length sql"
proof -
  have "concat (take (nat k) (runes sql)) @ concat (drop (nat k) (runes sql)) = sql"
    by (simp flip: concat_append)
  then have "length (concat (take (nat k) (runes sql))) + length (concat (drop (nat k) (runes sql)))
      = length sql"
    by (metis length_append)
  then show ?thesis by (simp add: CharIndexToByteOffset_runes)
qed

section \<open>Offset maps\<close>

text \<open>
  What \<open>AdjustPosition\<close> relies on in its \<open>translate\<close> argument: offsets of the stripped text go to
  offsets of the original that hold the same byte, in order, and offsets outside clamp.
\<close>

locale offset_map =
  fixes translate :: "int \<Rightarrow> int" and stripped original :: string
  assumes translate_byte: "k < length stripped \<Longrightarrow>
      0 \<le> translate (int k) \<and> nat (translate (int k)) < length original
      \<and> original ! nat (translate (int k)) = stripped ! k"
    and translate_end: "int (length stripped) \<le> i \<Longrightarrow> translate i = int (length original)"
    and translate_neg: "i < 0 \<Longrightarrow> translate i = translate 0"
    and translate_mono: "0 \<le> i \<Longrightarrow> i < j \<Longrightarrow> j < int (length stripped) \<Longrightarrow> translate i < translate j"
begin

lemma translate_bounds: "0 \<le> translate i \<and> translate i \<le> int (length original)"
proof -
  have "0 \<le> translate i \<and> translate i \<le> int (length original)" if "0 \<le> i" for i
    using that translate_byte [of "nat i"] translate_end [of i]
    by (cases "i < int (length stripped)") (auto simp: nat_less_iff)
  then show ?thesis using translate_neg [of i] by (cases "i < 0") auto
qed

lemma translate_nonneg [simp]: "\<not> translate i < 0"
  using translate_bounds [of i] by simp

lemma adjust_returns: "\<exists>q. AdjustPosition pos original translate = Ret q"
  by (cases pos) (auto simp: AdjustPosition_def Let_def split: prod.splits)

lemma adjust_points_at:
  assumes "AdjustPosition (Some p) original translate = Ret (Some q)"
  shows "points_at original q \<and> byte_offset q = translate (byte_offset p)"
  using assms lineColumn_points_at [of "nat (translate (byte_offset p))" original]
    translate_bounds [of "byte_offset p"]
  by (auto simp: AdjustPosition_def Let_def split: if_splits prod.splits)

lemma adjust_same_byte:
  assumes "AdjustPosition (Some p) original translate = Ret (Some q)"
    "0 \<le> byte_offset p" "byte_offset p < int (length stripped)"
  shows "original ! nat (byte_offset q) = stripped ! nat (byte_offset p)"
  using adjust_points_at [OF assms(1)] translate_byte [of "nat (byte_offset p)"] assms(2,3) by auto

lemma adjust_none: "AdjustPosition None original translate = Ret None"
  by (simp add: AdjustPosition_def)

end

section \<open>Properties\<close>

lemma str_last_index_append:
  "c \<notin> set b \<Longrightarrow> str_last_index (a @ c # b) [c] = Some (length a)"
proof (induction a)
  case Nil
  then have "str_last_index b [c] = None" by (simp add: str_last_index_single_None)
  then show ?case by (simp add: has_prefix_def)
qed simp

lemma last_split_on:
  "last (split_on c s) = (case str_last_index s [c] of None \<Rightarrow> s | Some j \<Rightarrow> drop (Suc j) s)"
proof (induction s)
  case (Cons x s)
  show ?case
  proof (cases "c \<in> set s")
    case False
    then have "str_last_index s [c] = None" by (simp add: str_last_index_single_None)
    with False show ?thesis by (simp add: split_on_no_sep has_prefix_def)
  next
    case True
    then obtain j where j: "str_last_index s [c] = Some j"
      by (cases "str_last_index s [c]") (auto simp: str_last_index_single_None)
    obtain q qs where q: "split_on c s = q # qs" by (cases "split_on c s") auto
    have "qs \<noteq> []"
      using True split_on_parts [of q c s] join_split_on [of c s] by (auto simp: q)
    with j q Cons show ?thesis by simp
  qed
qed simp

definition last_line_start :: "string \<Rightarrow> nat" where
  "last_line_start s = length s - length (last (split_on newline s))"

lemma last_line_start_index:
  "last_line_start s = (case str_last_index s [newline] of None \<Rightarrow> 0 | Some j \<Rightarrow> Suc j)"
  using str_last_index_Some [of s "[newline]"]
  by (auto simp: last_line_start_def last_split_on split: option.splits)

lemma str_index_caret: "str_index (replicate k CHR '' '' @ ''^'') ''^'' = Some k"
  by (induction k) (simp_all add: has_prefix_def)

text \<open>on the caret rendering the parser writes (prefix, statement fragment, newline, \<open>k\<close> blanks and
  a caret), \<open>ExtractPosition\<close> returns the offset \<open>k\<close> bytes into the last line of the fragment's last
  occurrence in the full input, and its line and column point at that offset.\<close>

theorem ExtractPosition_caret:
  assumes "str_last_index fullSQL frag = Some i"
    and "i + last_line_start frag + k \<le> length fullSQL"
  shows "\<exists>p. ExtractPosition (detailPrefix @ frag @ [newline] @ replicate k CHR '' '' @ ''^'') fullSQL = Some p
     \<and> byte_offset p = int (i + last_line_start frag + k) \<and> points_at fullSQL p"
proof -
  let ?caret = "replicate k CHR '' '' @ ''^''"
  let ?off = "i + last_line_start frag + k"
  obtain l c where lc: "lineColumn fullSQL ?off = (l, c)" by (cases "lineColumn fullSQL ?off")
  have "newline \<notin> set ?caret" by (auto simp: newline_def)
  then have nl: "str_last_index (frag @ newline # ?caret) [newline] = Some (length frag)"
    by (rule str_last_index_append)
  have off: "i + (case str_last_index frag [newline] of None \<Rightarrow> k | Some j \<Rightarrow> j + 1 + k) = ?off"
    by (simp add: last_line_start_index split: option.splits)
  have "ExtractPosition (detailPrefix @ frag @ newline # ?caret) fullSQL
     = Some \<lparr>line = l, column = c, byte_offset = int ?off\<rparr>"
    using nl off lc by (simp add: ExtractPosition_def caretColumn_def str_index_caret assms(1) Let_def add.assoc)
  with lineColumn_points_at [OF assms(2) lc] show ?thesis by simp
qed

theorem ExtractPosition_caret_witness:
  "\<exists>p. ExtractPosition (detailPrefix @ ''SELECT FORM'' @ [newline] @ replicate 7 CHR '' '' @ ''^'')
          ''SELECT FORM'' = Some p
     \<and> byte_offset p = int (0 + last_line_start ''SELECT FORM'' + 7) \<and> points_at ''SELECT FORM'' p"
proof (rule ExtractPosition_caret)
  show "str_last_index ''SELECT FORM'' ''SELECT FORM'' = Some 0" by code_simp
  show "0 + last_line_start ''SELECT FORM'' + 7 \<le> length ''SELECT FORM''" by code_simp
qed

text \<open>\<open>CharIndexToByteOffset\<close> is the total width of the first \<open>charIdx\<close> characters, the input being
  the concatenation of its characters; a negative index gives 0 and an index past the end gives the
  length.\<close>

theorem CharIndexToByteOffset_spec:
  "CharIndexToByteOffset sql charIdx = length (concat (take (nat charIdx) (runes sql)))
   \<and> concat (runes sql) = sql
   \<and> (charIdx \<le> 0 \<longrightarrow> CharIndexToByteOffset sql charIdx = 0)
   \<and> (int (length (runes sql)) \<le> charIdx \<longrightarrow> CharIndexToByteOffset sql charIdx = length sql)"
  by (auto simp: CharIndexToByteOffset_runes nat_le_iff le_nat_iff
      simp flip: int_nat_eq intro: take_all [THEN arg_cong, of _ _ "\<lambda>x. length (concat x)", THEN trans])

theorem CharIndexToByteOffset_spec_witness:
  "CharIndexToByteOffset (CHR 0xC3 # CHR 0xA9 # ''x y'') 2 = 3"
proof -
  have "CharIndexToByteOffset (CHR 0xC3 # CHR 0xA9 # ''x y'') 2
      = length (concat (take (nat 2) (runes (CHR 0xC3 # CHR 0xA9 # ''x y''))))"
    using CharIndexToByteOffset_spec [of "CHR 0xC3 # CHR 0xA9 # ''x y''" 2] by blast
  also have "\<dots> = 3" by code_simp
  finally show ?thesis .
qed

end
