(* ===== verification/Edit_Distance.thy ===== *)
theory Edit_Distance
  imports Go_Prelude
begin

text \<open>
  The two edit distances of \<open>internal/diag\<close>: \<open>levenshtein\<close> (\<open>suggest.go\<close>, two rolling rows) and
  \<open>damerauLevenshtein\<close> (\<open>keywords.go\<close>, three rolling rows, the optimal-string-alignment variant),
  their recursive references \<open>ed\<close> and \<open>osa\<close>, and the minimality of the first over sequences of
  single edits. The locale \<open>edit_metric\<close> states what the suggestion ranking needs of a distance.
\<close>

section \<open>The row-based implementations\<close>

definition lev_cell :: "'a \<Rightarrow> 'a list \<Rightarrow> nat list \<Rightarrow> nat list \<Rightarrow> nat \<Rightarrow> nat" where
  "lev_cell x b prev cur j =
     min (min (prev ! j + 1) (cur ! (j - 1) + 1))
         (prev ! (j - 1) + (if x = b ! (j - 1) then 0 else 1))"

definition lev_row :: "'a \<Rightarrow> 'a list \<Rightarrow> nat list \<Rightarrow> nat \<Rightarrow> nat list" where
  "lev_row x b prev i =
     foldl (\<lambda>cur j. cur @ [lev_cell x b prev cur j]) [i] [1..<Suc (length b)]"

definition levenshtein :: "'a list \<Rightarrow> 'a list \<Rightarrow> nat" where
  "levenshtein a b =
     (if a = b then 0
      else if a = [] then length b
      else if b = [] then length a
      else foldl (\<lambda>prev i. lev_row (a ! (i - 1)) b prev i) [0..<Suc (length b)] [1..<Suc (length a)]
             ! length b)"

definition osa_cell :: "'a list \<Rightarrow> 'a list \<Rightarrow> nat list \<Rightarrow> nat list \<Rightarrow> nat list \<Rightarrow> nat \<Rightarrow> nat \<Rightarrow> nat" where
  "osa_cell a b prevPrev prev cur i j =
     (let best = lev_cell (a ! (i - 1)) b prev cur j in
      if i \<ge> 2 \<and> j \<ge> 2 \<and> a ! (i - 1) = b ! (j - 2) \<and> a ! (i - 2) = b ! (j - 1)
      then (let t = prevPrev ! (j - 2) + 1 in if t < best then t else best)
      else best)"

definition osa_row :: "'a list \<Rightarrow> 'a list \<Rightarrow> nat list \<Rightarrow> nat list \<Rightarrow> nat \<Rightarrow> nat list" where
  "osa_row a b prevPrev prev i =
     foldl (\<lambda>cur j. cur @ [osa_cell a b prevPrev prev cur i j]) [i] [1..<Suc (length b)]"

definition damerauLevenshtein :: "'a list \<Rightarrow> 'a list \<Rightarrow> nat" where
  "damerauLevenshtein a b =
     (if a = b then 0
      else if a = [] then length b
      else if b = [] then length a
      else snd (foldl (\<lambda>(prevPrev, prev) i. (prev, osa_row a b prevPrev prev i))
                  (replicate (Suc (length b)) 0, [0..<Suc (length b)]) [1..<Suc (length a)])
             ! length b)"

section \<open>Recursive references\<close>

fun ed :: "'a list \<Rightarrow> 'a list \<Rightarrow> nat" where
  "ed [] b = length b"
| "ed (x # a) [] = Suc (length a)"
| "ed (x # a) (y # b) =
     min (min (ed a (y # b) + 1) (ed (x # a) b + 1)) (ed a b + (if x = y then 0 else 1))"

fun osa :: "'a list \<Rightarrow> 'a list \<Rightarrow> nat" where
  "osa [] b = length b"
| "osa (x # a) [] = Suc (length a)"
| "osa (x # a) (y # b) =
     (let best = min (min (osa a (y # b) + 1) (osa (x # a) b + 1)) (osa a b + (if x = y then 0 else 1))
      in case (a, b) of
           (x' # a', y' # b') \<Rightarrow> if x = y' \<and> x' = y then min best (osa a' b' + 1) else best
         | _ \<Rightarrow> best)"

lemma ed_Nil2 [simp]: "ed a [] = length a"
  by (cases a) auto

lemma osa_Nil2 [simp]: "osa a [] = length a"
  by (cases a) auto

declare osa.simps(3) [simp del]

lemma osa_Cons:
  "osa (x # a) (y # b) =
     (let best = min (min (osa a (y # b) + 1) (osa (x # a) b + 1)) (osa a b + (if x = y then 0 else 1))
      in if a \<noteq> [] \<and> b \<noteq> [] \<and> x = hd b \<and> hd a = y then min best (osa (tl a) (tl b) + 1) else best)"
  by (cases a; cases b; subst osa.simps(3); simp add: Let_def)

lemma rev_take_Suc: "i < length a \<Longrightarrow> rev (take (Suc i) a) = a ! i # rev (take i a)"
  by (simp add: take_Suc_conv_app_nth)

text \<open>A row of cells, each computed from the ones before it, tabulates a function.\<close>

lemma foldl_tabulate:
  assumes "\<And>j. 1 \<le> j \<Longrightarrow> j \<le> n \<Longrightarrow> cell (map D [0..<j]) j = D j"
  shows "foldl (\<lambda>cur j. cur @ [cell cur j]) [D 0] [1..<Suc n] = map D [0..<Suc n]"
  using assms
proof (induction n)
  case (Suc n)
  then have "foldl (\<lambda>cur j. cur @ [cell cur j]) [D 0] [1..<Suc n] = map D [0..<Suc n]"
    by simp
  with Suc.prems [of "Suc n"] show ?case by simp
qed simp

abbreviation ed_at :: "'a list \<Rightarrow> 'a list \<Rightarrow> nat \<Rightarrow> nat \<Rightarrow> nat" where
  "ed_at a b i j \<equiv> ed (rev (take i a)) (rev (take j b))"

abbreviation osa_at :: "'a list \<Rightarrow> 'a list \<Rightarrow> nat \<Rightarrow> nat \<Rightarrow> nat" where
  "osa_at a b i j \<equiv> osa (rev (take i a)) (rev (take j b))"

lemma lev_row_correct:
  assumes "i < length a"
  shows "lev_row (a ! i) b (map (ed_at a b i) [0..<Suc (length b)]) (Suc i)
       = map (ed_at a b (Suc i)) [0..<Suc (length b)]"
proof -
  let ?prev = "map (ed_at a b i) [0..<Suc (length b)]"
  have "foldl (\<lambda>cur j. cur @ [lev_cell (a ! i) b ?prev cur j]) [ed_at a b (Suc i) 0] [1..<Suc (length b)]
      = map (ed_at a b (Suc i)) [0..<Suc (length b)]"
  proof (rule foldl_tabulate)
    fix j assume j: "1 \<le> j" "j \<le> length b"
    then obtain m where m: "j = Suc m" "m < length b" by (cases j) auto
    have "?prev ! j = ed_at a b i j" "?prev ! m = ed_at a b i m"
      using m by (auto simp del: upt_Suc)
    moreover have "map (ed_at a b (Suc i)) [0..<j] ! m = ed_at a b (Suc i) m"
      using m by (simp del: upt_Suc)
    ultimately show "lev_cell (a ! i) b ?prev (map (ed_at a b (Suc i)) [0..<j]) j = ed_at a b (Suc i) j"
      using m assms by (simp add: lev_cell_def rev_take_Suc del: upt_Suc)
  qed
  then show ?thesis using assms by (simp add: lev_row_def del: upt_Suc)
qed

lemma levenshtein_rows:
  "n \<le> length a \<Longrightarrow>
   foldl (\<lambda>prev i. lev_row (a ! (i - 1)) b prev i) [0..<Suc (length b)] [1..<Suc n]
     = map (ed_at a b n) [0..<Suc (length b)]"
proof (induction n)
  case 0
  have "map (\<lambda>j. length (take j b)) [0..<Suc (length b)] = [0..<Suc (length b)]"
    by (rule map_idI) auto
  then show ?case by (simp del: upt_Suc)
next
  case (Suc n)
  then show ?case
    using lev_row_correct [of n a b] by (simp del: upt_Suc add: upt_Suc_append)
qed

lemma ed_self [simp]: "ed a a = 0"
  by (induction a) auto

lemma levenshtein_ed_rev: "levenshtein a b = ed (rev a) (rev b)"
  using levenshtein_rows [of "length a" a b]
  by (auto simp: levenshtein_def simp del: upt_Suc)

lemma osa_at_Suc:
  assumes "i < length a" "m < length b"
  shows "osa_at a b (Suc i) (Suc m) =
    (let best = min (min (osa_at a b i (Suc m) + 1) (osa_at a b (Suc i) m + 1))
                    (osa_at a b i m + (if a ! i = b ! m then 0 else 1))
     in if 1 \<le> i \<and> 1 \<le> m \<and> a ! i = b ! (m - 1) \<and> a ! (i - 1) = b ! m
        then min best (osa_at a b (i - 1) (m - 1) + 1) else best)"
proof -
  have unfold: "osa_at a b (Suc i) (Suc m) = osa (a ! i # rev (take i a)) (b ! m # rev (take m b))"
    "osa_at a b i (Suc m) = osa (rev (take i a)) (b ! m # rev (take m b))"
    "osa_at a b (Suc i) m = osa (a ! i # rev (take i a)) (rev (take m b))"
    using assms by (simp_all add: rev_take_Suc)
  have last_of: "rev (take k c) \<noteq> []" "hd (rev (take k c)) = c ! (k - 1)"
    "tl (rev (take k c)) = rev (take (k - 1) c)"
    if "k < length c" "1 \<le> k" for k and c :: "'a list"
    using that by (cases k; simp add: rev_take_Suc; fail)+
  show ?thesis
  proof (cases "1 \<le> i \<and> 1 \<le> m")
    case True
    then have "1 \<le> i" "1 \<le> m" by simp_all
    then show ?thesis
      by (simp only: unfold osa_Cons last_of [OF assms(1)] last_of [OF assms(2)] simp_thms not_False_eq_True)
  next
    case False
    then have "(rev (take i a) \<noteq> [] \<and> rev (take m b) \<noteq> [] \<and> Q) = False"
      "(1 \<le> i \<and> 1 \<le> m \<and> Q) = False" for Q by auto
    then show ?thesis by (simp only: unfold osa_Cons if_False)
  qed
qed

lemma osa_cell_Suc:
  "osa_cell a b pp prev cur (Suc i) (Suc m) =
     (let best = lev_cell (a ! i) b prev cur (Suc m)
      in if 1 \<le> i \<and> 1 \<le> m \<and> a ! i = b ! (m - 1) \<and> a ! (i - 1) = b ! m
         then min best (pp ! (m - 1) + 1) else best)"
proof -
  have "(let t = c in if t < d then t else d) = min d c" for c d :: nat
    by (simp add: Let_def min_def)
  moreover have "2 \<le> Suc k \<longleftrightarrow> 1 \<le> k" "Suc k - 2 = k - 1" "Suc k - 1 = k" for k :: nat
    by simp_all
  ultimately show ?thesis by (simp only: osa_cell_def)
qed

lemma osa_cell_correct:
  assumes "i < length a" "m < length b"
    and "prev ! Suc m = osa_at a b i (Suc m)" "prev ! m = osa_at a b i m"
    and "cur ! m = osa_at a b (Suc i) m"
    and "1 \<le> i \<Longrightarrow> 1 \<le> m \<Longrightarrow> pp ! (m - 1) = osa_at a b (i - 1) (m - 1)"
  shows "osa_cell a b pp prev cur (Suc i) (Suc m) = osa_at a b (Suc i) (Suc m)"
  unfolding osa_at_Suc [OF assms(1,2)] osa_cell_Suc
  using assms(3-) by (simp add: lev_cell_def Let_def)

lemma osa_row_correct:
  assumes "i < length a" "1 \<le> i \<Longrightarrow> pp = map (osa_at a b (i - 1)) [0..<Suc (length b)]"
  shows "osa_row a b pp (map (osa_at a b i) [0..<Suc (length b)]) (Suc i)
       = map (osa_at a b (Suc i)) [0..<Suc (length b)]"
proof -
  let ?prev = "map (osa_at a b i) [0..<Suc (length b)]"
  have "foldl (\<lambda>cur j. cur @ [osa_cell a b pp ?prev cur (Suc i) j]) [osa_at a b (Suc i) 0] [1..<Suc (length b)]
      = map (osa_at a b (Suc i)) [0..<Suc (length b)]"
  proof (rule foldl_tabulate)
    fix j assume j: "1 \<le> j" "j \<le> length b"
    then obtain m where m: "j = Suc m" "m < length b" by (cases j) auto
    show "osa_cell a b pp ?prev (map (osa_at a b (Suc i)) [0..<j]) (Suc i) j = osa_at a b (Suc i) j"
      unfolding m(1)
    proof (rule osa_cell_correct)
      show "1 \<le> i \<Longrightarrow> 1 \<le> m \<Longrightarrow> pp ! (m - 1) = osa_at a b (i - 1) (m - 1)"
        using m assms(2) by (cases m) (simp_all del: upt_Suc)
    qed (use m assms(1) in \<open>simp_all del: upt_Suc\<close>)
  qed
  then show ?thesis using assms by (simp add: osa_row_def del: upt_Suc)
qed

lemma damerau_rows:
  "n \<le> length a \<Longrightarrow>
   \<exists>pp. foldl (\<lambda>(prevPrev, prev) i. (prev, osa_row a b prevPrev prev i))
             (replicate (Suc (length b)) 0, [0..<Suc (length b)]) [1..<Suc n]
        = (pp, map (osa_at a b n) [0..<Suc (length b)])
      \<and> (1 \<le> n \<longrightarrow> pp = map (osa_at a b (n - 1)) [0..<Suc (length b)])"
proof (induction n)
  case 0
  have "map (\<lambda>j. length (take j b)) [0..<Suc (length b)] = [0..<Suc (length b)]"
    by (rule map_idI) auto
  then show ?case by (simp del: upt_Suc)
next
  case (Suc n)
  then obtain pp where pp:
    "foldl (\<lambda>(prevPrev, prev) i. (prev, osa_row a b prevPrev prev i))
       (replicate (Suc (length b)) 0, [0..<Suc (length b)]) [1..<Suc n]
     = (pp, map (osa_at a b n) [0..<Suc (length b)])"
    "1 \<le> n \<longrightarrow> pp = map (osa_at a b (n - 1)) [0..<Suc (length b)]"
    by auto
  have "[1..<Suc (Suc n)] = [1..<Suc n] @ [Suc n]" by simp
  with pp Suc.prems osa_row_correct [of n a pp b] show ?case
    by (simp del: upt_Suc)
qed

lemma osa_self [simp]: "osa a a = 0"
  by (induction a) (simp_all add: osa_Cons Let_def)

lemma damerauLevenshtein_osa_rev: "damerauLevenshtein a b = osa (rev a) (rev b)"
proof -
  obtain pp where "foldl (\<lambda>(prevPrev, prev) i. (prev, osa_row a b prevPrev prev i))
             (replicate (Suc (length b)) 0, [0..<Suc (length b)]) [1..<Suc (length a)]
        = (pp, map (osa_at a b (length a)) [0..<Suc (length b)])"
    using damerau_rows [of "length a" a b] by blast
  then show ?thesis
    by (auto simp: damerauLevenshtein_def simp del: upt_Suc)
qed

section \<open>Edits\<close>

text \<open>One insertion, deletion or substitution; a substitution may keep the byte.\<close>

inductive edit1 :: "'a list \<Rightarrow> 'a list \<Rightarrow> bool" where
  edit_ins: "edit1 (u @ v) (u @ x # v)"
| edit_del: "edit1 (u @ x # v) (u @ v)"
| edit_sub: "edit1 (u @ x # v) (u @ y # v)"

lemma edit1_Cons: "edit1 a b \<Longrightarrow> edit1 (x # a) (x # b)"
proof (induction rule: edit1.induct)
  case (edit_ins u v y)
  show ?case using edit1.edit_ins [of "x # u" v y] by simp
next
  case (edit_del u y v)
  show ?case using edit1.edit_del [of "x # u" y v] by simp
next
  case (edit_sub u y v z)
  show ?case using edit1.edit_sub [of "x # u" y v z] by simp
qed

lemma edit1_rev: "edit1 a b \<Longrightarrow> edit1 (rev a) (rev b)"
proof (induction rule: edit1.induct)
  case (edit_ins u v x)
  show ?case using edit1.edit_ins [of "rev v" "rev u" x] by simp
next
  case (edit_del u x v)
  show ?case using edit1.edit_del [of "rev v" x "rev u"] by simp
next
  case (edit_sub u x v y)
  show ?case using edit1.edit_sub [of "rev v" x "rev u" y] by simp
qed

lemma edits_Cons: "(edit1 ^^ n) a b \<Longrightarrow> (edit1 ^^ n) (x # a) (x # b)"
proof (induction n arbitrary: b)
  case (Suc n)
  then show ?case by (auto intro: edit1_Cons)
qed simp

lemma edits_rev: "(edit1 ^^ n) a b \<Longrightarrow> (edit1 ^^ n) (rev a) (rev b)"
proof (induction n arbitrary: b)
  case (Suc n)
  then show ?case by (auto intro: edit1_rev)
qed simp

lemma edits_insert: "(edit1 ^^ length b) [] b"
proof (induction b)
  case (Cons x b)
  have "(edit1 ^^ length b) [x] (x # b)" by (rule edits_Cons [OF Cons.IH])
  moreover have "edit1 [] [x]" using edit_ins [of "[]" "[]" x] by simp
  ultimately show ?case by (simp add: relpowp_Suc_I2 del: relpowp.simps)
qed simp

lemma edits_delete: "(edit1 ^^ length a) a []"
proof (induction a)
  case (Cons x a)
  moreover have "edit1 (x # a) a" using edit_del [of "[]" x a] by simp
  ultimately show ?case by (simp add: relpowp_Suc_I2 del: relpowp.simps)
qed simp

text \<open>The computed number of edits suffices.\<close>

lemma edits_ed: "(edit1 ^^ ed a b) a b"
proof (induction a b rule: ed.induct)
  case (1 b)
  then show ?case using edits_insert by simp
next
  case (2 x a)
  then show ?case using edits_delete [of "x # a"] by simp
next
  case (3 x a y b)
  have del: "(edit1 ^^ Suc (ed a (y # b))) (x # a) (y # b)"
    using edit_del [of "[]" x a] "3.IH"(1) by (auto intro: relpowp_Suc_I2 simp del: relpowp.simps)
  have ins: "(edit1 ^^ Suc (ed (x # a) b)) (x # a) (y # b)"
    using edit_ins [of "[]" b y] "3.IH"(2) by (auto intro: relpowp_Suc_I simp del: relpowp.simps)
  have sub: "(edit1 ^^ (ed a b + (if x = y then 0 else 1))) (x # a) (y # b)"
    using edits_Cons [OF "3.IH"(3), of y] edit_sub [of "[]" x a y]
    by (auto intro: relpowp_Suc_I2 simp del: relpowp.simps)
  from del ins sub show ?case by (auto simp: min_def simp del: relpowp.simps)
qed

lemma ed_sym: "ed a b = ed b a"
  by (induction a b rule: ed.induct) auto

lemma ed_Cons_both: "ed (x # a) (x # b) \<le> ed a b"
  by simp

lemma ed_Cons_le: "ed (x # v) b \<le> ed v b + 1"
  by (cases b) auto

lemma ed_le_Cons: "ed v b \<le> ed (x # v) b + 1"
proof (induction b arbitrary: v x)
  case (Cons y b)
  show ?case
  proof (cases v)
    case Nil
    have "length b \<le> ed [x] b + 1"
      by (induction b) auto
    with Nil show ?thesis by auto
  next
    case v: (Cons z v')
    have 1: "ed v (y # b) \<le> ed v b + 1"
      using v by simp
    have "ed v b \<le> ed (x # v) b + 1" by (rule Cons.IH)
    with 1 v show ?thesis by auto
  qed
qed simp

lemma ed_sub_le: "ed (x # v) b \<le> ed (y # v) b + 1"
  by (induction b) auto

text \<open>A common prefix on one side keeps a bound of one: the edit may sit anywhere.\<close>

lemma ed_context:
  assumes "\<And>b. ed v b \<le> ed w b + 1"
  shows "ed (u @ v) b \<le> ed (u @ w) b + 1"
proof (induction u arbitrary: b)
  case Nil
  then show ?case using assms by simp
next
  case (Cons x u)
  have "ed (x # u @ v) b \<le> ed (x # u @ w) b + 1"
  proof (induction b)
    case Nil
    then show ?case using Cons.IH [of "[]"] by simp
  next
    case (Cons y b)
    with \<open>\<And>b. ed (u @ v) b \<le> ed (u @ w) b + 1\<close> [of "y # b"]
      \<open>\<And>b. ed (u @ v) b \<le> ed (u @ w) b + 1\<close> [of b]
    show ?case by auto
  qed
  then show ?case by simp
qed

lemma ed_edit1: "edit1 a a' \<Longrightarrow> ed a b \<le> ed a' b + 1"
proof (induction rule: edit1.induct)
  case (edit_ins u v x)
  show ?case by (rule ed_context) (rule ed_le_Cons)
next
  case (edit_del u x v)
  show ?case by (rule ed_context) (rule ed_Cons_le)
next
  case (edit_sub u x v y)
  show ?case by (rule ed_context) (rule ed_sub_le)
qed

text \<open>No sequence of edits is shorter.\<close>

lemma ed_minimal: "(edit1 ^^ n) a b \<Longrightarrow> ed a b \<le> n"
proof (induction n arbitrary: a)
  case (Suc n)
  then obtain a' where "edit1 a a'" "(edit1 ^^ n) a' b" by (blast elim: relpowp_Suc_E2)
  with Suc.IH [of a'] ed_edit1 [of a a' b] show ?case by simp
qed simp

lemma ed_rev: "ed (rev a) (rev b) = ed a b"
proof (rule antisym)
  show "ed (rev a) (rev b) \<le> ed a b"
    by (rule ed_minimal) (rule edits_rev, rule edits_ed)
  show "ed a b \<le> ed (rev a) (rev b)"
    by (rule ed_minimal) (use edits_rev [OF edits_ed [of "rev a" "rev b"]] in simp)
qed

lemma levenshtein_ed: "levenshtein a b = ed a b"
  by (simp add: levenshtein_ed_rev ed_rev)

text \<open>\<open>levenshtein\<close> of \<open>suggest.go\<close>, computed with two rolling rows and its early exits, is the least
  number of single-byte insertions, deletions and substitutions that turn the one string into the other.\<close>

theorem levenshtein_least: "levenshtein a b = (LEAST n. (edit1 ^^ n) a b)"
proof (rule Least_equality [symmetric])
  show "(edit1 ^^ levenshtein a b) a b" by (simp add: levenshtein_ed edits_ed)
  show "(edit1 ^^ n) a b \<Longrightarrow> levenshtein a b \<le> n" for n
    by (simp add: levenshtein_ed ed_minimal)
qed

section \<open>Alignments with adjacent transpositions\<close>

text \<open>
  What the three-row program counts: an alignment that consumes the two strings from the left by
  keeping, deleting, inserting, substituting one byte or swapping two adjacent ones, with the
  number of steps that are not \<open>keep\<close>. No byte takes part in two steps.
\<close>

inductive align :: "'a list \<Rightarrow> 'a list \<Rightarrow> nat \<Rightarrow> bool" where
  al_Nil: "align [] [] 0"
| al_keep: "align a b n \<Longrightarrow> align (x # a) (x # b) n"
| al_del: "align a b n \<Longrightarrow> align (x # a) b (Suc n)"
| al_ins: "align a b n \<Longrightarrow> align a (y # b) (Suc n)"
| al_sub: "align a b n \<Longrightarrow> align (x # a) (y # b) (Suc n)"
| al_swap: "align a b n \<Longrightarrow> align (x # y # a) (y # x # b) (Suc n)"

lemma align_append: "align a b n \<Longrightarrow> align c d m \<Longrightarrow> align (a @ c) (b @ d) (n + m)"
  by (induction rule: align.induct) (auto intro: align.intros)

lemma align_rev: "align a b n \<Longrightarrow> align (rev a) (rev b) n"
proof (induction rule: align.induct)
  case (al_keep a b n x)
  have "align [x] [x] 0" by (intro align.intros)
  from align_append [OF al_keep.IH this] show ?case by simp
next
  case (al_del a b n x)
  have "align [x] [] (Suc 0)" by (intro align.intros)
  from align_append [OF al_del.IH this] show ?case by simp
next
  case (al_ins a b n y)
  have "align [] [y] (Suc 0)" by (intro align.intros)
  from align_append [OF al_ins.IH this] show ?case by simp
next
  case (al_sub a b n x y)
  have "align [x] [y] (Suc 0)" by (rule align.al_sub, rule align.al_Nil)
  from align_append [OF al_sub.IH this] show ?case by simp
next
  case (al_swap a b n x y)
  have "align [y, x] [x, y] (Suc 0)" by (rule align.al_swap) (rule al_Nil)
  from align_append [OF al_swap.IH this] show ?case by simp
qed (simp add: align.al_Nil)

lemma align_refl: "align w w 0"
  by (induction w) (auto intro: align.intros)

lemma align_min: "align a b n \<Longrightarrow> align a b m \<Longrightarrow> align a b (min n m)"
  by (simp add: min_def)

lemma align_length1: "align [] b (length b)"
  by (induction b) (auto intro: align.intros)

lemma align_length2: "align a [] (length a)"
  by (induction a) (auto intro: align.intros)

lemma osa_Cons_le:
  "osa (x # a) (y # b) \<le> osa a (y # b) + 1" "osa (x # a) (y # b) \<le> osa (x # a) b + 1"
  "osa (x # a) (y # b) \<le> osa a b + (if x = y then 0 else 1)"
  unfolding osa_Cons Let_def
  by (auto simp only: min_le_iff_disj order_refl simp_thms split: if_split)

lemma osa_del: "osa (x # a) b \<le> Suc (osa a b)"
  using osa_Cons_le(1) by (cases b) auto

lemma osa_ins: "osa a (y # b) \<le> Suc (osa a b)"
  using osa_Cons_le(2) by (cases a) auto

lemma osa_swap: "osa (x # y # a) (y # x # b) \<le> Suc (osa a b)"
  by (simp add: osa_Cons [of x] Let_def)

lemma osa_minimal: "align a b n \<Longrightarrow> osa a b \<le> n"
proof (induction rule: align.induct)
  case (al_keep a b n x)
  then show ?case using osa_Cons_le(3) [of x a x b] by simp
next
  case (al_del a b n x)
  then show ?case using osa_del [of x a b] by simp
next
  case (al_ins a b n y)
  then show ?case using osa_ins [of a y b] by simp
next
  case (al_sub a b n x y)
  then show ?case using osa_Cons_le(3) [of x a y b] by (simp split: if_splits)
next
  case (al_swap a b n x y)
  then show ?case using osa_swap [of x y a b] by simp
qed simp

lemma align_osa: "align a b (osa a b)"
proof (induction a b rule: osa.induct)
  case (3 x a y b)
  let ?best = "min (min (osa a (y # b) + 1) (osa (x # a) b + 1)) (osa a b + (if x = y then 0 else 1))"
  have "align (x # a) (y # b) (osa a (y # b) + 1)" "align (x # a) (y # b) (osa (x # a) b + 1)"
    using "3.IH"(1,2) by (auto intro: align.intros)
  moreover have "align (x # a) (y # b) (osa a b + (if x = y then 0 else 1))"
    using "3.IH"(3) by (auto intro: align.intros)
  ultimately have best: "align (x # a) (y # b) ?best" by (intro align_min)
  show ?case
  proof (cases "a \<noteq> [] \<and> b \<noteq> [] \<and> x = hd b \<and> hd a = y")
    case True
    then obtain a' b' where ab: "a = y # a'" "b = x # b'" by (cases a; cases b) auto
    have "align a' b' (osa a' b')" using ab by (intro "3.IH"(4)) auto
    then have "align (x # a) (y # b) (osa a' b' + 1)" unfolding ab by (auto intro: al_swap)
    with best have "align (x # a) (y # b) (min ?best (osa a' b' + 1))" by (rule align_min)
    with True show ?thesis by (simp only: osa_Cons Let_def ab list.sel simp_thms list.distinct if_True)
  next
    case False
    with best show ?thesis by (simp only: osa_Cons Let_def if_False)
  qed
next
  case (1 b)
  then show ?case using align_length1 by simp
next
  case (2 x a)
  then show ?case using align_length2 [of "x # a"] by simp
qed

lemma osa_rev: "osa (rev a) (rev b) = osa a b"
proof (rule antisym)
  show "osa (rev a) (rev b) \<le> osa a b" by (rule osa_minimal) (rule align_rev, rule align_osa)
  show "osa a b \<le> osa (rev a) (rev b)"
    by (rule osa_minimal) (use align_rev [OF align_osa [of "rev a" "rev b"]] in simp)
qed

lemma osa_le_ed: "osa a b \<le> ed a b"
proof (induction a b rule: ed.induct)
  case (3 x a y b)
  with osa_Cons_le [of x a y b] show ?case by (auto simp: min_def)
qed simp_all

lemma damerauLevenshtein_osa: "damerauLevenshtein a b = osa a b"
  by (simp add: damerauLevenshtein_osa_rev osa_rev)

lemma damerauLevenshtein_align:
  "damerauLevenshtein a b = (LEAST n. align a b n)"
  "damerauLevenshtein (u @ x # y # v) (u @ y # x # v) \<le> 1"
  "damerauLevenshtein a b \<le> levenshtein a b"
proof -
  show "damerauLevenshtein a b = (LEAST n. align a b n)" for a b :: "'a list"
    by (rule Least_equality [symmetric]) (simp_all add: damerauLevenshtein_osa align_osa osa_minimal)
  have "align (u @ x # y # v) (u @ y # x # v) (0 + Suc 0)"
    by (intro align_append al_swap align_refl)
  then show "damerauLevenshtein (u @ x # y # v) (u @ y # x # v) \<le> 1"
    by (simp only: damerauLevenshtein_osa osa_minimal add_0 One_nat_def)
  show "damerauLevenshtein a b \<le> levenshtein a b"
    by (simp add: damerauLevenshtein_osa levenshtein_ed osa_le_ed)
qed

text \<open>C34: \<open>damerauLevenshtein\<close> of \<open>keywords.go\<close>, computed with three rotating rows, is the least cost of
  an alignment of the two strings whose steps may also swap two adjacent bytes; so one swap anywhere
  costs at most one, and the distance never exceeds \<open>levenshtein\<close>.\<close>

theorem damerauLevenshtein_least:
  "damerauLevenshtein a b = (LEAST n. align a b n)
   \<and> damerauLevenshtein (u @ x # y # v) (u @ y # x # v) \<le> 1
   \<and> damerauLevenshtein a b \<le> levenshtein a b"
  by (intro conjI damerauLevenshtein_align)

section \<open>What the suggestion ranking needs of a distance\<close>

locale edit_metric =
  fixes dist :: "'a list \<Rightarrow> 'a list \<Rightarrow> nat"
  assumes dist_zero: "dist a b = 0 \<longleftrightarrow> a = b"
    and dist_length: "length a \<le> length b + dist a b"
    and dist_sym: "dist a b = dist b a"
    and dist_max: "dist a b \<le> max (length a) (length b)"
begin

text \<open>A length difference above the limit already excludes a candidate.\<close>

lemma prefilter_lossless:
  assumes "dist a b \<le> k" shows "length a \<le> length b + k \<and> length b \<le> length a + k"
  using dist_length [of a b] dist_length [of b a] dist_sym [of a b] assms by simp

lemma dist_pos: "a \<noteq> b \<Longrightarrow> 1 \<le> dist a b"
  using dist_zero [of a b] by simp

end

lemma ed_zero: "ed a b = 0 \<longleftrightarrow> a = b"
  by (induction a b rule: ed.induct) (auto simp: min_def split: if_splits)

lemma ed_length: "length a \<le> length b + ed a b"
  by (induction a b rule: ed.induct) (auto simp: min_def split: if_splits)

lemma ed_max: "ed a b \<le> max (length a) (length b)"
  by (induction a b rule: ed.induct) (auto simp: min_def max_def split: if_splits)

interpretation lev: edit_metric levenshtein
  by unfold_locales (auto simp: levenshtein_ed ed_zero ed_length ed_max intro: ed_sym)

lemma align_zero: "align a b n \<Longrightarrow> n = 0 \<Longrightarrow> a = b"
  by (induction rule: align.induct) auto

lemma align_length: "align a b n \<Longrightarrow> length a \<le> length b + n"
  by (induction rule: align.induct) auto

lemma align_sym: "align a b n \<Longrightarrow> align b a n"
  by (induction rule: align.induct) (auto intro: align.intros)

lemma osa_sym: "osa a b = osa b a"
  by (rule antisym) (auto intro!: osa_minimal align_sym [OF align_osa])

interpretation osa: edit_metric damerauLevenshtein
proof unfold_locales
  fix a b :: "'a list"
  show "damerauLevenshtein a b = 0 \<longleftrightarrow> a = b"
    using align_zero [OF align_osa [of a b]] by (auto simp: damerauLevenshtein_osa)
  show "length a \<le> length b + damerauLevenshtein a b"
    using align_length [OF align_osa [of a b]] by (simp add: damerauLevenshtein_osa)
  show "damerauLevenshtein a b = damerauLevenshtein b a"
    by (simp add: damerauLevenshtein_osa osa_sym)
  show "damerauLevenshtein a b \<le> max (length a) (length b)"
    using osa_le_ed [of a b] ed_max [of a b] by (simp add: damerauLevenshtein_osa)
qed

end
