(* ===== verification/Suggest.thy ===== *)
theory Suggest
  imports Output Edit_Distance
begin

text \<open>
  Did-you-mean suggestions: the ranking of \<open>internal/diag/suggest.go\<close> and its two clients,
  \<open>Suggest\<close> (Levenshtein, limit by name length) and \<open>SuggestKeyword\<close> of \<open>keywords.go\<close>
  (Damerau-Levenshtein against the parser's keyword table). The keyword table is an argument: the
  keys of \<open>lexbase.KeywordsCategories\<close> in the order a \<open>range\<close> over the map happens to give them.
\<close>

section \<open>Ranking\<close>

definition maxSuggestions :: nat where
  "maxSuggestions = 3"

definition keywordSuggestionDistanceCap :: int where
  "keywordSuggestionDistanceCap = 2"

record scored =
  sname :: string
  sdistance :: nat

definition maxDistance :: "nat \<Rightarrow> int" where
  "maxDistance nameLen = (if nameLen \<le> 3 then 1 else if nameLen \<le> 6 then 2 else 3)"

definition absDiff :: "nat \<Rightarrow> nat \<Rightarrow> nat" where
  "absDiff a b = (if a > b then a - b else b - a)"

text \<open>
  \<open>math.Round((1 - d/m) * 100) / 100\<close> in hundredths: the nearest integer to \<open>100 (m - d) / m\<close>,
  halves up.
\<close>

definition confidence :: "nat \<Rightarrow> nat \<Rightarrow> nat" where
  "confidence distance maxLen =
     (if maxLen = 0 then 0 else (200 * (maxLen - distance) + maxLen) div (2 * maxLen))"

text \<open>The comparator of the \<open>sort.Slice\<close>, as the key it orders by.\<close>

definition rank :: "bool \<Rightarrow> string \<Rightarrow> scored \<Rightarrow> nat \<times> nat \<times> string" where
  "rank preferSameLen misspelled h =
     (sdistance h,
      if preferSameLen \<and> length (sname h) \<noteq> length misspelled then 1 else 0,
      sname h)"

definition score :: "string \<Rightarrow> int \<Rightarrow> (string \<Rightarrow> string \<Rightarrow> nat) \<Rightarrow> string \<Rightarrow> scored option" where
  "score misspelled limit dist cand =
     (if cand = [] \<or> equal_fold cand misspelled then None
      else if int (absDiff (length cand) (length misspelled)) > limit then None
      else
        (let d = dist (to_lower misspelled) (to_lower cand) in
         if int d > limit then None else Some \<lparr>sname = cand, sdistance = d\<rparr>))"

definition to_suggestion :: "string \<Rightarrow> position \<Rightarrow> string \<Rightarrow> scored \<Rightarrow> suggestion" where
  "to_suggestion misspelled pos reasonPrefix h =
     \<lparr>replacement = sname h,
      srange = \<lparr>range_start = byte_offset pos, range_end = byte_offset pos + int (length misspelled)\<rparr>,
      confidence_pct = confidence (sdistance h) (max (length misspelled) (length (sname h))),
      reason = reasonPrefix @ ''_'' @ itoa_nat (sdistance h)\<rparr>"

definition suggestWithDistance ::
    "string \<Rightarrow> string list \<Rightarrow> position option \<Rightarrow> int \<Rightarrow> (string \<Rightarrow> string \<Rightarrow> nat) \<Rightarrow> string \<Rightarrow> bool \<Rightarrow>
     suggestion list" where
  "suggestWithDistance misspelled candidates pos limit dist reasonPrefix preferSameLen =
     (if misspelled = [] \<or> candidates = [] \<or> limit \<le> 0 then []
      else
        (case pos of
           None \<Rightarrow> []
         | Some p \<Rightarrow>
             (let hits = List.map_filter (score misspelled limit dist) candidates;
                  sorted_hits = sort_key (rank preferSameLen misspelled) hits
              in map (to_suggestion misspelled p reasonPrefix) (take maxSuggestions sorted_hits))))"

definition ReasonLevenshtein :: string where
  "ReasonLevenshtein = ''levenshtein_distance''"

definition ReasonDamerauLevenshtein :: string where
  "ReasonDamerauLevenshtein = ''damerau_levenshtein_distance''"

definition Suggest :: "string \<Rightarrow> string list \<Rightarrow> position option \<Rightarrow> suggestion list" where
  "Suggest misspelled candidates pos =
     (if misspelled = [] then []
      else suggestWithDistance misspelled candidates pos (maxDistance (length misspelled)) levenshtein
             ReasonLevenshtein False)"

section \<open>Keywords\<close>

definition lowerASCII :: "string \<Rightarrow> string" where
  "lowerASCII s =
     (if \<exists>c \<in> set s. is_upper c
      then map (\<lambda>c. if is_upper c then char_of (byte_of c + 32) else c) s
      else s)"

definition keywordCandidates :: "string list \<Rightarrow> string list" where
  "keywordCandidates kws = sort kws"

definition IsKeyword :: "string list \<Rightarrow> string \<Rightarrow> bool" where
  "IsKeyword kws token \<longleftrightarrow> token \<noteq> [] \<and> lowerASCII token \<in> set kws"

definition SuggestKeyword :: "string list \<Rightarrow> string \<Rightarrow> position option \<Rightarrow> suggestion list" where
  "SuggestKeyword kws token pos =
     (if token = [] \<or> pos = None then []
      else if IsKeyword kws token then []
      else
        (let perLen = maxDistance (length token);
             limit = (if perLen < keywordSuggestionDistanceCap then perLen
                      else keywordSuggestionDistanceCap)
         in suggestWithDistance token (keywordCandidates kws) pos limit damerauLevenshtein
              ReasonDamerauLevenshtein True))"

lemma lowerASCII_to_lower [simp]: "lowerASCII s = to_lower s"
proof (cases "\<exists>c \<in> set s. is_upper c")
  case True
  then show ?thesis by (simp add: lowerASCII_def to_lower_def lower_char_def)
next
  case False
  then have "map lower_char s = s" by (auto intro!: map_idI simp: lower_char_def)
  with False show ?thesis by (auto simp: lowerASCII_def to_lower_def)
qed

lemma maxDistance_bounds: "1 \<le> maxDistance n" "maxDistance n \<le> 3"
  by (simp_all add: maxDistance_def)

lemma map_filter_Some: "List.map_filter (\<lambda>x. if P x then Some (g x) else None) xs = map g (filter P xs)"
  by (induction xs) (simp_all add: List.map_filter_simps)

lemma confidence_le: "confidence d m \<le> 100"
proof (cases "m = 0")
  case False
  have "200 * (m - d) + m \<le> 100 * (2 * m) + m" by simp
  then have "(200 * (m - d) + m) div (2 * m) \<le> (100 * (2 * m) + m) div (2 * m)"
    by (rule div_le_mono)
  also have "\<dots> = 100" using False by simp
  finally show ?thesis using False by (simp add: confidence_def)
qed (simp add: confidence_def)

text \<open>Two keys that order alike sort alike.\<close>

lemma insort_key_same_order:
  "(\<And>x y. f x \<le> f y \<longleftrightarrow> g x \<le> g y) \<Longrightarrow> insort_key f a xs = insort_key g a xs"
  by (induction xs) auto

lemma sort_key_same_order:
  assumes "\<And>x y. f x \<le> f y \<longleftrightarrow> g x \<le> g y"
  shows "sort_key f xs = sort_key g xs"
proof -
  have "insort_key f = insort_key g"
    by (intro ext insort_key_same_order) (rule assms)
  then show ?thesis by (simp add: sort_key_def)
qed

section \<open>The ranking over any edit metric\<close>

text \<open>
  The candidates that should be suggested: non-empty, not the name itself up to case, and within
  the limit. The length pre-filter of \<open>suggestWithDistance\<close> does not appear.
\<close>

definition qualifies :: "(string \<Rightarrow> string \<Rightarrow> nat) \<Rightarrow> string \<Rightarrow> int \<Rightarrow> string \<Rightarrow> bool" where
  "qualifies dist misspelled limit cand \<longleftrightarrow>
     cand \<noteq> [] \<and> \<not> equal_fold cand misspelled \<and> int (dist (to_lower misspelled) (to_lower cand)) \<le> limit"

definition scored_of :: "(string \<Rightarrow> string \<Rightarrow> nat) \<Rightarrow> string \<Rightarrow> string \<Rightarrow> scored" where
  "scored_of dist misspelled cand =
     \<lparr>sname = cand, sdistance = dist (to_lower misspelled) (to_lower cand)\<rparr>"

locale string_metric = edit_metric dist for dist :: "string \<Rightarrow> string \<Rightarrow> nat"
begin

lemma score_qualifies:
  assumes "0 \<le> limit"
  shows "score m limit dist = (\<lambda>c. if qualifies dist m limit c then Some (scored_of dist m c) else None)"
proof
  fix c
  show "score m limit dist c = (if qualifies dist m limit c then Some (scored_of dist m c) else None)"
    using dist_length [of "to_lower m" "to_lower c"] dist_length [of "to_lower c" "to_lower m"]
      dist_sym [of "to_lower m" "to_lower c"] assms
    by (auto simp: score_def qualifies_def scored_of_def absDiff_def Let_def)
qed

lemma suggest_eq:
  assumes "misspelled \<noteq> []" "1 \<le> limit"
  shows "suggestWithDistance misspelled cands (Some p) limit dist pre sameLen =
    map (to_suggestion misspelled p pre)
      (take maxSuggestions (sort_key (rank sameLen misspelled)
        (map (scored_of dist misspelled) (filter (qualifies dist misspelled limit) cands))))"
  using assms by (cases cands)
    (simp_all add: suggestWithDistance_def Let_def score_qualifies map_filter_Some)

lemma suggest_nonempty:
  assumes "misspelled \<noteq> []" "1 \<le> limit" "c \<in> set cands" "qualifies dist misspelled limit c"
  shows "suggestWithDistance misspelled cands (Some p) limit dist pre sameLen \<noteq> []"
proof -
  have "filter (qualifies dist misspelled limit) cands \<noteq> []"
    using assms(3,4) by (auto simp: filter_empty_conv)
  then have "sort_key (rank sameLen misspelled)
      (map (scored_of dist misspelled) (filter (qualifies dist misspelled limit) cands)) \<noteq> []"
    by (metis length_0_conv length_map length_sort)
  then show ?thesis using assms(1,2) by (simp add: suggest_eq maxSuggestions_def)
qed

text \<open>Each suggestion names a qualifying candidate with its distance.\<close>

lemma suggest_sound:
  assumes "s \<in> set (suggestWithDistance misspelled cands pos limit dist pre sameLen)"
  obtains p c where "pos = Some p" "c \<in> set cands" "qualifies dist misspelled limit c"
    "s = to_suggestion misspelled p pre (scored_of dist misspelled c)"
proof -
  from assms have ne: "misspelled \<noteq> []" "1 \<le> limit"
    by (auto simp: suggestWithDistance_def split: if_splits)
  from assms obtain p where p: "pos = Some p"
    by (auto simp: suggestWithDistance_def split: if_splits option.splits)
  with assms ne obtain h where h: "s = to_suggestion misspelled p pre h"
    "h \<in> set (take maxSuggestions (sort_key (rank sameLen misspelled)
        (map (scored_of dist misspelled) (filter (qualifies dist misspelled limit) cands))))"
    by (auto simp: suggest_eq)
  then have "h \<in> set (map (scored_of dist misspelled) (filter (qualifies dist misspelled limit) cands))"
    using set_take_sort_subset by fast
  with h p that show ?thesis by auto
qed

lemma suggest_length: "length (suggestWithDistance m cands pos limit dist pre sameLen) \<le> 3"
  by (auto simp: suggestWithDistance_def Let_def maxSuggestions_def split: option.splits)

text \<open>A qualifying candidate that is left out is beaten by every suggestion, and there are three.\<close>

lemma suggest_complete:
  assumes "misspelled \<noteq> []" "1 \<le> limit" "c \<in> set cands" "qualifies dist misspelled limit c"
    and left_out: "c \<notin> replacement ` set (suggestWithDistance misspelled cands (Some p) limit dist pre sameLen)"
  shows "length (suggestWithDistance misspelled cands (Some p) limit dist pre sameLen) = 3"
    and "\<forall>s \<in> set (suggestWithDistance misspelled cands (Some p) limit dist pre sameLen).
       rank sameLen misspelled (scored_of dist misspelled (replacement s)) \<le> rank sameLen misspelled (scored_of dist misspelled c)"
proof -
  define H where "H = sort_key (rank sameLen misspelled)
    (map (scored_of dist misspelled) (filter (qualifies dist misspelled limit) cands))"
  have eq: "suggestWithDistance misspelled cands (Some p) limit dist pre sameLen
      = map (to_suggestion misspelled p pre) (take 3 H)"
    using assms(1,2) by (simp add: suggest_eq H_def maxSuggestions_def)
  have "scored_of dist misspelled c \<in> set H"
    using assms(3,4) by (simp add: H_def)
  moreover have "scored_of dist misspelled c \<notin> set (take 3 H)"
    using left_out by (force simp: eq to_suggestion_def scored_of_def image_iff)
  ultimately have rest: "scored_of dist misspelled c \<in> set (drop 3 H)"
    by (metis UnE append_take_drop_id set_append)
  then have "3 < length H" by (metis drop_all empty_iff leI list.set(1))
  then show "length (suggestWithDistance misspelled cands (Some p) limit dist pre sameLen) = 3"
    by (simp add: eq)
  have "sorted (map (rank sameLen misspelled) (take 3 H @ drop 3 H))"
    by (simp add: H_def)
  then have below: "rank sameLen misspelled h \<le> rank sameLen misspelled (scored_of dist misspelled c)"
    if "h \<in> set (take 3 H)" for h
    using that rest unfolding map_append sorted_append by auto
  have "scored_of dist misspelled (sname h) = h" if "h \<in> set (take 3 H)" for h
    using that in_set_takeD [of h 3 H] by (auto simp: H_def scored_of_def)
  with below show "\<forall>s \<in> set (suggestWithDistance misspelled cands (Some p) limit dist pre sameLen).
       rank sameLen misspelled (scored_of dist misspelled (replacement s)) \<le> rank sameLen misspelled (scored_of dist misspelled c)"
    by (auto simp: eq to_suggestion_def)
qed

end

interpretation lev_metric: string_metric levenshtein
  by unfold_locales

interpretation dl_metric: string_metric damerauLevenshtein
  by unfold_locales



lemma SuggestKeyword_transposed:
  assumes kw: "u @ x # y # v \<in> set kws" and low: "to_lower (u @ x # y # v) = u @ x # y # v"
    and typo: "to_lower token = u @ y # x # v" and no_kw: "\<not> IsKeyword kws token"
  shows "let S = SuggestKeyword kws token (Some p) in
      u @ x # y # v \<in> replacement ` set S
      \<or> length S = 3 \<and> (\<forall>s \<in> set S.
           rank True token (scored_of damerauLevenshtein token (replacement s))
             \<le> rank True token (scored_of damerauLevenshtein token (u @ x # y # v)))"
    and "IsKeyword kws other \<Longrightarrow> SuggestKeyword kws other pos = []"
proof -
  let ?kw = "u @ x # y # v"
  define limit where "limit = min (maxDistance (length token)) keywordSuggestionDistanceCap"
  have lim: "1 \<le> limit" using maxDistance_bounds(1) [of "length token"]
    by (simp add: limit_def keywordSuggestionDistanceCap_def)
  have ne: "token \<noteq> []" using typo by (auto simp: to_lower_def)
  have S: "SuggestKeyword kws token (Some p) =
      suggestWithDistance token (sort kws) (Some p) limit damerauLevenshtein ReasonDamerauLevenshtein True"
    using ne no_kw by (auto simp: SuggestKeyword_def keywordCandidates_def limit_def Let_def min_def)
  have "to_lower token \<noteq> ?kw"
    using no_kw kw ne by (auto simp: IsKeyword_def)
  moreover have "damerauLevenshtein (u @ y # x # v) ?kw \<le> 1"
    using osa_minimal [OF align_append [OF align_refl [of u] al_swap [OF align_refl [of v], of y x]]]
    by (simp add: damerauLevenshtein_osa)
  ultimately have q: "qualifies damerauLevenshtein token limit ?kw"
    using lim low by (simp add: qualifies_def equal_fold_def typo)
  have "?kw \<in> set (sort kws)" using kw by simp
  with dl_metric.suggest_complete [OF ne lim _ q, of "sort kws" p ReasonDamerauLevenshtein True]
  show "let S = SuggestKeyword kws token (Some p) in
      u @ x # y # v \<in> replacement ` set S
      \<or> length S = 3 \<and> (\<forall>s \<in> set S.
           rank True token (scored_of damerauLevenshtein token (replacement s))
             \<le> rank True token (scored_of damerauLevenshtein token (u @ x # y # v)))"
    unfolding S Let_def by blast
  show "IsKeyword kws other \<Longrightarrow> SuggestKeyword kws other pos = []"
    by (simp add: SuggestKeyword_def)
qed

text \<open>A typo that swaps two adjacent bytes of a keyword, in a token that is itself no keyword, is
  always answered: \<open>SuggestKeyword\<close> suggests the keyword, or three others that rank at least as well;
  and it never suggests anything for a token that is a keyword in any case.\<close>

theorem SuggestKeyword_swap:
  assumes kw: "u @ x # y # v \<in> set kws" and low: "to_lower (u @ x # y # v) = u @ x # y # v"
    and typo: "to_lower token = u @ y # x # v" and no_kw: "\<not> IsKeyword kws token"
  shows "(let S = SuggestKeyword kws token (Some p) in
      u @ x # y # v \<in> replacement ` set S
      \<or> length S = 3 \<and> (\<forall>s \<in> set S.
           rank True token (scored_of damerauLevenshtein token (replacement s))
             \<le> rank True token (scored_of damerauLevenshtein token (u @ x # y # v))))
    \<and> (IsKeyword kws other \<longrightarrow> SuggestKeyword kws other pos = [])"
  using SuggestKeyword_transposed [OF assms] by blast

theorem SuggestKeyword_swap_witness:
  "let S = SuggestKeyword [''select'', ''insert''] ''SELCET'' (Some \<lparr>line = 1, column = 1, byte_offset = 0\<rparr>) in
      ''select'' \<in> replacement ` set S
      \<or> length S = 3 \<and> (\<forall>s \<in> set S.
           rank True ''SELCET'' (scored_of damerauLevenshtein ''SELCET'' (replacement s))
             \<le> rank True ''SELCET'' (scored_of damerauLevenshtein ''SELCET'' ''select''))"
  by (rule SuggestKeyword_swap [of "''sel''" "CHR ''e''" "CHR ''c''" "''t''", simplified, THEN conjunct1])
    (simp, code_simp+)

text \<open>The keyword suggestions do not depend on the order in which Go iterates over the keyword map.\<close>

theorem SuggestKeyword_order_independent:
  assumes "distinct kws" "distinct kws'" "set kws = set kws'"
  shows "SuggestKeyword kws token pos = SuggestKeyword kws' token pos"
proof -
  have "sort kws = sort kws'"
    using assms by (metis sorted_distinct_set_unique sorted_sort distinct_sort set_sort)
  then show ?thesis
    by (simp add: SuggestKeyword_def IsKeyword_def keywordCandidates_def assms(3))
qed

theorem SuggestKeyword_order_independent_witness:
  "SuggestKeyword [''select'', ''insert''] ''selct'' None = SuggestKeyword [''insert'', ''select''] ''selct'' None"
  by (rule SuggestKeyword_order_independent) auto

end
