(* ===== verification/Diag_Errors.thy ===== *)
theory Diag_Errors
  imports Diag_Position Suggest
begin

text \<open>
  Error enrichment, \<open>internal/diag/error.go\<close> and \<open>category.go\<close>: parser, type-check and cluster errors
  become \<^typ>\<open>error_entry\<close> values. The accessors of the parser's \<open>pgerror\<close> package
  (\<open>GetPGCode\<close>, \<open>GetSeverity\<close>, \<open>Flatten\<close>) and \<open>errors.As\<close> into \<open>pgconn.PgError\<close> are
  arguments, as is the keyword table.
\<close>

section \<open>Categories\<close>

definition codeCategory :: "string \<rightharpoonup> string" where
  "codeCategory = map_of
     [(''42601'', ''syntax_error''), (''42703'', ''unknown_column''), (''42P01'', ''unknown_table''),
      (''42883'', ''unknown_function''), (''42804'', ''type_mismatch''), (''42702'', ''ambiguous_reference''),
      (''42725'', ''ambiguous_reference''), (''42P08'', ''ambiguous_reference''),
      (''42P09'', ''ambiguous_reference''), (''42P10'', ''unknown_column''),
      (''42501'', ''permission_denied''), (''57014'', ''query_canceled'')]"

definition classCategory :: "string \<rightharpoonup> string" where
  "classCategory = map_of
     [(''42'', ''syntax_error''), (''22'', ''type_mismatch''), (''08'', ''connection_error'')]"

definition CategoryForCode :: "string \<Rightarrow> string" where
  "CategoryForCode c =
     (case codeCategory c of
        Some cat \<Rightarrow> cat
      | None \<Rightarrow>
          if 2 \<le> length c
          then (case classCategory (take 2 c) of Some cat \<Rightarrow> cat | None \<Rightarrow> [])
          else [])"

section \<open>Identifiers\<close>

definition isIdentStart :: "char \<Rightarrow> bool" where
  "isIdentStart c \<longleftrightarrow> c = CHR ''_'' \<or> is_upper c \<or> is_lower c"

definition isIdentCont :: "char \<Rightarrow> bool" where
  "isIdentCont c \<longleftrightarrow> isIdentStart c \<or> is_digit c"

function ident_end :: "string \<Rightarrow> nat \<Rightarrow> nat" where
  "ident_end fullSQL e = (if e < length fullSQL \<and> isIdentCont (fullSQL ! e) then ident_end fullSQL (e + 1) else e)"
  by pat_completeness auto
termination
  by (relation "measure (\<lambda>(s, e). length s - e)") auto

declare ident_end.simps [simp del]

definition identifierAt :: "string \<Rightarrow> position option \<Rightarrow> string" where
  "identifierAt fullSQL pos =
     (case pos of
        None \<Rightarrow> []
      | Some p \<Rightarrow>
          if byte_offset p < 0 \<or> byte_offset p \<ge> int (length fullSQL) then []
          else
            (let start = nat (byte_offset p) in
             if \<not> isIdentStart (fullSQL ! start) then []
             else take (ident_end fullSQL (start + 1) - start) (drop start fullSQL)))"

lemma ident_end_takeWhile:
  "e \<le> length s \<Longrightarrow> ident_end s e = e + length (takeWhile isIdentCont (drop e s))"
proof (induction s e rule: ident_end.induct)
  case (1 s e)
  show ?case
  proof (cases "e < length s")
    case True
    then have "drop e s = s ! e # drop (Suc e) s" by (simp add: Cons_nth_drop_Suc)
    with True 1 show ?thesis by (simp add: ident_end.simps [of s e])
  next
    case False
    with "1.prems" have "e = length s" by simp
    then show ?thesis by (simp add: ident_end.simps [of s "length s"])
  qed
qed

lemma isIdentStart_Cont: "isIdentStart c \<Longrightarrow> isIdentCont c"
  by (simp add: isIdentCont_def)

lemma identifierAt_takeWhile:
  assumes "identifierAt sql pos \<noteq> []"
  obtains p where "pos = Some p" "0 \<le> byte_offset p" "nat (byte_offset p) < length sql"
    "isIdentStart (sql ! nat (byte_offset p))"
    "identifierAt sql pos = takeWhile isIdentCont (drop (nat (byte_offset p)) sql)"
proof -
  from assms obtain p where p: "pos = Some p" "0 \<le> byte_offset p" "nat (byte_offset p) < length sql"
    "isIdentStart (sql ! nat (byte_offset p))"
    by (auto simp: identifierAt_def Let_def split: option.splits if_splits)
  define k where "k = nat (byte_offset p)"
  have "drop k sql = sql ! k # drop (Suc k) sql"
    using p by (simp add: Cons_nth_drop_Suc k_def)
  then have "take (ident_end sql (k + 1) - k) (drop k sql) = takeWhile isIdentCont (drop k sql)"
    using p isIdentStart_Cont [of "sql ! k"]
    by (simp add: ident_end_takeWhile k_def [symmetric] takeWhile_eq_take [symmetric])
  with p have "identifierAt sql pos = takeWhile isIdentCont (drop (nat (byte_offset p)) sql)"
    by (auto simp: identifierAt_def Let_def k_def)
  with p that show ?thesis by blast
qed

section \<open>Errors\<close>

definition severity_of :: "string \<Rightarrow> severity" where
  "severity_of s =
     (if s = ''ERROR'' then SevError else if s = ''WARNING'' then SevWarning
      else if s = ''NOTICE'' then SevNotice else if s = ''FATAL'' then SevFatal
      else if s = ''PANIC'' then SevPanic else SevOther s)"

text \<open>What the code reads of an error: \<open>pgerror\<close>'s view of it, \<open>err.Error()\<close>, \<open>errors.As\<close>.\<close>

record pg_conn_error =
  pe_severity_unlocalized :: string
  pe_severity :: string
  pe_code :: string
  pe_message :: string
  pe_position :: int

record 'e error_api =
  GetPGCode :: "'e \<Rightarrow> string"
  GetSeverity :: "'e \<Rightarrow> string"
  FlattenDetail :: "'e \<Rightarrow> string"
  error_string :: "'e \<Rightarrow> string"
  as_pg_error :: "'e \<Rightarrow> pg_conn_error option"

definition FromTypeError :: "'e error_api \<Rightarrow> 'e \<Rightarrow> string \<Rightarrow> string \<Rightarrow> error_entry" where
  "FromTypeError api err exprText fullSQL =
     (let sev = (if GetSeverity api err = [] then ''ERROR'' else GetSeverity api err);
          pos = (if exprText \<noteq> []
                 then (case str_index fullSQL exprText of
                         Some idx \<Rightarrow> PositionFromByteOffset fullSQL (int idx)
                       | None \<Rightarrow> None)
                 else None)
      in \<lparr>code = GetPGCode api err, severity = severity_of sev, message = error_string api err,
          position = pos, category = [], econtext = [], suggestions = []\<rparr>)"

definition detail_separator :: string where
  "detail_separator = [newline] @ ''--'' @ [newline]"

definition FromParseError :: "'e error_api \<Rightarrow> string list \<Rightarrow> 'e \<Rightarrow> string \<Rightarrow> error_entry" where
  "FromParseError api kws err fullSQL =
     (let c = GetPGCode api err;
          sev = (if GetSeverity api err = [] then ''ERROR'' else GetSeverity api err);
          detail0 = FlattenDetail api err;
          detail = (case str_index detail0 detail_separator of Some sep \<Rightarrow> take sep detail0 | None \<Rightarrow> detail0);
          pos = ExtractPosition detail fullSQL
      in \<lparr>code = c, severity = severity_of sev, message = error_string api err, position = pos,
          category = CategoryForCode c, econtext = [],
          suggestions = SuggestKeyword kws (identifierAt fullSQL pos) pos\<rparr>)"

definition FromClusterError :: "'e error_api \<Rightarrow> 'e \<Rightarrow> string \<Rightarrow> error_entry" where
  "FromClusterError api err fullSQL =
     (case as_pg_error api err of
        None \<Rightarrow> plain_error ''internal_error'' SevError (error_string api err)
      | Some pgErr \<Rightarrow>
          (let sev0 = pe_severity_unlocalized pgErr;
               sev1 = (if sev0 = [] then pe_severity pgErr else sev0);
               sev = (if sev1 = [] then ''ERROR'' else sev1);
               pos = (if fullSQL \<noteq> [] \<and> pe_position pgErr > 0
                      then PositionFromByteOffset fullSQL
                             (int (CharIndexToByteOffset fullSQL (pe_position pgErr - 1)))
                      else None)
           in \<lparr>code = pe_code pgErr, severity = severity_of sev, message = pe_message pgErr,
               position = pos, category = CategoryForCode (pe_code pgErr), econtext = [],
               suggestions = []\<rparr>))"

lemma SuggestKeyword_sound:
  assumes "s \<in> set (SuggestKeyword kws token pos)"
  obtains p kw where "pos = Some p" "token \<noteq> []" "kw \<in> set kws" "\<not> equal_fold kw token"
    "replacement s = kw" "range_start (srange s) = byte_offset p"
    "range_end (srange s) = byte_offset p + int (length token)"
    "damerauLevenshtein (to_lower token) (to_lower kw) \<le> 2"
proof -
  from assms have ne: "token \<noteq> []" by (auto simp: SuggestKeyword_def)
  have "min (maxDistance (length token)) 2 \<le> 2" by simp
  moreover have "s \<in> set (suggestWithDistance token (keywordCandidates kws) pos
      (min (maxDistance (length token)) 2) damerauLevenshtein ReasonDamerauLevenshtein True)"
    using assms by (auto simp: SuggestKeyword_def Let_def keywordSuggestionDistanceCap_def min_def
        split: if_splits)
  ultimately obtain limit where lim: "limit \<le> 2"
    "s \<in> set (suggestWithDistance token (keywordCandidates kws) pos limit damerauLevenshtein
        ReasonDamerauLevenshtein True)" by blast
  from dl_metric.suggest_sound [OF lim(2)] obtain p c where
    "pos = Some p" "c \<in> set (keywordCandidates kws)" "qualifies damerauLevenshtein token limit c"
    "s = to_suggestion token p ReasonDamerauLevenshtein (scored_of damerauLevenshtein token c)" .
  with ne lim(1) that show ?thesis
    by (auto simp: keywordCandidates_def qualifies_def to_suggestion_def scored_of_def)
qed

text \<open>C37: Every suggestion \<open>FromParseError\<close> attaches is a keyword that replaces exactly the identifier
  the error points at: its range starts at the error position, lies inside the input, covers the
  maximal run of identifier bytes there, and that run differs from the keyword by one or two edits.\<close>

theorem FromParseError_suggestion_range:
  assumes "s \<in> set (suggestions (FromParseError api kws err sql))"
  shows "\<exists>p. position (FromParseError api kws err sql) = Some p
    \<and> range_start (srange s) = byte_offset p \<and> 0 \<le> byte_offset p
    \<and> range_end (srange s) \<le> int (length sql)
    \<and> take (nat (range_end (srange s)) - nat (range_start (srange s))) (drop (nat (range_start (srange s))) sql)
        = takeWhile isIdentCont (drop (nat (byte_offset p)) sql)
    \<and> replacement s \<in> set kws
    \<and> damerauLevenshtein (to_lower (takeWhile isIdentCont (drop (nat (byte_offset p)) sql)))
        (to_lower (replacement s)) \<in> {1, 2}"
proof -
  define pos where "pos = position (FromParseError api kws err sql)"
  have "s \<in> set (SuggestKeyword kws (identifierAt sql pos) pos)"
    using assms by (simp add: FromParseError_def Let_def pos_def)
  then obtain p kw where s: "pos = Some p" "identifierAt sql pos \<noteq> []" "kw \<in> set kws"
    "\<not> equal_fold kw (identifierAt sql pos)" "replacement s = kw"
    "range_start (srange s) = byte_offset p"
    "range_end (srange s) = byte_offset p + int (length (identifierAt sql pos))"
    "damerauLevenshtein (to_lower (identifierAt sql pos)) (to_lower kw) \<le> 2"
    by (rule SuggestKeyword_sound)
  from identifierAt_takeWhile [OF s(2)] s(1) have p: "0 \<le> byte_offset p" "nat (byte_offset p) < length sql"
    and ident: "identifierAt sql pos = takeWhile isIdentCont (drop (nat (byte_offset p)) sql)"
    by auto
  let ?w = "takeWhile isIdentCont (drop (nat (byte_offset p)) sql)"
  have len: "length ?w \<le> length sql - nat (byte_offset p)"
    using length_takeWhile_le [of isIdentCont "drop (nat (byte_offset p)) sql"] by simp
  have "damerauLevenshtein (to_lower ?w) (to_lower kw) \<noteq> 0"
    using s(4) by (simp add: ident osa.dist_zero equal_fold_def)
  with s(8) have "damerauLevenshtein (to_lower ?w) (to_lower kw) \<in> {1, 2}"
    by (auto simp: ident)
  moreover have "nat (byte_offset p + int (length ?w)) - nat (byte_offset p) = length ?w"
    using p by (simp add: nat_add_distrib)
  moreover have "byte_offset p + int (length ?w) \<le> int (length sql)" using len p by linarith
  ultimately show ?thesis
    using s(1,3,5,6) s(7) [unfolded ident] p(1)
    by (intro exI [of _ p]) (simp add: pos_def [symmetric] takeWhile_eq_take [symmetric])
qed

definition sample_api :: "unit error_api" where
  "sample_api = \<lparr>GetPGCode = (\<lambda>_. ''42601''), GetSeverity = (\<lambda>_. ''ERROR''),
     FlattenDetail = (\<lambda>_. detailPrefix @ ''SELECT 1 FORM t'' @ [newline] @ replicate 9 CHR '' '' @ ''^''),
     error_string = (\<lambda>_. ''at or near FORM: syntax error''), as_pg_error = (\<lambda>_. None)\<rparr>"

lemma sample_suggestions:
  "suggestions (FromParseError sample_api [''from'', ''intersect''] () ''SELECT 1 FORM t'') \<noteq> []"
proof -
  let ?pos = "Some \<lparr>line = 1, column = 10, byte_offset = 9\<rparr>"
  have "str_index (FlattenDetail sample_api ()) detail_separator = None" by code_simp
  moreover have "ExtractPosition (FlattenDetail sample_api ()) ''SELECT 1 FORM t'' = ?pos" by code_simp
  moreover have "identifierAt ''SELECT 1 FORM t'' ?pos = ''FORM''"
    by (simp add: identifierAt_def ident_end_takeWhile isIdentStart_def isIdentCont_def is_upper_def
        is_lower_def is_digit_def byte_of_def)
  moreover have "SuggestKeyword [''from'', ''intersect''] ''FORM'' ?pos \<noteq> []" by code_simp
  ultimately show ?thesis
    by (simp add: FromParseError_def Let_def)
qed

theorem FromParseError_suggestion_range_witness:
  "let e = FromParseError sample_api [''from'', ''intersect''] () ''SELECT 1 FORM t''; s = hd (suggestions e) in
    \<exists>p. position e = Some p
    \<and> range_start (srange s) = byte_offset p \<and> 0 \<le> byte_offset p
    \<and> range_end (srange s) \<le> int (length ''SELECT 1 FORM t'')
    \<and> take (nat (range_end (srange s)) - nat (range_start (srange s)))
         (drop (nat (range_start (srange s))) ''SELECT 1 FORM t'')
        = takeWhile isIdentCont (drop (nat (byte_offset p)) ''SELECT 1 FORM t'')
    \<and> replacement s \<in> set [''from'', ''intersect'']
    \<and> damerauLevenshtein (to_lower (takeWhile isIdentCont (drop (nat (byte_offset p)) ''SELECT 1 FORM t'')))
        (to_lower (replacement s)) \<in> {1, 2}"
  unfolding Let_def
  by (rule FromParseError_suggestion_range, rule list.set_sel(1), rule sample_suggestions)

text \<open>A cluster error that carries a protocol error keeps its code, category and message, and when
  the server reports a 1-based character position for a non-empty query, the entry's position points
  into the query at the byte where that character starts; any other error becomes
  \<open>internal_error\<close> with no position.\<close>

theorem FromClusterError_position:
  "(case as_pg_error api err of
      None \<Rightarrow> FromClusterError api err sql = plain_error ''internal_error'' SevError (error_string api err)
    | Some pg \<Rightarrow>
        code (FromClusterError api err sql) = pe_code pg
        \<and> message (FromClusterError api err sql) = pe_message pg
        \<and> category (FromClusterError api err sql) = CategoryForCode (pe_code pg)
        \<and> (if sql = [] \<or> pe_position pg \<le> 0 then position (FromClusterError api err sql) = None
           else (\<exists>p. position (FromClusterError api err sql) = Some p \<and> points_at sql p
                  \<and> byte_offset p = int (length (concat (take (nat (pe_position pg) - 1) (runes sql)))))))"
proof (cases "as_pg_error api err")
  case (Some pg)
  let ?k = "CharIndexToByteOffset sql (pe_position pg - 1)"
  obtain p where p: "PositionFromByteOffset sql (int ?k) = Some p"
    by (cases "lineColumn sql ?k") (auto simp: PositionFromByteOffset_def)
  have "points_at sql p \<and> byte_offset p = int ?k"
    by (rule PositionFromByteOffset_points_at [OF p]) (simp add: CharIndexToByteOffset_le)
  moreover have "nat (pe_position pg - 1) = nat (pe_position pg) - 1" by (simp add: nat_diff_distrib')
  ultimately show ?thesis using Some p
    by (simp add: FromClusterError_def Let_def CharIndexToByteOffset_runes)
qed (simp add: FromClusterError_def)

text \<open>\<open>CategoryForCode\<close> gives a mapped code its own category, any other code of the classes 42, 22
  and 08 the category of its class, and every other code none.\<close>

theorem CategoryForCode_spec:
  "CategoryForCode c =
     (if c \<in> dom codeCategory then the (codeCategory c)
      else if has_prefix c ''42'' then ''syntax_error''
      else if has_prefix c ''22'' then ''type_mismatch''
      else if has_prefix c ''08'' then ''connection_error'' else [])"
proof (cases "codeCategory c")
  case None
  have "2 \<le> length c" if "has_prefix c s" "length s = 2" for s
    using that has_prefix_length by fastforce
  with None show ?thesis
    by (auto simp: CategoryForCode_def classCategory_def has_prefix_def numeral_2_eq_2 split: if_splits)
qed (auto simp: CategoryForCode_def)

end
