(* ===== verification/Ast.thy ===== *)
theory Ast
  imports Go_Prelude
begin

text \<open>
  The parsed statements the analysers work on: what the type switches and field accesses under
  \<open>internal/\<close> read of the \<open>cockroachdb-parser\<close> tree, one constructor per node type the source
  names and \<open>Other...\<close> for the rest. The parser, its classification methods
  (\<open>StatementTag\<close>, \<open>StatementType\<close>, \<open>tree.CanWriteData\<close>, \<open>tree.CanModifySchema\<close>) and its
  formatter are not part of the repository: the classification of a statement is a field of it with
  no law attached, so every theorem holds for any classification, and the formatters are arguments.
  A node the parser always sets is not optional here; what the source tests against \<open>nil\<close> because
  the grammar lets it be absent is an \<open>option\<close>.
\<close>

datatype statement_type = TypeDDL | TypeDML | TypeDCL | TypeTCL | TypeUnclassified

record classification =
  StatementTag :: string
  StatementType :: statement_type
  CanWriteData :: bool
  CanModifySchema :: bool

record table_name =
  Schema :: string
  Table :: string
  name_string :: string

text \<open>Nodes without sub-queries: data definition, transactions, administration.\<close>

record index_elem =
  ie_column :: string
  ie_op_class :: string

record column_def =
  cd_name :: string
  cd_type :: string
  cd_not_null :: bool
  cd_primary_key :: bool
  cd_unique :: bool
  cd_unique_without_index :: bool
  cd_unique_name :: string
  cd_default :: "string option"
  cd_serial :: bool

datatype table_def =
    ColumnTableDef column_def
  | UniqueConstraintTableDef string bool "index_elem list"
  | IndexTableDef string "index_elem list"
  | OtherTableDef

datatype alter_cmd =
    AlterTableDropColumn string
  | AlterTableAddConstraint table_def
  | OtherAlterCmd

datatype locality = LocalityLevelRow | LocalityLevelTable | LocalityLevelGlobal

datatype routine_option = RoutineLangPLpgSQL | OtherRoutineOption

datatype plain_node =
    Explain | ExplainAnalyze
  | SetZoneConfig | SetClusterSetting | SetTracing
  | CreateTenant | DropTenant | AlterTenantSetClusterSetting | AlterTenantRename
  | AlterTenantReset | AlterTenantService
  | AlterTenantCapability | AlterTenantReplication | CreateTenantFromReplication
  | DropTable "table_name list"
  | DropDatabase string
  | AlterTable table_name "alter_cmd list"
  | Truncate "table_name list" bool
  | CreateTable table_name "table_def list" "locality option" bool
  | CreateIndex table_name "index_elem list"
  | DropIndex "table_name list"
  | AlterTableLocality "locality option"
  | CreateRoutine "routine_option list"
  | AlterChangefeed
  | PrepareTransaction | CommitPrepared | RollbackPrepared
  | Savepoint string | ReleaseSavepoint string | RollbackToSavepoint string
  | BeginTransaction | CommitTransaction | RollbackTransaction
  | OtherNode

datatype locking_strength = ForNone | ForKeyShare | ForShare | ForNoKeyUpdate | ForUpdate

text \<open>
  Queries and data modification. \<open>UnresolvedName star parts\<close> has the unqualified name first, as
  \<open>UnresolvedName.Parts\<close> does; \<open>ColumnItem name parts\<close> has the parts of its table name.
\<close>

datatype 'e limit =
    Limit (lim_count: "'e option") (lim_offset: "'e option") (LimitAll: bool)

datatype 'e join_cond =
    NoCond
  | NaturalJoinCond
  | OnJoinCond 'e
  | UsingJoinCond "string list"

datatype 's cte =
    CTE (cte_alias: string) (cte_cols: "string list") (cte_stmt: 's)

datatype 'e update_expr =
    UpdateExpr (ue_names: "string list") (ue_expr: 'e)

datatype 'e on_conflict =
    OnConflict (oc_columns: "string list") (oc_exprs: "'e update_expr list") (oc_where: "'e option")
      (oc_arbiter: "'e option") (DoNothing: bool) (IsUpsertAlias: bool)

datatype 'e select_expr =
    SelectExpr (se_expr: 'e) (se_as: string)

datatype expr =
    UnresolvedName bool "string list"
  | ColumnItem string "string list"
  | Subquery select_statement
  | UnqualifiedStar
  | AllColumnsSelector
  | Placeholder
  | IndexedVar
  | FuncExpr "string list option" "expr list"
  | AndExpr expr expr
  | NumVal string "int option"
  | DInt int
  | OtherExpr string "expr list"

and select_statement =
    SelectClause "expr select_expr list" "table_expr list" "expr option" "expr list" "expr option"
  | UnionClause select select
  | ParenSelect select
  | ValuesClause "expr list list"
  | OtherSelect

and select =
    Select (sel_with: "statement cte list") (sel_stmt: select_statement) (sel_order_by: "expr list")
      (sel_limit: "expr limit option") (sel_locking: "locking_strength list")

and table_expr =
    AliasedTableExpr table_expr string "string list"
  | TableName table_name
  | TableRef
  | SubqueryTable select_statement
  | ParenTableExpr table_expr
  | JoinTableExpr string table_expr table_expr "expr join_cond"
  | OtherTableExpr

and statement =
    SelectStmt (class_of: classification) select
  | Insert (class_of: classification) "statement cte list" table_expr "string list" "select option"
      "expr on_conflict option" "expr list"
  | Update (class_of: classification) "statement cte list" table_expr "table_expr list"
      "expr update_expr list" "expr option" bool "expr list"
  | Delete (class_of: classification) "statement cte list" table_expr "table_expr list" "expr option"
      bool "expr list"
  | Plain (class_of: classification) plain_node

text \<open>\<open>statements.Statement\<close>: the syntax tree with the statement's own text.\<close>

record parsed =
  AST :: statement
  SQL :: string

abbreviation tag_of :: "statement \<Rightarrow> string" where
  "tag_of s \<equiv> StatementTag (class_of s)"

abbreviation type_of :: "statement \<Rightarrow> statement_type" where
  "type_of s \<equiv> StatementType (class_of s)"

text \<open>
  \<open>tree.WalkStmt\<close> and the visitors: the walker presents the nodes of a statement as an ordered
  tree, calls the visitor's \<open>Pre\<close> hook on a node, goes into its children when the hook says so, and
  calls the \<open>Post\<close> hook afterwards. Which nodes hang below which is the parser's knowledge and an
  argument of the analysers (\<open>walk :: statement \<Rightarrow> visit\<close>); \<open>run_visitor\<close> is the calling discipline.
\<close>

datatype visited = VisitExpr expr | VisitTable table_expr | VisitStatement statement

datatype visit = Visit visited "visit list"

fun run_visitor :: "(visited \<Rightarrow> 's \<Rightarrow> bool \<times> 's) \<Rightarrow> (visited \<Rightarrow> 's \<Rightarrow> 's) \<Rightarrow> visit \<Rightarrow> 's \<Rightarrow> 's" where
  "run_visitor pre post (Visit n ns) s =
     (case pre n s of
        (True, s') \<Rightarrow> post n (fold (run_visitor pre post) ns s')
      | (False, s') \<Rightarrow> s')"

text \<open>An invariant of both hooks is an invariant of the walk.\<close>

lemma run_visitor_invariant:
  assumes "\<And>n s. I s \<Longrightarrow> I (snd (pre n s))" "\<And>n s. I s \<Longrightarrow> I (post n s)"
  shows "I s \<Longrightarrow> I (run_visitor pre post v s)"
proof (induction v arbitrary: s)
  case (Visit n ns)
  have fold: "I t \<Longrightarrow> I (fold (run_visitor pre post) ms t)" if "set ms \<subseteq> set ns" for ms t
    using that by (induction ms arbitrary: t) (auto intro: Visit.IH)
  from Visit.prems assms(1) [of s n] fold [of ns "snd (pre n s)"] assms(2)
  show ?case by (auto split: prod.splits bool.splits)
qed

text \<open>
  A visitor whose decision to descend depends on the node only and whose \<open>Post\<close> hook does nothing is
  a fold over the nodes reached.
\<close>

fun reached :: "(visited \<Rightarrow> bool) \<Rightarrow> visit \<Rightarrow> visited list" where
  "reached d (Visit n ns) = n # (if d n then concat (map (reached d) ns) else [])"

lemma run_visitor_fold:
  assumes "\<And>n s. pre n s = (d n, f n s)"
  shows "run_visitor pre (\<lambda>n s. s) v s = fold f (reached d v) s"
proof (induction v arbitrary: s)
  case (Visit n ns)
  have "fold (run_visitor pre (\<lambda>n s. s)) ms t = fold f (concat (map (reached d) ms)) t" if "set ms \<subseteq> set ns" for ms t
    using that by (induction ms arbitrary: t) (auto simp: Visit.IH)
  from this [of ns "f n s"] show ?case by (cases "d n") (simp_all add: assms [of n s])
qed

end
