(* ===== verification/Catalog.thy ===== *)
theory Catalog
  imports Go_Prelude Ast
begin

text \<open>
  Package \<open>internal/catalog\<close>: the schema catalog (\<open>catalog.go\<close>) and its loader from \<open>CREATE TABLE\<close>
  files (\<open>loader.go\<close>). The parser, \<open>os.Stat\<close> and \<open>os.ReadFile\<close> are arguments of the loader. The
  locale \<open>name_store\<close> is the contract of a case-insensitive table store: the last definition of a
  name wins, and a lookup finds a name exactly when the list of names has it up to case. The name
  checkers use the catalog through it.
\<close>

section \<open>The catalog\<close>

record col =
  col_name :: string
  col_type :: string
  nullable :: bool
  col_default :: "string option"

record index =
  index_name :: string
  index_columns :: "string list"
  index_unique :: bool

record ctable =
  tbl_name :: string
  columns :: "col list"
  primary_key :: "string list"
  indexes :: "index list"

record catalog =
  tables :: "ctable list"
  byName :: "string \<rightharpoonup> nat"
  warnings :: "string list"

definition Table :: "catalog \<Rightarrow> string \<Rightarrow> ctable option" where
  "Table c name = (case byName c (to_lower name) of None \<Rightarrow> None | Some i \<Rightarrow> Some (tables c ! i))"

definition TableNames :: "catalog \<Rightarrow> string list" where
  "TableNames c = map tbl_name (tables c)"

section \<open>Reading \<open>CREATE TABLE\<close>\<close>

definition extractColumn :: "column_def \<Rightarrow> col" where
  "extractColumn d =
     \<lparr>col_name = cd_name d, col_type = cd_type d, nullable = \<not> cd_primary_key d \<and> \<not> cd_not_null d,
      col_default = cd_default d\<rparr>"

definition indexElemColumns :: "index_elem list \<Rightarrow> string list" where
  "indexElemColumns elems = map ie_column elems"

record extract_state =
  x_columns :: "col list"
  x_pk :: "string list"
  x_indexes :: "index list"

definition extract_def :: "string \<Rightarrow> extract_state \<Rightarrow> table_def \<Rightarrow> extract_state" where
  "extract_def tableName st d =
     (case d of
        ColumnTableDef cd \<Rightarrow>
          (let c = extractColumn cd;
               st1 = st\<lparr>x_columns := x_columns st @ [c]\<rparr>;
               st2 = (if cd_primary_key cd then st1\<lparr>x_pk := x_pk st1 @ [col_name c]\<rparr> else st1)
           in if cd_unique cd \<and> \<not> cd_unique_without_index cd
              then (let name = (if cd_unique_name cd = [] then tableName @ ''_'' @ col_name c @ ''_key''
                                else cd_unique_name cd)
                    in st2\<lparr>x_indexes := x_indexes st2 @
                         [\<lparr>index_name = name, index_columns = [col_name c], index_unique = True\<rparr>]\<rparr>)
              else st2)
      | UniqueConstraintTableDef name pk elems \<Rightarrow>
          (let cols = indexElemColumns elems in
           if pk then st\<lparr>x_pk := cols\<rparr>
           else st\<lparr>x_indexes := x_indexes st @
                  [\<lparr>index_name = name, index_columns = cols, index_unique = True\<rparr>]\<rparr>)
      | IndexTableDef name elems \<Rightarrow>
          st\<lparr>x_indexes := x_indexes st @
            [\<lparr>index_name = name, index_columns = indexElemColumns elems, index_unique = False\<rparr>]\<rparr>
      | OtherTableDef \<Rightarrow> st)"

definition extractTable :: "string \<Rightarrow> table_def list \<Rightarrow> ctable" where
  "extractTable tableName defs =
     (let st = foldl (extract_def tableName) \<lparr>x_columns = [], x_pk = [], x_indexes = []\<rparr> defs;
          cols = (if x_pk st \<noteq> []
                  then map (\<lambda>c. if col_name c \<in> set (x_pk st) then c\<lparr>nullable := False\<rparr> else c) (x_columns st)
                  else x_columns st)
      in \<lparr>tbl_name = tableName, columns = cols, primary_key = x_pk st, indexes = x_indexes st\<rparr>)"

section \<open>Loading\<close>

definition MaxSchemaFileSize :: int where
  "MaxSchemaFileSize = 100 * 2 ^ 20"

record schema_source =
  src_path :: string
  src_sql :: string
  src_label :: string

definition label :: "schema_source \<Rightarrow> string" where
  "label s =
     (if src_label s \<noteq> [] then src_label s
      else if src_path s \<noteq> [] then src_path s
      else ''<inline SQL>'')"

record file_system =
  os_Stat :: "string \<Rightarrow> string + int"
  os_ReadFile :: "string \<Rightarrow> string + string"

definition readSource :: "file_system \<Rightarrow> schema_source \<Rightarrow> string + string" where
  "readSource fs src =
     (if src_path src \<noteq> [] \<and> src_sql src \<noteq> []
      then Inl (''schema source '' @ label src @ '' has both Path and SQL set; only one is allowed'')
      else if src_path src = [] then Inr (src_sql src)
      else
        (case os_Stat fs (src_path src) of
           Inl e \<Rightarrow> Inl (''stat schema file '' @ label src @ '': '' @ e)
         | Inr sz \<Rightarrow>
             if sz > MaxSchemaFileSize
             then Inl (''schema file '' @ label src @ '' is too large ('' @ itoa sz @ '' bytes, max ''
                       @ itoa MaxSchemaFileSize @ '')'')
             else
               (case os_ReadFile fs (src_path src) of
                  Inl e \<Rightarrow> Inl (''read schema file '' @ label src @ '': '' @ e)
                | Inr d \<Rightarrow> Inr d)))"

definition warn :: "string \<Rightarrow> catalog \<Rightarrow> catalog" where
  "warn w cat = cat\<lparr>warnings := warnings cat @ [w]\<rparr>"

definition put_table :: "string \<Rightarrow> ctable \<Rightarrow> catalog \<Rightarrow> catalog" where
  "put_table lbl tbl cat =
     (let key = to_lower (tbl_name tbl) in
      case byName cat key of
        Some idx \<Rightarrow>
          (let cat' = warn (lbl @ '': table '' @ quote (tbl_name tbl)
                 @ '' defined more than once; using last definition'') cat
           in cat'\<lparr>tables := (tables cat')[idx := tbl]\<rparr>)
      | None \<Rightarrow> cat\<lparr>byName := (byName cat)(key \<mapsto> length (tables cat)), tables := tables cat @ [tbl]\<rparr>)"

text \<open>One statement of a source; the second component collects \<open>skippedTags\<close>.\<close>

definition load_stmt :: "string \<Rightarrow> catalog \<times> string list \<Rightarrow> parsed \<Rightarrow> catalog \<times> string list" where
  "load_stmt lbl st s =
     (case AST s of
        Plain _ (CreateTable tn defs _ False) \<Rightarrow>
          if table_name.Table tn = []
          then (warn (lbl @ '': skipped CREATE TABLE with empty table name'') (fst st), snd st)
          else (put_table lbl (extractTable (table_name.Table tn) defs) (fst st), snd st)
      | _ \<Rightarrow> (fst st, snd st @ [tag_of (AST s)]))"

definition load_source ::
    "(string \<Rightarrow> string + parsed list) \<Rightarrow> file_system \<Rightarrow> catalog \<Rightarrow> schema_source \<Rightarrow> string + catalog" where
  "load_source parse fs cat src =
     (case readSource fs src of
        Inl e \<Rightarrow> Inl e
      | Inr sql \<Rightarrow>
          if sql = [] then Inr (warn (label src @ '': source contained no SQL statements'') cat)
          else
            (case parse sql of
               Inl e \<Rightarrow> Inl (''parse schema '' @ label src @ '': '' @ e)
             | Inr stmts \<Rightarrow>
                 (case foldl (load_stmt (label src)) (cat, []) stmts of
                    (cat', skippedTags) \<Rightarrow>
                      Inr (if length skippedTags > 0
                           then warn (label src @ '': skipped '' @ itoa_nat (length skippedTags)
                                  @ '' non-CREATE TABLE statement(s): '' @ join_with '', '' skippedTags) cat'
                           else cat'))))"

fun load_sources ::
    "(string \<Rightarrow> string + parsed list) \<Rightarrow> file_system \<Rightarrow> catalog \<Rightarrow> schema_source list \<Rightarrow> string + catalog" where
  "load_sources parse fs cat [] = Inr cat"
| "load_sources parse fs cat (src # srcs) =
     (case load_source parse fs cat src of
        Inl e \<Rightarrow> Inl e
      | Inr cat' \<Rightarrow> load_sources parse fs cat' srcs)"

definition empty_catalog :: catalog where
  "empty_catalog = \<lparr>tables = [], byName = Map.empty, warnings = []\<rparr>"

definition Load ::
    "(string \<Rightarrow> string + parsed list) \<Rightarrow> file_system \<Rightarrow> schema_source list \<Rightarrow> string + catalog" where
  "Load parse fs sources = load_sources parse fs empty_catalog sources"

definition LoadFiles ::
    "(string \<Rightarrow> string + parsed list) \<Rightarrow> file_system \<Rightarrow> string list \<Rightarrow> string + catalog" where
  "LoadFiles parse fs paths =
     Load parse fs (map (\<lambda>p. \<lparr>src_path = p, src_sql = [], src_label = []\<rparr>) paths)"

section \<open>Well-formed catalogs\<close>

definition catalog_ok :: "catalog \<Rightarrow> bool" where
  "catalog_ok c \<longleftrightarrow>
     distinct (map (to_lower \<circ> tbl_name) (tables c))
     \<and> (\<forall>key i. byName c key = Some i \<longleftrightarrow> i < length (tables c) \<and> to_lower (tbl_name (tables c ! i)) = key)"

lemma catalog_ok_empty: "catalog_ok empty_catalog"
  by (simp add: catalog_ok_def empty_catalog_def)

lemma warn_sel [simp]: "tables (warn w c) = tables c" "byName (warn w c) = byName c"
  by (simp_all add: warn_def)

lemma catalog_ok_warn [simp]: "catalog_ok (warn w c) = catalog_ok c"
  by (simp add: catalog_ok_def)

lemma Table_warn [simp]: "Table (warn w c) n = Table c n"
  by (simp add: Table_def split: option.split)

lemma byName_None:
  assumes "catalog_ok c" "byName c key = None"
  shows "key \<notin> set (map (to_lower \<circ> tbl_name) (tables c))"
proof
  assume "key \<in> set (map (to_lower \<circ> tbl_name) (tables c))"
  then obtain i where "i < length (tables c)" "to_lower (tbl_name (tables c ! i)) = key"
    by (auto simp: in_set_conv_nth)
  with assms(1) have "byName c key = Some i" by (simp add: catalog_ok_def)
  with assms(2) show False by simp
qed

lemma catalog_ok_put:
  assumes "catalog_ok c" shows "catalog_ok (put_table lbl t c)"
proof (cases "byName c (to_lower (tbl_name t))")
  case None
  have "i < length (tables c) \<Longrightarrow> to_lower (tbl_name (tables c ! i)) \<noteq> to_lower (tbl_name t)" for i
  proof (rule notI)
    assume "i < length (tables c)" "to_lower (tbl_name (tables c ! i)) = to_lower (tbl_name t)"
    then have "to_lower (tbl_name t) \<in> set (map (to_lower \<circ> tbl_name) (tables c))"
      by (metis comp_apply length_map nth_map nth_mem)
    with byName_None [OF assms None] show False by simp
  qed
  with assms None byName_None [OF assms None] show ?thesis
    by (auto simp: catalog_ok_def put_table_def Let_def nth_append less_Suc_eq)
next
  case (Some idx)
  then have idx: "idx < length (tables c)" "to_lower (tbl_name (tables c ! idx)) = to_lower (tbl_name t)"
    using assms by (auto simp: catalog_ok_def)
  then have same: "map (to_lower \<circ> tbl_name) ((tables c)[idx := t]) = map (to_lower \<circ> tbl_name) (tables c)"
    by (simp add: map_update list_update_same_conv)
  have at: "to_lower (tbl_name ((tables c)[idx := t] ! i)) = to_lower (tbl_name (tables c ! i))"
    if "i < length (tables c)" for i
    using that idx by (cases "i = idx") auto
  have put: "tables (put_table lbl t c) = (tables c)[idx := t]" "byName (put_table lbl t c) = byName c"
    by (simp_all add: put_table_def Some Let_def)
  have "byName c key = Some i \<longleftrightarrow> i < length (tables c) \<and> to_lower (tbl_name ((tables c)[idx := t] ! i)) = key"
    for key i
  proof -
    have "byName c key = Some i \<longleftrightarrow> i < length (tables c) \<and> to_lower (tbl_name (tables c ! i)) = key"
      using assms by (simp only: catalog_ok_def)
    with at [of i] show ?thesis by (metis (no_types))
  qed
  moreover have "distinct (map (to_lower \<circ> tbl_name) (tables c))"
    using assms by (simp only: catalog_ok_def)
  ultimately show ?thesis by (simp only: catalog_ok_def put length_list_update same simp_thms)
qed

lemma Table_put:
  assumes "catalog_ok c"
  shows "Table (put_table lbl t c) n = (if equal_fold n (tbl_name t) then Some t else Table c n)"
proof (cases "byName c (to_lower (tbl_name t))")
  case None
  have "i < length (tables c)" if "byName c key = Some i" for key i
    using assms that by (simp add: catalog_ok_def)
  with None show ?thesis
    by (auto simp: put_table_def Table_def equal_fold_def Let_def nth_append split: option.splits)
next
  case (Some idx)
  then have idx: "idx < length (tables c)"
    using assms by (simp add: catalog_ok_def)
  have other: "idx \<noteq> i" if "byName c key = Some i" "key \<noteq> to_lower (tbl_name t)" for key i
    using assms that Some by (auto simp: catalog_ok_def)
  show ?thesis
  proof (cases "byName c (to_lower n)")
    case None
    with Some show ?thesis by (auto simp: put_table_def Table_def equal_fold_def Let_def)
  next
    case n: (Some i)
    with Some idx other [OF n] show ?thesis
      by (auto simp: put_table_def Table_def equal_fold_def Let_def)
  qed
qed

section \<open>What the name checkers rely on\<close>

locale name_store =
  fixes invar :: "'s \<Rightarrow> bool" and empty :: 's and put :: "'v \<Rightarrow> 's \<Rightarrow> 's"
    and lookup :: "'s \<Rightarrow> string \<Rightarrow> 'v option" and names :: "'s \<Rightarrow> string list" and name_of :: "'v \<Rightarrow> string"
  assumes invar_empty: "invar empty"
    and lookup_empty: "lookup empty n = None"
    and invar_put: "invar s \<Longrightarrow> invar (put v s)"
    and lookup_put: "invar s \<Longrightarrow> lookup (put v s) n = (if equal_fold n (name_of v) then Some v else lookup s n)"
    and lookup_names: "invar s \<Longrightarrow> lookup s n \<noteq> None \<longleftrightarrow> (\<exists>m \<in> set (names s). equal_fold m n)"
    and lookup_name_of: "invar s \<Longrightarrow> lookup s n = Some v \<Longrightarrow> equal_fold (name_of v) n \<and> name_of v \<in> set (names s)"
    and names_distinct: "invar s \<Longrightarrow> distinct (map to_lower (names s))"
begin

lemma lookup_fold: "invar s \<Longrightarrow> equal_fold n n' \<Longrightarrow> lookup s n \<noteq> None \<longleftrightarrow> lookup s n' \<noteq> None"
  unfolding lookup_names by (auto intro: equal_fold_trans equal_fold_sym [THEN iffD1])

lemma missing_name: "invar s \<Longrightarrow> lookup s n = None \<Longrightarrow> m \<in> set (names s) \<Longrightarrow> \<not> equal_fold m n"
  using lookup_names by blast

lemma puts:
  "invar s \<Longrightarrow> invar (fold put vs s) \<and>
     lookup (fold put vs s) n =
       (case find (\<lambda>v. equal_fold n (name_of v)) (rev vs) of Some v \<Rightarrow> Some v | None \<Rightarrow> lookup s n)"
proof (induction vs rule: rev_induct)
  case (snoc v vs)
  then show ?case by (simp add: invar_put lookup_put)
qed simp

lemma last_put_wins:
  "lookup (fold put vs empty) n = find (\<lambda>v. equal_fold n (name_of v)) (rev vs)"
  using puts [OF invar_empty, of vs n] lookup_empty by (auto split: option.splits)

end

lemma Table_names:
  assumes "catalog_ok c"
  shows "Table c n \<noteq> None \<longleftrightarrow> (\<exists>m \<in> set (TableNames c). equal_fold m n)"
proof
  assume "Table c n \<noteq> None"
  then obtain i where "byName c (to_lower n) = Some i" by (auto simp: Table_def split: option.splits)
  with assms show "\<exists>m \<in> set (TableNames c). equal_fold m n"
    by (auto simp: catalog_ok_def TableNames_def equal_fold_def)
next
  assume "\<exists>m \<in> set (TableNames c). equal_fold m n"
  then have "to_lower n \<in> set (map (to_lower \<circ> tbl_name) (tables c))"
    by (force simp: TableNames_def equal_fold_def)
  then have "byName c (to_lower n) \<noteq> None" using byName_None [OF assms] by blast
  then show "Table c n \<noteq> None" by (auto simp: Table_def)
qed

lemma Table_name_of:
  assumes "catalog_ok c" "Table c n = Some v"
  shows "equal_fold (tbl_name v) n \<and> tbl_name v \<in> set (TableNames c)"
  using assms by (auto simp: Table_def catalog_ok_def equal_fold_def TableNames_def split: option.splits)

interpretation store: name_store catalog_ok empty_catalog "put_table lbl" Table TableNames tbl_name for lbl
proof unfold_locales
  show "Table empty_catalog n = None" for n by (simp add: Table_def empty_catalog_def)
  show "distinct (map to_lower (TableNames s))" if "catalog_ok s" for s
    using that by (simp add: catalog_ok_def TableNames_def)
qed (use catalog_ok_empty catalog_ok_put Table_put Table_names Table_name_of in \<open>blast+\<close>)

lemma load_stmt_ok: "catalog_ok (fst st) \<Longrightarrow> catalog_ok (fst (load_stmt lbl st s))"
  by (auto simp: load_stmt_def catalog_ok_put split: statement.splits plain_node.splits bool.splits)

lemma load_stmts_ok: "catalog_ok (fst st) \<Longrightarrow> catalog_ok (fst (foldl (load_stmt lbl) st ss))"
  by (induction ss arbitrary: st) (simp_all add: load_stmt_ok)

lemma load_source_ok: "load_source parse fs c src = Inr c' \<Longrightarrow> catalog_ok c \<Longrightarrow> catalog_ok c'"
  using load_stmts_ok [of "(c, [])" "label src"]
  by (auto simp: load_source_def split: sum.splits if_splits prod.splits) (metis fst_conv)+

lemma load_sources_ok: "load_sources parse fs c srcs = Inr c' \<Longrightarrow> catalog_ok c \<Longrightarrow> catalog_ok c'"
  by (induction srcs arbitrary: c) (auto split: sum.splits dest: load_source_ok)

section \<open>What is loaded\<close>

definition stmt_table :: "parsed \<Rightarrow> ctable option" where
  "stmt_table s =
     (case AST s of
        Plain _ (CreateTable tn defs _ False) \<Rightarrow>
          if table_name.Table tn = [] then None else Some (extractTable (table_name.Table tn) defs)
      | _ \<Rightarrow> None)"

definition schema_tables ::
    "(string \<Rightarrow> string + parsed list) \<Rightarrow> file_system \<Rightarrow> schema_source \<Rightarrow> ctable list" where
  "schema_tables parse fs src =
     (case readSource fs src of
        Inl _ \<Rightarrow> []
      | Inr sql \<Rightarrow>
          if sql = [] then []
          else (case parse sql of Inl _ \<Rightarrow> [] | Inr stmts \<Rightarrow> List.map_filter stmt_table stmts))"

definition latest :: "string \<Rightarrow> ctable list \<Rightarrow> ctable option \<Rightarrow> ctable option" where
  "latest n ts d =
     (case find (\<lambda>t. equal_fold n (tbl_name t)) (rev ts) of Some t \<Rightarrow> Some t | None \<Rightarrow> d)"

lemma latest_Nil [simp]: "latest n [] d = d"
  by (simp add: latest_def)

lemma find_append: "find P (xs @ ys) = (case find P xs of Some x \<Rightarrow> Some x | None \<Rightarrow> find P ys)"
  by (induction xs) auto

lemma latest_append: "latest n (ts @ us) d = latest n us (latest n ts d)"
  by (simp add: latest_def find_append split: option.split)

lemma latest_single: "latest n [t] d = (if equal_fold n (tbl_name t) then Some t else d)"
  by (simp add: latest_def)

lemma map_filter_Cons: "List.map_filter f (x # xs) = (case f x of None \<Rightarrow> [] | Some y \<Rightarrow> [y]) @ List.map_filter f xs"
  by (simp add: List.map_filter_simps split: option.split)

lemma Table_load_stmt:
  assumes "catalog_ok (fst st)"
  shows "Table (fst (load_stmt lbl st s)) n = latest n (case stmt_table s of None \<Rightarrow> [] | Some t \<Rightarrow> [t]) (Table (fst st) n)"
  using assms
  by (auto simp: load_stmt_def stmt_table_def store.lookup_put latest_single
      split: statement.splits plain_node.splits bool.splits)

lemma Table_load_stmts:
  "catalog_ok (fst st) \<Longrightarrow>
   Table (fst (foldl (load_stmt lbl) st ss)) n = latest n (List.map_filter stmt_table ss) (Table (fst st) n)"
proof (induction ss arbitrary: st)
  case (Cons s ss)
  then show ?case
    by (simp add: load_stmt_ok Table_load_stmt List.map_filter_simps latest_append [symmetric] split: option.split)
qed (simp add: List.map_filter_simps)

lemma Table_load_source:
  assumes "load_source parse fs c src = Inr c'" "catalog_ok c"
  shows "Table c' n = latest n (schema_tables parse fs src) (Table c n)"
  using assms Table_load_stmts [of "(c, [])" "label src" _ n]
  by (auto simp: load_source_def schema_tables_def split: sum.splits if_splits prod.splits) (metis fst_conv)+

lemma Table_load_sources:
  "load_sources parse fs c srcs = Inr c' \<Longrightarrow> catalog_ok c \<Longrightarrow>
   Table c' n = latest n (concat (map (schema_tables parse fs) srcs)) (Table c n)"
proof (induction srcs arbitrary: c)
  case (Cons src srcs)
  then obtain c1 where c1: "load_source parse fs c src = Inr c1" "load_sources parse fs c1 srcs = Inr c'"
    by (auto split: sum.splits)
  with Cons.IH [OF c1(2) load_source_ok [OF c1(1) Cons.prems(2)]] Table_load_source [OF c1(1) Cons.prems(2)]
  show ?case by (simp add: latest_append)
qed simp

lemma Load_lookup:
  assumes "Load parse fs sources = Inr c"
  shows "Table c n = find (\<lambda>t. equal_fold n (tbl_name t)) (rev (concat (map (schema_tables parse fs) sources)))"
    and "Table c n \<noteq> None \<longleftrightarrow> (\<exists>m \<in> set (TableNames c). equal_fold m n)"
    and "distinct (map to_lower (TableNames c))"
proof -
  have ok: "catalog_ok c"
    using load_sources_ok [OF assms [unfolded Load_def] catalog_ok_empty] .
  show "Table c n = find (\<lambda>t. equal_fold n (tbl_name t)) (rev (concat (map (schema_tables parse fs) sources)))"
    using Table_load_sources [OF assms [unfolded Load_def] catalog_ok_empty, of n] store.lookup_empty
    by (auto simp: latest_def split: option.splits)
  show "Table c n \<noteq> None \<longleftrightarrow> (\<exists>m \<in> set (TableNames c). equal_fold m n)"
    by (rule store.lookup_names [OF ok])
  show "distinct (map to_lower (TableNames c))"
    by (rule store.names_distinct [OF ok])
qed

definition sample_create :: "string \<Rightarrow> table_def list \<Rightarrow> parsed" where
  "sample_create n defs =
     \<lparr>AST = Plain \<lparr>StatementTag = ''CREATE TABLE'', StatementType = TypeDDL, CanWriteData = False,
        CanModifySchema = True\<rparr> (CreateTable \<lparr>Schema = [], Table = n, name_string = n\<rparr> defs None False),
      SQL = ''CREATE TABLE''\<rparr>"

text \<open>C23: A successfully loaded catalog is a case-insensitive map in which the last definition wins: looking
  a name up gives the last \<open>CREATE TABLE\<close> of that name, in any case, over all sources in order; the
  name list has exactly the names that can be found, none twice up to case.\<close>

theorem Load_last_definition:
  assumes "Load parse fs sources = Inr c"
  shows "Table c n = find (\<lambda>t. equal_fold n (tbl_name t)) (rev (concat (map (schema_tables parse fs) sources)))
    \<and> (Table c n \<noteq> None \<longleftrightarrow> (\<exists>m \<in> set (TableNames c). equal_fold m n))
    \<and> distinct (map to_lower (TableNames c))"
  using Load_lookup [OF assms] by blast

theorem Load_last_definition_witness:
  "\<exists>c. Load (\<lambda>_. Inr [sample_create ''Users'' [], sample_create ''users'' [OtherTableDef]])
        \<lparr>os_Stat = (\<lambda>_. Inl []), os_ReadFile = (\<lambda>_. Inl [])\<rparr>
        [\<lparr>src_path = [], src_sql = ''CREATE'', src_label = []\<rparr>] = Inr c
     \<and> Table c ''USERS'' = Some (extractTable ''users'' [OtherTableDef])"
proof -
  let ?parse = "\<lambda>_. Inr [sample_create ''Users'' [], sample_create ''users'' [OtherTableDef]] :: string + parsed list"
  let ?fs = "\<lparr>os_Stat = (\<lambda>_. Inl []), os_ReadFile = (\<lambda>_. Inl [])\<rparr>"
  let ?src = "\<lparr>src_path = [], src_sql = ''CREATE'', src_label = []\<rparr>"
  obtain c where c: "Load ?parse ?fs [?src] = Inr c"
    by (cases "foldl (load_stmt (label ?src)) (empty_catalog, [])
        [sample_create ''Users'' [], sample_create ''users'' [OtherTableDef]]")
      (auto simp: Load_def load_source_def readSource_def)
  have tables: "schema_tables ?parse ?fs ?src = [extractTable ''Users'' [], extractTable ''users'' [OtherTableDef]]"
    by (simp add: schema_tables_def readSource_def stmt_table_def sample_create_def List.map_filter_simps)
  have name: "tbl_name (extractTable m defs) = m" for m defs by (simp add: extractTable_def Let_def)
  have fold: "equal_fold ''USERS'' ''users''" by code_simp
  show ?thesis
    using Load_last_definition [OF c, of "''USERS''"] c by (auto simp: tables name fold)
qed

lemma extract_pk_names:
  "x_columns (foldl (extract_def n) st defs) = x_columns st @ List.map_filter (\<lambda>d.
     case d of ColumnTableDef cd \<Rightarrow> Some (extractColumn cd) | _ \<Rightarrow> None) defs"
proof (induction defs arbitrary: st)
  case (Cons d defs)
  then show ?case
    by (auto simp: extract_def_def map_filter_Cons Let_def split: table_def.splits)
qed (simp add: List.map_filter_simps)

text \<open>\<open>extractTable\<close> keeps one column per column definition in order, with its name, type and default;
  a column is nullable exactly when it was declared neither \<open>NOT NULL\<close> nor a primary key and is not
  named in the table's primary key.\<close>

theorem extractTable_columns:
  "map (\<lambda>c. (col_name c, col_type c, col_default c, nullable c)) (columns (extractTable n defs)) =
   List.map_filter (\<lambda>d. case d of
       ColumnTableDef cd \<Rightarrow> Some (cd_name cd, cd_type cd, cd_default cd,
         \<not> cd_primary_key cd \<and> \<not> cd_not_null cd \<and> cd_name cd \<notin> set (primary_key (extractTable n defs)))
     | _ \<Rightarrow> None) defs"
proof -
  define st where "st = foldl (extract_def n) \<lparr>x_columns = [], x_pk = [], x_indexes = []\<rparr> defs"
  have pk: "primary_key (extractTable n defs) = x_pk st"
    by (simp add: extractTable_def Let_def st_def)
  have cols: "columns (extractTable n defs)
      = map (\<lambda>c. if col_name c \<in> set (x_pk st) then c\<lparr>nullable := False\<rparr> else c) (x_columns st)"
    by (auto simp: extractTable_def Let_def st_def intro!: map_idI [symmetric])
  have "x_columns st = List.map_filter (\<lambda>d. case d of ColumnTableDef cd \<Rightarrow> Some (extractColumn cd) | _ \<Rightarrow> None) defs"
    unfolding st_def by (subst extract_pk_names) simp
  moreover have "map (\<lambda>c. (col_name c, col_type c, col_default c, nullable c))
      (map (\<lambda>c. if col_name c \<in> set pks then c\<lparr>nullable := False\<rparr> else c)
        (List.map_filter (\<lambda>d. case d of ColumnTableDef cd \<Rightarrow> Some (extractColumn cd) | _ \<Rightarrow> None) defs))
    = List.map_filter (\<lambda>d. case d of
       ColumnTableDef cd \<Rightarrow> Some (cd_name cd, cd_type cd, cd_default cd,
         \<not> cd_primary_key cd \<and> \<not> cd_not_null cd \<and> cd_name cd \<notin> set pks)
     | _ \<Rightarrow> None) defs" for pks
    by (induction defs) (auto simp: List.map_filter_simps extractColumn_def split: table_def.splits)
  ultimately show ?thesis by (simp only: cols pk)
qed

end
