(* ===== verification/Located.thy ===== *)
theory Located
  imports Diag_Position Ast
begin

text \<open>
  Where the statements of a batch lie in their input. Several analysers look for the text of each
  statement from where the previous one ended; \<open>located\<close> says that every text is found there, as it is
  for the parser's output on the same input.
\<close>

definition stmt_span :: "string \<Rightarrow> nat \<Rightarrow> string \<Rightarrow> nat \<times> nat" where
  "stmt_span fullSQL stmtStart stmtSQL =
     (case str_index (drop stmtStart fullSQL) stmtSQL of
        Some rel \<Rightarrow> (stmtStart + rel, stmtStart + rel + length stmtSQL)
      | None \<Rightarrow> (stmtStart, stmtStart + length stmtSQL))"

text \<open>Every statement's text is found from where the previous one ended.\<close>

fun located :: "string \<Rightarrow> nat \<Rightarrow> parsed list \<Rightarrow> bool" where
  "located sql k [] \<longleftrightarrow> True"
| "located sql k (p # ps) \<longleftrightarrow>
     k \<le> length sql \<and> str_index (drop k sql) (SQL p) \<noteq> None \<and> located sql (snd (stmt_span sql k (SQL p))) ps"

lemma stmt_span_bounds:
  assumes "str_index (drop k sql) t \<noteq> None" "k \<le> length sql" "stmt_span sql k t = (b, e)"
  shows "k \<le> b \<and> b \<le> e \<and> e \<le> length sql"
  using assms str_index_Some [of "drop k sql" t]
  by (auto simp: stmt_span_def split: option.splits)

lemma stmt_span_found:
  "str_index (drop k sql) t = Some i \<Longrightarrow> stmt_span sql k t = (k + i, k + i + length t)"
  by (simp add: stmt_span_def)

end
