(* ===== verification/Names_Common.thy ===== *)
theory Names_Common
  imports Diag_Errors Catalog Located
begin

text \<open>
  What the name checkers of \<open>internal/semcheck\<close> share (\<open>names.go\<close>, \<open>functions.go\<close>): where a
  statement lies in the input, the search for the first whole-word occurrence of a name in it, the
  case-folded name sets, and the table-name and function-name checkers, which are visitors of the
  parser's walker. Go's slice expressions panic out of range, so the searches return an
  \<^typ>\<open>'a outcome\<close>. The locale \<open>folded_set\<close> is the contract of the name sets.
\<close>

section \<open>Whole-word search\<close>

definition indexFold :: "string \<Rightarrow> string \<Rightarrow> nat option" where
  "indexFold haystack needle = str_index (to_lower haystack) (to_lower needle)"

definition byteAt :: "string \<Rightarrow> int \<Rightarrow> nat" where
  "byteAt s i = (if i < 0 \<or> i \<ge> int (length s) then 0 else byte_of (s ! nat i))"

definition isIdentByte :: "nat \<Rightarrow> bool" where
  "isIdentByte b \<longleftrightarrow> b = 95 \<or> (97 \<le> b \<and> b \<le> 122) \<or> (65 \<le> b \<and> b \<le> 90) \<or> (48 \<le> b \<and> b \<le> 57)"

definition isWordBoundary :: "string \<Rightarrow> int \<Rightarrow> int \<Rightarrow> bool" where
  "isWordBoundary s start e \<longleftrightarrow> \<not> isIdentByte (byteAt s (start - 1)) \<and> \<not> isIdentByte (byteAt s e)"

lemma indexFold_bound: "indexFold h n = Some r \<Longrightarrow> r + length n \<le> length h"
  using str_index_Some [of "to_lower h" "to_lower n" r] by (simp add: indexFold_def)

text \<open>The loop of \<open>positionFor\<close>: \<open>off\<close> walks over the statement's text.\<close>

function position_from :: "string \<Rightarrow> nat \<Rightarrow> string \<Rightarrow> string \<Rightarrow> nat \<Rightarrow> nat option" where
  "position_from fullSQL stmtStart stmtText name off =
     (if off < length stmtText
      then
        (case indexFold (drop off stmtText) name of
           None \<Rightarrow> None
         | Some rel \<Rightarrow>
             (let a = stmtStart + off + rel in
              if isWordBoundary fullSQL (int a) (int (a + length name)) then Some a
              else position_from fullSQL stmtStart stmtText name (off + (rel + 1))))
      else None)"
  by pat_completeness auto
termination
  by (relation "measure (\<lambda>(f, s, t, n, off). length t - off)") auto

declare position_from.simps [simp del]

definition positionFor :: "string \<Rightarrow> nat \<Rightarrow> nat \<Rightarrow> string \<Rightarrow> position option outcome" where
  "positionFor fullSQL stmtStart stmtEnd name =
     (if name = [] then Ret None
      else if stmtStart > stmtEnd \<or> stmtEnd > length fullSQL then Panic ''slice bounds out of range''
      else
        (case position_from fullSQL stmtStart (drop stmtStart (take stmtEnd fullSQL)) name 0 of
           None \<Rightarrow> Ret None
         | Some a \<Rightarrow> Ret (PositionFromByteOffset fullSQL (int a))))"

text \<open>\<open>a\<close> is a whole-word occurrence of the name inside the statement.\<close>

definition word_at :: "string \<Rightarrow> nat \<Rightarrow> nat \<Rightarrow> string \<Rightarrow> nat \<Rightarrow> bool" where
  "word_at sql s e name a \<longleftrightarrow> s \<le> a \<and> a + length name \<le> e
     \<and> equal_fold (take (length name) (drop a sql)) name
     \<and> isWordBoundary sql (int a) (int (a + length name))"

lemma to_lower_drop: "to_lower (drop n s) = drop n (to_lower s)"
  by (simp add: to_lower_def drop_map)

lemma to_lower_take: "to_lower (take n s) = take n (to_lower s)"
  by (simp add: to_lower_def take_map)

lemma has_prefix_fold:
  "has_prefix (drop k (to_lower t)) (to_lower name) \<longleftrightarrow> equal_fold (take (length name) (drop k t)) name"
  by (simp add: has_prefix_def equal_fold_def to_lower_take to_lower_drop)

lemma position_from_spec:
  assumes "t = drop s (take e sql)" "s \<le> e" "e \<le> length sql" "name \<noteq> []"
  shows "case position_from sql s t name off of
      None \<Rightarrow> (\<forall>a. s + off \<le> a \<longrightarrow> \<not> word_at sql s e name a)
    | Some a \<Rightarrow> s + off \<le> a \<and> word_at sql s e name a \<and> (\<forall>b. s + off \<le> b \<longrightarrow> b < a \<longrightarrow> \<not> word_at sql s e name b)"
  using assms
proof (induction sql s t name off rule: position_from.induct)
  case (1 sql s t name off)
  have len: "length t = e - s" using "1.prems" by simp
  have slice: "take (length name) (drop (s + k) sql) = take (length name) (drop k t)"
    if "k + length name \<le> length t" for k
  proof -
    have "min (length name) (e - (s + k)) = length name" using that len by simp
    then show ?thesis using "1.prems"(1) by (simp add: drop_take add.commute)
  qed
  have word: "word_at sql s e name (s + k) \<longleftrightarrow> k + length name \<le> length t
      \<and> has_prefix (drop k (to_lower t)) (to_lower name)
      \<and> isWordBoundary sql (int (s + k)) (int (s + k + length name))" for k
    using slice [of k] "1.prems"(2) len by (auto simp: word_at_def has_prefix_fold)
  have no_word: "\<not> word_at sql s e name a"
    if "s + off \<le> a" "\<And>k. off \<le> k \<Longrightarrow> k \<le> length t \<Longrightarrow> a = s + k \<Longrightarrow> \<not> has_prefix (drop k (to_lower t)) (to_lower name)" for a
  proof
    assume w: "word_at sql s e name a"
    have "a = s + (a - s)" using that(1) by simp
    with w word [of "a - s"] have "a - s + length name \<le> length t"
      "has_prefix (drop (a - s) (to_lower t)) (to_lower name)" by auto
    with that(2) [of "a - s"] that(1) show False by simp
  qed
  show ?case
  proof (cases "off < length t")
    case False
    have "\<not> word_at sql s e name a" if "s + off \<le> a" for a
    proof
      assume "word_at sql s e name a"
      then have "a + length name \<le> e" by (simp add: word_at_def)
      moreover have "0 < length name" using "1.prems"(4) by simp
      ultimately show False using False len that "1.prems"(2) by linarith
    qed
    with False show ?thesis by (simp add: position_from.simps [of sql])
  next
    case True
    show ?thesis
    proof (cases "indexFold (drop off t) name")
      case None
      have "\<not> word_at sql s e name a" if "s + off \<le> a" for a
      proof (rule no_word [OF that])
        fix k assume "off \<le> k" "k \<le> length t"
        then show "\<not> has_prefix (drop k (to_lower t)) (to_lower name)"
          using str_index_None [OF None [unfolded indexFold_def], of "k - off"]
          by (simp add: to_lower_drop)
      qed
      with None True show ?thesis by (simp add: position_from.simps [of sql])
    next
      case (Some rel)
      let ?a = "s + off + rel"
      have prefix: "has_prefix (drop (off + rel) (to_lower t)) (to_lower name)" "off + rel + length name \<le> length t"
        using str_index_Some [OF Some [unfolded indexFold_def]] True
        by (auto simp: to_lower_drop add.commute)
      have before: "\<not> word_at sql s e name b" if "s + off \<le> b" "b < ?a" for b
      proof (rule no_word [OF that(1)])
        fix k assume "off \<le> k" "b = s + k"
        then show "\<not> has_prefix (drop k (to_lower t)) (to_lower name)"
          using str_index_first [OF Some [unfolded indexFold_def], of "k - off"] that
          by (simp add: to_lower_drop)
      qed
      show ?thesis
      proof (cases "isWordBoundary sql (int ?a) (int (?a + length name))")
        case b: True
        have "word_at sql s e name ?a" using word [of "off + rel"] prefix b by (simp add: add.assoc)
        with Some True b before show ?thesis by (simp add: position_from.simps [of sql] Let_def)
      next
        case b: False
        have "\<not> word_at sql s e name ?a" using b by (simp add: word_at_def)
        with before have before': "\<not> word_at sql s e name b" if "s + off \<le> b" "b < s + (off + (rel + 1))" for b
          using that by (cases "b = ?a") auto
        from "1.IH" [OF True Some refl b "1.prems"] before' show ?thesis
          using Some True b
          by (auto simp: position_from.simps [of sql s t name off] Let_def split: option.splits)
            (meson not_le)+
      qed
    qed
  qed
qed

text \<open>\<open>positionFor\<close> gives the position of the first whole-word occurrence of the name, in any case, inside
  the statement's own text, and none exactly when there is no such occurrence: an occurrence inside a
  longer identifier or in another statement is never reported.\<close>

theorem positionFor_first_word:
  assumes "stmtStart \<le> stmtEnd" "stmtEnd \<le> length sql" "name \<noteq> []"
  shows "\<exists>p. positionFor sql stmtStart stmtEnd name = Ret p \<and>
    (case p of
       None \<Rightarrow> (\<forall>a. \<not> word_at sql stmtStart stmtEnd name a)
     | Some q \<Rightarrow> points_at sql q \<and> (\<exists>a. byte_offset q = int a \<and> word_at sql stmtStart stmtEnd name a
         \<and> (\<forall>b < a. \<not> word_at sql stmtStart stmtEnd name b)))"
proof -
  let ?t = "drop stmtStart (take stmtEnd sql)"
  note spec = position_from_spec [OF refl assms, of 0]
  show ?thesis
  proof (cases "position_from sql stmtStart ?t name 0")
    case None
    have "\<not> word_at sql stmtStart stmtEnd name a" for a
      using spec None by (cases "stmtStart \<le> a") (auto simp: word_at_def)
    with None assms show ?thesis by (simp add: positionFor_def)
  next
    case (Some a)
    with spec have a: "word_at sql stmtStart stmtEnd name a"
      "\<forall>b < a. stmtStart \<le> b \<longrightarrow> \<not> word_at sql stmtStart stmtEnd name b" by auto
    then have first: "\<forall>b < a. \<not> word_at sql stmtStart stmtEnd name b" by (auto simp: word_at_def)
    obtain q where q: "PositionFromByteOffset sql (int a) = Some q"
      by (cases "lineColumn sql a") (auto simp: PositionFromByteOffset_def)
    have "points_at sql q \<and> byte_offset q = int a"
      by (rule PositionFromByteOffset_points_at [OF q]) (use a(1) assms(2) in \<open>auto simp: word_at_def\<close>)
    with Some assms a first q show ?thesis by (auto simp: positionFor_def)
  qed
qed

theorem positionFor_first_word_witness:
  "\<exists>p. positionFor ''SELECT users_x FROM USERS'' 0 25 ''users'' = Ret p \<and>
    (case p of
       None \<Rightarrow> (\<forall>a. \<not> word_at ''SELECT users_x FROM USERS'' 0 25 ''users'' a)
     | Some q \<Rightarrow> points_at ''SELECT users_x FROM USERS'' q \<and> (\<exists>a. byte_offset q = int a
         \<and> word_at ''SELECT users_x FROM USERS'' 0 25 ''users'' a
         \<and> (\<forall>b < a. \<not> word_at ''SELECT users_x FROM USERS'' 0 25 ''users'' b)))"
  by (rule positionFor_first_word) simp_all

end
