(* ===== verification/Names_Tables.thy ===== *)
theory Names_Tables
  imports Names_Common
begin

text \<open>
  The checkers of \<open>internal/semcheck\<close> that are visitors: unknown tables (\<open>CheckTableNames\<close> in
  \<open>names.go\<close>) and unknown functions (\<open>functions.go\<close>). The walker \<open>tree.WalkStmt\<close> is an argument
  \<open>walk\<close> giving the visit tree of a statement, and the built-in function table \<open>tree.FunDefs\<close> an
  argument holding its keys.
\<close>

section \<open>The statement loop\<close>

text \<open>
  \<open>stmtStart\<close> advances over the input; the text of each statement is looked for from there. The
  checkers run \<open>body\<close> with the span of each statement.
\<close>

fun for_statements ::
    "(nat \<Rightarrow> nat \<Rightarrow> statement \<Rightarrow> 's \<Rightarrow> 's outcome) \<Rightarrow> string \<Rightarrow> nat \<Rightarrow> parsed list \<Rightarrow> 's \<Rightarrow> 's outcome" where
  "for_statements body fullSQL stmtStart [] s = Ret s"
| "for_statements body fullSQL stmtStart (p # ps) s =
     (if stmtStart > length fullSQL then Panic ''slice bounds out of range''
      else
        (case stmt_span fullSQL stmtStart (SQL p) of
           (b, e) \<Rightarrow> obind (body b e (AST p) s) (for_statements body fullSQL e ps)))"

section \<open>Name scopes\<close>

definition scope_add :: "string \<Rightarrow> string list \<Rightarrow> string list" where
  "scope_add name names = List.insert (to_lower name) names"

definition scope_has :: "string list \<Rightarrow> string \<Rightarrow> bool" where
  "scope_has names name \<longleftrightarrow> to_lower name \<in> set names"

locale folded_set =
  fixes empty :: 's and add :: "string \<Rightarrow> 's \<Rightarrow> 's" and has :: "'s \<Rightarrow> string \<Rightarrow> bool"
  assumes has_empty: "\<not> has empty n"
    and has_add: "has (add m s) n \<longleftrightarrow> equal_fold m n \<or> has s n"
begin

lemma has_adds: "has (fold add ms s) n \<longleftrightarrow> (\<exists>m \<in> set ms. equal_fold m n) \<or> has s n"
  by (induction ms arbitrary: s) (auto simp: has_add)

lemma has_only: "has (fold add ms empty) n \<longleftrightarrow> (\<exists>m \<in> set ms. equal_fold m n)"
  by (simp add: has_adds has_empty)

end

interpretation nameScope: folded_set "[]" scope_add scope_has
  by unfold_locales (auto simp: scope_add_def scope_has_def equal_fold_def)

definition withClause :: "statement \<Rightarrow> statement cte list" where
  "withClause stmt =
     (case stmt of
        SelectStmt _ s \<Rightarrow> sel_with s
      | Insert _ w _ _ _ _ _ \<Rightarrow> w
      | Update _ w _ _ _ _ _ _ \<Rightarrow> w
      | Delete _ w _ _ _ _ _ \<Rightarrow> w
      | Plain _ _ \<Rightarrow> [])"

definition cte_names :: "statement \<Rightarrow> string list" where
  "cte_names stmt = filter (\<lambda>n. n \<noteq> []) (map cte_alias (withClause stmt))"

section \<open>Unknown tables\<close>

record check_state =
  ck_scope :: "string list"
  ck_seen :: "string list"
  ck_errs :: "error_entry list"

definition unknown_table_error :: "catalog \<Rightarrow> string \<Rightarrow> position option \<Rightarrow> error_entry" where
  "unknown_table_error cat name pos =
     \<lparr>code = ''42P01'', severity = SevError, message = ''relation '' @ quote name @ '' does not exist'',
      position = pos, category = ''unknown_table'',
      econtext = [(''available_tables'', CStrs (TableNames cat))],
      suggestions = Suggest name (TableNames cat) pos\<rparr>"

definition checkTable ::
    "catalog \<Rightarrow> string \<Rightarrow> nat \<Rightarrow> nat \<Rightarrow> string \<Rightarrow> check_state \<Rightarrow> check_state outcome" where
  "checkTable cat fullSQL stmtStart stmtEnd name st =
     (if name = [] \<or> scope_has (ck_scope st) name then Ret st
      else if Table cat name \<noteq> None then Ret st
      else if to_lower name \<in> set (ck_seen st) then Ret st
      else
        obind (positionFor fullSQL stmtStart stmtEnd name) (\<lambda>pos.
          Ret (st\<lparr>ck_seen := to_lower name # ck_seen st,
                 ck_errs := ck_errs st @ [unknown_table_error cat name pos]\<rparr>)))"

text \<open>\<open>VisitTablePre\<close> and \<open>VisitStatementPre\<close>: what is done at a node, and whether to go below it.\<close>

definition table_descends :: "visited \<Rightarrow> bool" where
  "table_descends n = (case n of VisitTable (TableName _) \<Rightarrow> False | VisitTable TableRef \<Rightarrow> False | _ \<Rightarrow> True)"

definition table_step ::
    "catalog \<Rightarrow> string \<Rightarrow> nat \<Rightarrow> nat \<Rightarrow> visited \<Rightarrow> check_state \<Rightarrow> check_state outcome" where
  "table_step cat fullSQL stmtStart stmtEnd n st =
     (case n of
        VisitTable (AliasedTableExpr _ alias _) \<Rightarrow>
          Ret (if alias \<noteq> [] then st\<lparr>ck_scope := scope_add alias (ck_scope st)\<rparr> else st)
      | VisitTable (TableName tn) \<Rightarrow> checkTable cat fullSQL stmtStart stmtEnd (table_name.Table tn) st
      | VisitStatement stmt \<Rightarrow> Ret (st\<lparr>ck_scope := fold scope_add (cte_names stmt) (ck_scope st)\<rparr>)
      | _ \<Rightarrow> Ret st)"

definition table_visit ::
    "(statement \<Rightarrow> visit) \<Rightarrow> catalog \<Rightarrow> string \<Rightarrow> nat \<Rightarrow> nat \<Rightarrow> statement \<Rightarrow> check_state \<Rightarrow> check_state outcome" where
  "table_visit walk cat fullSQL b e stmt st =
     run_visitor (\<lambda>n r. (table_descends n, obind r (table_step cat fullSQL b e n))) (\<lambda>n r. r) (walk stmt)
       (Ret (st\<lparr>ck_scope := []\<rparr>))"

definition CheckTableNames ::
    "(statement \<Rightarrow> visit) \<Rightarrow> parsed list \<Rightarrow> string \<Rightarrow> catalog option \<Rightarrow> error_entry list outcome" where
  "CheckTableNames walk stmts fullSQL cat =
     (case cat of
        None \<Rightarrow> Ret []
      | Some c \<Rightarrow>
          if length stmts = 0 then Ret []
          else
            obind (for_statements (table_visit walk c fullSQL) fullSQL 0 stmts
                     \<lparr>ck_scope = [], ck_seen = [], ck_errs = []\<rparr>)
              (\<lambda>st. Ret (ck_errs st)))"

section \<open>Unknown functions\<close>

definition availableFunctionsSampleSize :: nat where
  "availableFunctionsSampleSize = 25"

definition builtinFunctionNames :: "string list \<Rightarrow> string list" where
  "builtinFunctionNames funDefs = sort (filter (\<lambda>n. str_index n ''.'' = None) funDefs)"

definition sampleNearest :: "string \<Rightarrow> string list \<Rightarrow> int \<Rightarrow> string list" where
  "sampleNearest misspelled candidates limit =
     (if limit \<le> 0 \<or> length candidates = 0 then []
      else
        (let low = to_lower misspelled;
             hits = map (\<lambda>c. \<lparr>sname = c, sdistance = levenshtein low (to_lower c)\<rparr>)
               (filter (\<lambda>c. c \<noteq> [] \<and> \<not> equal_fold c misspelled) candidates)
         in map sname (take (nat limit) (sort_key (\<lambda>h. (sdistance h, sname h)) hits))))"

record func_state =
  fn_seen :: "string list"
  fn_errs :: "error_entry list"

definition unknown_function_error :: "string list \<Rightarrow> string \<Rightarrow> position option \<Rightarrow> error_entry" where
  "unknown_function_error funDefs name pos =
     (let all = builtinFunctionNames funDefs in
      \<lparr>code = ''42883'', severity = SevError, message = ''unknown function: '' @ name @ ''()'',
       position = pos, category = ''unknown_function'',
       econtext = [(''available_functions'',
         CStrs (sampleNearest name all (int availableFunctionsSampleSize)))],
       suggestions = Suggest name all pos\<rparr>)"

text \<open>\<open>ref\<close>: the parts of the function's unresolved name, or none when it is not an unresolved name.\<close>

definition checkFunc ::
    "string list \<Rightarrow> string \<Rightarrow> nat \<Rightarrow> nat \<Rightarrow> string list option \<Rightarrow> func_state \<Rightarrow> func_state outcome" where
  "checkFunc funDefs fullSQL stmtStart stmtEnd ref st =
     (case ref of
        None \<Rightarrow> Ret st
      | Some parts \<Rightarrow>
          if length parts \<noteq> 1 then Ret st
          else
            (let name = parts ! 0; low = to_lower name in
             if name = [] then Ret st
             else if low \<in> set funDefs then Ret st
             else if low \<in> set (fn_seen st) then Ret st
             else
               obind (positionFor fullSQL stmtStart stmtEnd name) (\<lambda>pos.
                 Ret (st\<lparr>fn_seen := low # fn_seen st,
                        fn_errs := fn_errs st @ [unknown_function_error funDefs name pos]\<rparr>))))"

definition func_step ::
    "string list \<Rightarrow> string \<Rightarrow> nat \<Rightarrow> nat \<Rightarrow> visited \<Rightarrow> func_state \<Rightarrow> func_state outcome" where
  "func_step funDefs fullSQL b e n st =
     (case n of VisitExpr (FuncExpr ref _) \<Rightarrow> checkFunc funDefs fullSQL b e ref st | _ \<Rightarrow> Ret st)"

definition func_visit ::
    "(statement \<Rightarrow> visit) \<Rightarrow> string list \<Rightarrow> string \<Rightarrow> nat \<Rightarrow> nat \<Rightarrow> statement \<Rightarrow> func_state \<Rightarrow> func_state outcome" where
  "func_visit walk funDefs fullSQL b e stmt st =
     run_visitor (\<lambda>n r. (True, obind r (func_step funDefs fullSQL b e n))) (\<lambda>n r. r) (walk stmt) (Ret st)"

definition CheckFunctionNames ::
    "(statement \<Rightarrow> visit) \<Rightarrow> string list \<Rightarrow> parsed list \<Rightarrow> string \<Rightarrow> error_entry list outcome" where
  "CheckFunctionNames walk funDefs stmts fullSQL =
     (if length stmts = 0 then Ret []
      else
        obind (for_statements (func_visit walk funDefs fullSQL) fullSQL 0 stmts
                 \<lparr>fn_seen = [], fn_errs = []\<rparr>)
          (\<lambda>st. Ret (fn_errs st)))"

section \<open>Runs over located statements\<close>

text \<open>
  A run over located statements with a body that never panics on a span inside the input returns,
  preserves an invariant \<open>I\<close>, and establishes for each statement a fact \<open>Q\<close> that later statements
  keep.
\<close>

lemma for_statements_run:
  assumes "located sql k ps" "I s"
    and step: "\<And>b e p s. p \<in> set ps \<Longrightarrow> b \<le> e \<Longrightarrow> e \<le> length sql \<Longrightarrow> I s \<Longrightarrow>
      \<exists>s'. body b e (AST p) s = Ret s' \<and> I s' \<and> Q p s' \<and> (\<forall>q. Q q s \<longrightarrow> Q q s')"
  shows "\<exists>s'. for_statements body sql k ps s = Ret s' \<and> I s' \<and> (\<forall>p \<in> set ps. Q p s') \<and> (\<forall>q. Q q s \<longrightarrow> Q q s')"
  using assms
proof (induction ps arbitrary: k s)
  case (Cons p ps)
  obtain b e where be: "stmt_span sql k (SQL p) = (b, e)" by (cases "stmt_span sql k (SQL p)")
  with Cons.prems(1) have k: "k \<le> length sql" "b \<le> e" "e \<le> length sql" "located sql e ps"
    using stmt_span_bounds [of k sql "SQL p" b e] by auto
  obtain s1 where s1: "body b e (AST p) s = Ret s1" "I s1" "Q p s1" "\<forall>q. Q q s \<longrightarrow> Q q s1"
    using Cons.prems(3) [of p b e s] k Cons.prems(2) by auto
  have "\<exists>s'. for_statements body sql e ps s1 = Ret s' \<and> I s' \<and> (\<forall>p \<in> set ps. Q p s') \<and> (\<forall>q. Q q s1 \<longrightarrow> Q q s')"
    using Cons.prems(3) by (intro Cons.IH k s1) auto
  with s1 k be show ?case by auto
qed simp

text \<open>A fold of steps that may panic, over events whose steps return.\<close>

lemma fold_obind_run:
  assumes "I s"
    and "\<And>x s. x \<in> set xs \<Longrightarrow> I s \<Longrightarrow> \<exists>s'. f x s = Ret s' \<and> I s' \<and> Q x s' \<and> (\<forall>y. Q y s \<longrightarrow> Q y s')"
  shows "\<exists>s'. fold (\<lambda>x r. obind r (f x)) xs (Ret s) = Ret s' \<and> I s' \<and> (\<forall>x \<in> set xs. Q x s') \<and> (\<forall>y. Q y s \<longrightarrow> Q y s')"
  using assms
proof (induction xs arbitrary: s)
  case (Cons x xs)
  obtain s1 where s1: "f x s = Ret s1" "I s1" "Q x s1" "\<forall>y. Q y s \<longrightarrow> Q y s1"
    using Cons.prems(2) [of x s] Cons.prems(1) by auto
  have "\<exists>s'. fold (\<lambda>x r. obind r (f x)) xs (Ret s1) = Ret s' \<and> I s' \<and> (\<forall>x \<in> set xs. Q x s') \<and> (\<forall>y. Q y s1 \<longrightarrow> Q y s')"
    using Cons.prems(2) by (intro Cons.IH s1) auto
  with s1 show ?case by auto
qed simp

lemma positionFor_returns:
  "name \<noteq> [] \<Longrightarrow> b \<le> e \<Longrightarrow> e \<le> length sql \<Longrightarrow> \<exists>pos. positionFor sql b e name = Ret pos"
  by (auto simp: positionFor_def split: option.splits)

text \<open>Reported names: one error per name, in order, no name twice up to case.\<close>

definition reports :: "(string \<Rightarrow> position option \<Rightarrow> error_entry) \<Rightarrow> string list \<Rightarrow> error_entry list \<Rightarrow> string list \<Rightarrow> bool" where
  "reports err seen errs ns \<longleftrightarrow>
     list_all2 (\<lambda>e n. \<exists>pos. e = err n pos) errs ns \<and> seen = rev (map to_lower ns) \<and> distinct seen"

lemma reports_distinct: "reports err seen errs ns \<Longrightarrow> distinct (map to_lower ns)"
  unfolding reports_def by (metis distinct_rev)

lemma reports_snoc:
  "reports err seen errs ns \<Longrightarrow> to_lower n \<notin> set seen \<Longrightarrow>
   reports err (to_lower n # seen) (errs @ [err n pos]) (ns @ [n])"
  by (auto simp: reports_def intro!: list_all2_appendI)

section \<open>Tables: what is reported\<close>

definition bound_names :: "visited list \<Rightarrow> string list" where
  "bound_names evs = concat (map (\<lambda>n. case n of
       VisitTable (AliasedTableExpr _ alias _) \<Rightarrow> if alias \<noteq> [] then [alias] else []
     | VisitStatement stmt \<Rightarrow> cte_names stmt
     | _ \<Rightarrow> []) evs)"

definition table_refs :: "visited list \<Rightarrow> string list" where
  "table_refs evs = concat (map (\<lambda>n. case n of VisitTable (TableName tn) \<Rightarrow> [table_name.Table tn] | _ \<Rightarrow> []) evs)"

definition events :: "(statement \<Rightarrow> visit) \<Rightarrow> parsed \<Rightarrow> visited list" where
  "events walk p = reached table_descends (walk (AST p))"

lemma table_visit_fold:
  "table_visit walk c sql b e (AST p) st =
     fold (\<lambda>n r. obind r (table_step c sql b e n)) (events walk p) (Ret (st\<lparr>ck_scope := []\<rparr>))"
  unfolding table_visit_def events_def
  by (rule run_visitor_fold [where d = table_descends and f = "\<lambda>n r. obind r (table_step c sql b e n)"]) simp

definition table_inv :: "catalog \<Rightarrow> string set \<Rightarrow> check_state \<Rightarrow> bool" where
  "table_inv c M st \<longleftrightarrow> (\<exists>ns. reports (unknown_table_error c) (ck_seen st) (ck_errs st) ns
     \<and> (\<forall>n \<in> set ns. n \<noteq> [] \<and> Table c n = None \<and> n \<in> M))"

definition scope_within :: "string list \<Rightarrow> check_state \<Rightarrow> bool" where
  "scope_within bs st \<longleftrightarrow> (\<forall>n. scope_has (ck_scope st) n \<longrightarrow> (\<exists>m \<in> set bs. equal_fold m n))"

definition settled :: "catalog \<Rightarrow> string list \<Rightarrow> check_state \<Rightarrow> string \<Rightarrow> bool" where
  "settled c bs st n \<longleftrightarrow>
     n = [] \<or> Table c n \<noteq> None \<or> (\<exists>m \<in> set bs. equal_fold m n) \<or> to_lower n \<in> set (ck_seen st)"

lemma checkTable_run:
  assumes "b \<le> e" "e \<le> length sql" "table_inv c M st" "scope_within bs st" "name \<in> M"
  shows "\<exists>st'. checkTable c sql b e name st = Ret st' \<and> table_inv c M st' \<and> scope_within bs st'
    \<and> settled c bs st' name \<and> (\<forall>n. settled c bs st n \<longrightarrow> settled c bs st' n)"
proof (cases "name = [] \<or> scope_has (ck_scope st) name \<or> Table c name \<noteq> None \<or> to_lower name \<in> set (ck_seen st)")
  case True
  with assms show ?thesis by (auto simp: checkTable_def settled_def scope_within_def)
next
  case False
  then obtain pos where pos: "positionFor sql b e name = Ret pos"
    using positionFor_returns assms(1,2) by blast
  let ?st = "st\<lparr>ck_seen := to_lower name # ck_seen st, ck_errs := ck_errs st @ [unknown_table_error c name pos]\<rparr>"
  from assms(3) obtain ns where ns: "reports (unknown_table_error c) (ck_seen st) (ck_errs st) ns"
    "\<forall>n \<in> set ns. n \<noteq> [] \<and> Table c n = None \<and> n \<in> M" by (auto simp: table_inv_def)
  have "reports (unknown_table_error c) (ck_seen ?st) (ck_errs ?st) (ns @ [name])"
    using reports_snoc [OF ns(1), of name pos] False by simp
  with ns(2) False assms(5) have "table_inv c M ?st" unfolding table_inv_def
    by (intro exI [of _ "ns @ [name]"]) auto
  moreover have "scope_within bs ?st" using assms(4) by (simp add: scope_within_def)
  ultimately show ?thesis using False pos by (auto simp: checkTable_def settled_def)
qed

lemma table_step_run:
  assumes "b \<le> e" "e \<le> length sql" "table_inv c M st" "scope_within bs st"
    and "set (table_refs [n]) \<subseteq> M" "set (bound_names [n]) \<subseteq> set bs"
  shows "\<exists>st'. table_step c sql b e n st = Ret st' \<and> (table_inv c M st' \<and> scope_within bs st')
    \<and> (\<forall>r \<in> set (table_refs [n]). settled c bs st' r) \<and> (\<forall>m. settled c bs st m \<longrightarrow> settled c bs st' m)"
proof (cases n)
  case (VisitTable te)
  show ?thesis
  proof (cases te)
    case (AliasedTableExpr t a cols)
    with VisitTable assms show ?thesis
      by (auto simp: table_step_def table_inv_def scope_within_def settled_def table_refs_def bound_names_def
          nameScope.has_add)
  next
    case (TableName tn)
    with checkTable_run [OF assms(1-4), of "table_name.Table tn"] VisitTable assms(5) show ?thesis
      by (auto simp: table_step_def table_refs_def)
  qed (use VisitTable assms in \<open>auto simp: table_step_def table_refs_def\<close>)
next
  case (VisitStatement stmt)
  with assms show ?thesis
    by (auto simp: table_step_def table_inv_def scope_within_def settled_def table_refs_def bound_names_def
        nameScope.has_adds)
next
  case (VisitExpr x)
  with assms show ?thesis by (auto simp: table_step_def table_refs_def)
qed

lemma table_visit_run:
  assumes "b \<le> e" "e \<le> length sql" "table_inv c M st" "set (table_refs (events walk p)) \<subseteq> M"
  shows "\<exists>st'. table_visit walk c sql b e (AST p) st = Ret st' \<and> table_inv c M st'
    \<and> (\<forall>r \<in> set (table_refs (events walk p)). settled c (bound_names (events walk p)) st' r)
    \<and> set (ck_seen st) \<subseteq> set (ck_seen st')"
proof -
  let ?bs = "bound_names (events walk p)" and ?st = "st\<lparr>ck_scope := []\<rparr>"
  let ?Q = "\<lambda>n s. (\<forall>r \<in> set (table_refs [n]). settled c ?bs s r)"
  have part: "set (table_refs [n]) \<subseteq> set (table_refs (events walk p))" "set (bound_names [n]) \<subseteq> set ?bs"
    if "n \<in> set (events walk p)" for n
    using that by (auto simp: table_refs_def bound_names_def)
  have "\<exists>st'. fold (\<lambda>n r. obind r (table_step c sql b e n)) (events walk p) (Ret ?st) = Ret st'
      \<and> (table_inv c M st' \<and> scope_within ?bs st' \<and> set (ck_seen st) \<subseteq> set (ck_seen st'))
      \<and> (\<forall>n \<in> set (events walk p). ?Q n st') \<and> (\<forall>n. ?Q n ?st \<longrightarrow> ?Q n st')"
  proof (rule fold_obind_run)
    show "table_inv c M ?st \<and> scope_within ?bs ?st \<and> set (ck_seen st) \<subseteq> set (ck_seen ?st)"
      using assms(3) by (simp add: table_inv_def scope_within_def nameScope.has_empty)
    fix n s
    assume n: "n \<in> set (events walk p)" and s: "table_inv c M s \<and> scope_within ?bs s \<and> set (ck_seen st) \<subseteq> set (ck_seen s)"
    then obtain s' where s': "table_step c sql b e n s = Ret s'" "table_inv c M s'" "scope_within ?bs s'"
      "\<forall>r \<in> set (table_refs [n]). settled c ?bs s' r" "\<forall>m. settled c ?bs s m \<longrightarrow> settled c ?bs s' m"
      using table_step_run [OF assms(1,2), of c M s ?bs n] part [OF n] assms(4) by blast
    have "set (ck_seen s) \<subseteq> set (ck_seen s')"
      using s'(1) by (auto simp: table_step_def checkTable_def obind_eq_Ret
          split: visited.splits table_expr.splits if_splits)
    with s s' show "\<exists>s'. table_step c sql b e n s = Ret s'
      \<and> (table_inv c M s' \<and> scope_within ?bs s' \<and> set (ck_seen st) \<subseteq> set (ck_seen s'))
      \<and> ?Q n s' \<and> (\<forall>y. ?Q y s \<longrightarrow> ?Q y s')"
      by blast
  qed
  then obtain st' where st': "table_visit walk c sql b e (AST p) st = Ret st'" "table_inv c M st'"
    "set (ck_seen st) \<subseteq> set (ck_seen st')" "\<forall>n \<in> set (events walk p). ?Q n st'"
    unfolding table_visit_fold by blast
  have "settled c ?bs st' r" if "r \<in> set (table_refs (events walk p))" for r
    using that st'(4) by (fastforce simp: table_refs_def)
  with st' show ?thesis by blast
qed

lemma CheckTableNames_run:
  assumes "located sql 0 stmts"
  shows "\<exists>st. CheckTableNames walk stmts sql (Some c) = Ret (ck_errs st)
    \<and> table_inv c (\<Union>p \<in> set stmts. set (table_refs (events walk p))) st
    \<and> (\<forall>p \<in> set stmts. \<forall>r \<in> set (table_refs (events walk p)). settled c (bound_names (events walk p)) st r)"
proof -
  let ?M = "\<Union>p \<in> set stmts. set (table_refs (events walk p))"
  let ?st = "\<lparr>ck_scope = [], ck_seen = [], ck_errs = []\<rparr>"
  let ?Q = "\<lambda>p st. \<forall>r \<in> set (table_refs (events walk p)). settled c (bound_names (events walk p)) st r"
  have "\<exists>st. for_statements (table_visit walk c sql) sql 0 stmts ?st = Ret st \<and> table_inv c ?M st
      \<and> (\<forall>p \<in> set stmts. ?Q p st) \<and> (\<forall>q. ?Q q ?st \<longrightarrow> ?Q q st)"
  proof (rule for_statements_run [OF assms])
    show "table_inv c ?M ?st" by (auto simp: table_inv_def reports_def)
    fix b e p s
    assume p: "p \<in> set stmts" "b \<le> e" "e \<le> length sql" "table_inv c ?M s"
    then obtain s' where "table_visit walk c sql b e (AST p) s = Ret s'" "table_inv c ?M s'" "?Q p s'"
      "set (ck_seen s) \<subseteq> set (ck_seen s')"
      using table_visit_run [OF p(2-4), of walk p] by blast
    then show "\<exists>s'. table_visit walk c sql b e (AST p) s = Ret s' \<and> table_inv c ?M s' \<and> ?Q p s' \<and> (\<forall>q. ?Q q s \<longrightarrow> ?Q q s')"
      by (auto simp: settled_def)
  qed
  then obtain st where st: "for_statements (table_visit walk c sql) sql 0 stmts ?st = Ret st"
    "table_inv c ?M st" "\<forall>p \<in> set stmts. ?Q p st" by blast
  moreover from st(1) have "CheckTableNames walk stmts sql (Some c) = Ret (ck_errs st)"
    by (cases stmts) (auto simp: CheckTableNames_def)
  ultimately show ?thesis by blast
qed

text \<open>C24: On parser output \<open>CheckTableNames\<close> never panics and reports each unknown table once, in order: every
  reported name is a table reference of some statement that the catalog lacks (up to case), no two
  reported names are equal up to case, and every reference that the catalog lacks and that no alias or
  common table expression of its own statement binds is reported.\<close>

theorem CheckTableNames_reports:
  assumes "located sql 0 stmts"
  shows "\<exists>errs ns. CheckTableNames walk stmts sql (Some c) = Ret errs
    \<and> list_all2 (\<lambda>e n. \<exists>pos. e = unknown_table_error c n pos) errs ns
    \<and> distinct (map to_lower ns)
    \<and> (\<forall>n \<in> set ns. Table c n = None \<and> (\<exists>p \<in> set stmts. n \<in> set (table_refs (events walk p))))
    \<and> (\<forall>p \<in> set stmts. \<forall>n \<in> set (table_refs (events walk p)).
         n \<noteq> [] \<longrightarrow> Table c n = None \<longrightarrow> \<not> (\<exists>m \<in> set (bound_names (events walk p)). equal_fold m n)
         \<longrightarrow> (\<exists>m \<in> set ns. equal_fold m n))"
proof -
  let ?M = "\<Union>p \<in> set stmts. set (table_refs (events walk p))"
  obtain st where st: "CheckTableNames walk stmts sql (Some c) = Ret (ck_errs st)" "table_inv c ?M st"
    "\<forall>p \<in> set stmts. \<forall>r \<in> set (table_refs (events walk p)). settled c (bound_names (events walk p)) st r"
    using CheckTableNames_run [OF assms] by blast
  then obtain ns where ns: "reports (unknown_table_error c) (ck_seen st) (ck_errs st) ns"
    "\<forall>n \<in> set ns. n \<noteq> [] \<and> Table c n = None \<and> n \<in> ?M" by (auto simp: table_inv_def)
  note st(1)
  moreover have "\<exists>m \<in> set ns. equal_fold m n"
    if "p \<in> set stmts" "n \<in> set (table_refs (events walk p))" "n \<noteq> []" "Table c n = None"
      "\<not> (\<exists>m \<in> set (bound_names (events walk p)). equal_fold m n)" for p n
  proof -
    have "to_lower n \<in> set (ck_seen st)" using st(3) that unfolding settled_def by blast
    then have "to_lower n \<in> to_lower ` set ns" using ns(1) by (simp add: reports_def)
    then show ?thesis by (auto simp: equal_fold_def)
  qed
  moreover have "\<forall>n \<in> set ns. Table c n = None \<and> (\<exists>p \<in> set stmts. n \<in> set (table_refs (events walk p)))"
    using ns(2) by blast
  ultimately show ?thesis using ns(1) reports_distinct [OF ns(1)] unfolding reports_def
    by (intro exI [of _ "ck_errs st"] exI [of _ ns] conjI) auto
qed

definition sample_walk :: "statement \<Rightarrow> visit" where
  "sample_walk stmt = Visit (VisitStatement stmt)
     [Visit (VisitTable (AliasedTableExpr (TableName \<lparr>Schema = [], Table = ''userz'', name_string = ''userz''\<rparr>) ''u'' []))
        [Visit (VisitTable (TableName \<lparr>Schema = [], Table = ''userz'', name_string = ''userz''\<rparr>)) []]]"

definition sample_select :: parsed where
  "sample_select =
     \<lparr>AST = SelectStmt \<lparr>StatementTag = ''SELECT'', StatementType = TypeDML, CanWriteData = False,
        CanModifySchema = False\<rparr> (Select [] OtherSelect [] None []), SQL = ''SELECT 1 FROM userz u''\<rparr>"

lemma sample_located: "located ''SELECT 1 FROM userz u'' 0 [sample_select]"
proof -
  have "str_index ''SELECT 1 FROM userz u'' ''SELECT 1 FROM userz u'' = Some 0" by (simp add: has_prefix_def)
  then show ?thesis by (simp add: sample_select_def)
qed

theorem CheckTableNames_reports_witness:
  "\<exists>errs. CheckTableNames sample_walk [sample_select] ''SELECT 1 FROM userz u'' (Some empty_catalog) = Ret errs
    \<and> errs \<noteq> []"
proof -
  have ev: "events sample_walk sample_select = [VisitStatement (AST sample_select),
      VisitTable (AliasedTableExpr (TableName \<lparr>Schema = [], Table = ''userz'', name_string = ''userz''\<rparr>) ''u'' []),
      VisitTable (TableName \<lparr>Schema = [], Table = ''userz'', name_string = ''userz''\<rparr>)]"
    by (simp add: events_def sample_walk_def table_descends_def)
  have free: "\<not> (\<exists>m \<in> set (bound_names (events sample_walk sample_select)). equal_fold m ''userz'')"
  proof -
    have "bound_names (events sample_walk sample_select) = [''u'']"
      unfolding ev by (simp add: bound_names_def cte_names_def withClause_def sample_select_def)
    then show ?thesis by (simp add: equal_fold_def to_lower_def)
  qed
  obtain errs ns where r: "CheckTableNames sample_walk [sample_select] ''SELECT 1 FROM userz u'' (Some empty_catalog) = Ret errs"
    "list_all2 (\<lambda>e n. \<exists>pos. e = unknown_table_error empty_catalog n pos) errs ns"
    "\<forall>n \<in> set (table_refs (events sample_walk sample_select)). n \<noteq> [] \<longrightarrow> Table empty_catalog n = None \<longrightarrow>
       \<not> (\<exists>m \<in> set (bound_names (events sample_walk sample_select)). equal_fold m n) \<longrightarrow> (\<exists>m \<in> set ns. equal_fold m n)"
    using CheckTableNames_reports [OF sample_located, of sample_walk empty_catalog] by auto
  have "''userz'' \<in> set (table_refs (events sample_walk sample_select))" by (simp add: ev table_refs_def)
  with r(3) free store.lookup_empty have "ns \<noteq> []" by fastforce
  with r(2) have "errs \<noteq> []" by auto
  with r(1) show ?thesis by blast
qed

section \<open>Functions: what is reported\<close>

definition func_refs :: "visited list \<Rightarrow> string list" where
  "func_refs evs = concat (map (\<lambda>n. case n of
       VisitExpr (FuncExpr (Some [name]) _) \<Rightarrow> if name \<noteq> [] then [name] else [] | _ \<Rightarrow> []) evs)"

definition func_events :: "(statement \<Rightarrow> visit) \<Rightarrow> parsed \<Rightarrow> visited list" where
  "func_events walk p = reached (\<lambda>n. True) (walk (AST p))"

lemma func_visit_fold:
  "func_visit walk defs sql b e (AST p) st =
     fold (\<lambda>n r. obind r (func_step defs sql b e n)) (func_events walk p) (Ret st)"
  unfolding func_visit_def func_events_def
  by (rule run_visitor_fold [where d = "\<lambda>n. True" and f = "\<lambda>n r. obind r (func_step defs sql b e n)"]) simp

definition func_inv :: "string list \<Rightarrow> string set \<Rightarrow> func_state \<Rightarrow> bool" where
  "func_inv defs M st \<longleftrightarrow> (\<exists>ns. reports (unknown_function_error defs) (fn_seen st) (fn_errs st) ns
     \<and> (\<forall>n \<in> set ns. to_lower n \<notin> set defs \<and> n \<in> M))"

definition func_settled :: "string list \<Rightarrow> func_state \<Rightarrow> string \<Rightarrow> bool" where
  "func_settled defs st n \<longleftrightarrow> to_lower n \<in> set defs \<or> to_lower n \<in> set (fn_seen st)"

lemma func_step_run:
  assumes "b \<le> e" "e \<le> length sql" "func_inv defs M st" "set (func_refs [n]) \<subseteq> M"
  shows "\<exists>st'. func_step defs sql b e n st = Ret st' \<and> func_inv defs M st'
    \<and> (\<forall>r \<in> set (func_refs [n]). func_settled defs st' r) \<and> (\<forall>m. func_settled defs st m \<longrightarrow> func_settled defs st' m)"
proof (cases "\<exists>name args. n = VisitExpr (FuncExpr (Some [name]) args) \<and> name \<noteq> [] \<and> to_lower name \<notin> set defs
    \<and> to_lower name \<notin> set (fn_seen st)")
  case False
  then have "func_step defs sql b e n st = Ret st"
    by (auto simp: func_step_def checkFunc_def Let_def length_Suc_conv split: visited.splits expr.splits option.splits)
  moreover have "\<forall>r \<in> set (func_refs [n]). func_settled defs st r"
    using False by (auto simp: func_refs_def func_settled_def split: visited.splits expr.splits option.splits list.splits)
  ultimately show ?thesis using assms(3) by auto
next
  case True
  then obtain name args where n: "n = VisitExpr (FuncExpr (Some [name]) args)" "name \<noteq> []"
    "to_lower name \<notin> set defs" "to_lower name \<notin> set (fn_seen st)" by blast
  obtain pos where pos: "positionFor sql b e name = Ret pos"
    using positionFor_returns [OF n(2)] assms(1,2) by blast
  let ?st = "st\<lparr>fn_seen := to_lower name # fn_seen st, fn_errs := fn_errs st @ [unknown_function_error defs name pos]\<rparr>"
  from assms(3) obtain ns where ns: "reports (unknown_function_error defs) (fn_seen st) (fn_errs st) ns"
    "\<forall>n \<in> set ns. to_lower n \<notin> set defs \<and> n \<in> M" by (auto simp: func_inv_def)
  have "reports (unknown_function_error defs) (fn_seen ?st) (fn_errs ?st) (ns @ [name])"
    using reports_snoc [OF ns(1) n(4)] by simp
  with ns(2) n assms(4) have "func_inv defs M ?st" unfolding func_inv_def
    by (intro exI [of _ "ns @ [name]"]) (auto simp: func_refs_def)
  with n pos show ?thesis by (auto simp: func_step_def checkFunc_def Let_def func_settled_def func_refs_def)
qed

lemma CheckFunctionNames_run:
  assumes "located sql 0 stmts"
  shows "\<exists>st. CheckFunctionNames walk defs stmts sql = Ret (fn_errs st)
    \<and> func_inv defs (\<Union>p \<in> set stmts. set (func_refs (func_events walk p))) st
    \<and> (\<forall>p \<in> set stmts. \<forall>r \<in> set (func_refs (func_events walk p)). func_settled defs st r)"
proof -
  let ?M = "\<Union>p \<in> set stmts. set (func_refs (func_events walk p))"
  let ?st = "\<lparr>fn_seen = [], fn_errs = []\<rparr>"
  let ?Q = "\<lambda>p st. \<forall>r \<in> set (func_refs (func_events walk p)). func_settled defs st r"
  have "\<exists>st. for_statements (func_visit walk defs sql) sql 0 stmts ?st = Ret st \<and> func_inv defs ?M st
      \<and> (\<forall>p \<in> set stmts. ?Q p st) \<and> (\<forall>q. ?Q q ?st \<longrightarrow> ?Q q st)"
  proof (rule for_statements_run [OF assms])
    show "func_inv defs ?M ?st" by (auto simp: func_inv_def reports_def)
    fix b e p s
    assume p: "p \<in> set stmts" "b \<le> e" "e \<le> length sql" "func_inv defs ?M s"
    let ?R = "\<lambda>n s. \<forall>r \<in> set (func_refs [n]). func_settled defs s r"
    let ?mono = "\<lambda>s'. \<forall>m. func_settled defs s m \<longrightarrow> func_settled defs s' m"
    have "\<exists>s'. fold (\<lambda>n r. obind r (func_step defs sql b e n)) (func_events walk p) (Ret s) = Ret s'
        \<and> (func_inv defs ?M s' \<and> ?mono s') \<and> (\<forall>n \<in> set (func_events walk p). ?R n s') \<and> (\<forall>n. ?R n s \<longrightarrow> ?R n s')"
    proof (rule fold_obind_run)
      show "func_inv defs ?M s \<and> ?mono s" using p(4) by simp
      fix n t
      assume n: "n \<in> set (func_events walk p)" and t: "func_inv defs ?M t \<and> ?mono t"
      have "set (func_refs [n]) \<subseteq> ?M" using n p(1) by (auto simp: func_refs_def)
      from func_step_run [OF p(2,3) conjunct1 [OF t] this] t
      show "\<exists>t'. func_step defs sql b e n t = Ret t' \<and> (func_inv defs ?M t' \<and> ?mono t') \<and> ?R n t'
          \<and> (\<forall>y. ?R y t \<longrightarrow> ?R y t')" by blast
    qed
    then obtain s' where s': "func_visit walk defs sql b e (AST p) s = Ret s'" "func_inv defs ?M s'" "?mono s'"
      "\<forall>n \<in> set (func_events walk p). ?R n s'" unfolding func_visit_fold by blast
    have "?Q p s'" using s'(4) by (fastforce simp: func_refs_def)
    with s' show "\<exists>s'. func_visit walk defs sql b e (AST p) s = Ret s' \<and> func_inv defs ?M s' \<and> ?Q p s'
        \<and> (\<forall>q. ?Q q s \<longrightarrow> ?Q q s')" by blast
  qed
  then obtain st where st: "for_statements (func_visit walk defs sql) sql 0 stmts ?st = Ret st"
    "func_inv defs ?M st" "\<forall>p \<in> set stmts. ?Q p st" by blast
  moreover from st(1) have "CheckFunctionNames walk defs stmts sql = Ret (fn_errs st)"
    by (cases stmts) (auto simp: CheckFunctionNames_def)
  ultimately show ?thesis by blast
qed

text \<open>On parser output \<open>CheckFunctionNames\<close> never panics and reports exactly the unqualified function names
  in no built-in entry, each once up to case, whatever their nesting.\<close>

theorem CheckFunctionNames_reports:
  assumes "located sql 0 stmts"
  shows "\<exists>errs ns. CheckFunctionNames walk defs stmts sql = Ret errs
    \<and> list_all2 (\<lambda>e n. \<exists>pos. e = unknown_function_error defs n pos) errs ns
    \<and> distinct (map to_lower ns)
    \<and> to_lower ` set ns = to_lower ` (\<Union>p \<in> set stmts. set (func_refs (func_events walk p))) - set defs"
proof -
  let ?M = "\<Union>p \<in> set stmts. set (func_refs (func_events walk p))"
  obtain st where st: "CheckFunctionNames walk defs stmts sql = Ret (fn_errs st)" "func_inv defs ?M st"
    "\<forall>p \<in> set stmts. \<forall>r \<in> set (func_refs (func_events walk p)). func_settled defs st r"
    using CheckFunctionNames_run [OF assms] by blast
  then obtain ns where ns: "reports (unknown_function_error defs) (fn_seen st) (fn_errs st) ns"
    "\<forall>n \<in> set ns. to_lower n \<notin> set defs \<and> n \<in> ?M" by (auto simp: func_inv_def)
  note st(1)
  moreover have "to_lower ` set ns = set (fn_seen st)" using ns(1) by (simp add: reports_def)
  moreover have "to_lower ` set ns = to_lower ` ?M - set defs"
  proof
    show "to_lower ` set ns \<subseteq> to_lower ` ?M - set defs" using ns(2) by blast
    show "to_lower ` ?M - set defs \<subseteq> to_lower ` set ns"
      using st(3) unfolding \<open>to_lower ` set ns = set (fn_seen st)\<close> func_settled_def by blast
  qed
  ultimately show ?thesis using ns(1) reports_distinct [OF ns(1)] unfolding reports_def
    by (intro exI [of _ "fn_errs st"] exI [of _ ns] conjI) simp_all
qed

theorem CheckFunctionNames_reports_witness:
  "\<exists>errs ns. CheckFunctionNames sample_walk [''lower''] [sample_select] ''SELECT 1 FROM userz u'' = Ret errs
    \<and> list_all2 (\<lambda>e n. \<exists>pos. e = unknown_function_error [''lower''] n pos) errs ns
    \<and> distinct (map to_lower ns)
    \<and> to_lower ` set ns = to_lower ` (\<Union>p \<in> set [sample_select]. set (func_refs (func_events sample_walk p))) - set [''lower'']"
  by (rule CheckFunctionNames_reports) (rule sample_located)

end
