(* ===== verification/Names_Columns.thy ===== *)
theory Names_Columns
  imports Names_Tables
begin

text \<open>
  \<open>CheckColumnNames\<close> of \<open>internal/semcheck/names.go\<close>: column references are resolved against a chain of
  scopes, each with its \<open>FROM\<close> sources, common table expressions and select aliases. Go links the
  scopes by a parent pointer and appends to the innermost one while a query is checked; the model's
  \<open>scope\<close> is the list of frames, innermost first, returned updated. A source with \<open>columns == nil\<close> (its
  columns are not known) is \<^const>\<open>None\<close>.
\<close>

section \<open>Scopes\<close>

record source =
  src_alias :: string
  src_columns :: "string list option"

record frame =
  sources :: "source list"
  ctes :: "string \<rightharpoonup> string list option"
  select_aliases :: "string list"

type_synonym scope = "frame list"

definition columnsKnown :: "source \<Rightarrow> bool" where
  "columnsKnown s \<longleftrightarrow> src_columns s \<noteq> None"

definition unknownSource :: "string \<Rightarrow> source" where
  "unknownSource a = \<lparr>src_alias = a, src_columns = None\<rparr>"

definition new_frame :: frame where
  "new_frame = \<lparr>sources = [], ctes = Map.empty, select_aliases = []\<rparr>"

fun add_source :: "source \<Rightarrow> scope \<Rightarrow> scope" where
  "add_source s [] = []"
| "add_source s (f # fs) = f\<lparr>sources := sources f @ [s]\<rparr> # fs"

fun add_aliases :: "string list \<Rightarrow> scope \<Rightarrow> scope" where
  "add_aliases as [] = []"
| "add_aliases as (f # fs) = f\<lparr>select_aliases := fold scope_add as (select_aliases f)\<rparr> # fs"

definition containsFold :: "string list \<Rightarrow> string \<Rightarrow> bool" where
  "containsFold names target \<longleftrightarrow> (\<exists>n \<in> set names. equal_fold n target)"

definition all_sources :: "scope \<Rightarrow> source list" where
  "all_sources sc = concat (map sources sc)"

fun lookupCTE :: "scope \<Rightarrow> string \<Rightarrow> string list option option" where
  "lookupCTE [] name = None"
| "lookupCTE (f # fs) name =
     (case ctes f (to_lower name) of Some cols \<Rightarrow> Some cols | None \<Rightarrow> lookupCTE fs name)"

definition lookupSource :: "scope \<Rightarrow> string \<Rightarrow> source option" where
  "lookupSource sc qualifier = find (\<lambda>s. to_lower (src_alias s) = to_lower qualifier) (all_sources sc)"

definition matchesAlias :: "scope \<Rightarrow> string \<Rightarrow> bool" where
  "matchesAlias sc name \<longleftrightarrow> (\<exists>f \<in> set sc. scope_has (select_aliases f) name)"

definition matchingSources :: "scope \<Rightarrow> string \<Rightarrow> string list" where
  "matchingSources sc name =
     map src_alias (filter (\<lambda>s. case src_columns s of None \<Rightarrow> False | Some cols \<Rightarrow> containsFold cols name)
       (all_sources sc))"

definition columnExistsInScope :: "scope \<Rightarrow> string \<Rightarrow> bool" where
  "columnExistsInScope sc name \<longleftrightarrow>
     (\<exists>s \<in> set (all_sources sc). case src_columns s of None \<Rightarrow> True | Some cols \<Rightarrow> containsFold cols name)"

definition scopeHasUnknownSource :: "scope \<Rightarrow> bool" where
  "scopeHasUnknownSource sc \<longleftrightarrow> (\<exists>s \<in> set (all_sources sc). \<not> columnsKnown s)"

definition availableColumns :: "scope \<Rightarrow> string list" where
  "availableColumns sc =
     dedup_on to_lower [] (concat (map (\<lambda>s. case src_columns s of None \<Rightarrow> [] | Some cols \<Rightarrow> cols) (all_sources sc)))"

definition availableAliases :: "scope \<Rightarrow> string list" where
  "availableAliases sc = filter (\<lambda>a. a \<noteq> []) (map src_alias (all_sources sc))"

section \<open>Projections\<close>

definition part0 :: "string list \<Rightarrow> string" where
  "part0 parts = (case parts of [] \<Rightarrow> [] | p # _ \<Rightarrow> p)"

definition columnNameOf :: "expr select_expr \<Rightarrow> string option" where
  "columnNameOf se =
     (if se_as se \<noteq> [] then Some (se_as se)
      else (case se_expr se of UnresolvedName False parts \<Rightarrow> Some (part0 parts) | _ \<Rightarrow> None))"

definition projectionOf :: "expr select_expr list \<Rightarrow> string list option" where
  "projectionOf exprs =
     (if exprs = [] then None
      else if \<exists>se \<in> set exprs. columnNameOf se = None then None
      else Some (map (the \<circ> columnNameOf) exprs))"

fun inferProjection :: "select_statement \<Rightarrow> string list option" where
  "inferProjection (SelectClause exprs _ _ _ _) = projectionOf exprs"
| "inferProjection (UnionClause (Select _ s _ _ _) _) = inferProjection s"
| "inferProjection (ParenSelect (Select _ s _ _ _)) = inferProjection s"
| "inferProjection _ = None"

definition explicitColumnNames :: "string list \<Rightarrow> string list option" where
  "explicitColumnNames cols = (if length cols = 0 then None else Some cols)"

definition projectedColumns :: "string list \<Rightarrow> select_statement option \<Rightarrow> string list option" where
  "projectedColumns explicitCols sel =
     (case explicitColumnNames explicitCols of
        Some cols \<Rightarrow> Some cols
      | None \<Rightarrow> (case sel of None \<Rightarrow> None | Some s \<Rightarrow> inferProjection s))"

definition selectStatementOf :: "statement \<Rightarrow> select_statement option" where
  "selectStatementOf stmt = (case stmt of SelectStmt _ s \<Rightarrow> Some (sel_stmt s) | _ \<Rightarrow> None)"

section \<open>Sources\<close>

definition sourceForTable :: "catalog \<Rightarrow> string \<Rightarrow> string \<Rightarrow> source" where
  "sourceForTable cat a name =
     (case Table cat name of
        None \<Rightarrow> unknownSource a
      | Some tbl \<Rightarrow> \<lparr>src_alias = a, src_columns = Some (map col_name (columns tbl))\<rparr>)"

definition sourceForName :: "catalog \<Rightarrow> string \<Rightarrow> string \<Rightarrow> scope \<Rightarrow> source" where
  "sourceForName cat a name sc =
     (case lookupCTE sc name of
        Some cols \<Rightarrow> \<lparr>src_alias = a, src_columns = cols\<rparr>
      | None \<Rightarrow> sourceForTable cat a name)"

fun tableNameOf :: "table_expr \<Rightarrow> string option" where
  "tableNameOf (TableName tn) = Some (table_name.Table tn)"
| "tableNameOf (AliasedTableExpr t _ _) = tableNameOf t"
| "tableNameOf (ParenTableExpr t) = tableNameOf t"
| "tableNameOf _ = None"

fun targetSource :: "catalog \<Rightarrow> table_expr \<Rightarrow> scope \<Rightarrow> source" where
  "targetSource cat (AliasedTableExpr t a _) sc =
     (case tableNameOf t of
        Some name \<Rightarrow> sourceForName cat (if a = [] then name else a) name sc
      | None \<Rightarrow> unknownSource a)"
| "targetSource cat (TableName tn) sc = sourceForName cat (table_name.Table tn) (table_name.Table tn) sc"
| "targetSource cat (ParenTableExpr t) sc = targetSource cat t sc"
| "targetSource cat _ sc = unknownSource []"

section \<open>Resolving a reference\<close>

record col_env =
  ce_cat :: catalog
  ce_sql :: string
  ce_start :: nat
  ce_end :: nat

record col_state =
  cs_seen :: "string list"
  cs_errs :: "error_entry list"

definition reportFor ::
    "col_env \<Rightarrow> string \<Rightarrow> string \<Rightarrow> string list \<Rightarrow> error_entry \<Rightarrow> col_state outcome \<Rightarrow> col_state outcome" where
  "reportFor env dedupKey misspelled candidates e r =
     obind r (\<lambda>st.
       let key = to_lower dedupKey in
       if key \<in> set (cs_seen st) then Ret st
       else
         obind (positionFor (ce_sql env) (ce_start env) (ce_end env) misspelled) (\<lambda>pos.
           Ret (st\<lparr>cs_seen := key # cs_seen st,
                  cs_errs := cs_errs st @ [e\<lparr>position := pos, suggestions := Suggest misspelled candidates pos\<rparr>]\<rparr>)))"

definition report ::
    "col_env \<Rightarrow> string \<times> string \<Rightarrow> string list \<Rightarrow> error_entry \<Rightarrow> col_state outcome \<Rightarrow> col_state outcome" where
  "report env ref candidates e r =
     reportFor env (fst ref @ ''.'' @ snd ref) (snd ref) candidates e r"

definition col_error :: "string \<Rightarrow> string \<Rightarrow> string \<Rightarrow> ctx \<Rightarrow> error_entry" where
  "col_error c m cat cx = (plain_error c SevError m)\<lparr>category := cat, econtext := cx\<rparr>"

definition resolveQualified ::
    "col_env \<Rightarrow> string \<times> string \<Rightarrow> scope \<Rightarrow> col_state outcome \<Rightarrow> col_state outcome" where
  "resolveQualified env ref sc r =
     (case lookupSource sc (fst ref) of
        None \<Rightarrow>
          (let aliases = availableAliases sc in
           reportFor env (fst ref) (fst ref) aliases
             (col_error ''42703'' (''missing FROM-clause entry for table '' @ quote (fst ref)) ''unknown_column''
                [(''missing_table'', CStr (fst ref)), (''available_tables'', CStrs aliases)]) r)
      | Some src \<Rightarrow>
          (case src_columns src of
             None \<Rightarrow> r
           | Some cols \<Rightarrow>
               if containsFold cols (snd ref) then r
               else
                 report env ref cols
                   (col_error ''42703'' (''column '' @ quote (snd ref) @ '' does not exist'') ''unknown_column''
                      [(''table'', CStr (src_alias src)), (''available_columns'', CStrs cols)]) r))"

definition resolveUnqualified ::
    "col_env \<Rightarrow> string \<times> string \<Rightarrow> scope \<Rightarrow> col_state outcome \<Rightarrow> col_state outcome" where
  "resolveUnqualified env ref sc r =
     (if matchesAlias sc (snd ref) then r
      else
        (let hasUnknownSource = scopeHasUnknownSource sc; matches = matchingSources sc (snd ref) in
         if length matches = 1 then r
         else if length matches \<ge> 2 then
           report env ref []
             (col_error ''42702'' (''column reference '' @ quote (snd ref) @ '' is ambiguous'') ''ambiguous_reference''
                [(''column'', CStr (snd ref)), (''tables'', CStrs matches)]) r
         else if hasUnknownSource then r
         else
           (let cols = availableColumns sc in
            report env ref cols
              (col_error ''42703'' (''column '' @ quote (snd ref) @ '' does not exist'') ''unknown_column''
                 [(''available_columns'', CStrs cols)]) r)))"

definition resolveRef ::
    "col_env \<Rightarrow> string \<times> string \<Rightarrow> scope \<Rightarrow> col_state outcome \<Rightarrow> col_state outcome" where
  "resolveRef env ref sc r =
     (if snd ref = [] then r
      else if fst ref \<noteq> [] then resolveQualified env ref sc r
      else resolveUnqualified env ref sc r)"

definition refFromUnresolved :: "bool \<Rightarrow> string list \<Rightarrow> string \<times> string" where
  "refFromUnresolved star parts =
     (if star \<or> length parts = 0 then ([], [])
      else (if length parts \<ge> 2 then parts ! 1 else [], parts ! 0))"

definition refFromColumnItem :: "string \<Rightarrow> string list \<Rightarrow> string \<times> string" where
  "refFromColumnItem name tableParts = (if length tableParts \<ge> 1 then tableParts ! 0 else [], name)"

definition checkUsing ::
    "col_env \<Rightarrow> string list \<Rightarrow> scope \<Rightarrow> col_state outcome \<Rightarrow> col_state outcome" where
  "checkUsing env names sc r =
     fold (\<lambda>name r.
       if columnExistsInScope sc name then r
       else
         (let cols = availableColumns sc in
          report env ([], name) cols
            (col_error ''42703'' (''column '' @ quote name @ '' does not exist'') ''unknown_column''
               [(''available_columns'', CStrs cols)]) r)) names r"

definition cte_frame :: "statement cte list \<Rightarrow> frame" where
  "cte_frame with =
     new_frame\<lparr>ctes := fold (\<lambda>c m.
        if cte_alias c \<noteq> []
        then m(to_lower (cte_alias c) \<mapsto> projectedColumns (cte_cols c) (selectStatementOf (cte_stmt c)))
        else m) with Map.empty\<rparr>"

section \<open>The checker\<close>

text \<open>A member of a list is smaller than the list, through the containers of the syntax tree.\<close>

lemma size_member: "x \<in> set xs \<Longrightarrow> f x < size_list f xs"
  by (induction xs) auto

lemma size_cte_stmt: "x \<in> set xs \<Longrightarrow> size (cte_stmt x) < size_list (size_cte size) xs"
  using size_member [of x xs "size_cte size"] by (cases x) simp

lemma size_ue_expr: "x \<in> set xs \<Longrightarrow> size (ue_expr x) < size_list (size_update_expr size) xs"
  using size_member [of x xs "size_update_expr size"] by (cases x) simp

lemma size_se_expr: "x \<in> set xs \<Longrightarrow> size (se_expr x) < size_list (size_select_expr size) xs"
  using size_member [of x xs "size_select_expr size"] by (cases x) simp

lemma size_row:
  "row \<in> set rows \<Longrightarrow> x \<in> set row \<Longrightarrow> size (x :: expr) < size_list (size_list size) rows"
  using size_member [of row rows "size_list size"] size_member [of x row size] by simp

lemmas size_members = size_cte_stmt size_ue_expr size_se_expr size_member [where f = "size_list (size :: expr \<Rightarrow> nat)"]
  size_member [where f = "size :: expr \<Rightarrow> nat"] size_member [where f = "size :: table_expr \<Rightarrow> nat"]

function (sequential)
  checkStatement :: "col_env \<Rightarrow> statement \<Rightarrow> col_state outcome \<Rightarrow> col_state outcome"
and checkSelect :: "col_env \<Rightarrow> select \<Rightarrow> scope \<Rightarrow> col_state outcome \<Rightarrow> col_state outcome"
and checkSelectStatement :: "col_env \<Rightarrow> select_statement \<Rightarrow> scope \<Rightarrow> col_state outcome \<Rightarrow> scope \<times> col_state outcome"
and checkInsert :: "col_env \<Rightarrow> statement \<Rightarrow> scope \<Rightarrow> col_state outcome \<Rightarrow> col_state outcome"
and checkUpdate :: "col_env \<Rightarrow> statement \<Rightarrow> scope \<Rightarrow> col_state outcome \<Rightarrow> col_state outcome"
and checkDelete :: "col_env \<Rightarrow> statement \<Rightarrow> scope \<Rightarrow> col_state outcome \<Rightarrow> col_state outcome"
and walkOnConflict :: "col_env \<Rightarrow> expr on_conflict \<Rightarrow> source \<Rightarrow> scope \<Rightarrow> col_state outcome \<Rightarrow> col_state outcome"
and pushCTEs :: "col_env \<Rightarrow> scope \<Rightarrow> statement cte list \<Rightarrow> col_state outcome \<Rightarrow> scope \<times> col_state outcome"
and addTableExpr :: "col_env \<Rightarrow> table_expr \<Rightarrow> scope \<times> col_state outcome \<Rightarrow> scope \<times> col_state outcome"
and walkExpr :: "col_env \<Rightarrow> scope \<Rightarrow> expr \<Rightarrow> col_state outcome \<Rightarrow> col_state outcome"
where
  "checkStatement env (SelectStmt c s) r = checkSelect env s [] r"
| "checkStatement env (Insert c w t cols rows oc ret) r = checkInsert env (Insert c w t cols rows oc ret) [] r"
| "checkStatement env (Update c w t from exprs wh lim ret) r =
     checkUpdate env (Update c w t from exprs wh lim ret) [] r"
| "checkStatement env (Delete c w t us wh lim ret) r = checkDelete env (Delete c w t us wh lim ret) [] r"
| "checkStatement env (Plain c n) r = r"
| "checkSelect env (Select w s orderBy lim lk) parent0 r0 =
     (let (parent, r1) = pushCTEs env parent0 w r0;
          (sc, r2) = checkSelectStatement env s (new_frame # parent) r1;
          r3 = fold (walkExpr env sc) orderBy r2
      in (case lim of
            None \<Rightarrow> r3
          | Some (Limit count off _) \<Rightarrow>
              (let r4 = (case count of None \<Rightarrow> r3 | Some e \<Rightarrow> walkExpr env sc e r3)
               in (case off of None \<Rightarrow> r4 | Some e \<Rightarrow> walkExpr env sc e r4))))"
| "checkSelectStatement env (SelectClause exprs from wh groupBy having) sc0 r0 =
     (let (sc1, r1) = fold (addTableExpr env) from (sc0, r0);
          sc = add_aliases (filter (\<lambda>a. a \<noteq> []) (map se_as exprs)) sc1;
          r2 = fold (\<lambda>se. walkExpr env sc (se_expr se)) exprs r1;
          r3 = (case wh of None \<Rightarrow> r2 | Some e \<Rightarrow> walkExpr env sc e r2);
          r4 = fold (walkExpr env sc) groupBy r3
      in (sc, case having of None \<Rightarrow> r4 | Some e \<Rightarrow> walkExpr env sc e r4))"
| "checkSelectStatement env (UnionClause left right) sc r =
     (add_source (unknownSource []) sc, checkSelect env right (tl sc) (checkSelect env left (tl sc) r))"
| "checkSelectStatement env (ParenSelect s) sc r =
     (add_source (unknownSource []) sc, checkSelect env s (tl sc) r)"
| "checkSelectStatement env (ValuesClause rows) sc r =
     (sc, fold (walkExpr env sc) (concat rows) r)"
| "checkSelectStatement env OtherSelect sc r = (sc, r)"
| "checkInsert env (Insert c w table cols rows oc ret) parent0 r0 =
     (let (parent, r1) = pushCTEs env parent0 w r0;
          target = targetSource (ce_cat env) table (new_frame # parent);
          sc = add_source target (new_frame # parent);
          r2 = (if columnsKnown target
                then fold (\<lambda>name. resolveRef env (src_alias target, name) sc) cols r1 else r1);
          r3 = (case rows of None \<Rightarrow> r2 | Some s \<Rightarrow> checkSelect env s parent r2);
          r4 = (case oc of None \<Rightarrow> r3 | Some o' \<Rightarrow> walkOnConflict env o' target sc r3)
      in fold (walkExpr env sc) ret r4)"
| "checkInsert env _ parent r = r"
| "checkUpdate env (Update c w table from exprs wh lim ret) parent0 r0 =
     (let (parent, r1) = pushCTEs env parent0 w r0;
          (sc, r2) = fold (addTableExpr env) from
             (add_source (targetSource (ce_cat env) table (new_frame # parent)) (new_frame # parent), r1);
          r3 = fold (\<lambda>ue r. walkExpr env sc (ue_expr ue)
                 (fold (\<lambda>name. resolveRef env ([], name) sc) (ue_names ue) r)) exprs r2;
          r4 = (case wh of None \<Rightarrow> r3 | Some e \<Rightarrow> walkExpr env sc e r3)
      in fold (walkExpr env sc) ret r4)"
| "checkUpdate env _ parent r = r"
| "checkDelete env (Delete c w table us wh lim ret) parent0 r0 =
     (let (parent, r1) = pushCTEs env parent0 w r0;
          (sc, r2) = fold (addTableExpr env) us
             (add_source (targetSource (ce_cat env) table (new_frame # parent)) (new_frame # parent), r1);
          r3 = (case wh of None \<Rightarrow> r2 | Some e \<Rightarrow> walkExpr env sc e r2)
      in fold (walkExpr env sc) ret r3)"
| "checkDelete env _ parent r = r"
| "walkOnConflict env (OnConflict cols exprs wh arb dn ua) target sc r0 =
     (let r1 = (if columnsKnown target
                then fold (\<lambda>name. resolveRef env (src_alias target, name) sc) cols r0 else r0);
          innerScope = new_frame\<lparr>sources := [unknownSource ''excluded'']\<rparr> # sc;
          r2 = fold (\<lambda>ue r. walkExpr env innerScope (ue_expr ue)
                 (if columnsKnown target
                  then fold (\<lambda>name. resolveRef env (src_alias target, name) sc) (ue_names ue) r else r)) exprs r1;
          r3 = (case wh of None \<Rightarrow> r2 | Some e \<Rightarrow> walkExpr env innerScope e r2)
      in (case arb of None \<Rightarrow> r3 | Some e \<Rightarrow> walkExpr env innerScope e r3))"
| "pushCTEs env parent w r =
     (if w = [] then (parent, r)
      else (cte_frame w # parent, fold (\<lambda>c. checkStatement env (cte_stmt c)) w r))"
| "addTableExpr env (AliasedTableExpr t a cols) (sc, r) =
     (case t of
        TableName tn \<Rightarrow>
          (let name = table_name.Table tn in
           (add_source (sourceForName (ce_cat env) (if a = [] then name else a) name sc) sc, r))
      | SubqueryTable s \<Rightarrow>
          (let (sc', r') = checkSelectStatement env s (new_frame # tl sc) r in
           (add_source \<lparr>src_alias = a, src_columns = projectedColumns cols (Some s)\<rparr> sc, r'))
      | ParenTableExpr inner \<Rightarrow> addTableExpr env (AliasedTableExpr inner a cols) (sc, r)
      | _ \<Rightarrow> (add_source (unknownSource a) sc, r))"
| "addTableExpr env (JoinTableExpr jt left right cond) (sc, r) =
     (let (sc', r') = addTableExpr env right (addTableExpr env left (sc, r)) in
      (sc',
       case cond of
         OnJoinCond e \<Rightarrow> walkExpr env sc' e r'
       | UsingJoinCond names \<Rightarrow> checkUsing env names sc' r'
       | _ \<Rightarrow> r'))"
| "addTableExpr env (TableName tn) (sc, r) =
     (add_source (sourceForName (ce_cat env) (table_name.Table tn) (table_name.Table tn) sc) sc, r)"
| "addTableExpr env (ParenTableExpr t) (sc, r) = addTableExpr env t (sc, r)"
| "addTableExpr env (SubqueryTable s) (sc, r) =
     (let (sc', r') = checkSelectStatement env s (new_frame # tl sc) r in
      (add_source (unknownSource []) sc, r'))"
| "addTableExpr env _ (sc, r) = (add_source (unknownSource []) sc, r)"
| "walkExpr env sc (UnresolvedName star parts) r = resolveRef env (refFromUnresolved star parts) sc r"
| "walkExpr env sc (ColumnItem name tableParts) r = resolveRef env (refFromColumnItem name tableParts) sc r"
| "walkExpr env sc (Subquery s) r = snd (checkSelectStatement env s (new_frame # sc) r)"
| "walkExpr env sc (FuncExpr ref args) r = fold (walkExpr env sc) args r"
| "walkExpr env sc (AndExpr left right) r = walkExpr env sc right (walkExpr env sc left r)"
| "walkExpr env sc (OtherExpr k es) r = fold (walkExpr env sc) es r"
| "walkExpr env sc _ r = r"
  by pat_completeness auto

termination
  by (relation "measure
     (case_sum
       (case_sum
         (case_sum (\<lambda>(_, s, _). 2 * size s + 1) (\<lambda>(_, s, _). 2 * size s))
         (case_sum (\<lambda>(_, s, _). 2 * size s)
           (case_sum (\<lambda>(_, s, _). 2 * size s) (\<lambda>(_, s, _). 2 * size s))))
       (case_sum
         (case_sum (\<lambda>(_, s, _). 2 * size s) (\<lambda>(_, oc, _). 2 * size_on_conflict size oc))
         (case_sum (\<lambda>(_, _, w, _). 2 * size_list (size_cte size) w)
           (case_sum (\<lambda>(_, t, _). 2 * size t) (\<lambda>(_, _, e, _). 2 * size e)))))")
    (auto dest: size_members size_row intro: less_SucI)

text \<open>One checker per statement; \<open>seen\<close> and the error list are shared by all of them.\<close>

definition col_visit :: "catalog \<Rightarrow> string \<Rightarrow> nat \<Rightarrow> nat \<Rightarrow> statement \<Rightarrow> col_state \<Rightarrow> col_state outcome" where
  "col_visit cat fullSQL b e stmt st =
     checkStatement \<lparr>ce_cat = cat, ce_sql = fullSQL, ce_start = b, ce_end = e\<rparr> stmt (Ret st)"

definition CheckColumnNames :: "parsed list \<Rightarrow> string \<Rightarrow> catalog option \<Rightarrow> error_entry list outcome" where
  "CheckColumnNames stmts fullSQL cat =
     (case cat of
        None \<Rightarrow> Ret []
      | Some c \<Rightarrow>
          if length stmts = 0 then Ret []
          else
            obind (for_statements (col_visit c fullSQL) fullSQL 0 stmts \<lparr>cs_seen = [], cs_errs = []\<rparr>)
              (\<lambda>st. Ret (cs_errs st)))"

end
