(* ===== verification/Columns_Correct.thy ===== *)
theory Columns_Correct
  imports Names_Columns
begin

text \<open>
  What \<open>CheckColumnNames\<close> guarantees.
\<close>

lemma fold_inv:
  assumes "\<And>x r. x \<in> set xs \<Longrightarrow> P r \<Longrightarrow> P (f x r)" "P r"
  shows "P (fold f xs r)"
  using assms by (induction xs arbitrary: r) auto

lemma fold_pair_inv:
  assumes "\<And>x sc r. x \<in> set xs \<Longrightarrow> P r \<Longrightarrow> P (snd (f x (sc, r)))" "P (snd p)"
  shows "P (snd (fold f xs p))"
  using assms
proof (induction xs arbitrary: p)
  case (Cons x xs)
  have "P (snd (f x p))" using Cons.prems(1) [of x "snd p" "fst p"] Cons.prems(2) by simp
  with Cons show ?case by simp
qed simp

text \<open>What resolving one reference preserves, checking a statement preserves.\<close>

lemma checker_invariant:
  assumes ref: "\<And>env ref sc r. I env r \<Longrightarrow> I env (resolveRef env ref sc r)"
    and us: "\<And>env names sc r. I env r \<Longrightarrow> I env (checkUsing env names sc r)"
  shows "I env r \<Longrightarrow> I env (checkStatement env s r)"
    and "I env r \<Longrightarrow> I env (checkSelect env sel sc r)"
    and "I env r \<Longrightarrow> I env (snd (checkSelectStatement env ss sc r))"
    and "I env r \<Longrightarrow> I env (checkInsert env s sc r)"
    and "I env r \<Longrightarrow> I env (checkUpdate env s sc r)"
    and "I env r \<Longrightarrow> I env (checkDelete env s sc r)"
    and "I env r \<Longrightarrow> I env (walkOnConflict env oc target sc r)"
    and "I env r \<Longrightarrow> I env (snd (pushCTEs env sc w r))"
    and "I env r \<Longrightarrow> I env (snd (addTableExpr env t (sc, r)))"
    and "I env r \<Longrightarrow> I env (walkExpr env sc e r)"
proof (induction env s r and env sel sc r and env ss sc r and env s sc r and env s sc r and env s sc r
    and env oc target sc r and env sc w r and env t "(sc, r)" and env sc e r
    arbitrary: and and and and and and and and sc r and
    rule: checkStatement_checkSelect_checkSelectStatement_checkInsert_checkUpdate_checkDelete_walkOnConflict_pushCTEs_addTableExpr_walkExpr.induct)
  case (6 env w s orderBy lim lk parent0 r0)
  obtain parent r1 where p: "pushCTEs env parent0 w r0 = (parent, r1)" by fastforce
  obtain sc r2 where q: "checkSelectStatement env s (new_frame # parent) r1 = (sc, r2)" by fastforce
  have "I env r1" using 6(1) 6(6) p by simp
  from 6(2) [OF refl p [symmetric] this] have r2: "I env r2" by (simp add: q)
  note walk = 6(3-5) [OF refl p [symmetric] refl q [symmetric]]
  have r3: "I env (fold (walkExpr env sc) orderBy r2)" by (rule fold_inv [where P = "I env"]) (auto intro: walk(1) r2)
  show ?case
  proof (cases lim)
    case None
    with r3 show ?thesis by (simp add: p q Let_def del: pushCTEs.simps)
  next
    case (Some l)
    obtain count off a where l: "l = Limit count off a" by (cases l)
    have "I env (case count of None \<Rightarrow> fold (walkExpr env sc) orderBy r2 | Some e \<Rightarrow> walkExpr env sc e (fold (walkExpr env sc) orderBy r2))"
      using walk(2) [OF refl Some l] r3 by (auto split: option.split)
    with walk(3) [OF refl Some l refl]
    show ?thesis by (auto simp: Some l p q Let_def split: option.split simp del: pushCTEs.simps)
  qed
next
  case (7 env exprs frm wh groupBy having sc0 r0)
  obtain sc1 r1 where p: "fold (addTableExpr env) frm (sc0, r0) = (sc1, r1)" by fastforce
  define sc where "sc = add_aliases (filter (\<lambda>a. a \<noteq> []) (map se_as exprs)) sc1"
  define r2 where "r2 = fold (\<lambda>se. walkExpr env sc (se_expr se)) exprs r1"
  define r3 where "r3 = (case wh of None \<Rightarrow> r2 | Some e \<Rightarrow> walkExpr env sc e r2)"
  have "I env r1" using fold_pair_inv [of frm "I env" "addTableExpr env" "(sc0, r0)"] 7(1) 7(6) p by simp
  note walk = 7(2-5) [OF refl p [symmetric] sc_def]
  have "I env r2" unfolding r2_def by (rule fold_inv [where P = "I env"]) (auto intro: walk(1) \<open>I env r1\<close>)
  then have "I env r3" using walk(2) [OF r2_def]
    by (auto simp: r3_def split: option.split)
  then have "I env (fold (walkExpr env sc) groupBy r3)" by (intro fold_inv [where P = "I env"] walk(3) [OF r2_def r3_def])
  with walk(4) [OF r2_def r3_def refl] show ?case
    by (auto simp: p Let_def sc_def r2_def r3_def split: option.split)
next
  case (12 env c w table cols rows oc ret parent0 r0)
  obtain parent r1 where p: "pushCTEs env parent0 w r0 = (parent, r1)" by fastforce
  define target where "target = targetSource (ce_cat env) table (new_frame # parent)"
  define sc where "sc = add_source target (new_frame # parent)"
  define r2 where "r2 = (if columnsKnown target
    then fold (\<lambda>name. resolveRef env (src_alias target, name) sc) cols r1 else r1)"
  define r3 where "r3 = (case rows of None \<Rightarrow> r2 | Some s \<Rightarrow> checkSelect env s parent r2)"
  define r4 where "r4 = (case oc of None \<Rightarrow> r3 | Some o' \<Rightarrow> walkOnConflict env o' target sc r3)"
  have "I env r1" using 12(1) 12(5) p by simp
  then have "I env r2" unfolding r2_def by (auto intro!: fold_inv [where P = "I env"] ref)
  note step = 12(2-4) [OF refl p [symmetric] target_def sc_def r2_def]
  have "I env r3" using step(1) \<open>I env r2\<close> by (auto simp: r3_def split: option.split)
  then have "I env r4" using step(2) [OF r3_def] by (auto simp: r4_def split: option.split)
  then have "I env (fold (walkExpr env sc) ret r4)"
    by (intro fold_inv [where P = "I env"] step(3) [OF r3_def r4_def])
  then show ?case
    unfolding r4_def r3_def r2_def sc_def target_def by (simp only: checkInsert.simps p Let_def prod.case)
next
  case (14 env c w table frm exprs wh lim ret parent0 r0)
  obtain parent r1 where p: "pushCTEs env parent0 w r0 = (parent, r1)" by fastforce
  obtain sc r2 where q: "fold (addTableExpr env) frm
      (add_source (targetSource (ce_cat env) table (new_frame # parent)) (new_frame # parent), r1) = (sc, r2)"
    by fastforce
  define r3 where "r3 = fold (\<lambda>ue r. walkExpr env sc (ue_expr ue)
    (fold (\<lambda>name. resolveRef env ([], name) sc) (ue_names ue) r)) exprs r2"
  define r4 where "r4 = (case wh of None \<Rightarrow> r3 | Some e \<Rightarrow> walkExpr env sc e r3)"
  have "I env r1" using 14(1) 14(6) p by simp
  then have "I env r2"
    using fold_pair_inv [where P = "I env" and f = "addTableExpr env" and xs = frm and
        p = "(add_source (targetSource (ce_cat env) table (new_frame # parent)) (new_frame # parent), r1)"]
      14(2) [OF refl p [symmetric]] by (simp add: q del: add_source.simps)
  note walk = 14(3-5) [OF refl p [symmetric] refl q [symmetric]]
  have "I env r3" unfolding r3_def
    by (intro fold_inv [where P = "I env"] walk(1) ref \<open>I env r2\<close>)
  then have "I env r4" using walk(2) [OF r3_def] by (auto simp: r4_def split: option.split)
  then have "I env (fold (walkExpr env sc) ret r4)"
    by (intro fold_inv [where P = "I env"] walk(3) [OF r3_def r4_def])
  then show ?case
    unfolding r4_def r3_def by (simp only: checkUpdate.simps p q Let_def prod.case)
next
  case (16 env c w table us wh lim ret parent0 r0)
  obtain parent r1 where p: "pushCTEs env parent0 w r0 = (parent, r1)" by fastforce
  obtain sc r2 where q: "fold (addTableExpr env) us
      (add_source (targetSource (ce_cat env) table (new_frame # parent)) (new_frame # parent), r1) = (sc, r2)"
    by fastforce
  define r3 where "r3 = (case wh of None \<Rightarrow> r2 | Some e \<Rightarrow> walkExpr env sc e r2)"
  have "I env r1" using 16(1) 16(5) p by simp
  then have "I env r2"
    using fold_pair_inv [where P = "I env" and f = "addTableExpr env" and xs = us and
        p = "(add_source (targetSource (ce_cat env) table (new_frame # parent)) (new_frame # parent), r1)"]
      16(2) [OF refl p [symmetric]] by (simp add: q del: add_source.simps)
  note walk = 16(3-4) [OF refl p [symmetric] refl q [symmetric]]
  have "I env r3" using walk(1) \<open>I env r2\<close> by (auto simp: r3_def split: option.split)
  then have "I env (fold (walkExpr env sc) ret r3)"
    by (intro fold_inv [where P = "I env"] walk(2) [OF r3_def])
  then show ?case
    unfolding r3_def by (simp only: checkDelete.simps p q Let_def prod.case)
next
  case (18 env cols exprs wh arb dn ua target sc r0)
  define r1 where "r1 = (if columnsKnown target
    then fold (\<lambda>name. resolveRef env (src_alias target, name) sc) cols r0 else r0)"
  define innerScope where "innerScope = new_frame\<lparr>sources := [unknownSource ''excluded'']\<rparr> # sc"
  define r2 where "r2 = fold (\<lambda>ue r. walkExpr env innerScope (ue_expr ue)
    (if columnsKnown target
     then fold (\<lambda>name. resolveRef env (src_alias target, name) sc) (ue_names ue) r else r)) exprs r1"
  define r3 where "r3 = (case wh of None \<Rightarrow> r2 | Some e \<Rightarrow> walkExpr env innerScope e r2)"
  note walk = 18(1-3) [OF r1_def innerScope_def]
  have "I env r1" unfolding r1_def using 18(4) by (auto intro!: fold_inv [where P = "I env"] ref)
  then have "I env r2" unfolding r2_def
    by (intro fold_inv [where P = "I env"] walk(1)) (auto intro!: fold_inv [where P = "I env"] ref)
  then have "I env r3" using walk(2) [OF r2_def] by (auto simp: r3_def split: option.split)
  with walk(3) [OF r2_def r3_def]
  have "I env (case arb of None \<Rightarrow> r3 | Some e \<Rightarrow> walkExpr env innerScope e r3)" by (auto split: option.split)
  then show ?case
    unfolding r3_def r2_def innerScope_def r1_def by (simp only: walkOnConflict.simps Let_def)
next
  case (19 env parent w r)
  have "I env (fold (\<lambda>c. checkStatement env (cte_stmt c)) w r)" if "w \<noteq> []"
    using 19 that by (intro fold_inv [where P = "I env"]) auto
  with 19 show ?case by simp
next
  case (10 env rows sc r)
  then have "I env (fold (walkExpr env sc) (concat rows) r)" by (intro fold_inv [where P = "I env"])
  then show ?case by simp
next
  case (20 env t a cols sc r)
  then show ?case by (cases t) (simp_all add: Let_def split_beta)
next
  case (21 env jt left right cond sc r)
  obtain sca ra where p: "addTableExpr env left (sc, r) = (sca, ra)" by fastforce
  obtain sc' r' where q: "addTableExpr env right (sca, ra) = (sc', r')" by fastforce
  have "I env ra" using 21(1) 21(4) p by simp
  then have "I env r'" using 21(2) [OF p] q by simp
  with 21(3) [OF refl] us show ?case by (cases cond) (simp_all add: p q Let_def)
qed (simp_all add: Let_def split_beta ref us fold_inv del: pushCTEs.simps)

section \<open>Every report is justified\<close>

definition missing_table :: "error_entry \<Rightarrow> string \<Rightarrow> bool" where
  "missing_table e k \<longleftrightarrow> (\<exists>q ts. k = to_lower q \<and> code e = ''42703''
     \<and> message e = ''missing FROM-clause entry for table '' @ quote q
     \<and> econtext e = [(''missing_table'', CStr q), (''available_tables'', CStrs ts)]
     \<and> \<not> containsFold ts q \<and> suggestions e = Suggest q ts (position e))"

definition missing_column :: "error_entry \<Rightarrow> string \<Rightarrow> bool" where
  "missing_column e k \<longleftrightarrow> (\<exists>q n cs. k = to_lower (q @ ''.'' @ n) \<and> code e = ''42703''
     \<and> message e = ''column '' @ quote n @ '' does not exist''
     \<and> (''available_columns'', CStrs cs) \<in> set (econtext e)
     \<and> \<not> containsFold cs n \<and> suggestions e = Suggest n cs (position e))"

definition ambiguous_column :: "error_entry \<Rightarrow> string \<Rightarrow> bool" where
  "ambiguous_column e k \<longleftrightarrow> (\<exists>n ts. k = to_lower (''.'' @ n) \<and> code e = ''42702''
     \<and> message e = ''column reference '' @ quote n @ '' is ambiguous''
     \<and> econtext e = [(''column'', CStr n), (''tables'', CStrs ts)]
     \<and> length ts \<ge> 2 \<and> suggestions e = [])"

definition justified :: "error_entry \<Rightarrow> string \<Rightarrow> bool" where
  "justified e k \<longleftrightarrow> severity e = SevError \<and> (missing_table e k \<or> missing_column e k \<or> ambiguous_column e k)"

definition col_inv :: "col_env \<Rightarrow> col_state outcome \<Rightarrow> bool" where
  "col_inv env r \<longleftrightarrow> (ce_start env \<le> ce_end env \<and> ce_end env \<le> length (ce_sql env) \<longrightarrow>
     (\<exists>st. r = Ret st \<and> list_all2 justified (cs_errs st) (rev (cs_seen st)) \<and> distinct (cs_seen st)))"

lemma positionFor_span: "b \<le> e \<Longrightarrow> e \<le> length sql \<Longrightarrow> \<exists>pos. positionFor sql b e name = Ret pos"
  by (auto simp: positionFor_def split: option.splits)

lemma reportFor_inv:
  assumes "col_inv env r"
    and "\<And>pos. justified (e\<lparr>position := pos, suggestions := Suggest m cands pos\<rparr>) (to_lower key)"
  shows "col_inv env (reportFor env key m cands e r)"
  unfolding col_inv_def
proof (rule impI)
  assume span: "ce_start env \<le> ce_end env \<and> ce_end env \<le> length (ce_sql env)"
  then obtain st where st: "r = Ret st" "list_all2 justified (cs_errs st) (rev (cs_seen st))" "distinct (cs_seen st)"
    using assms(1) by (auto simp: col_inv_def)
  obtain pos where "positionFor (ce_sql env) (ce_start env) (ce_end env) m = Ret pos"
    using positionFor_span span by blast
  with st assms(2) show "\<exists>st. reportFor env key m cands e r = Ret st
      \<and> list_all2 justified (cs_errs st) (rev (cs_seen st)) \<and> distinct (cs_seen st)"
    by (auto simp: reportFor_def Let_def intro: list_all2_appendI)
qed

lemma missing_columnI:
  "\<not> containsFold cs n \<Longrightarrow> (''available_columns'', CStrs cs) \<in> set cx \<Longrightarrow>
   justified ((col_error ''42703'' (''column '' @ quote n @ '' does not exist'') ct cx)
     \<lparr>position := pos, suggestions := Suggest n cs pos\<rparr>) (to_lower (q @ ''.'' @ n))"
  unfolding justified_def missing_column_def col_error_def
  by (rule conjI, simp, intro disjI2 disjI1 exI [of _ q] exI [of _ n] exI [of _ cs]) simp

lemma missing_tableI:
  "\<not> containsFold ts q \<Longrightarrow>
   justified ((col_error ''42703'' (''missing FROM-clause entry for table '' @ quote q) ct
       [(''missing_table'', CStr q), (''available_tables'', CStrs ts)])
     \<lparr>position := pos, suggestions := Suggest q ts pos\<rparr>) (to_lower q)"
  unfolding justified_def missing_table_def col_error_def
  by (rule conjI, simp, intro disjI1 exI [of _ q] exI [of _ ts]) simp

lemma ambiguousI:
  "length ts \<ge> 2 \<Longrightarrow>
   justified ((col_error ''42702'' (''column reference '' @ quote n @ '' is ambiguous'') ct
       [(''column'', CStr n), (''tables'', CStrs ts)])
     \<lparr>position := pos, suggestions := Suggest n [] pos\<rparr>) (to_lower ([] @ ''.'' @ n))"
  unfolding justified_def ambiguous_column_def col_error_def
  by (rule conjI, simp, intro disjI2 exI [of _ n] exI [of _ ts]) (simp add: Suggest_def suggestWithDistance_def)

lemma containsFold_iff: "containsFold cs n \<longleftrightarrow> to_lower n \<in> to_lower ` set cs"
  unfolding containsFold_def equal_fold_def by (metis image_iff)

lemma availableColumns_fold:
  "containsFold (availableColumns sc) n \<longleftrightarrow>
   (\<exists>s \<in> set (all_sources sc). case src_columns s of None \<Rightarrow> False | Some cols \<Rightarrow> containsFold cols n)"
proof -
  have "containsFold (availableColumns sc) n \<longleftrightarrow> containsFold
      (concat (map (\<lambda>s. case src_columns s of None \<Rightarrow> [] | Some cols \<Rightarrow> cols) (all_sources sc))) n"
    unfolding containsFold_iff availableColumns_def dedup_on_keys by simp
  also have "\<dots> \<longleftrightarrow> (\<exists>s \<in> set (all_sources sc).
      containsFold (case src_columns s of None \<Rightarrow> [] | Some cols \<Rightarrow> cols) n)"
    by (simp add: containsFold_def)
  also have "\<dots> \<longleftrightarrow> (\<exists>s \<in> set (all_sources sc).
      case src_columns s of None \<Rightarrow> False | Some cols \<Rightarrow> containsFold cols n)"
    by (rule bex_cong [OF refl]) (auto simp: containsFold_def split: option.split)
  finally show ?thesis .
qed

lemma availableAliases_fold:
  "lookupSource sc q = None \<Longrightarrow> \<not> containsFold (availableAliases sc) q"
  by (auto simp: lookupSource_def find_None_iff containsFold_def availableAliases_def equal_fold_def)

lemma matchingSources_none:
  "matchingSources sc n = [] \<longleftrightarrow> \<not> containsFold (availableColumns sc) n"
  by (auto simp: matchingSources_def availableColumns_fold filter_empty_conv)

lemma resolveQualified_inv:
  assumes "col_inv env r" shows "col_inv env (resolveQualified env (q, n) sc r)"
proof (cases "lookupSource sc q")
  case None
  show ?thesis
    unfolding resolveQualified_def Let_def fst_conv snd_conv None option.case
    by (intro reportFor_inv [OF assms] missing_tableI availableAliases_fold None)
next
  case (Some src)
  show ?thesis
  proof (cases "src_columns src")
    case None
    show ?thesis
      unfolding resolveQualified_def Let_def fst_conv snd_conv Some None option.case by (rule assms)
  next
    case (Some cols)
    show ?thesis
      unfolding resolveQualified_def Let_def fst_conv snd_conv \<open>lookupSource sc q = Some src\<close> Some option.case
        report_def
      by (split if_split, intro conjI impI assms reportFor_inv [OF assms] missing_columnI, assumption,
        unfold list.set, blast)
  qed
qed

lemma resolveUnqualified_inv:
  assumes "col_inv env r" shows "col_inv env (resolveUnqualified env ([], n) sc r)"
  unfolding resolveUnqualified_def Let_def fst_conv snd_conv report_def
  apply (simp only: assms if_cancel cong: if_cong split: if_split)
  apply (intro conjI impI assms reportFor_inv [OF assms] missing_columnI ambiguousI)
    apply (simp_all add: matchingSources_none [symmetric] less_Suc_eq not_le numeral_2_eq_2)
  done

lemma resolveRef_inv:
  assumes "col_inv env r" shows "col_inv env (resolveRef env ref sc r)"
  using assms resolveQualified_inv resolveUnqualified_inv by (cases ref) (simp add: resolveRef_def)

lemma columnExists_available:
  assumes "\<not> columnExistsInScope sc n"
  shows "\<not> containsFold (availableColumns sc) n"
  unfolding availableColumns_fold
proof (rule notI, elim bexE)
  fix s assume "s \<in> set (all_sources sc)" "case src_columns s of None \<Rightarrow> False | Some cols \<Rightarrow> containsFold cols n"
  with assms show False by (auto simp: columnExistsInScope_def split: option.splits)
qed

lemma checkUsing_inv:
  assumes "col_inv env r" shows "col_inv env (checkUsing env names sc r)"
  unfolding checkUsing_def
proof (rule fold_inv [where P = "col_inv env", OF _ assms])
  fix name r assume r: "col_inv env r"
  show "col_inv env (if columnExistsInScope sc name then r else
      let cols = availableColumns sc in report env ([], name) cols (col_error ''42703''
        (''column '' @ quote name @ '' does not exist'') ''unknown_column'' [(''available_columns'', CStrs cols)]) r)"
    unfolding Let_def report_def fst_conv snd_conv
    by (split if_split, intro conjI impI r reportFor_inv [OF r] missing_columnI columnExists_available, assumption,
      unfold list.set, blast)
qed

definition users_catalog :: catalog where
  "users_catalog = put_table [] \<lparr>tbl_name = ''users'', columns =
     [\<lparr>col_name = ''id'', col_type = ''INT8'', nullable = False, col_default = None\<rparr>], primary_key = [], indexes = []\<rparr>
     empty_catalog"

definition sample_query :: parsed where
  "sample_query =
     \<lparr>AST = SelectStmt \<lparr>StatementTag = ''SELECT'', StatementType = TypeDML, CanWriteData = False,
        CanModifySchema = False\<rparr> (Select [] (SelectClause [SelectExpr (UnresolvedName False [''ID'', ''u'']) []]
          [AliasedTableExpr (TableName \<lparr>Schema = [], Table = ''users'', name_string = ''users''\<rparr>) ''u'' []]
          (Some (UnresolvedName False [''x''])) [] None) [UnresolvedName False [''x'']] None []),
      SQL = ''SELECT u.ID FROM users u WHERE x ORDER BY x''\<rparr>"

lemma sample_query_located: "located (SQL sample_query) 0 [sample_query]"
proof -
  have "str_index (SQL sample_query) (SQL sample_query) = Some 0"
    by (simp add: sample_query_def has_prefix_def)
  then show ?thesis by simp
qed

lemma CheckColumnNames_run:
  assumes "located sql 0 stmts"
  shows "\<exists>st :: col_state. CheckColumnNames stmts sql (Some c) = Ret (cs_errs st)
    \<and> list_all2 justified (cs_errs st) (rev (cs_seen st)) \<and> distinct (cs_seen st)"
proof (cases "stmts = []")
  case False
  let ?I = "\<lambda>st :: col_state. list_all2 justified (cs_errs st) (rev (cs_seen st)) \<and> distinct (cs_seen st)"
  have "\<exists>s'. for_statements (col_visit c sql) sql 0 stmts \<lparr>cs_seen = [], cs_errs = []\<rparr> = Ret s' \<and> ?I s'
      \<and> (\<forall>p \<in> set stmts. True) \<and> (\<forall>q :: parsed. True \<longrightarrow> True)"
  proof (rule for_statements_run [OF assms])
    fix b e and p :: parsed and s assume *: "b \<le> e" "e \<le> length sql" "?I s"
    have "col_inv \<lparr>ce_cat = c, ce_sql = sql, ce_start = b, ce_end = e\<rparr> (col_visit c sql b e (AST p) s)"
      unfolding col_visit_def
      by (rule checker_invariant(1) [where I = col_inv, OF resolveRef_inv checkUsing_inv])
        (simp_all add: col_inv_def *)
    with * show "\<exists>s'. col_visit c sql b e (AST p) s = Ret s' \<and> ?I s' \<and> True \<and> (\<forall>q :: parsed. True \<longrightarrow> True)"
      by (simp add: col_inv_def)
  qed simp
  then obtain s' where s': "for_statements (col_visit c sql) sql 0 stmts \<lparr>cs_seen = [], cs_errs = []\<rparr> = Ret s'" "?I s'"
    by blast
  with False show ?thesis
    by (intro exI [of _ s']) (simp add: CheckColumnNames_def)
qed (auto simp: CheckColumnNames_def intro!: exI [of _ "\<lparr>cs_seen = [], cs_errs = []\<rparr>"])

text \<open>On parser output \<open>CheckColumnNames\<close> returns for every statement, however it nests queries, and
  never panics; every report is true of the names it offers: a missing table or column is none of the
  tables or columns listed as available, up to case, an ambiguous one is in at least two tables, the
  suggestions are drawn from that list, and no reference is reported twice.\<close>

theorem CheckColumnNames_justified:
  assumes "located sql 0 stmts"
  shows "\<exists>errs ks. CheckColumnNames stmts sql (Some c) = Ret errs \<and> list_all2 justified errs ks \<and> distinct ks"
proof -
  obtain st :: col_state where "CheckColumnNames stmts sql (Some c) = Ret (cs_errs st)"
    "list_all2 justified (cs_errs st) (rev (cs_seen st))" "distinct (cs_seen st)"
    using CheckColumnNames_run [OF assms] by blast
  then show ?thesis by (intro exI [of _ "cs_errs st"] exI [of _ "rev (cs_seen st)"]) simp
qed

theorem CheckColumnNames_justified_witness:
  "\<exists>errs ks. CheckColumnNames [sample_query] (SQL sample_query) (Some users_catalog) = Ret errs
    \<and> list_all2 justified errs ks \<and> distinct ks"
  by (rule CheckColumnNames_justified [OF sample_query_located])

section \<open>Queries over plain tables\<close>

text \<open>
  What is wrong with a reference in a scope, if anything: its report key and message. A qualified
  reference looks at the first source of that name only; an unqualified one must be a select alias or
  be in exactly one source, and is left alone when it is in none but some source's columns are unknown.
\<close>

definition wrong :: "scope \<Rightarrow> string \<times> string \<Rightarrow> (string \<times> string) option" where
  "wrong sc ref =
     (let q = fst ref; n = snd ref; S = all_sources sc;
          has = (\<lambda>s. \<exists>cols. src_columns s = Some cols \<and> containsFold cols n);
          missing = Some (to_lower (q @ ''.'' @ n), ''column '' @ quote n @ '' does not exist'') in
      if n = [] then None
      else if q \<noteq> [] then
        (case filter (\<lambda>s. equal_fold (src_alias s) q) S of
           [] \<Rightarrow> Some (to_lower q, ''missing FROM-clause entry for table '' @ quote q)
         | s # _ \<Rightarrow> if src_columns s = None \<or> has s then None else missing)
      else if \<exists>f \<in> set sc. containsFold (select_aliases f) n then None
      else if length (filter has S) \<ge> 2
      then Some (to_lower (''.'' @ n), ''column reference '' @ quote n @ '' is ambiguous'')
      else if length (filter has S) = 1 \<or> (\<exists>s \<in> set S. src_columns s = None) then None
      else missing)"

fun no_subquery :: "expr \<Rightarrow> bool" where
  "no_subquery (Subquery s) \<longleftrightarrow> False"
| "no_subquery (FuncExpr ref args) \<longleftrightarrow> (\<forall>e \<in> set args. no_subquery e)"
| "no_subquery (AndExpr left right) \<longleftrightarrow> no_subquery left \<and> no_subquery right"
| "no_subquery (OtherExpr k es) \<longleftrightarrow> (\<forall>e \<in> set es. no_subquery e)"
| "no_subquery _ \<longleftrightarrow> True"

fun expr_refs :: "expr \<Rightarrow> (string \<times> string) list" where
  "expr_refs (UnresolvedName star parts) = [refFromUnresolved star parts]"
| "expr_refs (ColumnItem name tableParts) = [refFromColumnItem name tableParts]"
| "expr_refs (FuncExpr ref args) = concat (map expr_refs args)"
| "expr_refs (AndExpr left right) = expr_refs left @ expr_refs right"
| "expr_refs (OtherExpr k es) = concat (map expr_refs es)"
| "expr_refs _ = []"

lemma fold_concat: "fold f (concat xss) = fold (\<lambda>xs. fold f xs) xss"
  by (induction xss) (auto simp: fun_eq_iff)

lemma walkExpr_refs:
  "no_subquery e \<Longrightarrow> walkExpr env sc e r = fold (\<lambda>ref. resolveRef env ref sc) (expr_refs e) r"
proof (induction e arbitrary: r rule: expr_refs.induct)
  case (3 ref args)
  then show ?case
    by (simp add: fold_concat fold_map comp_def) (intro fold_cong, auto simp: fun_eq_iff)
next
  case (5 k es)
  then show ?case
    by (simp add: fold_concat fold_map comp_def) (intro fold_cong, auto simp: fun_eq_iff)
qed auto

text \<open>A query whose sources are tables or aliased tables and whose expressions hold no sub-query.\<close>

fun plain_table :: "table_expr \<Rightarrow> (string \<times> string) option" where
  "plain_table (TableName tn) = Some (table_name.Table tn, table_name.Table tn)"
| "plain_table (AliasedTableExpr (TableName tn) a cols) =
     Some (if a = [] then table_name.Table tn else a, table_name.Table tn)"
| "plain_table _ = None"

definition opt_list :: "'a option \<Rightarrow> 'a list" where
  "opt_list x = (case x of None \<Rightarrow> [] | Some y \<Rightarrow> [y])"

fun query_parts :: "statement \<Rightarrow> (expr select_expr list \<times> table_expr list \<times> expr list) option" where
  "query_parts (SelectStmt c (Select [] (SelectClause exprs from wh groupBy having) orderBy lim lk)) =
     Some (exprs, from, map se_expr exprs @ opt_list wh @ groupBy @ opt_list having @ orderBy
       @ (case lim of None \<Rightarrow> [] | Some l \<Rightarrow> opt_list (lim_count l) @ opt_list (lim_offset l)))"
| "query_parts _ = None"

definition plain_query :: "statement \<Rightarrow> bool" where
  "plain_query stmt \<longleftrightarrow> (case query_parts stmt of None \<Rightarrow> False
     | Some (exprs, from, es) \<Rightarrow> (\<forall>t \<in> set from. plain_table t \<noteq> None) \<and> (\<forall>e \<in> set es. no_subquery e))"

text \<open>The scope such a query has: the catalog's columns of each table, and its select aliases.\<close>

definition query_scope :: "catalog \<Rightarrow> expr select_expr list \<Rightarrow> table_expr list \<Rightarrow> scope" where
  "query_scope c exprs from =
     [\<lparr>sources = map (\<lambda>(a, name). \<lparr>src_alias = a,
         src_columns = map_option (\<lambda>t. map col_name (columns t)) (Table c name)\<rparr>) (List.map_filter plain_table from),
       ctes = Map.empty, select_aliases = filter (\<lambda>a. a \<noteq> []) (map se_as exprs)\<rparr>]"

definition wrong_refs :: "catalog \<Rightarrow> statement \<Rightarrow> (string \<times> string) list" where
  "wrong_refs c stmt = (case query_parts stmt of None \<Rightarrow> []
     | Some (exprs, from, es) \<Rightarrow>
         List.map_filter (wrong (query_scope c exprs from)) (concat (map expr_refs es)))"

lemma addTableExprs_plain:
  assumes "\<forall>t \<in> set from. plain_table t \<noteq> None" "ctes f = Map.empty"
  shows "fold (addTableExpr env) from ([f], r) =
    ([f\<lparr>sources := sources f @ map (\<lambda>(a, name). sourceForTable (ce_cat env) a name)
        (List.map_filter plain_table from)\<rparr>], r)"
  using assms
proof (induction "from" arbitrary: f)
  case (Cons t ts)
  then obtain a name where pt: "plain_table t = Some (a, name)" by fastforce
  have "addTableExpr env t ([f], r) = ([f\<lparr>sources := sources f @ [sourceForTable (ce_cat env) a name]\<rparr>], r)"
    using pt Cons.prems(2)
    by (cases t rule: plain_table.cases) (auto simp: sourceForName_def Let_def)
  with Cons pt show ?case by (simp add: List.map_filter_simps)
qed (simp add: List.map_filter_simps)

lemma checkSelect_plain:
  assumes "query_parts (SelectStmt cl sel) = Some (exprs, from, es)" "\<forall>t \<in> set from. plain_table t \<noteq> None"
    "\<forall>e \<in> set es. no_subquery e"
  shows "checkSelect env sel [] r = fold (\<lambda>ref. resolveRef env ref
     (add_aliases (filter (\<lambda>a. a \<noteq> []) (map se_as exprs)) [new_frame\<lparr>sources :=
       map (\<lambda>(a, name). sourceForTable (ce_cat env) a name) (List.map_filter plain_table from)\<rparr>]))
     (concat (map expr_refs es)) r"
proof -
  from assms(1) obtain wh groupBy having orderBy lim lk where
    sel: "sel = Select [] (SelectClause exprs from wh groupBy having) orderBy lim lk" and
    es: "es = map se_expr exprs @ opt_list wh @ groupBy @ opt_list having @ orderBy
       @ (case lim of None \<Rightarrow> [] | Some l \<Rightarrow> opt_list (lim_count l) @ opt_list (lim_offset l))"
    by (cases "SelectStmt cl sel" rule: query_parts.cases) auto
  let ?sc = "add_aliases (filter (\<lambda>a. a \<noteq> []) (map se_as exprs)) [new_frame\<lparr>sources :=
       map (\<lambda>(a, name). sourceForTable (ce_cat env) a name) (List.map_filter plain_table from)\<rparr>]"
  have tables: "fold (addTableExpr env) from ([new_frame], r) = ([new_frame\<lparr>sources :=
       map (\<lambda>(a, name). sourceForTable (ce_cat env) a name) (List.map_filter plain_table from)\<rparr>], r)"
    using addTableExprs_plain [OF assms(2), of new_frame env r] by (simp add: new_frame_def)
  have walk: "fold (\<lambda>ref. resolveRef env ref ?sc) (concat (map expr_refs xs)) r = fold (walkExpr env ?sc) xs r"
    if "\<forall>e \<in> set xs. no_subquery e" for xs r
    using that by (induction xs arbitrary: r) (auto simp: walkExpr_refs)
  have "checkSelect env sel [] r = fold (walkExpr env ?sc) es r"
    unfolding sel es
    by (simp add: tables Let_def fold_map comp_def opt_list_def split: option.split limit.split)
  also have "\<dots> = fold (\<lambda>ref. resolveRef env ref ?sc) (concat (map expr_refs es)) r"
    by (rule walk [symmetric]) (rule assms(3))
  finally show ?thesis .
qed

text \<open>One resolved reference adds the report of what is wrong with it, once per key.\<close>

definition adds_reports :: "(string \<times> string) list \<Rightarrow> col_state \<Rightarrow> col_state \<Rightarrow> bool" where
  "adds_reports ws st st' \<longleftrightarrow> (\<exists>es. cs_errs st' = cs_errs st @ es
     \<and> cs_seen st' = rev (map fst (dedup_on fst (cs_seen st) ws)) @ cs_seen st
     \<and> map message es = map snd (dedup_on fst (cs_seen st) ws))"

lemma adds_reports_Nil: "adds_reports [] st st"
  by (simp add: adds_reports_def)

lemma adds_reports_append:
  assumes "adds_reports ws st st1" "adds_reports ws' st1 st2"
  shows "adds_reports (ws @ ws') st st2"
proof -
  have "set (cs_seen st1) = fst ` set (dedup_on fst (cs_seen st) ws) \<union> set (cs_seen st)"
    using assms(1) unfolding adds_reports_def by (elim exE conjE) simp
  then have "dedup_on fst (cs_seen st1) ws' = dedup_on fst (map fst ws @ cs_seen st) ws'"
    unfolding dedup_on_keys by (intro dedup_on_cong) simp
  with assms show ?thesis by (auto simp: adds_reports_def dedup_on_append)
qed

lemma reportFor_adds:
  assumes "ce_start env \<le> ce_end env" "ce_end env \<le> length (ce_sql env)"
  shows "\<exists>st'. reportFor env key m cands e (Ret st) = Ret st' \<and> adds_reports [(to_lower key, message e)] st st'"
proof -
  obtain pos where "positionFor (ce_sql env) (ce_start env) (ce_end env) m = Ret pos"
    using positionFor_span assms by blast
  then show ?thesis by (auto simp: reportFor_def Let_def adds_reports_def)
qed

lemma message_col_error [simp]: "message (col_error c m ct cx) = m"
  by (simp add: col_error_def)

lemma lookupSource_filter:
  "lookupSource sc q = (case filter (\<lambda>s. equal_fold (src_alias s) q) (all_sources sc) of [] \<Rightarrow> None | s # _ \<Rightarrow> Some s)"
proof -
  have "find P xs = (case filter P xs of [] \<Rightarrow> None | s # _ \<Rightarrow> Some s)" for P and xs :: "source list"
    by (induction xs) auto
  then show ?thesis by (simp add: lookupSource_def equal_fold_def)
qed

lemma matchingSources_filter:
  "length (matchingSources sc n) =
   length (filter (\<lambda>s. \<exists>cols. src_columns s = Some cols \<and> containsFold cols n) (all_sources sc))"
  unfolding matchingSources_def length_map
  by (rule arg_cong [where f = length], rule filter_cong) (auto split: option.splits)

lemma resolveRef_wrong:
  assumes span: "ce_start env \<le> ce_end env" "ce_end env \<le> length (ce_sql env)"
    and sc: "all_sources sc = all_sources sc'"
      "\<And>n. matchesAlias sc n \<longleftrightarrow> (\<exists>f \<in> set sc'. containsFold (select_aliases f) n)"
  shows "\<exists>st'. resolveRef env ref sc (Ret st) = Ret st' \<and> adds_reports (opt_list (wrong sc' ref)) st st'"
proof -
  obtain q n where ref: "ref = (q, n)" by (cases ref)
  have report: "\<exists>st'. reportFor env key m cands (col_error c msg ct cx) (Ret st) = Ret st'
      \<and> adds_reports [(to_lower key, msg)] st st'" for key m cands c msg ct cx
    using reportFor_adds [OF span, of key m cands "col_error c msg ct cx" st] by simp
  consider (empty) "n = []" | (qual) "n \<noteq> []" "q \<noteq> []" | (unqual) "n \<noteq> []" "q = []" by blast
  then show ?thesis
  proof cases
    case empty
    then show ?thesis by (simp add: resolveRef_def ref wrong_def opt_list_def adds_reports_Nil)
  next
    case qual
    show ?thesis
    proof (cases "lookupSource sc q")
      case None
      then have "filter (\<lambda>s. equal_fold (src_alias s) q) (all_sources sc') = []"
        by (simp add: lookupSource_filter sc split: list.splits)
      then have "wrong sc' ref = Some (to_lower q, ''missing FROM-clause entry for table '' @ quote q)"
        by (simp add: wrong_def Let_def ref qual)
      with None qual report show ?thesis
        by (simp add: resolveRef_def resolveQualified_def ref Let_def opt_list_def del: append.simps)
    next
      case (Some s)
      then obtain ss where "filter (\<lambda>s. equal_fold (src_alias s) q) (all_sources sc') = s # ss"
        by (auto simp: lookupSource_filter sc split: list.splits)
      then have "wrong sc' ref = (case src_columns s of None \<Rightarrow> None | Some cols \<Rightarrow> if containsFold cols n then None
          else Some (to_lower (q @ ''.'' @ n), ''column '' @ quote n @ '' does not exist''))"
        by (auto simp: wrong_def Let_def ref qual split: option.split)
      with Some qual report show ?thesis
        by (cases "src_columns s")
          (simp_all add: resolveRef_def resolveQualified_def report_def ref Let_def opt_list_def adds_reports_Nil
            del: append.simps append_assoc to_lower_append)
    qed
  next
    case unqual
    have len: "length (matchingSources sc n) =
        length (filter (\<lambda>s. \<exists>cols. src_columns s = Some cols \<and> containsFold cols n) (all_sources sc'))"
      by (simp add: matchingSources_filter sc)
    have unk: "scopeHasUnknownSource sc \<longleftrightarrow> (\<exists>s \<in> set (all_sources sc'). src_columns s = None)"
      by (simp add: scopeHasUnknownSource_def columnsKnown_def sc)
    have w: "wrong sc' ref = (if matchesAlias sc n then None
        else if length (matchingSources sc n) \<ge> 2
        then Some (to_lower ([] @ ''.'' @ n), ''column reference '' @ quote n @ '' is ambiguous'')
        else if length (matchingSources sc n) = 1 \<or> scopeHasUnknownSource sc then None
        else Some (to_lower ([] @ ''.'' @ n), ''column '' @ quote n @ '' does not exist''))"
      unfolding len unk sc(2) wrong_def Let_def ref fst_conv snd_conv using unqual by (simp, fastforce)
    show ?thesis
      unfolding resolveRef_def resolveUnqualified_def report_def w
      unfolding ref fst_conv snd_conv Let_def opt_list_def
      using unqual report by (simp add: adds_reports_Nil del: append.simps append_assoc to_lower_append)
  qed
qed

lemma resolveRefs_wrong:
  assumes "ce_start env \<le> ce_end env" "ce_end env \<le> length (ce_sql env)"
    and "all_sources sc = all_sources sc'"
      "\<And>n. matchesAlias sc n \<longleftrightarrow> (\<exists>f \<in> set sc'. containsFold (select_aliases f) n)"
  shows "\<exists>st'. fold (\<lambda>ref. resolveRef env ref sc) refs (Ret st) = Ret st'
    \<and> adds_reports (List.map_filter (wrong sc') refs) st st'"
proof (induction refs arbitrary: st)
  case (Cons ref refs)
  obtain st1 where st1: "resolveRef env ref sc (Ret st) = Ret st1" "adds_reports (opt_list (wrong sc' ref)) st st1"
    using resolveRef_wrong [OF assms] by blast
  obtain st2 where st2: "fold (\<lambda>ref. resolveRef env ref sc) refs (Ret st1) = Ret st2"
    "adds_reports (List.map_filter (wrong sc') refs) st1 st2" using Cons.IH by blast
  have "List.map_filter (wrong sc') (ref # refs) = opt_list (wrong sc' ref) @ List.map_filter (wrong sc') refs"
    by (simp add: List.map_filter_simps opt_list_def split: option.split)
  with st1 st2 adds_reports_append [OF st1(2) st2(2)] show ?case by simp
qed (simp add: List.map_filter_simps adds_reports_Nil)

lemma col_visit_plain:
  assumes "plain_query stmt" "b \<le> e" "e \<le> length sql"
  shows "\<exists>st'. col_visit c sql b e stmt st = Ret st' \<and> adds_reports (wrong_refs c stmt) st st'"
proof -
  obtain exprs "from" es where parts: "query_parts stmt = Some (exprs, from, es)"
    "\<forall>t \<in> set from. plain_table t \<noteq> None" "\<forall>e \<in> set es. no_subquery e"
    using assms(1) by (auto simp: plain_query_def split: option.splits)
  then obtain cl sel where stmt: "stmt = SelectStmt cl sel" by (cases stmt rule: query_parts.cases) auto
  let ?env = "\<lparr>ce_cat = c, ce_sql = sql, ce_start = b, ce_end = e\<rparr>"
  let ?sc = "add_aliases (filter (\<lambda>a. a \<noteq> []) (map se_as exprs)) [new_frame\<lparr>sources :=
       map (\<lambda>(a, name). sourceForTable c a name) (List.map_filter plain_table from)\<rparr>]"
  have table: "sourceForTable c a name = \<lparr>src_alias = a,
      src_columns = map_option (\<lambda>t. map col_name (columns t)) (Table c name)\<rparr>" for a name
    by (simp add: sourceForTable_def unknownSource_def split: option.split)
  have sources: "all_sources ?sc = all_sources (query_scope c exprs from)"
    by (simp add: all_sources_def query_scope_def table)
  have aliases: "matchesAlias ?sc n \<longleftrightarrow> (\<exists>f \<in> set (query_scope c exprs from). containsFold (select_aliases f) n)" for n
    using nameScope.has_only [of "filter (\<lambda>a. a \<noteq> []) (map se_as exprs)" n]
    by (simp add: matchesAlias_def query_scope_def containsFold_def new_frame_def)
  have run: "col_visit c sql b e stmt st =
      fold (\<lambda>ref. resolveRef ?env ref ?sc) (concat (map expr_refs es)) (Ret st)"
    using checkSelect_plain [OF parts(1) [unfolded stmt] parts(2,3), of ?env "Ret st"]
    by (simp add: col_visit_def stmt)
  show ?thesis
    unfolding run wrong_refs_def parts(1) option.case prod.case
    by (rule resolveRefs_wrong [OF _ _ sources aliases]) (simp_all add: assms)
qed

text \<open>C25: On queries over plain tables, \<open>CheckColumnNames\<close> is exact: it reports, in the order of the
  statements and of the references in them, exactly the references that are wrong in the scope of their
  own query, and each key once over the whole input. No reference is missed, whatever expression holds
  it, and none that resolves is reported.\<close>

theorem CheckColumnNames_plain_exact:
  assumes "located sql 0 stmts" "\<forall>p \<in> set stmts. plain_query (AST p)"
  shows "\<exists>errs. CheckColumnNames stmts sql (Some c) = Ret errs
    \<and> map message errs = map snd (dedup_on fst [] (concat (map (\<lambda>p. wrong_refs c (AST p)) stmts)))"
proof -
  have run: "\<exists>st'. for_statements (col_visit c sql) sql k stmts st = Ret st'
      \<and> adds_reports (concat (map (\<lambda>p. wrong_refs c (AST p)) stmts)) st st'"
    if "located sql k stmts" "\<forall>p \<in> set stmts. plain_query (AST p)" for k st
    using that
  proof (induction stmts arbitrary: k st)
    case (Cons p ps)
    obtain b e where be: "stmt_span sql k (SQL p) = (b, e)" by fastforce
    with Cons.prems(1) have k: "k \<le> length sql" "b \<le> e" "e \<le> length sql" "located sql e ps"
      using stmt_span_bounds [of k sql "SQL p" b e] by auto
    obtain st1 where st1: "col_visit c sql b e (AST p) st = Ret st1" "adds_reports (wrong_refs c (AST p)) st st1"
      using col_visit_plain [of "AST p" b e sql c st] k Cons.prems(2) by auto
    obtain st2 where st2: "for_statements (col_visit c sql) sql e ps st1 = Ret st2"
      "adds_reports (concat (map (\<lambda>p. wrong_refs c (AST p)) ps)) st1 st2"
      using Cons.IH [OF k(4)] Cons.prems(2) by auto
    with st1 k be adds_reports_append [OF st1(2) st2(2)] show ?case by simp
  qed (simp add: adds_reports_Nil)
  show ?thesis
    using run [OF assms, of "\<lparr>cs_seen = [], cs_errs = []\<rparr>"]
    by (cases "stmts = []") (auto simp: CheckColumnNames_def adds_reports_def)
qed

theorem CheckColumnNames_plain_exact_witness:
  "\<exists>errs. CheckColumnNames [sample_query] (SQL sample_query) (Some users_catalog) = Ret errs
    \<and> map message errs = [''column '' @ quote ''x'' @ '' does not exist'']"
proof -
  have plain: "\<forall>p \<in> set [sample_query]. plain_query (AST p)"
    by (simp add: plain_query_def sample_query_def opt_list_def)
  have t: "Table users_catalog ''users'' = Some \<lparr>tbl_name = ''users'', columns =
     [\<lparr>col_name = ''id'', col_type = ''INT8'', nullable = False, col_default = None\<rparr>], primary_key = [], indexes = []\<rparr>"
    by (simp add: users_catalog_def Table_def put_table_def empty_catalog_def Let_def)
  have fold: "equal_fold ''id'' ''ID''" "equal_fold ''u'' ''u''" "\<not> equal_fold ''id'' ''x''" by code_simp+
  have "wrong_refs users_catalog (AST sample_query) =
      [(to_lower ([] @ ''.'' @ ''x''), ''column '' @ quote ''x'' @ '' does not exist''),
       (to_lower ([] @ ''.'' @ ''x''), ''column '' @ quote ''x'' @ '' does not exist'')]"
    by (simp add: wrong_refs_def sample_query_def opt_list_def query_scope_def t wrong_def Let_def
        List.map_filter_simps refFromUnresolved_def all_sources_def containsFold_def fold)
  then show ?thesis
    using CheckColumnNames_plain_exact [OF sample_query_located plain, of users_catalog] by simp
qed

section \<open>A common table expression hidden from its siblings\<close>

text \<open>
  \<open>pushCTEs\<close> checks the body of each common table expression without its siblings in scope, so a body
  that reads from an earlier one which shares its name with a catalog table is resolved against the
  table: \<open>WITH users AS (SELECT 1 AS x), b AS (SELECT x FROM users) SELECT x FROM b\<close> is valid, and \<open>x\<close>
  is reported.
\<close>

definition shadowing_query :: statement where
  "shadowing_query =
     (let cl = \<lparr>StatementTag = ''SELECT'', StatementType = TypeDML, CanWriteData = False, CanModifySchema = False\<rparr>;
          tn = \<lambda>n. TableName \<lparr>Schema = [], Table = n, name_string = n\<rparr>;
          x = SelectExpr (UnresolvedName False [''x'']) [] in
      SelectStmt cl (Select
        [CTE ''users'' [] (SelectStmt cl (Select [] (SelectClause [SelectExpr (NumVal ''1'' (Some 1)) ''x''] [] None [] None) [] None [])),
         CTE ''b'' [] (SelectStmt cl (Select [] (SelectClause [x] [tn ''users''] None [] None) [] None []))]
        (SelectClause [x] [tn ''b''] None [] None) [] None []))"

lemma shadowing_query_reported:
  assumes "b \<le> e" "e \<le> length sql"
  shows "\<exists>st er. col_visit users_catalog sql b e shadowing_query \<lparr>cs_seen = [], cs_errs = []\<rparr> = Ret st
    \<and> cs_errs st = [er] \<and> message er = ''column '' @ quote ''x'' @ '' does not exist''"
proof -
  let ?env = "\<lparr>ce_cat = users_catalog, ce_sql = sql, ce_start = b, ce_end = e\<rparr>"
  let ?st = "\<lparr>cs_seen = [], cs_errs = []\<rparr>"
  have t: "Table users_catalog ''users'' = Some \<lparr>tbl_name = ''users'', columns =
     [\<lparr>col_name = ''id'', col_type = ''INT8'', nullable = False, col_default = None\<rparr>], primary_key = [], indexes = []\<rparr>"
    by (simp add: users_catalog_def Table_def put_table_def empty_catalog_def Let_def)
  have low: "to_lower ''users'' = ''users''" "to_lower ''b'' = ''b''" "\<not> equal_fold ''id'' ''x''" "equal_fold ''x'' ''x''"
    by code_simp+
  have run: "col_visit users_catalog sql b e shadowing_query ?st =
      reportFor ?env ([] @ ''.'' @ ''x'') ''x'' [''id''] (col_error ''42703''
        (''column '' @ quote ''x'' @ '' does not exist'') ''unknown_column'' [(''available_columns'', CStrs [''id''])]) (Ret ?st)"
    by (simp add: col_visit_def shadowing_query_def Let_def sourceForName_def new_frame_def sourceForTable_def t
      resolveRef_def resolveUnqualified_def refFromUnresolved_def matchesAlias_def matchingSources_def all_sources_def
      containsFold_def low scopeHasUnknownSource_def columnsKnown_def cte_frame_def projectedColumns_def
      explicitColumnNames_def selectStatementOf_def projectionOf_def columnNameOf_def part0_def scope_has_def
      report_def availableColumns_def)
  show ?thesis
    unfolding run using reportFor_adds [of ?env "[] @ ''.'' @ ''x''" "''x''" "[''id'']" "col_error ''42703''
        (''column '' @ quote ''x'' @ '' does not exist'') ''unknown_column'' [(''available_columns'', CStrs [''id''])]" ?st]
      assms by (auto simp: adds_reports_def simp del: append.simps append_assoc)
qed

end
