(* ===== verification/Strip_Prompts.thy ===== *)
theory Strip_Prompts
  imports Diag_Position
begin

text \<open>
  \<open>internal/sqlformat/strip.go\<close>: removal of \<open>cockroach sql\<close> shell prompts from pasted input, with
  the table that maps offsets of the stripped text back to the original. The two regular
  expressions are deterministic scanners (each class excludes the byte that ends it), so they are
  written as such. The offset map is an instance of \<open>offset_map\<close>.
\<close>

section \<open>The prompt patterns\<close>

definition is_word_start :: "char \<Rightarrow> bool" where
  "is_word_start c \<longleftrightarrow> is_alpha c \<or> c = CHR ''_''"

definition is_user_char :: "char \<Rightarrow> bool" where
  "is_user_char c \<longleftrightarrow> is_alpha c \<or> is_digit c \<or> c = CHR ''_'' \<or> c = CHR ''.'' \<or> c = CHR ''-''"

definition is_blank :: "char \<Rightarrow> bool" where
  "is_blank c \<longleftrightarrow> c = CHR '' '' \<or> c = CHR 0x09"

text \<open>\<open>[^\s>]\<close>: \<open>\s\<close> is tab, newline, form feed, carriage return and space.\<close>

definition is_host_char :: "char \<Rightarrow> bool" where
  "is_host_char c \<longleftrightarrow>
     byte_of c \<noteq> 9 \<and> byte_of c \<noteq> 10 \<and> byte_of c \<noteq> 12 \<and> byte_of c \<noteq> 13 \<and> c \<noteq> CHR '' '' \<and> c \<noteq> CHR ''>''"

text \<open>\<open>> ?\<close> at the head of the text: what follows it.\<close>

definition after_close :: "string \<Rightarrow> string option" where
  "after_close s =
     (if has_prefix s ''> '' then Some (drop 2 s)
      else if has_prefix s ''>'' then Some (drop 1 s)
      else None)"

text \<open>The rest of the line after a primary prompt, if the line starts with one.\<close>

definition after_primary :: "string \<Rightarrow> string option" where
  "after_primary line0 =
     (case line0 of
        [] \<Rightarrow> None
      | c # r \<Rightarrow>
          if \<not> is_word_start c then None
          else
            (let r1 = dropWhile is_user_char r in
             if \<not> has_prefix r1 ''@'' then None
             else
               (let r2 = dropWhile is_host_char (tl r1) in
                case after_close r2 of
                  Some t \<Rightarrow> Some t
                | None \<Rightarrow>
                    (let r3 = dropWhile is_blank r2; r4 = dropWhile is_alpha r3 in
                     if r3 = r2 \<or> r4 = r3 then None else after_close r4))))"

definition primaryPromptRE :: "string \<Rightarrow> nat option" where
  "primaryPromptRE s = map_option (\<lambda>t. length s - length t) (after_primary s)"

definition continuationPromptRE :: "string \<Rightarrow> nat option" where
  "continuationPromptRE s =
     (let r = dropWhile is_blank s in
      if \<not> has_prefix r ''->'' then None
      else let t = (if has_prefix (drop 2 r) '' '' then drop 3 r else drop 2 r)
           in Some (length s - length t))"

section \<open>Stripping\<close>

record stripSegment =
  StrippedStart :: nat
  CumDelta :: nat

record StripResult =
  Stripped :: string
  Removed :: bool
  segments :: "stripSegment list"

text \<open>The loop's state: the output buffer, the segments, the bytes removed and the flag.\<close>

record strip_state =
  buf :: string
  segs :: "stripSegment list"
  cumDelta :: nat
  seenPrimary :: bool

definition recordSegment :: "nat \<Rightarrow> strip_state \<Rightarrow> strip_state" where
  "recordSegment promptLen st =
     st\<lparr>cumDelta := cumDelta st + promptLen,
        segs := segs st @ [\<lparr>StrippedStart = length (buf st), CumDelta = cumDelta st + promptLen\<rparr>]\<rparr>"

definition strip_line :: "strip_state \<Rightarrow> string \<Rightarrow> strip_state" where
  "strip_line st s =
     (case primaryPromptRE s of
        Some loc \<Rightarrow>
          (let st1 = recordSegment loc (st\<lparr>seenPrimary := True\<rparr>) in st1\<lparr>buf := buf st1 @ drop loc s\<rparr>)
      | None \<Rightarrow>
          (case (if seenPrimary st then continuationPromptRE s else None) of
             Some loc \<Rightarrow>
               (let st1 = recordSegment loc st in st1\<lparr>buf := buf st1 @ drop loc s\<rparr>)
           | None \<Rightarrow> st\<lparr>buf := buf st @ s\<rparr>))"

definition strip_init :: strip_state where
  "strip_init = \<lparr>buf = [], segs = [], cumDelta = 0, seenPrimary = False\<rparr>"

definition StripShellPromptsWithMap :: "string \<Rightarrow> StripResult" where
  "StripShellPromptsWithMap sql =
     (if sql = [] then \<lparr>Stripped = sql, Removed = False, segments = []\<rparr>
      else
        (let st = foldl strip_line strip_init (split_after newline sql)
         in \<lparr>Stripped = buf st, Removed = segs st \<noteq> [], segments = segs st\<rparr>))"

definition StripShellPrompts :: "string \<Rightarrow> string" where
  "StripShellPrompts sql = Stripped (StripShellPromptsWithMap sql)"

definition Translate :: "StripResult \<Rightarrow> int \<Rightarrow> int" where
  "Translate r strippedOffset0 =
     (let o1 = (if strippedOffset0 < 0 then 0 else strippedOffset0);
          off = (if o1 > int (length (Stripped r)) then int (length (Stripped r)) else o1)
      in if segments r = [] then off
         else
           (let idx = sort_search (length (segments r))
                        (\<lambda>i. int (StrippedStart (segments r ! i)) > off)
            in if idx = 0 then off
               else off + int (CumDelta (segments r ! (idx - 1)))))"

section \<open>What a line contributes\<close>

lemma after_close_suffix: "after_close s = Some t \<Longrightarrow> \<exists>p. s = p @ t \<and> p \<noteq> []"
  by (auto simp: after_close_def split: if_splits elim!: has_prefixE)

lemma dropWhile_suffix: "\<exists>p. s = p @ dropWhile P s"
  by (metis takeWhile_dropWhile_id)

lemma after_primary_suffix: "after_primary s = Some t \<Longrightarrow> \<exists>p. s = p @ t \<and> p \<noteq> []"
proof -
  assume a: "after_primary s = Some t"
  then obtain c r where s: "s = c # r" by (cases s) (auto simp: after_primary_def)
  let ?r1 = "dropWhile is_user_char r"
  let ?r2 = "dropWhile is_host_char (tl ?r1)"
  let ?r4 = "dropWhile is_alpha (dropWhile is_blank ?r2)"
  from a s have p: "has_prefix ?r1 ''@''" and
    c: "after_close ?r2 = Some t \<or> after_close ?r4 = Some t"
    by (auto simp: after_primary_def Let_def split: if_splits option.splits)
  obtain a1 where a1: "r = a1 @ ?r1" using dropWhile_suffix by metis
  from p obtain u where u: "?r1 = CHR ''@'' # u" by (auto elim: has_prefixE)
  obtain a2 where a2: "u = a2 @ dropWhile is_host_char u" using dropWhile_suffix by metis
  obtain a3 where a3: "?r2 = a3 @ ?r4"
    using dropWhile_suffix [of ?r2 is_blank] dropWhile_suffix [of "dropWhile is_blank ?r2" is_alpha]
    by (metis append.assoc)
  from c obtain v where "?r2 = v @ t" using a3 by (auto dest!: after_close_suffix)
  with a1 u a2 s have "s = (c # a1 @ CHR ''@'' # a2 @ v) @ t" by simp
  then show ?thesis by blast
qed

lemma primaryPromptRE_le: "primaryPromptRE s = Some n \<Longrightarrow> 0 < n \<and> n \<le> length s"
  by (auto simp: primaryPromptRE_def dest!: after_primary_suffix)

lemma continuationPromptRE_le: "continuationPromptRE s = Some n \<Longrightarrow> 0 < n \<and> n \<le> length s"
proof -
  assume a: "continuationPromptRE s = Some n"
  obtain p where s: "s = p @ dropWhile is_blank s" using dropWhile_suffix by metis
  from a have pre: "has_prefix (dropWhile is_blank s) ''->''"
    by (auto simp: continuationPromptRE_def Let_def split: if_splits)
  then obtain u where u: "dropWhile is_blank s = ''->'' @ u" by (auto elim: has_prefixE)
  with a s have "n = length s - (if has_prefix u '' '' then length u - 1 else length u)"
    by (auto simp: continuationPromptRE_def Let_def split: if_splits)
  moreover have "length s = length p + 2 + length u"
    by (subst s) (simp add: u)
  ultimately show ?thesis by auto
qed

text \<open>A line either passes through, or loses a prompt of \<open>n\<close> bytes recorded as one segment.\<close>

lemma strip_line_cases:
  obtains (keep) "buf (strip_line st s) = buf st @ s" "segs (strip_line st s) = segs st"
      "cumDelta (strip_line st s) = cumDelta st"
  | (cut) n where "0 < n" "n \<le> length s" "buf (strip_line st s) = buf st @ drop n s"
      "segs (strip_line st s) =
         segs st @ [\<lparr>StrippedStart = length (buf st), CumDelta = cumDelta st + n\<rparr>]"
      "cumDelta (strip_line st s) = cumDelta st + n"
proof (cases "primaryPromptRE s")
  case (Some n)
  then show ?thesis
    using primaryPromptRE_le [OF Some] by (intro cut) (simp_all add: strip_line_def recordSegment_def Let_def)
next
  case None
  show ?thesis
  proof (cases "if seenPrimary st then continuationPromptRE s else None")
    case (Some n)
    then have "continuationPromptRE s = Some n" by (simp split: if_splits)
    then show ?thesis using Some None continuationPromptRE_le
      by (intro cut [of n]) (simp_all add: strip_line_def recordSegment_def Let_def)
  next
    case n: None
    show ?thesis using n None by (intro keep) (simp_all add: strip_line_def)
  qed
qed

section \<open>The offset map\<close>

text \<open>The bytes removed before an offset, read off the segments from left to right.\<close>

definition seg_delta :: "stripSegment list \<Rightarrow> nat \<Rightarrow> nat" where
  "seg_delta ss k = foldl (\<lambda>d s. if StrippedStart s \<le> k then CumDelta s else d) 0 ss"

lemma seg_delta_Nil [simp]: "seg_delta [] k = 0"
  by (simp add: seg_delta_def)

lemma seg_delta_snoc [simp]:
  "seg_delta (ss @ [s]) k = (if StrippedStart s \<le> k then CumDelta s else seg_delta ss k)"
  by (simp add: seg_delta_def)

text \<open>The loop invariant: \<open>done\<close> is the input consumed so far.\<close>

definition strip_inv :: "string \<Rightarrow> strip_state \<Rightarrow> bool" where
  "strip_inv done st \<longleftrightarrow>
     length done = length (buf st) + cumDelta st
     \<and> (\<forall>k. length (buf st) \<le> k \<longrightarrow> seg_delta (segs st) k = cumDelta st)
     \<and> (\<forall>k. seg_delta (segs st) k \<le> cumDelta st)
     \<and> (\<forall>j k. j \<le> k \<longrightarrow> seg_delta (segs st) j \<le> seg_delta (segs st) k)
     \<and> (\<forall>k < length (buf st). k + seg_delta (segs st) k < length done
          \<and> done ! (k + seg_delta (segs st) k) = buf st ! k)
     \<and> sorted (map StrippedStart (segs st))
     \<and> (\<forall>s \<in> set (segs st). StrippedStart s \<le> length (buf st) \<and> 0 < CumDelta s)
     \<and> (segs st = [] \<longrightarrow> cumDelta st = 0 \<and> done = buf st)"

lemma strip_inv_init: "strip_inv [] strip_init"
  by (simp add: strip_inv_def strip_init_def)

lemma strip_inv_line:
  assumes "strip_inv done st"
  shows "strip_inv (done @ s) (strip_line st s)"
proof (cases rule: strip_line_cases [of st s])
  case keep
  with assms show ?thesis
    by (auto simp: strip_inv_def nth_append intro: trans_le_add1)
next
  case (cut n)
  then show ?thesis using assms
    by (auto simp: strip_inv_def nth_append sorted_append not_le add.commute intro: le_trans trans_le_add1)
qed

lemma strip_inv_fold:
  "strip_inv done st \<Longrightarrow> strip_inv (done @ concat ls) (foldl strip_line st ls)"
proof (induction ls arbitrary: "done" st)
  case (Cons s ls)
  from Cons.IH [OF strip_inv_line [OF Cons.prems, of s]] show ?case by simp
qed simp

lemma strip_inv_result:
  assumes "r = StripShellPromptsWithMap sql"
  obtains st where "strip_inv sql st" "Stripped r = buf st" "segments r = segs st"
    "Removed r = (segs st \<noteq> [])"
proof (cases "sql = []")
  case True
  with assms show ?thesis
    by (intro that [of strip_init]) (simp_all add: strip_inv_init, simp_all add: StripShellPromptsWithMap_def strip_init_def)
next
  case False
  have "strip_inv ([] @ concat (split_after newline sql)) (foldl strip_line strip_init (split_after newline sql))"
    by (rule strip_inv_fold [OF strip_inv_init])
  with assms False show ?thesis
    by (intro that [of "foldl strip_line strip_init (split_after newline sql)"])
       (simp_all add: StripShellPromptsWithMap_def Let_def)
qed

lemma seg_delta_idx:
  assumes "idx \<le> length ss" "\<forall>i < idx. StrippedStart (ss ! i) \<le> k"
    "\<forall>i. idx \<le> i \<longrightarrow> i < length ss \<longrightarrow> k < StrippedStart (ss ! i)"
  shows "seg_delta ss k = (if idx = 0 then 0 else CumDelta (ss ! (idx - 1)))"
  using assms
proof (induction ss arbitrary: idx rule: rev_induct)
  case (snoc s ss)
  show ?case
  proof (cases "idx = Suc (length ss)")
    case True
    with snoc.prems(2) [rule_format, of "length ss"] show ?thesis by simp
  next
    case False
    with snoc.prems have idx: "idx \<le> length ss" by simp
    from snoc.prems(3) [rule_format, of "length ss"] idx have "k < StrippedStart s" by simp
    moreover have "seg_delta ss k = (if idx = 0 then 0 else CumDelta (ss ! (idx - 1)))"
    proof (rule snoc.IH [OF idx])
      show "\<forall>i<idx. StrippedStart (ss ! i) \<le> k"
        using snoc.prems(2) idx by (auto simp: nth_append)
      show "\<forall>i. idx \<le> i \<longrightarrow> i < length ss \<longrightarrow> k < StrippedStart (ss ! i)"
        using snoc.prems(3) by (auto simp: nth_append)
    qed
    ultimately show ?thesis using idx by (auto simp: nth_append)
  qed
qed simp

text \<open>The binary search finds the segment the left-to-right reading ends with.\<close>

lemma Translate_seg_delta:
  assumes "sorted (map StrippedStart (segments r))"
  shows "Translate r (int k) =
     int (min k (length (Stripped r)) + seg_delta (segments r) (min k (length (Stripped r))))"
proof -
  let ?ss = "segments r" and ?k = "min k (length (Stripped r))"
  let ?f = "\<lambda>i. int (StrippedStart (?ss ! i)) > int ?k"
  let ?idx = "sort_search (length ?ss) ?f"
  have mono: "?f b" if "a \<le> b" "b < length ?ss" "?f a" for a b
    using sorted_nth_mono [OF assms, of a b] that by simp
  have off: "(if int k > int (length (Stripped r)) then int (length (Stripped r)) else int k) = int ?k"
    by simp
  have i1: "?idx \<le> length ?ss" by (rule sort_search_correct(1)) (rule mono)
  have i2: "\<forall>i < ?idx. StrippedStart (?ss ! i) \<le> ?k"
  proof (intro allI impI)
    fix i assume "i < ?idx"
    then have "\<not> ?f i" by (rule sort_search_correct(2) [rotated]) (rule mono)
    then show "StrippedStart (?ss ! i) \<le> ?k" by (simp only: of_nat_less_iff not_less)
  qed
  have i3: "\<forall>i. ?idx \<le> i \<longrightarrow> i < length ?ss \<longrightarrow> ?k < StrippedStart (?ss ! i)"
  proof (intro allI impI)
    fix i assume "?idx \<le> i" "i < length ?ss"
    then have "?f i" by (rule sort_search_correct(3) [rotated]) (rule mono)
    then show "?k < StrippedStart (?ss ! i)" by (simp only: of_nat_less_iff)
  qed
  have "Translate r (int k) =
      (if ?ss = [] then int ?k
       else if ?idx = 0 then int ?k else int ?k + int (CumDelta (?ss ! (?idx - 1))))"
    unfolding Translate_def Let_def off [symmetric] by simp
  with seg_delta_idx [OF i1 i2 i3] show ?thesis by auto
qed

interpretation strip: offset_map "Translate (StripShellPromptsWithMap sql)"
    "Stripped (StripShellPromptsWithMap sql)" sql
  for sql
proof -
  define r where "r = StripShellPromptsWithMap sql"
  obtain st where inv: "strip_inv sql st" and r: "Stripped r = buf st" "segments r = segs st"
    by (rule strip_inv_result [OF r_def])
  have T: "Translate r (int k) = int (min k (length (buf st)) + seg_delta (segs st) (min k (length (buf st))))"
    for k
    using inv Translate_seg_delta [of r k] by (simp add: r strip_inv_def)
  have "offset_map (Translate r) (Stripped r) sql"
  proof
    fix k assume "k < length (Stripped r)"
    then show "0 \<le> Translate r (int k) \<and> nat (Translate r (int k)) < length sql
        \<and> sql ! nat (Translate r (int k)) = Stripped r ! k"
      using inv by (auto simp: T r strip_inv_def nat_int_add)
  next
    fix i assume "int (length (Stripped r)) \<le> i"
    then obtain k where "i = int k" "length (buf st) \<le> k"
      by (metis nonneg_int_cases of_nat_0_le_iff of_nat_le_iff order_trans r(1))
    then show "Translate r i = int (length sql)"
      using inv by (auto simp: T strip_inv_def min_def)
  next
    fix i :: int assume "i < 0"
    then show "Translate r i = Translate r 0" by (simp add: Translate_def)
  next
    fix i j assume "0 \<le> i" "i < j" "j < int (length (Stripped r))"
    then obtain a b where ab: "i = int a" "j = int b" "a < b" "b < length (buf st)"
      by (metis nonneg_int_cases of_nat_less_iff order_less_imp_le order_trans r(1))
    then have "seg_delta (segs st) a \<le> seg_delta (segs st) b"
      using inv by (auto simp: strip_inv_def)
    with ab show "Translate r i < Translate r j" by (simp add: T)
  qed
  then show "offset_map (Translate (StripShellPromptsWithMap sql))
      (Stripped (StripShellPromptsWithMap sql)) sql"
    by (simp add: r_def)
qed

section \<open>Properties\<close>

text \<open>translating an offset of the stripped text gives an offset of the original paste that holds the
  same byte; the end goes to the end, and the map is strictly increasing in between.\<close>

theorem Translate_same_byte:
  assumes "k < length (Stripped (StripShellPromptsWithMap sql))"
  shows "let o1 = Translate (StripShellPromptsWithMap sql) (int k) in
     0 \<le> o1 \<and> nat o1 < length sql \<and> sql ! nat o1 = Stripped (StripShellPromptsWithMap sql) ! k
     \<and> Translate (StripShellPromptsWithMap sql) (int (length (Stripped (StripShellPromptsWithMap sql))))
         = int (length sql)
     \<and> (\<forall>j < k. Translate (StripShellPromptsWithMap sql) (int j) < o1)"
  using strip.translate_byte [OF assms] strip.translate_end [of sql "int (length (Stripped (StripShellPromptsWithMap sql)))"]
    strip.translate_mono [of _ "int k" sql] assms
  by (simp add: Let_def)

definition sample_paste :: string where
  "sample_paste = ''root@:1/d> SELECT 1,'' @ [newline] @ ''  -> 2'' @ [newline]"

theorem Translate_same_byte_witness:
  "Stripped (StripShellPromptsWithMap sample_paste) = ''SELECT 1,'' @ [newline] @ ''2'' @ [newline]
   \<and> sample_paste ! nat (Translate (StripShellPromptsWithMap sample_paste) (int 10)) = CHR ''2''"
proof
  show s: "Stripped (StripShellPromptsWithMap sample_paste) = ''SELECT 1,'' @ [newline] @ ''2'' @ [newline]"
    by code_simp
  have "10 < length (Stripped (StripShellPromptsWithMap sample_paste))"
    unfolding s by simp
  from Translate_same_byte [OF this]
  show "sample_paste ! nat (Translate (StripShellPromptsWithMap sample_paste) (int 10)) = CHR ''2''"
    unfolding s by (simp add: Let_def)
qed

lemma strip_line_no_prompt:
  assumes "primaryPromptRE s = None" "\<not> seenPrimary st"
  shows "strip_line st s = st\<lparr>buf := buf st @ s\<rparr>"
  using assms by (simp add: strip_line_def)

lemma strip_no_prompt_fold:
  assumes "\<forall>s \<in> set ls. primaryPromptRE s = None" "\<not> seenPrimary st"
  shows "foldl strip_line st ls = st\<lparr>buf := buf st @ concat ls\<rparr>"
  using assms
proof (induction ls arbitrary: st)
  case (Cons s ls)
  then have "foldl strip_line (st\<lparr>buf := buf st @ s\<rparr>) ls
      = st\<lparr>buf := buf st @ s\<rparr>\<lparr>buf := buf (st\<lparr>buf := buf st @ s\<rparr>) @ concat ls\<rparr>"
    by (intro Cons.IH) auto
  with Cons.prems show ?case by (simp add: strip_line_no_prompt)
qed simp

text \<open>input in which no line starts with a primary prompt is left alone, even where lines start with
  \<open>->\<close>: the text is unchanged, nothing is reported as removed and \<open>Translate\<close> is the identity on it.\<close>

theorem StripShellPrompts_no_primary:
  assumes "\<forall>s \<in> set (split_after newline sql). primaryPromptRE s = None"
  shows "StripShellPrompts sql = sql \<and> \<not> Removed (StripShellPromptsWithMap sql)
     \<and> (\<forall>k \<le> length sql. Translate (StripShellPromptsWithMap sql) (int k) = int k)"
proof -
  have "foldl strip_line strip_init (split_after newline sql) = strip_init\<lparr>buf := sql\<rparr>"
    using strip_no_prompt_fold [OF assms, of strip_init] by (simp add: strip_init_def)
  then have "StripShellPromptsWithMap sql = \<lparr>Stripped = sql, Removed = False, segments = []\<rparr>"
    by (simp add: StripShellPromptsWithMap_def strip_init_def)
  then show ?thesis by (simp add: StripShellPrompts_def Translate_def)
qed

theorem StripShellPrompts_no_primary_witness:
  "StripShellPrompts (''SELECT a'' @ [newline] @ ''  -> 1'') = ''SELECT a'' @ [newline] @ ''  -> 1''"
proof -
  have "\<forall>s \<in> set (split_after newline (''SELECT a'' @ [newline] @ ''  -> 1'')). primaryPromptRE s = None"
    by code_simp
  from StripShellPrompts_no_primary [OF this] show ?thesis by blast
qed

text \<open>C33: a position in the stripped text, adjusted through the strip result, is always returned, lies in
  the original paste with the line and column of its offset, and names the same byte.\<close>

theorem AdjustPosition_through_strip:
  assumes "0 \<le> byte_offset p" "byte_offset p < int (length (StripShellPrompts sql))"
  shows "\<exists>q. AdjustPosition (Some p) sql (Translate (StripShellPromptsWithMap sql)) = Ret (Some q)
     \<and> points_at sql q \<and> sql ! nat (byte_offset q) = StripShellPrompts sql ! nat (byte_offset p)"
proof -
  obtain x where x: "AdjustPosition (Some p) sql (Translate (StripShellPromptsWithMap sql)) = Ret x"
    using strip.adjust_returns by blast
  then obtain q where "x = Some q"
    by (auto simp: AdjustPosition_def Let_def split: if_splits prod.splits)
  with x assms show ?thesis
    using strip.adjust_points_at [of p sql q] strip.adjust_same_byte [of p sql q]
    by (auto simp: StripShellPrompts_def)
qed

theorem AdjustPosition_through_strip_witness:
  "\<exists>q. AdjustPosition (Some \<lparr>line = 2, column = 1, byte_offset = 10\<rparr>) sample_paste
        (Translate (StripShellPromptsWithMap sample_paste)) = Ret (Some q)
     \<and> points_at sample_paste q
     \<and> sample_paste ! nat (byte_offset q) =
         StripShellPrompts sample_paste ! nat (byte_offset \<lparr>line = 2, column = 1, byte_offset = 10\<rparr>)"
proof (rule AdjustPosition_through_strip)
  show "0 \<le> byte_offset \<lparr>line = 2, column = 1, byte_offset = 10\<rparr>" by simp
  have "length (StripShellPrompts sample_paste) = 12" by code_simp
  then show "byte_offset \<lparr>line = 2, column = 1, byte_offset = 10\<rparr> < int (length (StripShellPrompts sample_paste))"
    by simp
qed

end
