(* ===== verification/Safety.thy ===== *)
theory Safety
  imports Output Ast
begin

text \<open>
  Package \<open>internal/safety\<close>: safety modes (\<open>mode.go\<close>), the statement allowlist (\<open>allowlist.go\<close>), the
  rendering of a violation with its escalation hint (\<open>envelope.go\<close>) and the automatic \<open>LIMIT\<close>
  (\<open>limit.go\<close>). A Go \<open>Mode\<close> is a string and an \<open>Operation\<close> an integer, so both have a case for
  values outside the declared constants. The locale \<open>statement_gate\<close> is what every surface relies
  on: a batch is admitted exactly when it is not empty and each of its statements is.
\<close>

section \<open>Modes\<close>

datatype mode = ModeReadOnly | ModeSafeWrite | ModeFullAccess | UnknownMode string

fun mode_string :: "mode \<Rightarrow> string" where
  "mode_string ModeReadOnly = ''read_only''"
| "mode_string ModeSafeWrite = ''safe_write''"
| "mode_string ModeFullAccess = ''full_access''"
| "mode_string (UnknownMode s) = s"

definition DefaultMode :: mode where
  "DefaultMode = ModeReadOnly"

definition ParseMode :: "string \<Rightarrow> string + mode" where
  "ParseMode s =
     (if s = '''' then Inr DefaultMode
      else if s = ''read_only'' then Inr ModeReadOnly
      else if s = ''safe_write'' then Inr ModeSafeWrite
      else if s = ''full_access'' then Inr ModeFullAccess
      else Inl (''invalid safety mode '' @ quote s @ '': valid choices are '' @ quote ''read_only'' @ '', ''
                @ quote ''safe_write'' @ '', '' @ quote ''full_access''))"

lemma ParseMode_Inr_cases:
  "ParseMode s = Inr m \<Longrightarrow> m \<in> {ModeReadOnly, ModeSafeWrite, ModeFullAccess} \<and> (s \<noteq> [] \<longrightarrow> s = mode_string m)"
  by (auto simp: ParseMode_def DefaultMode_def split: if_splits)

section \<open>Operations and violations\<close>

datatype operation = OpExplain | OpSimulate | OpExecute | UnknownOp int

fun op_string :: "operation \<Rightarrow> string" where
  "op_string OpExplain = ''explain''"
| "op_string OpSimulate = ''simulate''"
| "op_string OpExecute = ''execute''"
| "op_string (UnknownOp n) = ''unknown''"

datatype violation_kind =
    KindOther | KindWrite | KindSchema | KindPrivilege | KindClusterAdmin | KindNestedExplain
  | KindUnimplemented | KindBadOpInput

record violation =
  Tag :: string
  Reason :: string
  Mode :: mode
  Op :: operation
  Kind :: violation_kind

abbreviation violation :: "string \<Rightarrow> string \<Rightarrow> mode \<Rightarrow> operation \<Rightarrow> violation_kind \<Rightarrow> violation" where
  "violation t r m p k \<equiv> \<lparr>Tag = t, Reason = r, Mode = m, Op = p, Kind = k\<rparr>"

section \<open>Classification of one statement\<close>

definition is_explain :: "statement \<Rightarrow> bool" where
  "is_explain stmt =
     (case stmt of Plain _ Explain \<Rightarrow> True | Plain _ ExplainAnalyze \<Rightarrow> True | _ \<Rightarrow> False)"

definition nested_explain_reason :: string where
  "nested_explain_reason = ''nested EXPLAIN is not permitted; pass the inner statement directly''"

definition isClusterAdminStmt :: "statement \<Rightarrow> bool" where
  "isClusterAdminStmt stmt =
     (case stmt of
        Plain _ n \<Rightarrow>
          n \<in> set [SetZoneConfig, SetClusterSetting, SetTracing, CreateTenant, DropTenant,
                   AlterTenantSetClusterSetting, AlterTenantRename, AlterTenantReset, AlterTenantService]
      | _ \<Rightarrow> False)"

definition isTenantMgmtDMLStmt :: "statement \<Rightarrow> bool" where
  "isTenantMgmtDMLStmt stmt =
     (case stmt of
        Plain _ n \<Rightarrow> n \<in> set [AlterTenantCapability, AlterTenantReplication, CreateTenantFromReplication]
      | _ \<Rightarrow> False)"

definition clusterAdminReason :: "statement \<Rightarrow> mode \<Rightarrow> string" where
  "clusterAdminReason stmt m =
     (let suffix = (if m = ModeReadOnly then ''read_only mode forbids it''
                    else ''rerun with --mode=full_access'')
      in (case stmt of
            Plain _ n \<Rightarrow>
              (if n = SetZoneConfig then ''zone configuration changes require full_access; ''
               else if n = SetClusterSetting then ''cluster setting changes require full_access; ''
               else if n = SetTracing then ''tracing changes require full_access; ''
               else if n \<in> set [CreateTenant, DropTenant, AlterTenantSetClusterSetting, AlterTenantRename,
                                AlterTenantReset, AlterTenantService, AlterTenantCapability,
                                AlterTenantReplication, CreateTenantFromReplication]
               then ''tenant management requires full_access; ''
               else ''cluster administration requires full_access; '')
          | _ \<Rightarrow> ''cluster administration requires full_access; '') @ suffix)"

definition classifyDCL :: "statement \<Rightarrow> string \<Rightarrow> mode \<Rightarrow> operation \<Rightarrow> violation option" where
  "classifyDCL stmt t m p =
     (if type_of stmt \<noteq> TypeDCL then None
      else if isClusterAdminStmt stmt then Some (violation t (clusterAdminReason stmt m) m p KindClusterAdmin)
      else Some (violation t ''privilege/role changes require --mode=full_access'' m p KindPrivilege))"

definition notYetImplemented :: "mode \<Rightarrow> operation \<Rightarrow> statement \<Rightarrow> violation" where
  "notYetImplemented m p stmt =
     violation (tag_of stmt) (''safety mode '' @ quote (mode_string m) @ '' is not yet implemented'') m p
       KindUnimplemented"

definition classifyReadOnly :: "operation \<Rightarrow> statement \<Rightarrow> violation option" where
  "classifyReadOnly p stmt =
     (let t = tag_of stmt in
      if p = OpExplain \<or> p = OpExecute then
        (if is_explain stmt then Some (violation t nested_explain_reason ModeReadOnly p KindNestedExplain)
         else
           (case classifyDCL stmt t ModeReadOnly p of
              Some v \<Rightarrow> Some v
            | None \<Rightarrow>
                if isTenantMgmtDMLStmt stmt
                then Some (violation t (clusterAdminReason stmt ModeReadOnly) ModeReadOnly p KindClusterAdmin)
                else if CanModifySchema (class_of stmt) then
                  (let reason =
                         (if p = OpExplain
                          then ''statement modifies schema; rerun with --mode=safe_write or --mode=full_access''
                          else ''statement modifies schema; read_only mode forbids it'')
                   in Some (violation t reason ModeReadOnly p KindSchema))
                else if CanWriteData (class_of stmt)
                then Some (violation t ''statement writes data; read_only mode forbids it'' ModeReadOnly p KindWrite)
                else None))
      else if p = OpSimulate then
        (if is_explain stmt then Some (violation t nested_explain_reason ModeReadOnly p KindNestedExplain)
         else if type_of stmt = TypeDDL \<or> type_of stmt = TypeDML then None
         else Some (violation t
                ''simulate has no route for this statement type; only DDL, DML, and SELECT are supported''
                ModeReadOnly p KindBadOpInput))
      else Some (violation t (''unknown operation '' @ op_string p @ '' (programmer error)'') ModeReadOnly p
             KindOther))"

definition classifySafeWriteExecute :: "statement \<Rightarrow> violation option" where
  "classifySafeWriteExecute stmt =
     (let t = tag_of stmt in
      if is_explain stmt
      then Some (violation t nested_explain_reason ModeSafeWrite OpExecute KindNestedExplain)
      else
        (case classifyDCL stmt t ModeSafeWrite OpExecute of
           Some v \<Rightarrow> Some v
         | None \<Rightarrow>
             if isTenantMgmtDMLStmt stmt
             then Some (violation t (clusterAdminReason stmt ModeSafeWrite) ModeSafeWrite OpExecute
                    KindClusterAdmin)
             else if CanModifySchema (class_of stmt)
             then Some (violation t ''statement modifies schema; rerun with --mode=full_access'' ModeSafeWrite
                    OpExecute KindSchema)
             else None))"

definition classifySafeWriteExplain :: "statement \<Rightarrow> violation option" where
  "classifySafeWriteExplain stmt =
     (let t = tag_of stmt in
      if is_explain stmt
      then Some (violation t nested_explain_reason ModeSafeWrite OpExplain KindNestedExplain)
      else
        (case classifyDCL stmt t ModeSafeWrite OpExplain of
           Some v \<Rightarrow> Some v
         | None \<Rightarrow>
             if isTenantMgmtDMLStmt stmt
             then Some (violation t (clusterAdminReason stmt ModeSafeWrite) ModeSafeWrite OpExplain
                    KindClusterAdmin)
             else None))"

definition classifyFullAccessExecute :: "statement \<Rightarrow> violation option" where
  "classifyFullAccessExecute stmt = None"

definition classifyFullAccessExplain :: "statement \<Rightarrow> violation option" where
  "classifyFullAccessExplain stmt = None"

fun classify :: "mode \<Rightarrow> operation \<Rightarrow> statement \<Rightarrow> violation option" where
  "classify ModeReadOnly p stmt = classifyReadOnly p stmt"
| "classify ModeSafeWrite p stmt =
     (if p = OpExecute then classifySafeWriteExecute stmt
      else if p = OpExplain then classifySafeWriteExplain stmt
      else Some (notYetImplemented ModeSafeWrite p stmt))"
| "classify ModeFullAccess p stmt =
     (if p = OpExecute then classifyFullAccessExecute stmt
      else if p = OpExplain then classifyFullAccessExplain stmt
      else Some (notYetImplemented ModeFullAccess p stmt))"
| "classify (UnknownMode s) p stmt =
     Some (violation (tag_of stmt) (''unknown safety mode '' @ quote s) (UnknownMode s) p KindOther)"

section \<open>Batches\<close>

fun first_violation :: "mode \<Rightarrow> operation \<Rightarrow> parsed list \<Rightarrow> violation option" where
  "first_violation m p [] = None"
| "first_violation m p (s # ss) =
     (case classify m p (AST s) of Some v \<Rightarrow> Some v | None \<Rightarrow> first_violation m p ss)"

definition CheckParsed :: "mode \<Rightarrow> operation \<Rightarrow> parsed list \<Rightarrow> violation option" where
  "CheckParsed m p stmts =
     (if length stmts = 0 then Some (violation ''EMPTY'' ''no statements parsed'' m p KindOther)
      else first_violation m p stmts)"

text \<open>The parser is an argument; \<open>Inl\<close> is its error, passed through.\<close>

definition Check :: "(string \<Rightarrow> 'e + parsed list) \<Rightarrow> mode \<Rightarrow> operation \<Rightarrow> string \<Rightarrow> 'e + violation option" where
  "Check parse m p sql =
     (case parse sql of Inl e \<Rightarrow> Inl e | Inr stmts \<Rightarrow> Inr (CheckParsed m p stmts))"

section \<open>Rendering a violation\<close>

definition formatMessage :: "violation \<Rightarrow> string" where
  "formatMessage v =
     ''safety violation: '' @ Reason v @ '' ('' @ Tag v @ '', mode='' @ mode_string (Mode v) @ '', op=''
     @ op_string (Op v) @ '')''"

definition contextMap :: "violation \<Rightarrow> ctx" where
  "contextMap v =
     [(''tag'', CStr (Tag v)), (''mode'', CStr (mode_string (Mode v))),
      (''operation'', CStr (op_string (Op v))), (''reason'', CStr (Reason v))]"

definition escalationTargetFor :: "violation \<Rightarrow> mode option" where
  "escalationTargetFor v =
     (if Kind v \<in> set [KindNestedExplain, KindUnimplemented, KindBadOpInput, KindOther] then None
      else if Mode v = ModeReadOnly then
        (if Op v = OpExplain \<or> Op v = OpExecute then
           (case Kind v of
              KindWrite \<Rightarrow> Some ModeSafeWrite
            | KindSchema \<Rightarrow> if Op v = OpExplain then Some ModeSafeWrite else Some ModeFullAccess
            | KindPrivilege \<Rightarrow> Some ModeFullAccess
            | KindClusterAdmin \<Rightarrow> Some ModeFullAccess
            | _ \<Rightarrow> None)
         else None)
      else if Mode v = ModeSafeWrite then
        (if Op v = OpExplain \<or> Op v = OpExecute then
           (if Kind v \<in> set [KindSchema, KindPrivilege, KindClusterAdmin] then Some ModeFullAccess else None)
         else None)
      else None)"

definition suggestionsFor :: "violation \<Rightarrow> suggestion list" where
  "suggestionsFor v =
     (case escalationTargetFor v of
        None \<Rightarrow> []
      | Some target \<Rightarrow>
          [\<lparr>replacement = mode_string target, srange = \<lparr>range_start = 0, range_end = 0\<rparr>,
            confidence_pct = 0, reason = ''safety_mode_escalation''\<rparr>])"

definition Envelope :: "violation \<Rightarrow> error_entry" where
  "Envelope v =
     \<lparr>code = CodeSafetyViolation, severity = SevError, message = formatMessage v, position = None,
      category = ''safety'', econtext = contextMap v, suggestions = suggestionsFor v\<rparr>"

section \<open>The automatic limit\<close>

definition selectIsBounded :: "select \<Rightarrow> bool" where
  "selectIsBounded sel =
     (case sel_limit sel of None \<Rightarrow> False | Some l \<Rightarrow> lim_count l \<noteq> None \<or> LimitAll l)"

text \<open>
  \<open>NewDInt(DInt(maxRows))\<close>. The Go code updates the \<open>Select\<close> in place and prints it; the model
  returns the updated one with the text, \<open>print\<close> being \<open>tree.AsStringWithFlags\<close>.
\<close>

definition with_limit :: "int \<Rightarrow> select \<Rightarrow> select" where
  "with_limit maxRows sel =
     (case sel of
        Select w st ob None lk \<Rightarrow> Select w st ob (Some (Limit (Some (DInt maxRows)) None False)) lk
      | Select w st ob (Some (Limit c off a)) lk \<Rightarrow>
          Select w st ob (Some (Limit (Some (DInt maxRows)) off a)) lk)"

definition MaybeInjectLimitParsed ::
    "(statement \<Rightarrow> string) \<Rightarrow> parsed list \<Rightarrow> int \<Rightarrow> (string \<times> statement) option" where
  "MaybeInjectLimitParsed print stmts maxRows =
     (if maxRows \<le> 0 \<or> length stmts \<noteq> 1 then None
      else
        (case AST (stmts ! 0) of
           SelectStmt c sel \<Rightarrow>
             if selectIsBounded sel then None
             else (let s' = SelectStmt c (with_limit maxRows sel) in Some (print s', s'))
         | _ \<Rightarrow> None))"

definition MaybeInjectLimit ::
    "(string \<Rightarrow> 'e + parsed list) \<Rightarrow> (statement \<Rightarrow> string) \<Rightarrow> string \<Rightarrow> int \<Rightarrow> string \<times> bool \<times> 'e option" where
  "MaybeInjectLimit parse print sql maxRows =
     (if maxRows \<le> 0 then (sql, False, None)
      else
        (case parse sql of
           Inl e \<Rightarrow> (sql, False, Some e)
         | Inr stmts \<Rightarrow>
             (case MaybeInjectLimitParsed print stmts maxRows of
                None \<Rightarrow> (sql, False, None)
              | Some (rewritten, _) \<Rightarrow> (rewritten, True, None))))"

section \<open>The gate\<close>

locale statement_gate =
  fixes admits :: "'stmt \<Rightarrow> bool" and check :: "'stmt list \<Rightarrow> 'v option"
  assumes check_empty: "check [] \<noteq> None"
    and check_single: "check [s] = None \<longleftrightarrow> admits s"
    and check_Cons: "ss \<noteq> [] \<Longrightarrow> check (s # ss) = None \<longleftrightarrow> admits s \<and> check ss = None"
begin

lemma check_iff: "check ss = None \<longleftrightarrow> ss \<noteq> [] \<and> (\<forall>s \<in> set ss. admits s)"
proof (induction ss)
  case Nil
  then show ?case using check_empty by simp
next
  case (Cons s ss)
  then show ?case by (cases "ss = []") (auto simp: check_single check_Cons)
qed

lemma check_append: "ss \<noteq> [] \<Longrightarrow> ts \<noteq> [] \<Longrightarrow> check (ss @ ts) = None \<longleftrightarrow> check ss = None \<and> check ts = None"
  by (auto simp: check_iff)

lemma check_order: "set ss = set ts \<Longrightarrow> check ss = None \<longleftrightarrow> check ts = None"
  by (auto simp: check_iff)

end

locale gate_escalation =
  lower: statement_gate admits1 check1 + upper: statement_gate admits2 check2
  for admits1 :: "'stmt \<Rightarrow> bool" and check1 :: "'stmt list \<Rightarrow> 'v option"
    and admits2 :: "'stmt \<Rightarrow> bool" and check2 :: "'stmt list \<Rightarrow> 'v option" +
  assumes escalates: "admits1 s \<Longrightarrow> admits2 s"
begin

lemma check_escalates: "check1 ss = None \<Longrightarrow> check2 ss = None"
  using escalates by (auto simp: lower.check_iff upper.check_iff)

end

lemma first_violation_None: "first_violation m p ss = None \<longleftrightarrow> (\<forall>s \<in> set ss. classify m p (AST s) = None)"
  by (induction ss) (auto split: option.splits)

interpretation gate: statement_gate "\<lambda>s. classify m p (AST s) = None" "CheckParsed m p" for m p
  by unfold_locales (auto simp: CheckParsed_def first_violation_None)

text \<open>The classifiers, branch by branch.\<close>

lemma classifyDCL_None [simp]: "classifyDCL stmt t m p = None \<longleftrightarrow> type_of stmt \<noteq> TypeDCL"
  by (simp add: classifyDCL_def)

lemma classifyDCL_Some:
  "classifyDCL stmt t m p = Some v \<Longrightarrow>
     type_of stmt = TypeDCL \<and> Tag v = t \<and> Mode v = m \<and> Op v = p \<and> Kind v \<in> {KindClusterAdmin, KindPrivilege}"
  by (auto simp: classifyDCL_def split: if_splits)

definition cluster_level :: "statement \<Rightarrow> bool" where
  "cluster_level stmt \<longleftrightarrow> type_of stmt = TypeDCL \<or> isTenantMgmtDMLStmt stmt"

definition routed_op :: "operation \<Rightarrow> bool" where
  "routed_op p \<longleftrightarrow> p = OpExplain \<or> p = OpExecute"

lemma classifyReadOnly_None:
  "routed_op p \<Longrightarrow> classifyReadOnly p stmt = None \<longleftrightarrow>
     \<not> is_explain stmt \<and> \<not> cluster_level stmt \<and> \<not> CanModifySchema (class_of stmt) \<and> \<not> CanWriteData (class_of stmt)"
  by (simp add: classifyReadOnly_def cluster_level_def routed_op_def Let_def)

lemma classifySafeWriteExecute_None:
  "classifySafeWriteExecute stmt = None \<longleftrightarrow>
     \<not> is_explain stmt \<and> \<not> cluster_level stmt \<and> \<not> CanModifySchema (class_of stmt)"
  by (simp add: classifySafeWriteExecute_def cluster_level_def Let_def)

lemma classifySafeWriteExplain_None:
  "classifySafeWriteExplain stmt = None \<longleftrightarrow> \<not> is_explain stmt \<and> \<not> cluster_level stmt"
  by (simp add: classifySafeWriteExplain_def cluster_level_def Let_def)

lemma classifySimulate_None:
  "classifyReadOnly OpSimulate stmt = None \<longleftrightarrow>
     \<not> is_explain stmt \<and> (type_of stmt = TypeDDL \<or> type_of stmt = TypeDML)"
  by (auto simp: classifyReadOnly_def Let_def)

lemmas classify_None =
  classifyReadOnly_None classifySafeWriteExecute_None classifySafeWriteExplain_None classifySimulate_None
  classifyFullAccessExecute_def classifyFullAccessExplain_def

interpretation read_to_write: gate_escalation
  "\<lambda>s. classify ModeReadOnly OpExecute (AST s) = None" "CheckParsed ModeReadOnly OpExecute"
  "\<lambda>s. classify ModeSafeWrite OpExecute (AST s) = None" "CheckParsed ModeSafeWrite OpExecute"
  by unfold_locales (auto simp: classify_None routed_op_def)

interpretation read_to_write_explain: gate_escalation
  "\<lambda>s. classify ModeReadOnly OpExplain (AST s) = None" "CheckParsed ModeReadOnly OpExplain"
  "\<lambda>s. classify ModeSafeWrite OpExplain (AST s) = None" "CheckParsed ModeSafeWrite OpExplain"
  by unfold_locales (auto simp: classify_None routed_op_def)

interpretation write_to_full: gate_escalation
  "\<lambda>s. classify ModeSafeWrite OpExecute (AST s) = None" "CheckParsed ModeSafeWrite OpExecute"
  "\<lambda>s. classify ModeFullAccess OpExecute (AST s) = None" "CheckParsed ModeFullAccess OpExecute"
  by unfold_locales (auto simp: classify_None)

interpretation write_to_full_explain: gate_escalation
  "\<lambda>s. classify ModeSafeWrite OpExplain (AST s) = None" "CheckParsed ModeSafeWrite OpExplain"
  "\<lambda>s. classify ModeFullAccess OpExplain (AST s) = None" "CheckParsed ModeFullAccess OpExplain"
  by unfold_locales (auto simp: classify_None)

text \<open>The kind of a violation, in the order the classifiers test the statement.\<close>

definition rejection_kind :: "statement \<Rightarrow> violation_kind" where
  "rejection_kind stmt =
     (if is_explain stmt then KindNestedExplain
      else if type_of stmt = TypeDCL then (if isClusterAdminStmt stmt then KindClusterAdmin else KindPrivilege)
      else if isTenantMgmtDMLStmt stmt then KindClusterAdmin
      else if CanModifySchema (class_of stmt) then KindSchema
      else KindWrite)"

lemma classifyReadOnly_Some:
  assumes "classifyReadOnly p stmt = Some v"
  shows "Tag v = tag_of stmt \<and> Mode v = ModeReadOnly \<and> Op v = p
    \<and> Kind v = (if routed_op p then rejection_kind stmt
               else if p = OpSimulate then (if is_explain stmt then KindNestedExplain else KindBadOpInput)
               else KindOther)"
proof (cases "routed_op p")
  case True
  with assms show ?thesis
    by (cases "is_explain stmt"; cases "type_of stmt = TypeDCL")
      (auto simp: classifyReadOnly_def routed_op_def rejection_kind_def classifyDCL_def Let_def split: if_splits)
next
  case False
  with assms show ?thesis
    by (auto simp: classifyReadOnly_def routed_op_def Let_def split: if_splits)
qed

lemma classifySafeWriteExecute_Some:
  assumes "classifySafeWriteExecute stmt = Some v"
  shows "Tag v = tag_of stmt \<and> Mode v = ModeSafeWrite \<and> Op v = OpExecute \<and> Kind v = rejection_kind stmt"
  using assms
  by (cases "is_explain stmt"; cases "type_of stmt = TypeDCL")
    (auto simp: classifySafeWriteExecute_def rejection_kind_def classifyDCL_def Let_def split: if_splits)

lemma classifySafeWriteExplain_Some:
  assumes "classifySafeWriteExplain stmt = Some v"
  shows "Tag v = tag_of stmt \<and> Mode v = ModeSafeWrite \<and> Op v = OpExplain \<and> Kind v = rejection_kind stmt"
  using assms
  by (cases "is_explain stmt"; cases "type_of stmt = TypeDCL")
    (auto simp: classifySafeWriteExplain_def rejection_kind_def classifyDCL_def Let_def split: if_splits)

lemma classify_fields:
  assumes "classify m p stmt = Some v"
  shows "Tag v = tag_of stmt \<and> Mode v = m \<and> Op v = p"
  using assms
  by (cases m)
    (auto simp: notYetImplemented_def classifyFullAccessExecute_def classifyFullAccessExplain_def
      dest: classifyReadOnly_Some classifySafeWriteExecute_Some classifySafeWriteExplain_Some split: if_splits)

fun mode_rank :: "mode \<Rightarrow> nat" where
  "mode_rank ModeReadOnly = 0"
| "mode_rank ModeSafeWrite = 1"
| "mode_rank ModeFullAccess = 2"
| "mode_rank (UnknownMode _) = 3"

definition sample_class :: "string \<Rightarrow> statement_type \<Rightarrow> bool \<Rightarrow> bool \<Rightarrow> classification" where
  "sample_class t ty w ms = \<lparr>StatementTag = t, StatementType = ty, CanWriteData = w, CanModifySchema = ms\<rparr>"

definition sample_drop :: parsed where
  "sample_drop = \<lparr>AST = Plain (sample_class ''DROP TABLE'' TypeDDL False True) (DropTable []), SQL = ''DROP TABLE t''\<rparr>"

definition sample_show :: parsed where
  "sample_show = \<lparr>AST = Plain (sample_class ''SHOW TABLES'' TypeDML False False) OtherNode, SQL = ''SHOW TABLES''\<rparr>"

text \<open>C1: The exact admission sets of \<open>CheckParsed\<close>: an empty batch is never admitted; otherwise each statement
  must be. Under \<open>read_only\<close>, explain and execute admit only statements that are no \<open>EXPLAIN\<close>, no
  privilege, cluster or tenant administration, and neither modify the schema nor write data;
  \<open>safe_write\<close> adds data writes for execute, data writes and schema changes for explain; simulate
  admits the DDL and DML that is no \<open>EXPLAIN\<close>, under \<open>read_only\<close> only; an unknown mode or operation
  admits nothing outside \<open>full_access\<close>.\<close>

theorem CheckParsed_admits:
  "CheckParsed m p stmts = None \<longleftrightarrow> stmts \<noteq> [] \<and> (\<forall>s \<in> set stmts.
     (case (m, p) of
        (ModeReadOnly, OpSimulate) \<Rightarrow>
          \<not> is_explain (AST s) \<and> (type_of (AST s) = TypeDDL \<or> type_of (AST s) = TypeDML)
      | (ModeReadOnly, UnknownOp _) \<Rightarrow> False
      | (ModeReadOnly, _) \<Rightarrow>
          \<not> is_explain (AST s) \<and> \<not> cluster_level (AST s) \<and>
          \<not> CanModifySchema (class_of (AST s)) \<and> \<not> CanWriteData (class_of (AST s))
      | (ModeSafeWrite, OpExecute) \<Rightarrow>
          \<not> is_explain (AST s) \<and> \<not> cluster_level (AST s) \<and> \<not> CanModifySchema (class_of (AST s))
      | (ModeSafeWrite, OpExplain) \<Rightarrow> \<not> is_explain (AST s) \<and> \<not> cluster_level (AST s)
      | (ModeFullAccess, OpExecute) \<Rightarrow> True
      | (ModeFullAccess, OpExplain) \<Rightarrow> True
      | _ \<Rightarrow> False))"
proof -
  have unknown_op: "classifyReadOnly (UnknownOp n) stmt = Some (violation (tag_of stmt)
      (''unknown operation '' @ op_string (UnknownOp n) @ '' (programmer error)'') ModeReadOnly (UnknownOp n) KindOther)"
    for n stmt by (simp add: classifyReadOnly_def Let_def)
  show ?thesis
    unfolding gate.check_iff
    by (cases m; cases p; cases stmts) (auto simp: classify_None routed_op_def unknown_op)
qed

theorem CheckParsed_admits_witness:
  "CheckParsed ModeReadOnly OpSimulate [sample_drop] = None \<and> CheckParsed ModeReadOnly OpExecute [sample_show] = None
   \<and> CheckParsed ModeReadOnly OpExecute [sample_show, sample_drop] \<noteq> None"
  using CheckParsed_admits [of ModeReadOnly OpSimulate "[sample_drop]"]
    CheckParsed_admits [of ModeReadOnly OpExecute "[sample_show]"]
    CheckParsed_admits [of ModeReadOnly OpExecute "[sample_show, sample_drop]"]
  by (simp add: sample_drop_def sample_show_def sample_class_def is_explain_def cluster_level_def
    isClusterAdminStmt_def isTenantMgmtDMLStmt_def)

text \<open>A rejected batch is rejected for its first inadmissible statement: the violation is that statement's,
  names its tag with the mode and operation asked for, and every statement before it was admitted.\<close>

theorem CheckParsed_first_violation:
  assumes "CheckParsed m p stmts = Some v" "stmts \<noteq> []"
  shows "\<exists>before s after. stmts = before @ s # after \<and> (\<forall>b \<in> set before. classify m p (AST b) = None)
    \<and> classify m p (AST s) = Some v \<and> Tag v = tag_of (AST s) \<and> Mode v = m \<and> Op v = p"
proof -
  have "first_violation m p ss = Some v \<Longrightarrow> \<exists>before s after. ss = before @ s # after
      \<and> (\<forall>b \<in> set before. classify m p (AST b) = None) \<and> classify m p (AST s) = Some v" for ss
  proof (induction ss)
    case (Cons a ss)
    show ?case
    proof (cases "classify m p (AST a)")
      case None
      with Cons obtain before s after where "ss = before @ s # after"
        "\<forall>b \<in> set before. classify m p (AST b) = None" "classify m p (AST s) = Some v" by auto
      with None show ?thesis by (intro exI [of _ "a # before"]) auto
    next
      case (Some w)
      with Cons.prems show ?thesis by (intro exI [of _ "[]"]) auto
    qed
  qed simp
  with assms classify_fields show ?thesis by (fastforce simp: CheckParsed_def)
qed

theorem CheckParsed_first_violation_witness:
  "let v = the (CheckParsed ModeReadOnly OpExecute [sample_show, sample_drop]) in
    \<exists>before s after. [sample_show, sample_drop] = before @ s # after
    \<and> (\<forall>b \<in> set before. classify ModeReadOnly OpExecute (AST b) = None)
    \<and> classify ModeReadOnly OpExecute (AST s) = Some v \<and> Tag v = tag_of (AST s) \<and> Mode v = ModeReadOnly
    \<and> Op v = OpExecute"
  unfolding Let_def
  by (rule CheckParsed_first_violation) (code_simp, simp)

text \<open>For explain and execute, raising the mode never rejects a batch that a lower mode admits.\<close>

theorem CheckParsed_mode_monotone:
  assumes "p = OpExplain \<or> p = OpExecute" "mode_rank m \<le> mode_rank m'" "mode_rank m' \<le> 2"
    and "CheckParsed m p stmts = None"
  shows "CheckParsed m' p stmts = None"
  using assms read_to_write.check_escalates read_to_write_explain.check_escalates
    write_to_full.check_escalates write_to_full_explain.check_escalates
  by (cases m; cases m') auto

theorem CheckParsed_mode_monotone_witness: "CheckParsed ModeFullAccess OpExecute [sample_show] = None"
  by (rule CheckParsed_mode_monotone [of _ ModeReadOnly]) (simp, simp, simp, code_simp)

text \<open>C2: The escalation hint of a violation is right: retrying in the suggested mode admits the statement,
  and no lower mode does. Without a hint, the only higher mode that could admit the statement is
  \<open>full_access\<close>, for a nested \<open>EXPLAIN\<close>.\<close>

theorem escalation_hint:
  assumes "classify m p stmt = Some v" "mode_rank m \<le> 2"
  shows "case escalationTargetFor v of
      Some target \<Rightarrow> classify target p stmt = None \<and>
        (\<forall>m'. classify m' p stmt = None \<longrightarrow> mode_rank target \<le> mode_rank m')
    | None \<Rightarrow> (\<forall>m'. mode_rank m < mode_rank m' \<and> classify m' p stmt = None \<longrightarrow>
        m' = ModeFullAccess \<and> is_explain stmt)"
proof -
  have all: "(\<forall>m'. P m') \<longleftrightarrow> P ModeReadOnly \<and> P ModeSafeWrite \<and> P ModeFullAccess \<and> (\<forall>s. P (UnknownMode s))"
    for P :: "mode \<Rightarrow> bool" by (metis mode.exhaust)
  have f: "Mode v = m" "Op v = p" using classify_fields [OF assms(1)] by simp_all
  show ?thesis
  proof (cases "routed_op p")
    case False
    then have "escalationTargetFor v = None"
      using f by (auto simp: escalationTargetFor_def routed_op_def)
    with False assms show ?thesis
      by (cases m; cases p) (auto simp: all routed_op_def notYetImplemented_def classifyReadOnly_def Let_def)
  next
    case routed: True
    have rejected: "classify m p stmt \<noteq> None" using assms by simp
    have kind: "m \<noteq> ModeFullAccess \<and> Kind v = rejection_kind stmt"
      using assms routed
      by (cases m) (auto simp: routed_op_def classifyFullAccessExecute_def classifyFullAccessExplain_def
          dest: classifyReadOnly_Some classifySafeWriteExecute_Some classifySafeWriteExplain_Some split: if_splits)
    show ?thesis
      using kind rejected routed f assms(2)
      by (cases m; cases "p = OpExplain"; cases "is_explain stmt"; cases "cluster_level stmt")
        (simp_all add: all escalationTargetFor_def rejection_kind_def classify_None cluster_level_def
          routed_op_def split: if_splits)
  qed
qed

theorem escalation_hint_witness:
  "case escalationTargetFor (the (classify ModeReadOnly OpExplain (AST sample_drop))) of
      Some target \<Rightarrow> classify target OpExplain (AST sample_drop) = None \<and>
        (\<forall>m'. classify m' OpExplain (AST sample_drop) = None \<longrightarrow> mode_rank target \<le> mode_rank m')
    | None \<Rightarrow> (\<forall>m'. mode_rank ModeReadOnly < mode_rank m' \<and> classify m' OpExplain (AST sample_drop) = None \<longrightarrow>
        m' = ModeFullAccess \<and> is_explain (AST sample_drop))"
  by (rule escalation_hint) (code_simp, simp)

text \<open>A nested \<open>EXPLAIN\<close> gets no hint, although \<open>full_access\<close> admits it.\<close>

lemma nested_explain_no_hint:
  assumes "is_explain stmt" "routed_op p" "classify ModeReadOnly p stmt = Some v"
  shows "Kind v = KindNestedExplain" "escalationTargetFor v = None" "classify ModeFullAccess p stmt = None"
  using assms
  by (auto simp: classifyReadOnly_def escalationTargetFor_def routed_op_def classify_None Let_def)

text \<open>C3: The automatic limit fires exactly on a batch of one \<open>SELECT\<close> without a row count and without
  \<open>LIMIT ALL\<close>; it changes nothing but the count, which becomes the requested maximum (an offset
  stays), and it does not fire again on its own result.\<close>

theorem MaybeInjectLimitParsed_spec:
  "(case MaybeInjectLimitParsed print stmts maxRows of
      None \<Rightarrow> maxRows \<le> 0 \<or> length stmts \<noteq> 1 \<or>
        (\<forall>c sel. AST (hd stmts) = SelectStmt c sel \<longrightarrow> selectIsBounded sel)
    | Some (out, stmt') \<Rightarrow> maxRows > 0 \<and> (\<exists>s c w st ob lk l l'.
        stmts = [s] \<and> AST s = SelectStmt c (Select w st ob l lk) \<and> \<not> selectIsBounded (Select w st ob l lk)
        \<and> stmt' = SelectStmt c (Select w st ob (Some l') lk) \<and> out = print stmt'
        \<and> lim_count l' = Some (DInt maxRows) \<and> \<not> LimitAll l'
        \<and> lim_offset l' = (case l of None \<Rightarrow> None | Some k \<Rightarrow> lim_offset k)
        \<and> MaybeInjectLimitParsed print [\<lparr>AST = stmt', SQL = out\<rparr>] maxRows = None))"
proof (cases "maxRows > 0 \<and> length stmts = 1 \<and> (\<exists>c sel. AST (hd stmts) = SelectStmt c sel \<and> \<not> selectIsBounded sel)")
  case False
  then have "MaybeInjectLimitParsed print stmts maxRows = None"
    by (cases stmts) (auto simp: MaybeInjectLimitParsed_def split: statement.splits)
  with False show ?thesis by auto
next
  case True
  then obtain s c w st ob l lk where s: "stmts = [s]" "AST s = SelectStmt c (Select w st ob l lk)"
    "\<not> selectIsBounded (Select w st ob l lk)" "maxRows > 0"
    by (cases stmts) (auto, metis select.exhaust)
  define l' where "l' = Limit (Some (DInt maxRows)) (case l of None \<Rightarrow> None | Some k \<Rightarrow> lim_offset k) False"
  have wl: "with_limit maxRows (Select w st ob l lk) = Select w st ob (Some l') lk"
    using s(3) by (cases l) (auto simp: with_limit_def l'_def selectIsBounded_def split: limit.splits)
  have "selectIsBounded (Select w st ob (Some l') lk)" by (simp add: selectIsBounded_def l'_def)
  then have "MaybeInjectLimitParsed print [\<lparr>AST = SelectStmt c (Select w st ob (Some l') lk), SQL = t\<rparr>] maxRows = None" for t
    by (simp add: MaybeInjectLimitParsed_def)
  with s wl show ?thesis
    by (auto simp: MaybeInjectLimitParsed_def Let_def l'_def)
qed

theorem MaybeInjectLimitParsed_spec_witness:
  "\<exists>out stmt'. MaybeInjectLimitParsed (\<lambda>_. ''SELECT LIMIT 10'')
     [\<lparr>AST = SelectStmt (sample_class ''SELECT'' TypeDML False False)
        (Select [] OtherSelect [] (Some (Limit None (Some (DInt 5)) False)) []), SQL = ''SELECT''\<rparr>] 10 = Some (out, stmt')
   \<and> stmt' = SelectStmt (sample_class ''SELECT'' TypeDML False False)
        (Select [] OtherSelect [] (Some (Limit (Some (DInt 10)) (Some (DInt 5)) False)) [])"
proof -
  let ?in = "[\<lparr>AST = SelectStmt (sample_class ''SELECT'' TypeDML False False)
        (Select [] OtherSelect [] (Some (Limit None (Some (DInt 5)) False)) []), SQL = ''SELECT''\<rparr>]"
  have "MaybeInjectLimitParsed (\<lambda>_. ''SELECT LIMIT 10'') ?in 10 \<noteq> None"
    by (simp add: MaybeInjectLimitParsed_def selectIsBounded_def Let_def)
  then obtain out stmt' where r: "MaybeInjectLimitParsed (\<lambda>_. ''SELECT LIMIT 10'') ?in 10 = Some (out, stmt')" by auto
  from MaybeInjectLimitParsed_spec [where print = "\<lambda>_. ''SELECT LIMIT 10''" and stmts = ?in and maxRows = 10, unfolded r]
  obtain l' where "stmt' = SelectStmt (sample_class ''SELECT'' TypeDML False False) (Select [] OtherSelect [] (Some l') [])"
    "lim_count l' = Some (DInt 10)" "\<not> LimitAll l'" "lim_offset l' = Some (DInt 5)"
    by auto
  then have "stmt' = SelectStmt (sample_class ''SELECT'' TypeDML False False)
        (Select [] OtherSelect [] (Some (Limit (Some (DInt 10)) (Some (DInt 5)) False)) [])"
    by (cases l') simp
  with r show ?thesis by blast
qed

end
