(* ===== verification/Version_Features.thy ===== *)
theory Version_Features
  imports Output Ast
begin

text \<open>
  Package \<open>internal/version\<close>: the feature registry (\<open>registry.go\<close>) with its construction-time
  validation, the version comparison, and the inspector that turns the features a statement uses
  into warnings for a target version that predates them (\<open>check.go\<close>). A Go \<open>panic\<close> is the
  \<^const>\<open>Panic\<close> outcome.
\<close>

section \<open>Versions\<close>

definition parseMajorMinor :: "string \<Rightarrow> (nat \<times> nat) option" where
  "parseMajorMinor v0 =
     (let v = trim_prefix v0 ''v''; parts = split_on CHR ''.'' v in
      if length parts < 2 then None
      else
        (case parse_uint32 (parts ! 0) of
           None \<Rightarrow> None
         | Some major \<Rightarrow>
             (case parse_uint32 (parts ! 1) of
                None \<Rightarrow> None
              | Some minor \<Rightarrow> Some (major, minor))))"

definition compareMajorMinor :: "string \<Rightarrow> string \<Rightarrow> int outcome" where
  "compareMajorMinor a b =
     (case parseMajorMinor a of
        None \<Rightarrow> Panic (''version: compareMajorMinor: unparseable '' @ quote a)
      | Some av \<Rightarrow>
          (case parseMajorMinor b of
             None \<Rightarrow> Panic (''version: compareMajorMinor: unparseable '' @ quote b)
           | Some bv \<Rightarrow>
               if fst av \<noteq> fst bv then (if fst av < fst bv then Ret (- 1) else Ret 1)
               else if snd av \<noteq> snd bv then (if snd av < snd bv then Ret (- 1) else Ret 1)
               else Ret 0))"

section \<open>The registry\<close>

record feature =
  Tag :: string
  Name :: string
  Introduced :: string
  Removed :: string
  DocURL :: string

datatype status = StatusUnknown | StatusSupported | StatusNotYetIntroduced | StatusRemoved

definition zero_feature :: feature where
  "zero_feature = \<lparr>Tag = [], Name = [], Introduced = [], Removed = [], DocURL = []\<rparr>"

type_synonym registry = "string \<rightharpoonup> feature"

definition validate_feature :: "registry \<Rightarrow> feature \<Rightarrow> unit outcome" where
  "validate_feature byTag f =
     (if Tag f = [] then Panic ''version: feature has empty Tag''
      else if Name f = [] then Panic (''version: feature '' @ quote (Tag f) @ '' has empty Name'')
      else if byTag (Tag f) \<noteq> None then Panic (''version: duplicate Tag '' @ quote (Tag f))
      else if Introduced f \<noteq> [] \<and> parseMajorMinor (Introduced f) = None
      then Panic (''version: feature '' @ quote (Tag f) @ '' has invalid Introduced '' @ quote (Introduced f))
      else if Removed f \<noteq> [] then
        (if Introduced f = []
         then Panic (''version: feature '' @ quote (Tag f) @ '' has Removed '' @ quote (Removed f)
                     @ '' without Introduced'')
         else if parseMajorMinor (Removed f) = None
         then Panic (''version: feature '' @ quote (Tag f) @ '' has invalid Removed '' @ quote (Removed f))
         else
           (case compareMajorMinor (Removed f) (Introduced f) of
              Panic e \<Rightarrow> Panic e
            | Ret c \<Rightarrow>
                if c \<le> 0
                then Panic (''version: feature '' @ quote (Tag f) @ '' has Removed '' @ quote (Removed f)
                            @ '' <= Introduced '' @ quote (Introduced f))
                else Ret ()))
      else Ret ())"

fun add_features :: "registry \<Rightarrow> feature list \<Rightarrow> registry outcome" where
  "add_features byTag [] = Ret byTag"
| "add_features byTag (f # fs) =
     (case validate_feature byTag f of
        Panic e \<Rightarrow> Panic e
      | Ret _ \<Rightarrow> add_features (byTag(Tag f \<mapsto> f)) fs)"

definition NewRegistry :: "feature list \<Rightarrow> registry outcome" where
  "NewRegistry features = add_features Map.empty features"

definition feature :: "string \<Rightarrow> string \<Rightarrow> string \<Rightarrow> feature" where
  "feature t n v = \<lparr>Tag = t, Name = n, Introduced = v, Removed = [], DocURL = []\<rparr>"

definition default_features :: "feature list" where
  "default_features =
     [feature ''plpgsql_function_body'' ''PL/pgSQL function bodies'' ''24.1'',
      feature ''trigram_index'' ''trigram indexes'' ''23.1'',
      feature ''regional_by_row'' ''REGIONAL BY ROW tables'' ''21.1'',
      feature ''alter_changefeed'' ''ALTER CHANGEFEED'' ''22.1'',
      feature ''triggers'' ''triggers (CREATE/ALTER/DROP TRIGGER)'' ''24.3'',
      feature ''show_logical_replication_jobs'' ''SHOW LOGICAL REPLICATION JOBS'' ''24.3'',
      feature ''ldr_skip_schema_check'' ''LDR SKIP SCHEMA CHECK option'' ''24.3'',
      feature ''vector_index'' ''vector indexes (CSPANN)'' ''25.1'',
      feature ''row_level_security'' ''row-level security (CREATE/ALTER/DROP POLICY)'' ''25.1'',
      feature ''check_external_connection'' ''CHECK EXTERNAL CONNECTION'' ''25.1'',
      feature ''ldr_bidirectional'' ''LDR BIDIRECTIONAL option'' ''25.1'',
      feature ''do_block'' ''DO (anonymous PL/pgSQL block)'' ''25.1'',
      feature ''returns_table'' ''RETURNS TABLE for user-defined functions'' ''25.1'',
      feature ''xa_transactions'' ''XA two-phase commit (PREPARE/COMMIT/ROLLBACK PREPARED)'' ''25.1'',
      feature ''create_policy_if_not_exists'' ''CREATE POLICY IF NOT EXISTS'' ''25.2'',
      feature ''refresh_materialized_view_as_of_system_time'' ''REFRESH MATERIALIZED VIEW ... AS OF SYSTEM TIME'' ''25.2'',
      feature ''alter_virtual_cluster_replication_source'' ''ALTER VIRTUAL CLUSTER ... SET REPLICATION SOURCE'' ''25.2'',
      feature ''show_create_all_triggers'' ''SHOW CREATE ALL TRIGGERS'' ''25.3'',
      feature ''show_create_all_routines'' ''SHOW CREATE ALL ROUTINES'' ''25.3'',
      feature ''alter_table_logged_unlogged'' ''ALTER TABLE ... SET LOGGED/UNLOGGED'' ''25.3'',
      feature ''grant_revoke_routines'' ''GRANT/REVOKE ON ALL ROUTINES IN SCHEMA'' ''25.3'',
      feature ''inspect_command'' ''INSPECT (table/database consistency check)'' ''25.4'',
      feature ''show_inspect_errors'' ''SHOW INSPECT ERRORS'' ''25.4'',
      feature ''ltree_type'' ''LTREE type'' ''25.4'',
      feature ''changefeed_database_level'' ''CREATE DATABASE CHANGEFEED'' ''25.4'',
      feature ''alter_external_connection'' ''ALTER EXTERNAL CONNECTION'' ''25.4'',
      feature ''show_jobs_resolved_timestamp'' ''SHOW JOBS ... WITH RESOLVED TIMESTAMP'' ''26.1'',
      feature ''backup_strict_storage_locality'' ''BACKUP ... WITH STRICT STORAGE LOCALITY'' ''26.1'',
      feature ''execute_schedule'' ''EXECUTE SCHEDULE'' ''26.1'',
      feature ''composite_type_array_fields'' ''array types in composite type definitions'' ''26.1'',
      feature ''commit_and_chain'' ''COMMIT/ROLLBACK ... AND [NO] CHAIN'' ''26.2'',
      feature ''alter_table_enable_disable_trigger'' ''ALTER TABLE ... ENABLE/DISABLE TRIGGER'' ''26.2'',
      feature ''alter_index_storage_params'' ''ALTER INDEX ... SET/RESET storage parameters'' ''26.2'',
      feature ''show_statement_hints'' ''SHOW STATEMENT HINTS'' ''26.2'',
      feature ''alter_table_push_statistics'' ''ALTER TABLE ... PUSH STATISTICS'' ''26.2'']"

definition DefaultRegistry :: "registry outcome" where
  "DefaultRegistry = NewRegistry default_features"

definition Lookup :: "registry \<Rightarrow> string \<Rightarrow> feature option" where
  "Lookup r t = r t"

definition Supports :: "registry \<Rightarrow> string \<Rightarrow> string \<Rightarrow> (status \<times> feature) outcome" where
  "Supports r target t =
     (case r t of
        None \<Rightarrow> Ret (StatusUnknown, zero_feature)
      | Some f \<Rightarrow>
          if parseMajorMinor target = None then Ret (StatusUnknown, zero_feature)
          else
            (case (if Introduced f \<noteq> [] then compareMajorMinor target (Introduced f) else Ret 0) of
               Panic e \<Rightarrow> Panic e
             | Ret ci \<Rightarrow>
                 if ci < 0 then Ret (StatusNotYetIntroduced, f)
                 else
                   (case (if Removed f \<noteq> [] then compareMajorMinor target (Removed f) else Ret (- 1)) of
                      Panic e \<Rightarrow> Panic e
                    | Ret cr \<Rightarrow> if cr \<ge> 0 then Ret (StatusRemoved, f) else Ret (StatusSupported, f))))"

section \<open>The inspector\<close>

definition hasPLpgSQLBody :: "routine_option list \<Rightarrow> bool" where
  "hasPLpgSQLBody options \<longleftrightarrow> (\<exists>opt \<in> set options. opt = RoutineLangPLpgSQL)"

definition isRegionalByRow :: "locality option \<Rightarrow> bool" where
  "isRegionalByRow loc \<longleftrightarrow> loc = Some LocalityLevelRow"

definition elemsHaveTrigramOpClass :: "index_elem list \<Rightarrow> bool" where
  "elemsHaveTrigramOpClass elems \<longleftrightarrow>
     (\<exists>e \<in> set elems. let oc = to_lower (ie_op_class e) in oc = ''gin_trgm_ops'' \<or> oc = ''gist_trgm_ops'')"

definition defsHaveTrigramIndex :: "table_def list \<Rightarrow> bool" where
  "defsHaveTrigramIndex defs \<longleftrightarrow>
     (\<exists>d \<in> set defs.
        case d of
          IndexTableDef _ cols \<Rightarrow> elemsHaveTrigramOpClass cols
        | UniqueConstraintTableDef _ _ cols \<Rightarrow> elemsHaveTrigramOpClass cols
        | _ \<Rightarrow> False)"

definition detectFeatures :: "statement \<Rightarrow> string list" where
  "detectFeatures stmt =
     (case stmt of
        Plain _ (CreateRoutine options) \<Rightarrow> if hasPLpgSQLBody options then [''plpgsql_function_body''] else []
      | Plain _ (CreateTable _ defs loc _) \<Rightarrow>
          (if isRegionalByRow loc then [''regional_by_row''] else [])
          @ (if defsHaveTrigramIndex defs then [''trigram_index''] else [])
      | Plain _ (AlterTableLocality loc) \<Rightarrow> if isRegionalByRow loc then [''regional_by_row''] else []
      | Plain _ (AlterTable _ cmds) \<Rightarrow>
          concat (map (\<lambda>cmd. case cmd of
              AlterTableAddConstraint (UniqueConstraintTableDef _ _ cols) \<Rightarrow>
                if elemsHaveTrigramOpClass cols then [''trigram_index''] else []
            | _ \<Rightarrow> []) cmds)
      | Plain _ (CreateIndex _ cols) \<Rightarrow> if elemsHaveTrigramOpClass cols then [''trigram_index''] else []
      | Plain _ AlterChangefeed \<Rightarrow> [''alter_changefeed'']
      | _ \<Rightarrow> [])"

definition buildWarning :: "feature \<Rightarrow> string \<Rightarrow> error_entry" where
  "buildWarning feat target =
     (plain_error CodeFeatureNotYetIntroduced SevWarning
        (''CockroachDB v'' @ Introduced feat @ ''+ required for '' @ Name feat @ ''; target version is '' @ target))
     \<lparr>econtext :=
        [(''feature_tag'', CStr (Tag feat)), (''feature_name'', CStr (Name feat)),
         (''introduced'', CStr (Introduced feat)), (''target'', CStr target)]
        @ (if DocURL feat \<noteq> [] then [(''doc_url'', CStr (DocURL feat))] else [])\<rparr>"

fun inspect_tags :: "registry \<Rightarrow> string \<Rightarrow> string list \<Rightarrow> string list \<Rightarrow> error_entry list outcome" where
  "inspect_tags reg target seen [] = Ret []"
| "inspect_tags reg target seen (t # ts) =
     (if t \<in> set seen then inspect_tags reg target seen ts
      else
        (case Supports reg target t of
           Panic e \<Rightarrow> Panic e
         | Ret (st, feat) \<Rightarrow>
             (case inspect_tags reg target (t # seen) ts of
                Panic e \<Rightarrow> Panic e
              | Ret ws \<Rightarrow> Ret (if st \<noteq> StatusNotYetIntroduced then ws else buildWarning feat target # ws))))"

fun inspect_stmts :: "registry \<Rightarrow> string \<Rightarrow> parsed list \<Rightarrow> error_entry list outcome" where
  "inspect_stmts reg target [] = Ret []"
| "inspect_stmts reg target (s # ss) =
     (case inspect_tags reg target [] (detectFeatures (AST s)) of
        Panic e \<Rightarrow> Panic e
      | Ret ws \<Rightarrow>
          (case inspect_stmts reg target ss of
             Panic e \<Rightarrow> Panic e
           | Ret ws' \<Rightarrow> Ret (ws @ ws')))"

definition Inspect :: "parsed list \<Rightarrow> string \<Rightarrow> registry option \<Rightarrow> error_entry list outcome" where
  "Inspect stmts target reg =
     (if target = [] \<or> length stmts = 0 then Ret []
      else
        (case reg of
           Some r \<Rightarrow> inspect_stmts r target stmts
         | None \<Rightarrow>
             (case DefaultRegistry of
                Panic e \<Rightarrow> Panic e
              | Ret r \<Rightarrow> inspect_stmts r target stmts)))"

section \<open>Order of versions\<close>

abbreviation mm :: "string \<Rightarrow> nat \<times> nat" where
  "mm v \<equiv> the (parseMajorMinor v)"

lemma compareMajorMinor_Ret:
  assumes "parseMajorMinor a = Some x" "parseMajorMinor b = Some y"
  shows "compareMajorMinor a b = Ret (if x < y then - 1 else if x = y then 0 else 1)"
  using assms by (cases x; cases y) (auto simp: compareMajorMinor_def less_prod_def)

section \<open>Well-formed registries\<close>

definition feature_ok :: "feature \<Rightarrow> bool" where
  "feature_ok f \<longleftrightarrow> Tag f \<noteq> [] \<and> Name f \<noteq> []
     \<and> (Introduced f \<noteq> [] \<longrightarrow> parseMajorMinor (Introduced f) \<noteq> None)
     \<and> (Removed f \<noteq> [] \<longrightarrow> Introduced f \<noteq> [] \<and> parseMajorMinor (Removed f) \<noteq> None
           \<and> mm (Introduced f) < mm (Removed f))"

definition registry_ok :: "registry \<Rightarrow> bool" where
  "registry_ok r \<longleftrightarrow> (\<forall>t f. r t = Some f \<longrightarrow> Tag f = t \<and> feature_ok f)"

lemma validate_feature_Ret:
  "validate_feature byTag f = Ret u \<longleftrightarrow> feature_ok f \<and> byTag (Tag f) = None"
proof (cases "Removed f = [] \<or> Introduced f = [] \<or> parseMajorMinor (Removed f) = None
    \<or> parseMajorMinor (Introduced f) = None")
  case True
  then show ?thesis by (auto simp: validate_feature_def feature_ok_def)
next
  case False
  then obtain x y where xy: "parseMajorMinor (Removed f) = Some x" "parseMajorMinor (Introduced f) = Some y" by auto
  with False show ?thesis
    by (auto simp: validate_feature_def feature_ok_def compareMajorMinor_Ret [OF xy])
qed

lemma add_features_Ret:
  "add_features byTag fs = Ret r \<Longrightarrow>
     (\<forall>f \<in> set fs. feature_ok f \<and> byTag (Tag f) = None) \<and> distinct (map Tag fs)
     \<and> r = byTag ++ map_of (map (\<lambda>f. (Tag f, f)) fs)"
proof (induction byTag fs rule: add_features.induct)
  case (2 byTag f fs)
  then obtain u where v: "validate_feature byTag f = Ret u"
    and rest: "add_features (byTag(Tag f \<mapsto> f)) fs = Ret r"
    by (auto split: outcome.splits)
  note IH0 = "2.IH" [OF v rest]
  have IH: "\<forall>g \<in> set fs. feature_ok g \<and> (byTag(Tag f \<mapsto> f)) (Tag g) = None"
    "distinct (map Tag fs)" "r = (byTag(Tag f \<mapsto> f)) ++ map_of (map (\<lambda>f. (Tag f, f)) fs)"
    using IH0 by blast+
  from IH(1) have fresh: "\<forall>g \<in> set fs. Tag g \<noteq> Tag f \<and> byTag (Tag g) = None"
    by (auto split: if_splits)
  then have "Tag f \<notin> dom (map_of (map (\<lambda>f. (Tag f, f)) fs))"
    by (auto simp: dom_map_of_conv_image_fst)
  then have "r = byTag ++ map_of (map (\<lambda>f. (Tag f, f)) (f # fs))"
    by (simp add: IH(3) map_add_upd_left del: fun_upd_apply)
  moreover have "\<forall>g \<in> set (f # fs). feature_ok g \<and> byTag (Tag g) = None" "distinct (map Tag (f # fs))"
    using IH(1,2) fresh v by (auto simp: validate_feature_Ret)
  ultimately show ?case by blast
qed simp

lemma NewRegistry_Ret:
  assumes "NewRegistry fs = Ret r"
  shows "registry_ok r" "r = map_of (map (\<lambda>f. (Tag f, f)) fs)" "distinct (map Tag fs)"
proof -
  from add_features_Ret [OF assms [unfolded NewRegistry_def]]
  show r: "r = map_of (map (\<lambda>f. (Tag f, f)) fs)" and d: "distinct (map Tag fs)" by auto
  from add_features_Ret [OF assms [unfolded NewRegistry_def]] show "registry_ok r"
    unfolding registry_ok_def r by (auto dest!: map_of_SomeD)
qed

lemma Supports_registered:
  assumes "registry_ok r" "r t = Some f" "parseMajorMinor target = Some x"
  shows "Supports r target t = Ret
    (if Introduced f \<noteq> [] \<and> x < mm (Introduced f) then StatusNotYetIntroduced
     else if Removed f \<noteq> [] \<and> mm (Removed f) \<le> x then StatusRemoved else StatusSupported, f)"
proof -
  have ok: "feature_ok f" using assms by (auto simp: registry_ok_def)
  have cmp: "compareMajorMinor target v = Ret (if x < mm v then - 1 else if x = mm v then 0 else 1)"
    if "parseMajorMinor v \<noteq> None" for v
    using that compareMajorMinor_Ret [OF assms(3)] by fastforce
  show ?thesis
    using ok assms(2,3) cmp [of "Introduced f"] cmp [of "Removed f"]
    by (cases "Introduced f = []"; cases "Removed f = []") (auto simp: Supports_def feature_ok_def)
qed

lemma Supports_status:
  assumes "NewRegistry features = Ret r"
  shows "\<exists>st f. Supports r target t = Ret (st, f)"
    and "Lookup r t = None \<or> parseMajorMinor target = None \<Longrightarrow>
      Supports r target t = Ret (StatusUnknown, zero_feature)"
    and "Lookup r t = Some f \<Longrightarrow> parseMajorMinor target = Some x \<Longrightarrow> Supports r target t = Ret
      (if Introduced f \<noteq> [] \<and> x < mm (Introduced f) then StatusNotYetIntroduced
       else if Removed f \<noteq> [] \<and> mm (Removed f) \<le> x then StatusRemoved else StatusSupported, f)"
    and "parseMajorMinor target = Some x \<Longrightarrow> parseMajorMinor target' = Some x' \<Longrightarrow> x \<le> x' \<Longrightarrow>
      Supports r target t = Ret (st, f) \<Longrightarrow> Supports r target' t = Ret (st', f') \<Longrightarrow>
      st' = st \<or> st = StatusNotYetIntroduced \<or> (st = StatusSupported \<and> st' = StatusRemoved)"
proof -
  have ok: "registry_ok r" using NewRegistry_Ret(1) [OF assms] .
  show window: "Supports r target t = Ret
      (if Introduced f \<noteq> [] \<and> x < mm (Introduced f) then StatusNotYetIntroduced
       else if Removed f \<noteq> [] \<and> mm (Removed f) \<le> x then StatusRemoved else StatusSupported, f)"
    if "Lookup r t = Some f" "parseMajorMinor target = Some x" for target t f x
    using Supports_registered [OF ok] that by (simp add: Lookup_def)
  show unknown: "Supports r target t = Ret (StatusUnknown, zero_feature)"
    if "Lookup r t = None \<or> parseMajorMinor target = None" for target t
    using that by (auto simp: Supports_def Lookup_def split: option.splits)
  show "\<exists>st f. Supports r target t = Ret (st, f)"
    using window unknown by (cases "Lookup r t"; cases "parseMajorMinor target") blast+
  show "st' = st \<or> st = StatusNotYetIntroduced \<or> (st = StatusSupported \<and> st' = StatusRemoved)"
    if "parseMajorMinor target = Some x" "parseMajorMinor target' = Some x'" "x \<le> x'"
      "Supports r target t = Ret (st, f)" "Supports r target' t = Ret (st', f')"
  proof (cases "Lookup r t")
    case None
    with that unknown show ?thesis by simp
  next
    case (Some g)
    with that window [OF Some that(1)] window [OF Some that(2)] show ?thesis
      by (auto split: if_splits)
  qed
qed

text \<open>A registry that \<open>NewRegistry\<close> accepts never makes \<open>Supports\<close> panic; for a parseable target and a
  registered feature the status follows the feature's version window at MAJOR.MINOR resolution,
  unregistered features and unparseable targets are unknown, and as the target grows the status only
  moves from not-yet-introduced to supported to removed.\<close>

theorem Supports_window:
  assumes "NewRegistry features = Ret r"
  shows "(\<exists>st f. Supports r target t = Ret (st, f))
    \<and> (Lookup r t = None \<or> parseMajorMinor target = None \<longrightarrow>
      Supports r target t = Ret (StatusUnknown, zero_feature))
    \<and> (\<forall>f x. Lookup r t = Some f \<and> parseMajorMinor target = Some x \<longrightarrow> Supports r target t = Ret
      (if Introduced f \<noteq> [] \<and> x < mm (Introduced f) then StatusNotYetIntroduced
       else if Removed f \<noteq> [] \<and> mm (Removed f) \<le> x then StatusRemoved else StatusSupported, f))
    \<and> (\<forall>x target' x' st f st' f'. parseMajorMinor target = Some x \<and> parseMajorMinor target' = Some x' \<and> x \<le> x'
      \<and> Supports r target t = Ret (st, f) \<and> Supports r target' t = Ret (st', f') \<longrightarrow>
      st' = st \<or> st = StatusNotYetIntroduced \<or> (st = StatusSupported \<and> st' = StatusRemoved))"
  using Supports_status [OF assms] by blast

definition sample_feature :: feature where
  "sample_feature = \<lparr>Tag = ''old'', Name = ''old syntax'', Introduced = ''22.1'', Removed = ''24.3'', DocURL = []\<rparr>"

theorem Supports_window_witness:
  "Supports (map_of [(''old'', sample_feature)]) ''23.2.4'' ''old'' = Ret (StatusSupported, sample_feature)
   \<and> Supports (map_of [(''old'', sample_feature)]) ''24.3'' ''old'' = Ret (StatusRemoved, sample_feature)"
proof -
  have r: "NewRegistry [sample_feature] = Ret (map_of [(''old'', sample_feature)])"
  proof -
    have "parseMajorMinor ''24.3'' = Some (24, 3)" "parseMajorMinor ''22.1'' = Some (22, 1)" by code_simp+
    then have "validate_feature Map.empty sample_feature = Ret ()"
      unfolding validate_feature_Ret by (simp add: feature_ok_def sample_feature_def)
    moreover have "Tag sample_feature = ''old''" by (simp add: sample_feature_def)
    ultimately show ?thesis by (simp add: NewRegistry_def)
  qed
  have mm: "parseMajorMinor ''23.2.4'' = Some (23, 2)" "parseMajorMinor ''24.3'' = Some (24, 3)"
    "parseMajorMinor ''22.1'' = Some (22, 1)" by code_simp+
  have f: "Introduced sample_feature = ''22.1''" "Removed sample_feature = ''24.3''"
    by (simp_all add: sample_feature_def)
  show ?thesis
    using Supports_window [OF r, of "''23.2.4''" "''old''"] Supports_window [OF r, of "''24.3''" "''old''"]
    by (simp add: Lookup_def f mm)
qed

definition default_versions :: "string list" where
  "default_versions =
     [''21.1'', ''22.1'', ''23.1'', ''24.1'', ''24.3'', ''25.1'', ''25.2'', ''25.3'', ''25.4'', ''26.1'', ''26.2'']"

lemma default_versions_parse: "\<forall>v \<in> set default_versions. parseMajorMinor v \<noteq> None"
proof -
  have "list_all (\<lambda>v. parseMajorMinor v \<noteq> None) default_versions" by code_simp
  then show ?thesis by (simp add: list_all_iff)
qed

lemma default_features_fields:
  "\<forall>f \<in> set default_features. Tag f \<noteq> [] \<and> Name f \<noteq> [] \<and> Introduced f \<in> set default_versions \<and> Removed f = []"
  by (simp add: default_features_def feature_def default_versions_def)

lemma default_features_distinct: "distinct (map Tag default_features)"
  by (simp add: default_features_def feature_def)

lemma add_features_total:
  "\<forall>f \<in> set fs. feature_ok f \<and> byTag (Tag f) = None \<Longrightarrow> distinct (map Tag fs) \<Longrightarrow> \<exists>r. add_features byTag fs = Ret r"
proof (induction byTag fs rule: add_features.induct)
  case (2 byTag f fs)
  then obtain u where u: "validate_feature byTag f = Ret u" by (auto simp: validate_feature_Ret)
  have "\<exists>r. add_features (byTag(Tag f \<mapsto> f)) fs = Ret r"
    using "2.prems" by (intro "2.IH" [OF u]) (auto simp: image_iff)
  with u show ?case by simp
qed simp

lemma DefaultRegistry_ok: "\<exists>r. DefaultRegistry = Ret r"
proof -
  have "\<forall>f \<in> set default_features. feature_ok f"
    using default_features_fields default_versions_parse by (auto simp: feature_ok_def)
  then show ?thesis
    using add_features_total [of default_features Map.empty] default_features_distinct
    by (auto simp: DefaultRegistry_def NewRegistry_def)
qed

text \<open>The seeded registry is well-formed: \<open>DefaultRegistry\<close> does not panic, and every feature the
  inspector can detect in a statement is registered in it.\<close>

theorem DefaultRegistry_returns:
  "\<exists>r. DefaultRegistry = Ret r \<and> (\<forall>stmt. \<forall>t \<in> set (detectFeatures stmt). \<exists>f. Lookup r t = Some f)"
proof -
  obtain r where r: "DefaultRegistry = Ret r" using DefaultRegistry_ok by auto
  then have "r = map_of (map (\<lambda>f. (Tag f, f)) default_features)"
    by (simp add: DefaultRegistry_def NewRegistry_Ret(2))
  then have "\<forall>t \<in> set [''plpgsql_function_body'', ''regional_by_row'', ''trigram_index'', ''alter_changefeed''].
      \<exists>f. Lookup r t = Some f"
    by (simp add: Lookup_def default_features_def feature_def)
  moreover have "set (detectFeatures stmt)
      \<subseteq> set [''plpgsql_function_body'', ''regional_by_row'', ''trigram_index'', ''alter_changefeed'']" for stmt
  proof (cases stmt)
    case (Plain c n)
    then show ?thesis
      by (cases n) (auto simp: detectFeatures_def split: alter_cmd.splits table_def.splits if_splits)
  qed (simp_all add: detectFeatures_def)
  ultimately show ?thesis using r by blast
qed

theorem DefaultRegistry_returns_witness:
  "\<exists>r f. DefaultRegistry = Ret r \<and> Lookup r ''alter_changefeed'' = Some f"
  using DefaultRegistry_returns
  by (force simp: detectFeatures_def dest: spec [of _ "Plain undefined AlterChangefeed"])

section \<open>What the inspector reports\<close>


section \<open>What the inspector reports\<close>

definition feature_warnings :: "registry \<Rightarrow> string \<Rightarrow> string \<Rightarrow> error_entry list" where
  "feature_warnings r target t =
     (case (Lookup r t, parseMajorMinor target) of
        (Some f, Some x) \<Rightarrow>
          if Introduced f \<noteq> [] \<and> x < mm (Introduced f) then [buildWarning f target] else []
      | _ \<Rightarrow> [])"

lemma inspect_tags_Ret:
  assumes "registry_ok r"
  shows "inspect_tags r target seen ts = Ret (concat (map (feature_warnings r target) (dedup_on (\<lambda>t. t) seen ts)))"
proof (induction ts arbitrary: seen)
  case (Cons t ts)
  show ?case
  proof (cases "r t")
    case None
    with Cons show ?thesis by (simp add: Supports_def feature_warnings_def Lookup_def)
  next
    case (Some f)
    show ?thesis
    proof (cases "parseMajorMinor target")
      case None
      with Some Cons show ?thesis by (simp add: Supports_def feature_warnings_def Lookup_def)
    next
      case p: (Some x)
      show ?thesis
        using Cons by (simp add: Supports_registered [OF assms Some p] feature_warnings_def Lookup_def Some p)
    qed
  qed
qed simp

lemma inspect_stmts_Ret:
  assumes "registry_ok r"
  shows "inspect_stmts r target stmts = Ret (concat (map (\<lambda>s.
      concat (map (feature_warnings r target) (dedup_on (\<lambda>t. t) [] (detectFeatures (AST s))))) stmts))"
  by (induction stmts) (simp_all add: inspect_tags_Ret [OF assms])

lemma Inspect_Ret:
  assumes "NewRegistry features = Ret r"
  shows "Inspect stmts target (Some r) = Ret (concat (map (\<lambda>s.
      concat (map (feature_warnings r target) (dedup_on (\<lambda>t. t) [] (detectFeatures (AST s))))) stmts))"
    and "DefaultRegistry = Ret d \<Longrightarrow> Inspect stmts target None = Inspect stmts target (Some d)"
proof -
  have "parseMajorMinor [] = None"
    by (simp add: parseMajorMinor_def trim_prefix_def has_prefix_def)
  then have "feature_warnings r [] = (\<lambda>t. [])"
    by (auto simp: feature_warnings_def split: option.splits)
  then show "Inspect stmts target (Some r) = Ret (concat (map (\<lambda>s.
      concat (map (feature_warnings r target) (dedup_on (\<lambda>t. t) [] (detectFeatures (AST s))))) stmts))"
    by (cases "stmts = []"; cases "target = []")
      (simp_all add: Inspect_def inspect_stmts_Ret NewRegistry_Ret(1) [OF assms])
  show "Inspect stmts target None = Inspect stmts target (Some d)" if "DefaultRegistry = Ret d"
    unfolding Inspect_def that option.case outcome.case ..
qed

text \<open>C36: \<open>Inspect\<close> with an accepted registry never panics and reports, for every statement in order, one
  warning per distinct detected feature whose introduction is later than the target at MAJOR.MINOR
  resolution, and nothing else; an empty or unparseable target gives no warnings, and the default
  registry is used when none is passed.\<close>

theorem Inspect_spec:
  assumes "NewRegistry features = Ret r"
  shows "Inspect stmts target (Some r) = Ret (concat (map (\<lambda>s.
      concat (map (feature_warnings r target) (dedup_on (\<lambda>t. t) [] (detectFeatures (AST s))))) stmts))
    \<and> (DefaultRegistry = Ret d \<longrightarrow> Inspect stmts target None = Inspect stmts target (Some d))"
  using Inspect_Ret [OF assms] by blast

definition sample_changefeed :: parsed where
  "sample_changefeed =
     \<lparr>AST = Plain \<lparr>StatementTag = ''ALTER CHANGEFEED'', StatementType = TypeDDL, CanWriteData = False,
        CanModifySchema = True\<rparr> AlterChangefeed, SQL = ''ALTER CHANGEFEED 1 ADD t''\<rparr>"

theorem Inspect_spec_witness:
  "\<exists>f. Inspect [sample_changefeed] ''21.2'' None = Ret [buildWarning f ''21.2'']"
proof -
  obtain r where r: "DefaultRegistry = Ret r" using DefaultRegistry_ok by auto
  have l: "Lookup r ''alter_changefeed'' = Some (feature ''alter_changefeed'' ''ALTER CHANGEFEED'' ''22.1'')"
    using NewRegistry_Ret(2) [OF r [unfolded DefaultRegistry_def]]
    by (simp add: Lookup_def default_features_def feature_def)
  have p: "parseMajorMinor ''21.2'' = Some (21, 2)" "parseMajorMinor ''22.1'' = Some (22, 1)" by code_simp+
  have "feature_warnings r ''21.2'' ''alter_changefeed''
      = [buildWarning (feature ''alter_changefeed'' ''ALTER CHANGEFEED'' ''22.1'') ''21.2'']"
    by (simp add: feature_warnings_def l p feature_def less_prod_def)
  then show ?thesis
    using Inspect_spec [OF r [unfolded DefaultRegistry_def], of "[sample_changefeed]" "''21.2''" r] r
    by (auto simp: sample_changefeed_def detectFeatures_def)
qed

end
