(* ===== verification/Risk.thy ===== *)
theory Risk
  imports Located
begin

text \<open>
  Package \<open>internal/risk\<close>: the risk rules of \<open>rules.go\<close> and the registry of \<open>registry.go\<close> that runs them.
  A rule is a record with its check as a field (\<^const>\<open>None\<close> for a nil function); the registry stamps
  every finding with the code and severity of the rule that made it. Printed names come from the
  parser's formatter: those a node stores in printed form are fields of the node, and \<open>show_name\<close> is how
  \<open>fmt\<close> prints a \<open>tree.Name\<close>. A numeric literal carries its text and its \<open>float64\<close> value rounded down
  (any value above the threshold when it overflows), or nothing when the literal has no constant value.
\<close>

section \<open>Findings and rules\<close>

datatype risk_severity = SeverityCritical | SeverityHigh | SeverityMedium | SeverityLow | SeverityInfo

record finding =
  ReasonCode :: string
  Severity :: risk_severity
  Message :: string
  Position :: "position option"
  FixHint :: string

record check_input =
  in_ast :: statement
  in_sql :: string
  in_position :: position

record rule =
  rule_code :: string
  rule_severity :: risk_severity
  rule_category :: string
  rule_check :: "(check_input \<Rightarrow> finding list) option"

record multi_rule =
  multi_code :: string
  multi_severity :: risk_severity
  multi_category :: string
  multi_check :: "(parsed list \<Rightarrow> position list \<Rightarrow> finding list) option"

text \<open>A finding as a rule builds it: the code and the severity are left to the registry.\<close>

definition raw_finding :: "string \<Rightarrow> position \<Rightarrow> string \<Rightarrow> finding" where
  "raw_finding m pos hint =
     \<lparr>ReasonCode = [], Severity = SeverityInfo, Message = m, Position = Some pos, FixHint = hint\<rparr>"

section \<open>Helpers of the rules\<close>

definition isStar :: "expr \<Rightarrow> bool" where
  "isStar e = (case e of UnqualifiedStar \<Rightarrow> True | UnresolvedName star _ \<Rightarrow> star | AllColumnsSelector \<Rightarrow> True | _ \<Rightarrow> False)"

definition largeOffsetThreshold :: int where
  "largeOffsetThreshold = 1000"

definition selectHasLockingStrength :: "select \<Rightarrow> locking_strength \<Rightarrow> bool" where
  "selectHasLockingStrength sel strength \<longleftrightarrow> strength \<in> set (sel_locking sel)"

definition selectHasWhere :: "select \<Rightarrow> bool" where
  "selectHasWhere sel = (case sel_stmt sel of SelectClause _ _ wh _ _ \<Rightarrow> wh \<noteq> None | _ \<Rightarrow> False)"

section \<open>Rules over one statement\<close>

definition check_deleteNoWhere :: "check_input \<Rightarrow> finding list" where
  "check_deleteNoWhere input =
     (case in_ast input of
        Delete _ _ _ _ wh lim _ \<Rightarrow>
          if wh \<noteq> None \<or> lim then []
          else [raw_finding ''DELETE without WHERE clause affects all rows'' (in_position input)
                  ''Add a WHERE clause to limit affected rows'']
      | _ \<Rightarrow> [])"

definition deleteNoWhereRule :: rule where
  "deleteNoWhereRule = \<lparr>rule_code = ''DELETE_NO_WHERE'', rule_severity = SeverityCritical,
     rule_category = ''data_safety'', rule_check = Some check_deleteNoWhere\<rparr>"

definition check_updateNoWhere :: "check_input \<Rightarrow> finding list" where
  "check_updateNoWhere input =
     (case in_ast input of
        Update _ _ _ _ _ wh lim _ \<Rightarrow>
          if wh \<noteq> None \<or> lim then []
          else [raw_finding ''UPDATE without WHERE clause affects all rows'' (in_position input)
                  ''Add a WHERE clause to limit affected rows'']
      | _ \<Rightarrow> [])"

definition updateNoWhereRule :: rule where
  "updateNoWhereRule = \<lparr>rule_code = ''UPDATE_NO_WHERE'', rule_severity = SeverityCritical,
     rule_category = ''data_safety'', rule_check = Some check_updateNoWhere\<rparr>"

definition check_dropTable :: "check_input \<Rightarrow> finding list" where
  "check_dropTable input =
     (case in_ast input of
        Plain _ (DropTable names) \<Rightarrow>
          [raw_finding (''DROP TABLE '' @ join_with '', '' (map name_string names)
                @ '' permanently removes the table and all its data'') (in_position input)
             ''Verify the table name and consider backing up data first'']
      | _ \<Rightarrow> [])"

definition dropTableRule :: rule where
  "dropTableRule = \<lparr>rule_code = ''DROP_TABLE'', rule_severity = SeverityCritical,
     rule_category = ''data_safety'', rule_check = Some check_dropTable\<rparr>"

definition check_dropDatabase :: "check_input \<Rightarrow> finding list" where
  "check_dropDatabase input =
     (case in_ast input of
        Plain _ (DropDatabase name) \<Rightarrow>
          [raw_finding (''DROP DATABASE '' @ name @ '' permanently removes the database and all its objects'')
             (in_position input) ''Verify the database name and consider backing up data first'']
      | _ \<Rightarrow> [])"

definition dropDatabaseRule :: rule where
  "dropDatabaseRule = \<lparr>rule_code = ''DROP_DATABASE'', rule_severity = SeverityCritical,
     rule_category = ''data_safety'', rule_check = Some check_dropDatabase\<rparr>"

definition check_alterTableDropColumn :: "check_input \<Rightarrow> finding list" where
  "check_alterTableDropColumn input =
     (case in_ast input of
        Plain _ (AlterTable table cmds) \<Rightarrow>
          List.map_filter (\<lambda>cmd. case cmd of
              AlterTableDropColumn dropped \<Rightarrow>
                Some (raw_finding (''ALTER TABLE '' @ name_string table @ '' DROP COLUMN '' @ dropped
                    @ '' permanently removes the column and its data'') (in_position input)
                  ''Confirm no application reads or writes this column before dropping'')
            | _ \<Rightarrow> None) cmds
      | _ \<Rightarrow> [])"

definition alterTableDropColumnRule :: rule where
  "alterTableDropColumnRule = \<lparr>rule_code = ''ALTER_TABLE_DROP_COLUMN'', rule_severity = SeverityHigh,
     rule_category = ''schema_safety'', rule_check = Some check_alterTableDropColumn\<rparr>"

definition check_selectLocking :: "locking_strength \<Rightarrow> string \<Rightarrow> check_input \<Rightarrow> finding list" where
  "check_selectLocking strength m input =
     (case in_ast input of
        SelectStmt _ sel \<Rightarrow>
          if \<not> selectHasLockingStrength sel strength then []
          else if sel_limit sel \<noteq> None \<or> selectHasWhere sel then []
          else [raw_finding m (in_position input) ''Add a WHERE clause or LIMIT to scope the lock'']
      | _ \<Rightarrow> [])"

definition selectForUpdateNoWhereRule :: rule where
  "selectForUpdateNoWhereRule = \<lparr>rule_code = ''SELECT_FOR_UPDATE_NO_WHERE'', rule_severity = SeverityCritical,
     rule_category = ''data_safety'', rule_check = Some (check_selectLocking ForUpdate
       ''SELECT ... FOR UPDATE without WHERE or LIMIT locks every row in the table'')\<rparr>"

definition selectForShareNoWhereRule :: rule where
  "selectForShareNoWhereRule = \<lparr>rule_code = ''SELECT_FOR_SHARE_NO_WHERE'', rule_severity = SeverityHigh,
     rule_category = ''data_safety'', rule_check = Some (check_selectLocking ForShare
       ''SELECT ... FOR SHARE without WHERE or LIMIT locks every row in the table'')\<rparr>"

definition em_dash :: string where
  "em_dash = [CHR 0xE2, CHR 0x80, CHR 0x94]"

definition check_truncateTable :: "check_input \<Rightarrow> finding list" where
  "check_truncateTable input =
     (case in_ast input of
        Plain _ (Truncate names cascade) \<Rightarrow>
          (let ts = join_with '', '' (map name_string names) in
           if cascade
           then [raw_finding (''TRUNCATE TABLE '' @ ts @ '' CASCADE permanently removes every row in the table and all rows in tables referencing it via foreign keys'')
                   (in_position input)
                   (''CASCADE here also wipes dependent tables '' @ em_dash @ '' confirm the full set of affected tables before running'')]
           else [raw_finding (''TRUNCATE TABLE '' @ ts @ '' permanently removes every row in the table'')
                   (in_position input)
                   ''Verify the table name; use DELETE with a WHERE clause if you only need to remove some rows''])
      | _ \<Rightarrow> [])"

definition truncateTableRule :: rule where
  "truncateTableRule = \<lparr>rule_code = ''TRUNCATE_TABLE'', rule_severity = SeverityCritical,
     rule_category = ''data_safety'', rule_check = Some check_truncateTable\<rparr>"

definition pkCols :: "table_def list \<Rightarrow> string list" where
  "pkCols defs = concat (map (\<lambda>d. case d of
       ColumnTableDef cd \<Rightarrow> if cd_primary_key cd then [cd_name cd] else []
     | UniqueConstraintTableDef _ pk elems \<Rightarrow> if pk then map ie_column elems else []
     | _ \<Rightarrow> []) defs)"

definition check_serialPrimaryKey :: "(string \<Rightarrow> string) \<Rightarrow> check_input \<Rightarrow> finding list" where
  "check_serialPrimaryKey show_name input =
     (case in_ast input of
        Plain _ (CreateTable table defs _ _) \<Rightarrow>
          if length (pkCols defs) = 0 then []
          else
            List.map_filter (\<lambda>d. case d of
                ColumnTableDef cd \<Rightarrow>
                  if cd_serial cd \<and> cd_name cd \<in> set (pkCols defs)
                  then Some (raw_finding (''CREATE TABLE '' @ name_string table @ '': primary key column ''
                      @ show_name (cd_name cd) @ '' uses SERIAL, which creates a write hotspot in CockroachDB'')
                      (in_position input)
                      ''Use UUID PRIMARY KEY DEFAULT gen_random_uuid() or INT8 GENERATED BY DEFAULT AS IDENTITY instead'')
                  else None
              | _ \<Rightarrow> None) defs
      | _ \<Rightarrow> [])"

definition serialPrimaryKeyRule :: "(string \<Rightarrow> string) \<Rightarrow> rule" where
  "serialPrimaryKeyRule show_name = \<lparr>rule_code = ''SERIAL_PRIMARY_KEY'', rule_severity = SeverityHigh,
     rule_category = ''performance'', rule_check = Some (check_serialPrimaryKey show_name)\<rparr>"

definition declares_pk :: "table_def \<Rightarrow> bool" where
  "declares_pk d = (case d of ColumnTableDef cd \<Rightarrow> cd_primary_key cd
     | UniqueConstraintTableDef _ pk _ \<Rightarrow> pk | _ \<Rightarrow> False)"

definition check_missingPrimaryKey :: "check_input \<Rightarrow> finding list" where
  "check_missingPrimaryKey input =
     (case in_ast input of
        Plain _ (CreateTable table defs _ as_source) \<Rightarrow>
          if as_source \<or> (\<exists>d \<in> set defs. declares_pk d) then []
          else [raw_finding (''CREATE TABLE '' @ name_string table
                  @ '' has no PRIMARY KEY; CockroachDB will add a hidden sequential rowid column that becomes a write hotspot'')
                 (in_position input) ''Declare an explicit PRIMARY KEY, preferably UUID DEFAULT gen_random_uuid()'']
      | _ \<Rightarrow> [])"

definition missingPrimaryKeyRule :: rule where
  "missingPrimaryKeyRule = \<lparr>rule_code = ''MISSING_PRIMARY_KEY'', rule_severity = SeverityMedium,
     rule_category = ''schema_safety'', rule_check = Some check_missingPrimaryKey\<rparr>"

definition check_largeOffset :: "check_input \<Rightarrow> finding list" where
  "check_largeOffset input =
     (case in_ast input of
        SelectStmt _ sel \<Rightarrow>
          (case Option.bind (sel_limit sel) lim_offset of
             Some (NumVal num (Some v)) \<Rightarrow>
               if v < largeOffsetThreshold then []
               else [raw_finding (''OFFSET '' @ num
                       @ '' scans and discards every preceding row, which degrades to a full-table scan as the offset grows'')
                      (in_position input)
                      ''Use keyset pagination (WHERE (sort_col, id) < ($last_sort, $last_id) ORDER BY ... LIMIT N) instead'']
           | _ \<Rightarrow> [])
      | _ \<Rightarrow> [])"

definition largeOffsetRule :: rule where
  "largeOffsetRule = \<lparr>rule_code = ''LARGE_OFFSET'', rule_severity = SeverityMedium,
     rule_category = ''performance'', rule_check = Some check_largeOffset\<rparr>"

definition check_xaPreparedTxn :: "check_input \<Rightarrow> finding list" where
  "check_xaPreparedTxn input =
     (case (case in_ast input of
              Plain _ PrepareTransaction \<Rightarrow> Some ''PREPARE TRANSACTION''
            | Plain _ CommitPrepared \<Rightarrow> Some ''COMMIT PREPARED''
            | Plain _ RollbackPrepared \<Rightarrow> Some ''ROLLBACK PREPARED''
            | _ \<Rightarrow> None) of
        None \<Rightarrow> []
      | Some verb \<Rightarrow>
          [raw_finding (verb @ '' is a two-phase-commit (XA) statement; the prepared transaction state outlives the session and holds row locks until an external coordinator commits or rolls it back'')
             (in_position input)
             ''For cross-system consistency use the outbox pattern: write business data and an outbox row in one CockroachDB transaction, then deliver via a changefeed''])"

definition xaPreparedTxnRule :: rule where
  "xaPreparedTxnRule = \<lparr>rule_code = ''XA_PREPARED_TXN'', rule_severity = SeverityHigh,
     rule_category = ''transactional_safety'', rule_check = Some check_xaPreparedTxn\<rparr>"

definition check_selectStar :: "check_input \<Rightarrow> finding list" where
  "check_selectStar input =
     (case in_ast input of
        SelectStmt _ sel \<Rightarrow>
          (case sel_stmt sel of
             SelectClause exprs _ _ _ _ \<Rightarrow>
               if \<exists>se \<in> set exprs. isStar (se_expr se)
               then [raw_finding ''SELECT * returns all columns and may cause performance issues'' (in_position input)
                       ''List specific columns instead of using *'']
               else []
           | _ \<Rightarrow> [])
      | _ \<Rightarrow> [])"

definition selectStarRule :: rule where
  "selectStarRule = \<lparr>rule_code = ''SELECT_STAR'', rule_severity = SeverityLow,
     rule_category = ''performance'', rule_check = Some check_selectStar\<rparr>"

definition cockroachRestartSavepointName :: string where
  "cockroachRestartSavepointName = ''cockroach_restart''"

definition savepointName :: "statement \<Rightarrow> string option" where
  "savepointName stmt =
     (case stmt of
        Plain _ (Savepoint n) \<Rightarrow> Some n
      | Plain _ (ReleaseSavepoint n) \<Rightarrow> Some n
      | Plain _ (RollbackToSavepoint n) \<Rightarrow> Some n
      | _ \<Rightarrow> None)"

definition savepoint_verb :: "statement \<Rightarrow> string" where
  "savepoint_verb stmt =
     (case stmt of
        Plain _ (Savepoint n) \<Rightarrow> ''SAVEPOINT cockroach_restart''
      | Plain _ (ReleaseSavepoint n) \<Rightarrow> ''RELEASE SAVEPOINT cockroach_restart''
      | Plain _ (RollbackToSavepoint n) \<Rightarrow> ''ROLLBACK TO SAVEPOINT cockroach_restart''
      | _ \<Rightarrow> [])"

definition check_savepointCockroachRestart :: "check_input \<Rightarrow> finding list" where
  "check_savepointCockroachRestart input =
     (case savepointName (in_ast input) of
        None \<Rightarrow> []
      | Some name \<Rightarrow>
          if \<not> equal_fold name cockroachRestartSavepointName then []
          else [raw_finding (savepoint_verb (in_ast input) @ '' is the legacy client-side retry pattern; modern CockroachDB recommends retrying the whole BEGIN..COMMIT in the application instead'')
                  (in_position input)
                  ''Drop the savepoint and retry the entire BEGIN..COMMIT block with exponential backoff on SQLSTATE 40001''])"

definition savepointCockroachRestartRule :: rule where
  "savepointCockroachRestartRule = \<lparr>rule_code = ''SAVEPOINT_COCKROACH_RESTART'', rule_severity = SeverityMedium,
     rule_category = ''transactional_safety'', rule_check = Some check_savepointCockroachRestart\<rparr>"

definition DefaultRules :: "(string \<Rightarrow> string) \<Rightarrow> rule list" where
  "DefaultRules show_name =
     [deleteNoWhereRule, updateNoWhereRule, dropTableRule, dropDatabaseRule, alterTableDropColumnRule,
      selectForUpdateNoWhereRule, selectForShareNoWhereRule, selectStarRule, truncateTableRule,
      serialPrimaryKeyRule show_name, missingPrimaryKeyRule, largeOffsetRule, xaPreparedTxnRule,
      savepointCockroachRestartRule]"

section \<open>Rules over several statements\<close>

record txn_block =
  blk_start :: nat
  blk_end :: nat

definition opens_txn :: "parsed \<Rightarrow> bool" where
  "opens_txn s = (case AST s of Plain _ BeginTransaction \<Rightarrow> True | _ \<Rightarrow> False)"

definition closes_txn :: "parsed \<Rightarrow> bool" where
  "closes_txn s = (case AST s of Plain _ CommitTransaction \<Rightarrow> True | Plain _ RollbackTransaction \<Rightarrow> True | _ \<Rightarrow> False)"

text \<open>The loop of \<open>explicitTxnBlocks\<close>: \<open>openStack\<close> holds indexes into \<open>blocks\<close>, the innermost first.\<close>

fun scan_txn :: "nat \<Rightarrow> nat \<Rightarrow> parsed list \<Rightarrow> txn_block list \<Rightarrow> nat list \<Rightarrow> txn_block list" where
  "scan_txn n i [] blocks openStack = blocks"
| "scan_txn n i (s # ss) blocks openStack =
     (if opens_txn s
      then scan_txn n (i + 1) ss (blocks @ [\<lparr>blk_start = i, blk_end = n\<rparr>]) (length blocks # openStack)
      else if closes_txn s then
        (case openStack of
           [] \<Rightarrow> scan_txn n (i + 1) ss blocks []
         | k # rest \<Rightarrow> scan_txn n (i + 1) ss (blocks[k := (blocks ! k)\<lparr>blk_end := i\<rparr>]) rest)
      else scan_txn n (i + 1) ss blocks openStack)"

definition explicitTxnBlocks :: "parsed list \<Rightarrow> txn_block list" where
  "explicitTxnBlocks stmts = scan_txn (length stmts) 0 stmts [] []"

definition extra_ddl :: "string \<Rightarrow> position \<Rightarrow> finding" where
  "extra_ddl t pos = raw_finding (''additional DDL ('' @ t @ '') in the same explicit transaction; CockroachDB runs each DDL as an online schema change and may leave the schema partially applied if any one fails'')
     pos ''Run each DDL in its own transaction (one BEGIN..COMMIT per DDL)''"

fun ddl_findings :: "parsed list \<Rightarrow> position list \<Rightarrow> bool \<Rightarrow> nat list \<Rightarrow> finding list" where
  "ddl_findings stmts poss seenFirst [] = []"
| "ddl_findings stmts poss seenFirst (i # is) =
     (if type_of (AST (stmts ! i)) \<noteq> TypeDDL then ddl_findings stmts poss seenFirst is
      else if \<not> seenFirst then ddl_findings stmts poss True is
      else extra_ddl (tag_of (AST (stmts ! i))) (poss ! i) # ddl_findings stmts poss seenFirst is)"

definition check_multipleDDL :: "parsed list \<Rightarrow> position list \<Rightarrow> finding list" where
  "check_multipleDDL stmts poss =
     concat (map (\<lambda>blk. ddl_findings stmts poss False [blk_start blk + 1..<blk_end blk]) (explicitTxnBlocks stmts))"

definition multipleDDLInTxnRule :: multi_rule where
  "multipleDDLInTxnRule = \<lparr>multi_code = ''MULTIPLE_DDL_IN_TXN'', multi_severity = SeverityHigh,
     multi_category = ''transactional_safety'', multi_check = Some check_multipleDDL\<rparr>"

definition mixed_txn :: "position \<Rightarrow> finding" where
  "mixed_txn pos = raw_finding ''explicit transaction mixes DDL and DML; the asynchronous schema change can leave the DML observing an inconsistent intermediate schema''
     pos ''Split the transaction so DDL and DML run separately (one BEGIN..COMMIT per DDL, with DML in its own transactions)''"

definition check_ddlAndDML :: "parsed list \<Rightarrow> position list \<Rightarrow> finding list" where
  "check_ddlAndDML stmts poss =
     concat (map (\<lambda>blk.
       let types = map (\<lambda>i. type_of (AST (stmts ! i))) [blk_start blk + 1..<blk_end blk];
           hasDDL = TypeDDL \<in> set types; hasDML = TypeDML \<in> set types
       in if \<not> hasDDL \<or> \<not> hasDML then [] else [mixed_txn (poss ! blk_start blk)]) (explicitTxnBlocks stmts))"

definition ddlAndDMLInTxnRule :: multi_rule where
  "ddlAndDMLInTxnRule = \<lparr>multi_code = ''DDL_AND_DML_IN_TXN'', multi_severity = SeverityMedium,
     multi_category = ''transactional_safety'', multi_check = Some check_ddlAndDML\<rparr>"

definition DefaultMultiRules :: "multi_rule list" where
  "DefaultMultiRules = [multipleDDLInTxnRule, ddlAndDMLInTxnRule]"

section \<open>The registry\<close>

record risk_registry =
  rules :: "rule list"
  multiRules :: "multi_rule list"

fun check_rules :: "(string \<times> bool) list \<Rightarrow> string \<Rightarrow> string list \<Rightarrow> string list outcome" where
  "check_rules [] label seen = Ret seen"
| "check_rules ((reason_code, has_check) # rs) label seen =
     (if \<not> has_check
      then Panic (''risk: '' @ label @ '' '' @ quote reason_code @ '' has nil Check function'')
      else if reason_code = [] then Panic (''risk: '' @ label @ '' has empty ReasonCode'')
      else if reason_code \<in> set seen then Panic (''risk: duplicate ReasonCode '' @ quote reason_code)
      else check_rules rs label (reason_code # seen))"

definition NewRegistry :: "rule list \<Rightarrow> multi_rule list \<Rightarrow> risk_registry outcome" where
  "NewRegistry rs ms =
     obind (check_rules (map (\<lambda>r. (rule_code r, rule_check r \<noteq> None)) rs) ''rule'' []) (\<lambda>seen.
       obind (check_rules (map (\<lambda>m. (multi_code m, multi_check m \<noteq> None)) ms) ''multi-rule'' seen) (\<lambda>_.
         Ret \<lparr>rules = rs, multiRules = ms\<rparr>))"

text \<open>\<open>offset\<close> is a pointer in the source; here it is returned with the position.\<close>

definition positionFromSQL :: "string \<Rightarrow> string \<Rightarrow> nat \<Rightarrow> position \<times> nat" where
  "positionFromSQL fullSQL stmtSQL offset =
     (case str_index (drop offset fullSQL) stmtSQL of
        None \<Rightarrow> (\<lparr>line = 1, column = 1, byte_offset = int offset\<rparr>, offset)
      | Some idx \<Rightarrow>
          (let byteOff = offset + idx; before = take byteOff fullSQL in
           (\<lparr>line = int (count_byte before newline) + 1,
             column = (case str_last_index before [newline] of
                None \<Rightarrow> int byteOff + 1 | Some lastNL \<Rightarrow> int byteOff - int lastNL),
             byte_offset = int byteOff\<rparr>,
            byteOff + length stmtSQL)))"

definition stamp :: "string \<Rightarrow> risk_severity \<Rightarrow> finding \<Rightarrow> finding" where
  "stamp c sev f = f\<lparr>ReasonCode := c, Severity := sev\<rparr>"

definition run_rule :: "check_input \<Rightarrow> rule \<Rightarrow> finding list" where
  "run_rule input r =
     (case rule_check r of None \<Rightarrow> [] | Some check \<Rightarrow> map (stamp (rule_code r) (rule_severity r)) (check input))"

fun analyze_statements ::
    "rule list \<Rightarrow> string \<Rightarrow> nat \<Rightarrow> parsed list \<Rightarrow> finding list \<times> position list" where
  "analyze_statements rs sql offset [] = ([], [])"
| "analyze_statements rs sql offset (s # ss) =
     (let (pos, offset') = positionFromSQL sql (SQL s) offset;
          input = \<lparr>in_ast = AST s, in_sql = SQL s, in_position = pos\<rparr>;
          (fs, poss) = analyze_statements rs sql offset' ss
      in (concat (map (run_rule input) rs) @ fs, pos # poss))"

definition AnalyzeParsed_with :: "risk_registry \<Rightarrow> parsed list \<Rightarrow> string \<Rightarrow> finding list" where
  "AnalyzeParsed_with reg stmts sql =
     (let (fs, poss) = analyze_statements (rules reg) sql 0 stmts in
      fs @ concat (map (\<lambda>m. case multi_check m of None \<Rightarrow> []
             | Some check \<Rightarrow> map (stamp (multi_code m) (multi_severity m)) (check stmts poss)) (multiRules reg)))"

definition AnalyzeParsed :: "(string \<Rightarrow> string) \<Rightarrow> parsed list \<Rightarrow> string \<Rightarrow> finding list outcome" where
  "AnalyzeParsed show_name stmts sql =
     obind (NewRegistry (DefaultRules show_name) DefaultMultiRules) (\<lambda>reg. Ret (AnalyzeParsed_with reg stmts sql))"

definition Analyze :: "(string \<Rightarrow> 'e + parsed list) \<Rightarrow> (string \<Rightarrow> string) \<Rightarrow> string \<Rightarrow> ('e + finding list) outcome" where
  "Analyze parse show_name sql =
     obind (NewRegistry (DefaultRules show_name) DefaultMultiRules) (\<lambda>reg.
       Ret (case parse sql of Inl e \<Rightarrow> Inl e | Inr stmts \<Rightarrow> Inr (AnalyzeParsed_with reg stmts sql)))"

section \<open>Matching transaction blocks\<close>

text \<open>The reference: each \<open>BEGIN\<close> has a counter of its own that skips the pairs nested in it.\<close>

fun closing :: "nat \<Rightarrow> nat \<Rightarrow> parsed list \<Rightarrow> nat" where
  "closing depth i [] = i"
| "closing depth i (s # ss) =
     (if opens_txn s then closing (depth + 1) (i + 1) ss
      else if closes_txn s then (if depth = 0 then i else closing (depth - 1) (i + 1) ss)
      else closing depth (i + 1) ss)"

fun begin_blocks :: "nat \<Rightarrow> parsed list \<Rightarrow> txn_block list" where
  "begin_blocks i [] = []"
| "begin_blocks i (s # ss) =
     (if opens_txn s then [\<lparr>blk_start = i, blk_end = closing 0 (i + 1) ss\<rparr>] else []) @ begin_blocks (i + 1) ss"

fun settle :: "(nat \<Rightarrow> nat) \<Rightarrow> nat \<Rightarrow> nat list \<Rightarrow> txn_block list \<Rightarrow> txn_block list" where
  "settle f d [] bs = bs"
| "settle f d (k # ks) bs = settle f (Suc d) ks (bs[k := (bs ! k)\<lparr>blk_end := f d\<rparr>])"

lemma settle_shift:
  "(\<And>d. f (Suc d) = g d) \<Longrightarrow> settle f (Suc d) ks bs = settle g d ks bs"
  by (induction ks arbitrary: d bs) auto

lemma settle_append:
  "\<forall>k \<in> set ks. k < length bs \<Longrightarrow> settle f d ks (bs @ cs) = settle f d ks bs @ cs"
  by (induction ks arbitrary: d bs) (auto simp: list_update_append nth_append)

lemma settle_id:
  "\<forall>k \<in> set ks. k < length bs \<and> blk_end (bs ! k) = n \<Longrightarrow> settle (\<lambda>_. n) d ks bs = bs"
proof (induction ks arbitrary: d bs)
  case (Cons k ks)
  have "(bs ! k)\<lparr>blk_end := n\<rparr> = bs ! k" using Cons.prems by (cases "bs ! k") auto
  then have "bs[k := (bs ! k)\<lparr>blk_end := n\<rparr>] = bs" by simp
  with Cons show ?case by (simp only: settle.simps) simp
qed simp

lemma scan_txn_settle:
  assumes "\<forall>k \<in> set st. k < length blocks \<and> blk_end (blocks ! k) = n" "n = i + length ss" "distinct st"
  shows "scan_txn n i ss blocks st = settle (\<lambda>d. closing d i ss) 0 st blocks @ begin_blocks i ss"
  using assms
proof (induction n i ss blocks st rule: scan_txn.induct)
  case (1 n i blocks st)
  then show ?case by (simp add: settle_id)
next
  case (2 n i s ss blocks st)
  let ?new = "\<lparr>blk_start = i, blk_end = n\<rparr>"
  consider (opens) "opens_txn s" | (closes) "\<not> opens_txn s" "closes_txn s" | (other) "\<not> opens_txn s" "\<not> closes_txn s" by blast
  then show ?case
  proof cases
    case opens
    have inv: "\<forall>k \<in> set (length blocks # st). k < length (blocks @ [?new]) \<and> blk_end ((blocks @ [?new]) ! k) = n"
      "n = i + 1 + length ss" "distinct (length blocks # st)"
      using 2(5-7) by (auto simp: nth_append)
    have "settle (\<lambda>d. closing d (i + 1) ss) 0 (length blocks # st) (blocks @ [?new])
        = settle (\<lambda>d. closing d i (s # ss)) 0 st (blocks @ [\<lparr>blk_start = i, blk_end = closing 0 (i + 1) ss\<rparr>])"
      using opens by (simp add: settle_shift [of _ "\<lambda>d. closing (Suc d) (Suc i) ss"])
    with 2(1) [OF opens inv] opens 2(5) show ?thesis by (simp add: settle_append)
  next
    case closes
    show ?thesis
    proof (cases st)
      case Nil
      with 2(2) [OF closes Nil] 2(6) closes show ?thesis by simp
    next
      case (Cons k rest)
      let ?bs = "blocks[k := (blocks ! k)\<lparr>blk_end := i\<rparr>]"
      have inv: "\<forall>k \<in> set rest. k < length ?bs \<and> blk_end (?bs ! k) = n" "n = i + 1 + length ss" "distinct rest"
        using 2(5-7) Cons by (auto simp: nth_list_update)
      have "settle (\<lambda>d. closing d i (s # ss)) (Suc 0) rest ?bs = settle (\<lambda>d. closing d (i + 1) ss) 0 rest ?bs"
        using closes by (intro settle_shift) simp
      with 2(3) [OF closes Cons inv] closes Cons show ?thesis by simp
    qed
  next
    case other
    with 2(4) [OF other] 2(5-7) show ?thesis by simp
  qed
qed


lemma explicitTxnBlocks_begin: "explicitTxnBlocks stmts = begin_blocks 0 stmts"
  using scan_txn_settle [of "[]" "[]" "length stmts" 0 stmts] by (simp add: explicitTxnBlocks_def)

lemma begin_blocks_index:
  "begin_blocks k stmts =
   map (\<lambda>i. \<lparr>blk_start = k + i, blk_end = closing 0 (k + i + 1) (drop (i + 1) stmts)\<rparr>)
     (filter (\<lambda>i. opens_txn (stmts ! i)) [0..<length stmts])"
proof (induction stmts arbitrary: k)
  case (Cons s ss)
  have "[0..<length (s # ss)] = 0 # map Suc [0..<length ss]" by (simp add: upt_conv_Cons map_Suc_upt del: upt_Suc)
  then show ?case by (simp add: Cons filter_map comp_def del: upt_Suc)
qed simp

lemma closing_bounds: "i \<le> closing d i ss \<and> closing d i ss \<le> i + length ss"
proof (induction d i ss rule: closing.induct)
  case (2 d i s ss)
  then show ?case by (auto split: if_splits)
qed simp

text \<open>Two statements of a block are inside it when they lie between its ends; blocks nest or are apart.\<close>

lemma ddl_findings_tl:
  "ddl_findings stmts poss seen is = map (\<lambda>i. extra_ddl (tag_of (AST (stmts ! i))) (poss ! i))
     ((if seen then id else tl) (filter (\<lambda>i. type_of (AST (stmts ! i)) = TypeDDL) is))"
  by (induction stmts poss seen "is" rule: ddl_findings.induct) auto

text \<open>\<open>explicitTxnBlocks\<close> matches transactions as a counter started at each \<open>BEGIN\<close> would: one block per
  \<open>BEGIN\<close>, in order, that ends at the first \<open>COMMIT\<close> or \<open>ROLLBACK\<close> which closes no \<open>BEGIN\<close> nested in it, or at
  the end of the input; and in each block the DDL rule flags every data definition but the first.\<close>

theorem explicitTxnBlocks_matching:
  "explicitTxnBlocks stmts =
     map (\<lambda>i. \<lparr>blk_start = i, blk_end = closing 0 (i + 1) (drop (i + 1) stmts)\<rparr>)
       (filter (\<lambda>i. opens_txn (stmts ! i)) [0..<length stmts])
   \<and> check_multipleDDL stmts poss = concat (map (\<lambda>b. map (\<lambda>i. extra_ddl (tag_of (AST (stmts ! i))) (poss ! i))
       (tl (filter (\<lambda>i. type_of (AST (stmts ! i)) = TypeDDL) [blk_start b + 1..<blk_end b]))) (explicitTxnBlocks stmts))"
  using explicitTxnBlocks_begin [of stmts] begin_blocks_index [of 0 stmts]
  by (simp add: check_multipleDDL_def ddl_findings_tl del: upt_Suc)

section \<open>What the default rules find\<close>

lemmas rule_defs = deleteNoWhereRule_def updateNoWhereRule_def
  dropTableRule_def dropDatabaseRule_def alterTableDropColumnRule_def selectForUpdateNoWhereRule_def
  selectForShareNoWhereRule_def selectStarRule_def truncateTableRule_def serialPrimaryKeyRule_def
  missingPrimaryKeyRule_def largeOffsetRule_def xaPreparedTxnRule_def savepointCockroachRestartRule_def
  multipleDDLInTxnRule_def ddlAndDMLInTxnRule_def

lemma DefaultRules_registry:
  "NewRegistry (DefaultRules show_name) DefaultMultiRules =
   Ret \<lparr>rules = DefaultRules show_name, multiRules = DefaultMultiRules\<rparr>"
  by (simp add: NewRegistry_def DefaultRules_def DefaultMultiRules_def rule_defs)

text \<open>The position of a located statement: it points at the statement's own text.\<close>

definition starts_at :: "string \<Rightarrow> parsed \<Rightarrow> position \<Rightarrow> bool" where
  "starts_at sql s pos \<longleftrightarrow> points_at sql pos \<and> has_prefix (drop (nat (byte_offset pos)) sql) (SQL s)"

lemma positionFromSQL_located:
  assumes "k \<le> length sql" "str_index (drop k sql) (SQL s) \<noteq> None" "positionFromSQL sql (SQL s) k = (pos, k')"
  shows "starts_at sql s pos \<and> k' = snd (stmt_span sql k (SQL s))"
proof -
  obtain i where i: "str_index (drop k sql) (SQL s) = Some i" using assms(2) by auto
  from str_index_Some [OF this] assms(1) have b: "k + i \<le> length sql"
    "has_prefix (drop (k + i) sql) (SQL s)" by (auto simp: add.commute)
  have "lineColumn sql (k + i) = (line pos, column pos)" "byte_offset pos = int (k + i)"
    using assms(3) b(1) by (auto simp: positionFromSQL_def i lineColumn_def Let_def split: option.splits)
  with assms(3) b lineColumn_points_at [of "k + i" sql "line pos" "column pos"] show ?thesis
    by (cases pos) (auto simp: positionFromSQL_def i Let_def starts_at_def stmt_span_found [OF i] nat_int_add split: option.splits)
qed

lemma analyze_positions:
  "located sql k stmts \<Longrightarrow> list_all2 (starts_at sql) stmts (snd (analyze_statements rs sql k stmts))"
proof (induction stmts arbitrary: k)
  case (Cons s ss)
  obtain pos k' where p: "positionFromSQL sql (SQL s) k = (pos, k')" by fastforce
  with positionFromSQL_located [of k sql s pos k'] Cons show ?case
    by (auto simp: split_beta Let_def)
qed simp

lemma analyze_findings:
  "fst (analyze_statements rs sql k stmts) = concat (map (\<lambda>(s, pos).
     concat (map (run_rule \<lparr>in_ast = AST s, in_sql = SQL s, in_position = pos\<rparr>) rs))
     (zip stmts (snd (analyze_statements rs sql k stmts))))"
  by (induction stmts arbitrary: k) (auto simp: split_beta Let_def)

text \<open>The statements that destroy or lock whole tables, with the code of their finding.\<close>

definition critical_code :: "statement \<Rightarrow> string option" where
  "critical_code stmt = (case stmt of
      Delete _ _ _ _ None False _ \<Rightarrow> Some ''DELETE_NO_WHERE''
    | Update _ _ _ _ _ None False _ \<Rightarrow> Some ''UPDATE_NO_WHERE''
    | Plain _ (DropTable _) \<Rightarrow> Some ''DROP_TABLE''
    | Plain _ (DropDatabase _) \<Rightarrow> Some ''DROP_DATABASE''
    | Plain _ (Truncate _ _) \<Rightarrow> Some ''TRUNCATE_TABLE''
    | SelectStmt _ sel \<Rightarrow>
        if ForUpdate \<in> set (sel_locking sel) \<and> sel_limit sel = None \<and> \<not> selectHasWhere sel
        then Some ''SELECT_FOR_UPDATE_NO_WHERE'' else None
    | _ \<Rightarrow> None)"

abbreviation critical :: "finding \<Rightarrow> bool" where
  "critical f \<equiv> Severity f = SeverityCritical"

lemma run_rule_critical:
  "filter critical (run_rule input r) = (if rule_severity r = SeverityCritical then run_rule input r else [])"
  by (auto simp: run_rule_def stamp_def filter_map comp_def split: option.split)

lemma critical_rules:
  "map (\<lambda>f. (ReasonCode f, Position f)) (filter critical (concat (map (run_rule input) (DefaultRules show_name)))) =
   (case critical_code (in_ast input) of None \<Rightarrow> [] | Some c \<Rightarrow> [(c, Some (in_position input))])"
  by (cases "in_ast input")
    (auto simp: DefaultRules_def rule_defs filter_concat run_rule_critical run_rule_def stamp_def raw_finding_def
      critical_code_def check_deleteNoWhere_def check_updateNoWhere_def check_dropTable_def check_dropDatabase_def
      check_truncateTable_def check_selectLocking_def selectHasLockingStrength_def Let_def
      split: plain_node.splits option.splits bool.splits)

lemma no_critical_rules:
  "critical_code (in_ast input) = None \<Longrightarrow>
   filter critical (concat (map (run_rule input) (DefaultRules show_name))) = []"
  using critical_rules [of input show_name] by (simp del: filter_concat)

text \<open>C26: On parser output the default registry builds without a panic, and the critical findings are one
  for each statement that destroys or locks a whole table, in order, with the code of its kind and the
  position where the statement's own text starts; no other statement has one.\<close>

theorem AnalyzeParsed_critical:
  assumes "located sql 0 stmts"
  shows "\<exists>fs poss. AnalyzeParsed show_name stmts sql = Ret fs \<and> list_all2 (starts_at sql) stmts poss
    \<and> map (\<lambda>f. (ReasonCode f, Position f)) (filter critical fs) =
      List.map_filter (\<lambda>(s, pos). map_option (\<lambda>c. (c, Some pos)) (critical_code (AST s))) (zip stmts poss)"
proof -
  let ?rs = "DefaultRules show_name"
  let ?poss = "snd (analyze_statements ?rs sql 0 stmts)"
  let ?single = "fst (analyze_statements ?rs sql 0 stmts)"
  define multi where "multi = concat (map (\<lambda>m. case multi_check m of None \<Rightarrow> []
      | Some check \<Rightarrow> map (stamp (multi_code m) (multi_severity m)) (check stmts ?poss)) DefaultMultiRules)"
  have fs: "AnalyzeParsed show_name stmts sql = Ret (?single @ multi)"
    unfolding AnalyzeParsed_def DefaultRules_registry obind.simps AnalyzeParsed_with_def split_beta
      risk_registry.simps multi_def Let_def ..
  have multi: "filter critical multi = []"
    by (auto simp: multi_def DefaultMultiRules_def multipleDDLInTxnRule_def ddlAndDMLInTxnRule_def stamp_def
        filter_empty_conv)
  have "map (\<lambda>f. (ReasonCode f, Position f)) (filter critical (concat (map (\<lambda>(s, pos).
      concat (map (run_rule \<lparr>in_ast = AST s, in_sql = SQL s, in_position = pos\<rparr>) ?rs)) sps))) =
    List.map_filter (\<lambda>(s, pos). map_option (\<lambda>c. (c, Some pos)) (critical_code (AST s))) sps" for sps
    by (induction sps) (auto simp: List.map_filter_simps critical_rules no_critical_rules split: option.split)
  then show ?thesis
    using analyze_positions [OF assms, of ?rs] multi analyze_findings [of ?rs sql 0 stmts]
    by (intro exI [of _ "?single @ multi"] exI [of _ ?poss]) (simp add: fs)
qed

definition sample_class :: classification where
  "sample_class = \<lparr>StatementTag = [], StatementType = TypeDDL, CanWriteData = False, CanModifySchema = True\<rparr>"

definition sample_batch :: "parsed list" where
  "sample_batch =
     [\<lparr>AST = Plain sample_class (DropDatabase ''d''), SQL = ''DROP DATABASE d''\<rparr>,
      \<lparr>AST = Delete sample_class [] OtherTableExpr [] None True [], SQL = ''DELETE FROM t LIMIT 1''\<rparr>]"

theorem AnalyzeParsed_critical_witness:
  "\<exists>fs pos. AnalyzeParsed id sample_batch ''DROP DATABASE d; DELETE FROM t LIMIT 1'' = Ret fs
    \<and> map (\<lambda>f. (ReasonCode f, Position f)) (filter critical fs) = [(''DROP_DATABASE'', Some pos)]"
proof -
  have l: "located ''DROP DATABASE d; DELETE FROM t LIMIT 1'' 0 sample_batch" by code_simp
  have lb: "length sample_batch = 2" by (simp add: sample_batch_def)
  obtain a b where sb: "sample_batch = [a, b]" "critical_code (AST a) = Some ''DROP_DATABASE''" "critical_code (AST b) = None"
    by (simp add: sample_batch_def critical_code_def)
  from AnalyzeParsed_critical [OF l, of id] obtain fs poss where
    r: "AnalyzeParsed id sample_batch ''DROP DATABASE d; DELETE FROM t LIMIT 1'' = Ret fs"
      "list_all2 (starts_at ''DROP DATABASE d; DELETE FROM t LIMIT 1'') sample_batch poss"
      "map (\<lambda>f. (ReasonCode f, Position f)) (filter critical fs) =
        List.map_filter (\<lambda>(s, pos). map_option (\<lambda>c. (c, Some pos)) (critical_code (AST s))) (zip sample_batch poss)"
    by blast
  have "length poss = 2" using list_all2_lengthD [OF r(2)] by (simp add: lb)
  then obtain p q where "poss = [p, q]" by (auto simp: length_Suc_conv numeral_2_eq_2)
  then have "map (\<lambda>f. (ReasonCode f, Position f)) (filter critical fs) = [(''DROP_DATABASE'', Some p)]"
    by (simp add: r(3) sb List.map_filter_simps)
  with r(1) show ?thesis by (intro exI [of _ fs] exI [of _ p] conjI)
qed

end
