(* ===== verification/Route.thy ===== *)
theory Route
  imports Output "HOL-Library.Multiset"
begin

text \<open>
  Package \<open>internal/versionroute\<close>: which per-quarter backend serves a \<open>--target-version\<close> (\<open>quarter.go\<close>),
  where the backends are found (\<open>discover.go\<close>) and the re-exec decision taken first thing in \<open>main\<close>
  (\<open>route.go\<close>), with \<open>routeTarget\<close> of \<open>internal/mcp/routing.go\<close>, the same decision inside the server.
  What the process reads of its machine is one record: the executable, the build stamp, the build info,
  the directories of \<open>$PATH\<close>, \<open>os.ReadDir\<close>, \<open>os.Stat\<close>, the path functions (which differ between
  systems) and the \<open>exec\<close> call, which returns only when it fails.
\<close>

section \<open>Quarters\<close>

record quarter =
  Year :: int
  Q :: int

definition zero_quarter :: quarter where
  "zero_quarter = \<lparr>Year = 0, Q = 0\<rparr>"

definition MakeQuarter :: "int \<Rightarrow> int \<Rightarrow> string + quarter" where
  "MakeQuarter year q =
     (if year < 1 then Inl (''quarter year must be >= 1, got '' @ itoa year)
      else if q < 1 \<or> q > 4 then Inl (''quarter ordinal must be in 1..4, got '' @ itoa q)
      else Inr \<lparr>Year = year, Q = q\<rparr>)"

definition IsZero :: "quarter \<Rightarrow> bool" where
  "IsZero q \<longleftrightarrow> Year q = 0 \<and> Q q = 0"

definition quarter_string :: "quarter \<Rightarrow> string" where
  "quarter_string q = (if IsZero q then ''unknown'' else itoa (Year q) @ ''.'' @ itoa (Q q))"

definition Tag :: "quarter \<Rightarrow> string" where
  "Tag q = (if IsZero q then [] else ''v'' @ itoa (Year q) @ itoa (Q q))"

definition BackendName :: "quarter \<Rightarrow> string" where
  "BackendName q = (if IsZero q then ''crdb-sql'' else ''crdb-sql-'' @ Tag q)"

text \<open>A pair \<open>(q, ok)\<close> of the source is an option; \<open>quarter_of\<close> is the end the parsers share.\<close>

definition quarter_of :: "string \<Rightarrow> string \<Rightarrow> quarter option" where
  "quarter_of yearStr qStr =
     (case atoi yearStr of None \<Rightarrow> None
      | Some year \<Rightarrow>
          (case atoi qStr of None \<Rightarrow> None
           | Some q \<Rightarrow> (case MakeQuarter year q of Inl _ \<Rightarrow> None | Inr out \<Rightarrow> Some out)))"

definition ParseFromTarget :: "string \<Rightarrow> quarter option" where
  "ParseFromTarget s =
     (let parts = split_on CHR ''.'' (trim_prefix (trim_space s) ''v'') in
      if length parts < 2 then None else quarter_of (parts ! 0) (parts ! 1))"

definition ParseTag :: "string \<Rightarrow> quarter option" where
  "ParseTag s0 =
     (let s = trim_prefix s0 ''v'' in
      if length s < 2 then None else quarter_of (butlast s) [last s])"

definition parseForkVersion :: "string \<Rightarrow> quarter option" where
  "parseForkVersion ver =
     (let parts = split_on CHR ''.'' (trim_prefix ver ''v'') in
      if length parts < 3 then None
      else quarter_of (parts ! 1) (takeWhile (\<lambda>c. c \<noteq> CHR ''-'' \<and> c \<noteq> CHR ''+'') (parts ! 2)))"

section \<open>The machine\<close>

record dep =
  dep_Path :: string
  dep_Version :: string
  dep_Replace :: "string option"

record host =
  os_Executable :: "string option"
  on_windows :: bool
  builtQuarterStamp :: string
  build_info :: "dep list option"
  path_list :: "string list"
  os_ReadDir :: "string \<Rightarrow> (string \<times> bool) list option"
  os_Stat :: "string \<Rightarrow> (bool \<times> bool) option"
  fp_Abs :: "string \<Rightarrow> string option"
  fp_Base :: "string \<Rightarrow> string"
  fp_Dir :: "string \<Rightarrow> string"
  fp_Join :: "string \<Rightarrow> string \<Rightarrow> string"
  syscall_Exec :: "string \<Rightarrow> string list \<Rightarrow> string option"

definition backend_prefix :: string where
  "backend_prefix = ''crdb-sql-''"

definition execSuffix :: "host \<Rightarrow> string" where
  "execSuffix h = (if on_windows h then ''.exe'' else [])"

definition isExecutable :: "host \<Rightarrow> string \<Rightarrow> bool" where
  "isExecutable h path =
     (case os_Stat h path of
        None \<Rightarrow> False
      | Some (is_dir, mode_exec) \<Rightarrow> if is_dir then False else if on_windows h then True else mode_exec)"

definition quarterFromExecutable :: "host \<Rightarrow> quarter option" where
  "quarterFromExecutable h =
     (case os_Executable h of
        None \<Rightarrow> None
      | Some exe \<Rightarrow>
          (let base = trim_suffix (fp_Base h exe) ''.exe'' in
           if \<not> has_prefix base backend_prefix then None
           else ParseTag (trim_prefix base backend_prefix)))"

definition parserModulePath :: string where
  "parserModulePath = ''github.com/cockroachdb/cockroachdb-parser''"

definition builtQuarterFromBuildInfo :: "host \<Rightarrow> quarter option" where
  "builtQuarterFromBuildInfo h =
     (case build_info h of
        None \<Rightarrow> None
      | Some deps \<Rightarrow>
          (case find (\<lambda>d. dep_Path d = parserModulePath) deps of
             None \<Rightarrow> None
           | Some d \<Rightarrow>
               (let ver = (case dep_Replace d of
                      Some v \<Rightarrow> if v \<noteq> [] then v else dep_Version d
                    | None \<Rightarrow> dep_Version d)
                in if ver = [] then None else parseForkVersion ver)))"

definition Built :: "host \<Rightarrow> quarter option" where
  "Built h =
     (case quarterFromExecutable h of
        Some q \<Rightarrow> Some q
      | None \<Rightarrow>
          if builtQuarterStamp h \<noteq> [] then ParseTag (builtQuarterStamp h)
          else builtQuarterFromBuildInfo h)"

definition StampDiagnostic :: "host \<Rightarrow> string" where
  "StampDiagnostic h =
     (if builtQuarterStamp h = [] then []
      else if ParseTag (builtQuarterStamp h) \<noteq> None then []
      else ''crdb-sql: build stamp '' @ quote (builtQuarterStamp h) @ '' is not a valid quarter tag ''
           @ ''(expected v<year><quarter> like v262 = CRDB 26.2); ''
           @ ''routing this invocation as if no stamp were set. Reinstall to fix.'')"

section \<open>Finding backends\<close>

record backend =
  Quarter :: quarter
  Path :: string
  IsSelf :: bool

definition selfDir :: "host \<Rightarrow> string" where
  "selfDir h =
     (case os_Executable h of
        None \<Rightarrow> []
      | Some exe \<Rightarrow> (case fp_Abs h exe of None \<Rightarrow> [] | Some absolute \<Rightarrow> fp_Dir h absolute))"

definition pathDirs :: "host \<Rightarrow> string list" where
  "pathDirs h = filter (\<lambda>p. p \<noteq> []) (path_list h)"

definition search_dirs :: "host \<Rightarrow> string list" where
  "search_dirs h = (if selfDir h \<noteq> [] then [selfDir h] else []) @ pathDirs h"

definition FindBackend :: "host \<Rightarrow> quarter \<Rightarrow> string option" where
  "FindBackend h want =
     (let name = BackendName want @ execSuffix h in
      find (isExecutable h) (map (\<lambda>dir. fp_Join h dir name) (search_dirs h)))"

definition selfBackend :: "host \<Rightarrow> backend option" where
  "selfBackend h =
     (case os_Executable h of
        None \<Rightarrow> None
      | Some exe \<Rightarrow>
          (let absolute = (case fp_Abs h exe of None \<Rightarrow> exe | Some a \<Rightarrow> a);
               q = (case Built h of None \<Rightarrow> zero_quarter | Some q \<Rightarrow> q)
           in Some \<lparr>Quarter = q, Path = absolute, IsSelf = True\<rparr>))"

record discovery =
  found :: "backend list"
  seenPaths :: "string list"
  seenQuarters :: "quarter list"

definition addCandidate :: "host \<Rightarrow> string \<Rightarrow> discovery \<Rightarrow> discovery" where
  "addCandidate h path st =
     (case fp_Abs h path of
        None \<Rightarrow> st
      | Some absolute \<Rightarrow>
          if absolute \<in> set (seenPaths st) then st
          else
            (let base = trim_suffix (fp_Base h absolute) (execSuffix h) in
             if \<not> has_prefix base backend_prefix then st
             else
               (case ParseTag (trim_prefix base backend_prefix) of
                  None \<Rightarrow> st
                | Some q \<Rightarrow>
                    if q \<in> set (seenQuarters st) then st
                    else if \<not> isExecutable h absolute then st
                    else \<lparr>found = found st @ [\<lparr>Quarter = q, Path = absolute, IsSelf = False\<rparr>],
                          seenPaths = absolute # seenPaths st, seenQuarters = q # seenQuarters st\<rparr>)))"

definition walkBackendDir :: "host \<Rightarrow> string \<Rightarrow> string list" where
  "walkBackendDir h dir =
     (case os_ReadDir h dir of
        None \<Rightarrow> []
      | Some entries \<Rightarrow>
          map (\<lambda>e. fp_Join h dir (fst e))
            (filter (\<lambda>e. \<not> snd e \<and> has_prefix (fst e) ''crdb-sql-v'') entries))"

definition quarterLess :: "quarter \<Rightarrow> quarter \<Rightarrow> bool" where
  "quarterLess a b =
     (if IsZero a then False
      else if IsZero b then True
      else if Year a \<noteq> Year b then Year a < Year b
      else Q a < Q b)"

text \<open>\<open>sort.SliceStable\<close> with a \<open>less\<close> function \<open>lt\<close>: each element is inserted before the first not less than it.\<close>

fun insert_before :: "('a \<Rightarrow> 'a \<Rightarrow> bool) \<Rightarrow> 'a \<Rightarrow> 'a list \<Rightarrow> 'a list" where
  "insert_before lt x [] = [x]"
| "insert_before lt x (y # ys) = (if lt y x then y # insert_before lt x ys else x # y # ys)"

definition slice_stable :: "('a \<Rightarrow> 'a \<Rightarrow> bool) \<Rightarrow> 'a list \<Rightarrow> 'a list" where
  "slice_stable lt xs = foldr (insert_before lt) xs []"

definition discover_init :: "host \<Rightarrow> discovery" where
  "discover_init h =
     (case selfBackend h of
        None \<Rightarrow> \<lparr>found = [], seenPaths = [], seenQuarters = []\<rparr>
      | Some self \<Rightarrow> \<lparr>found = [self], seenPaths = [Path self],
          seenQuarters = (if IsZero (Quarter self) then [] else [Quarter self])\<rparr>)"

definition Discover :: "host \<Rightarrow> backend list" where
  "Discover h =
     slice_stable (\<lambda>a b. quarterLess (Quarter b) (Quarter a))
       (found (fold (addCandidate h) (concat (map (walkBackendDir h) (search_dirs h))) (discover_init h)))"

section \<open>The re-exec decision\<close>

fun extract_from :: "string list \<Rightarrow> string option" where
  "extract_from [] = None"
| "extract_from (a # as) =
     (if a = ''--'' then None
      else if a = ''--target-version'' then Some (case as of [] \<Rightarrow> [] | v # _ \<Rightarrow> v)
      else if has_prefix a ''--target-version='' then Some (trim_prefix a ''--target-version='')
      else extract_from as)"

definition extractTargetVersion :: "string list \<Rightarrow> string option" where
  "extractTargetVersion args = extract_from (tl args)"

definition pad18 :: "string \<Rightarrow> string" where
  "pad18 s = s @ replicate (18 - length s) CHR '' ''"

definition backend_line :: "backend \<Rightarrow> string" where
  "backend_line b =
     (let label = (if IsSelf b then ''(this binary)'' else Path b);
          name = (if IsZero (Quarter b) then ''crdb-sql (unknown quarter)'' else BackendName (Quarter b))
      in ''  '' @ pad18 name @ '' '' @ label @ [newline])"

definition writeMissingBackendError ::
    "host \<Rightarrow> quarter \<Rightarrow> quarter option \<Rightarrow> string \<Rightarrow> string \<Rightarrow> string" where
  "writeMissingBackendError h want built rawTarget stampDiag =
     ''crdb-sql: --target-version '' @ rawTarget @ '' requires the '' @ BackendName want @ '' backend,'' @ [newline]
     @ ''which is not installed alongside this binary or in $PATH.'' @ [newline]
     @ (case built of
          Some b \<Rightarrow> ''This binary is '' @ BackendName b @ ''.'' @ [newline]
        | None \<Rightarrow>
            if stampDiag \<noteq> []
            then ''This binary's quarter is unknown (build stamp '' @ quote (builtQuarterStamp h)
                 @ '' is malformed; reinstall to fix).'' @ [newline]
            else ''This binary's quarter is unknown (no build stamp, no parser dep in BuildInfo).'' @ [newline])
     @ (let backends = Discover h in
        if length backends = 0 then ''No backends discovered.'' @ [newline]
        else ''Available backends:'' @ [newline] @ concat (map backend_line backends))
     @ ''Install the '' @ Tag want @ '' backend from the GitHub release, or omit --target-version'' @ [newline]
     @ ''to use the latest parser.'' @ [newline]"

text \<open>What \<open>maybeReexec\<close> does besides writing to standard error.\<close>

datatype reexec = ReturnToMain | ReplacedBy string | ExitWith int

definition maybeReexec :: "host \<Rightarrow> string list \<Rightarrow> string \<times> reexec" where
  "maybeReexec h args =
     (let stampDiag = StampDiagnostic h;
          out = (if stampDiag \<noteq> [] then stampDiag @ [newline] else [])
      in case extractTargetVersion args of
           None \<Rightarrow> (out, ReturnToMain)
         | Some rawTarget \<Rightarrow>
             (case ParseFromTarget rawTarget of
                None \<Rightarrow> (out, ReturnToMain)
              | Some want \<Rightarrow>
                  if (case Built h of None \<Rightarrow> False | Some b \<Rightarrow> Year want = Year b \<and> Q want = Q b)
                  then (out, ReturnToMain)
                  else
                    (case FindBackend h want of
                       None \<Rightarrow> (out @ writeMissingBackendError h want (Built h) rawTarget stampDiag, ExitWith 2)
                     | Some path \<Rightarrow>
                         (case syscall_Exec h path args of
                            None \<Rightarrow> (out, ReplacedBy path)
                          | Some err \<Rightarrow>
                              (out @ ''crdb-sql: failed to exec '' @ Tag want @ '' backend at '' @ path @ '': '' @ err
                               @ [newline], ExitWith 2)))))"

definition routeTarget :: "quarter \<Rightarrow> string \<Rightarrow> quarter option" where
  "routeTarget built target =
     (if target = [] then None
      else
        (case ParseFromTarget target of
           None \<Rightarrow> None
         | Some want \<Rightarrow> if IsZero built then None else if built = want then None else Some want))"

section \<open>Names and versions of a quarter\<close>

definition valid_quarter :: "quarter \<Rightarrow> bool" where
  "valid_quarter q \<longleftrightarrow> 1 \<le> Year q \<and> 1 \<le> Q q \<and> Q q \<le> 4"

lemma MakeQuarter_Inr: "MakeQuarter y n = Inr q \<longleftrightarrow> 1 \<le> y \<and> 1 \<le> n \<and> n \<le> 4 \<and> q = \<lparr>Year = y, Q = n\<rparr>"
  by (auto simp: MakeQuarter_def)

lemma quarter_of_valid: "quarter_of a b = Some q \<Longrightarrow> valid_quarter q"
  by (auto simp: quarter_of_def valid_quarter_def MakeQuarter_def split: option.splits sum.splits if_splits)

lemma ParseTag_valid: "ParseTag s = Some q \<Longrightarrow> valid_quarter q"
  by (auto simp: ParseTag_def Let_def dest: quarter_of_valid split: if_splits)

lemma ParseFromTarget_valid: "ParseFromTarget s = Some q \<Longrightarrow> valid_quarter q"
  by (auto simp: ParseFromTarget_def Let_def dest: quarter_of_valid split: if_splits)

lemma valid_not_zero: "valid_quarter q \<Longrightarrow> \<not> IsZero q"
  by (simp add: valid_quarter_def IsZero_def)

lemma quarter_of_itoa:
  assumes "valid_quarter q" "Year q < 2 ^ 63"
  shows "quarter_of (itoa_nat (nat (Year q))) (itoa_nat (nat (Q q))) = Some q"
proof -
  have "nat (Year q) < 2 ^ 63" using assms by (simp add: nat_less_iff)
  moreover have "nat (Q q) < 2 ^ 63"
    using assms(1) by (simp add: valid_quarter_def nat_less_iff)
  ultimately show ?thesis
    using assms(1) by (cases q) (simp add: quarter_of_def atoi_itoa_nat valid_quarter_def MakeQuarter_def)
qed

lemma valid_itoa:
  "valid_quarter q \<Longrightarrow> itoa (Year q) = itoa_nat (nat (Year q)) \<and> itoa (Q q) = itoa_nat (nat (Q q))"
  by (simp add: valid_quarter_def itoa_def)

lemma valid_digit:
  "valid_quarter q \<Longrightarrow> itoa_nat (nat (Q q)) = [digit_char (nat (Q q))] \<and> is_digit (digit_char (nat (Q q)))"
  by (simp add: valid_quarter_def itoa_nat_single nat_less_iff)

lemma itoa_nat_char: "c \<in> set (itoa_nat n) \<Longrightarrow> is_digit c"
  using itoa_nat_digits [of n] by (simp add: list_all_iff)

lemma ParseTag_Tag:
  assumes "valid_quarter q" "Year q < 2 ^ 63"
  shows "ParseTag (Tag q) = Some q"
proof -
  let ?y = "itoa_nat (nat (Year q))"
  have t: "Tag q = ''v'' @ ?y @ [digit_char (nat (Q q))]"
    using assms(1) by (simp add: Tag_def valid_not_zero valid_itoa valid_digit)
  have "?y \<noteq> []" by simp
  then have "2 \<le> length (?y @ [digit_char (nat (Q q))])" by (cases ?y) simp_all
  then show ?thesis
    using quarter_of_itoa [OF assms] valid_digit [OF assms(1)]
    by (simp add: ParseTag_def t Let_def trim_prefix_append del: append.simps)
qed

lemma has_suffix_last:
  assumes "has_suffix s p" "p \<noteq> []" shows "last s = last p"
proof -
  have "s = take (length s - length p) s @ p"
    using assms(1) append_take_drop_id [of "length s - length p" s] by (simp add: has_suffix_def)
  with assms(2) show ?thesis by (metis last_appendR)
qed

lemma digits_no:
  assumes "\<not> is_digit c" shows "c \<notin> set (itoa_nat n)"
  using assms itoa_nat_char by blast

lemma ParseFromTarget_string:
  assumes "valid_quarter q" "Year q < 2 ^ 63" "\<forall>c \<in> set rest. \<not> is_space c \<and> byte_of c < 128" "rest = [] \<or> hd rest = CHR ''.''"
  shows "ParseFromTarget (quarter_string q @ rest) = Some q"
proof -
  let ?y = "itoa_nat (nat (Year q))" and ?q = "itoa_nat (nat (Q q))"
  have s: "quarter_string q @ rest = ?y @ CHR ''.'' # (?q @ rest)"
    using assms(1) by (simp add: quarter_string_def valid_not_zero valid_itoa)
  have dot: "\<not> is_digit CHR ''.''" "\<not> is_space CHR ''.'' \<and> byte_of CHR ''.'' < 128" "\<not> is_digit CHR ''v''"
    by (simp_all add: is_digit_def is_space_def byte_of_def)
  have "\<forall>c \<in> set (quarter_string q @ rest). \<not> is_space c \<and> byte_of c < 128"
    unfolding s using assms(3) dot by (auto dest: itoa_nat_char digit_not_space)
  then have trim: "trim_space (quarter_string q @ rest) = quarter_string q @ rest" by (rule trim_space_no_space)
  obtain c cs where y: "?y = c # cs" by (cases ?y) simp_all
  then have "is_digit c" using itoa_nat_char [of c "nat (Year q)"] by simp
  then have vp: "trim_prefix (?y @ CHR ''.'' # (?q @ rest)) ''v'' = ?y @ CHR ''.'' # (?q @ rest)"
    by (auto simp: trim_prefix_def has_prefix_def y dest: digit_not_v)
  have split: "split_on CHR ''.'' (?y @ CHR ''.'' # (?q @ rest)) = ?y # split_on CHR ''.'' (?q @ rest)"
    by (rule split_on_append) (rule digits_no [OF dot(1)])
  have "\<exists>ps. split_on CHR ''.'' (?q @ rest) = ?q # ps"
  proof (cases rest)
    case Nil
    then show ?thesis using split_on_no_sep [OF digits_no [OF dot(1)]] by simp
  next
    case (Cons d ds)
    then have "rest = CHR ''.'' # ds" using assms(4) by simp
    then show ?thesis using split_on_append [OF digits_no [OF dot(1)], of "nat (Q q)" ds] by simp
  qed
  then show ?thesis
    using quarter_of_itoa [OF assms(1,2)]
    by (auto simp: ParseFromTarget_def trim [unfolded s] s vp split Let_def)
qed

text \<open>The names of a quarter are read back: for every quarter \<open>MakeQuarter\<close> accepts, \<open>ParseTag\<close> inverts
  \<open>Tag\<close>, a binary called \<open>BackendName\<close> (with or without \<open>.exe\<close>) declares that quarter, and
  \<open>ParseFromTarget\<close> reads its printed form with any patch level.\<close>

theorem quarter_names_roundtrip:
  assumes "MakeQuarter y n = Inr q" "y < 2 ^ 63"
  shows "ParseTag (Tag q) = Some q
    \<and> (os_Executable h = Some exe \<and> fp_Base h exe \<in> {BackendName q, BackendName q @ ''.exe''} \<longrightarrow> Built h = Some q)
    \<and> ParseFromTarget (quarter_string q) = Some q
    \<and> ParseFromTarget (quarter_string q @ ''.'' @ itoa_nat patch) = Some q"
proof -
  have v: "valid_quarter q" "Year q < 2 ^ 63"
    using assms by (auto simp: MakeQuarter_Inr valid_quarter_def)
  have tag: "ParseTag (Tag q) = Some q" by (rule ParseTag_Tag [OF v])
  have name: "BackendName q = backend_prefix @ Tag q"
    using v(1) by (simp add: BackendName_def backend_prefix_def valid_not_zero)
  have t: "Tag q = ''v'' @ itoa_nat (nat (Year q)) @ [digit_char (nat (Q q))]"
    using v(1) by (simp add: Tag_def valid_not_zero valid_itoa valid_digit)
  have "digit_char (nat (Q q)) \<noteq> CHR ''e''"
    using valid_digit [OF v(1)] by (auto simp: is_digit_def byte_of_def)
  then have "\<not> has_suffix (BackendName q) ''.exe''"
    using has_suffix_last [of "BackendName q" "''.exe''"] by (auto simp: name t)
  then have plain: "trim_suffix (BackendName q) ''.exe'' = BackendName q" by (simp add: trim_suffix_def)
  have exe: "trim_suffix (BackendName q @ ''.exe'') ''.exe'' = BackendName q"
    by (simp add: trim_suffix_def has_suffix_def)
  have "ParseFromTarget (quarter_string q @ ''.'' @ itoa_nat patch) = Some q"
    by (rule ParseFromTarget_string [OF v])
      (auto simp: is_space_def byte_of_def dest!: itoa_nat_char digit_not_space)
  moreover have "Built h = Some q"
    if "os_Executable h = Some exe" "fp_Base h exe \<in> {BackendName q, BackendName q @ ''.exe''}"
  proof -
    have "trim_suffix (fp_Base h exe) ''.exe'' = backend_prefix @ Tag q"
      using that(2) plain exe by (auto simp: name)
    then show ?thesis
      using that(1) tag by (simp add: Built_def quarterFromExecutable_def Let_def trim_prefix_append)
  qed
  ultimately show ?thesis using tag ParseFromTarget_string [OF v, of "[]"] by simp
qed

theorem quarter_names_roundtrip_witness:
  "ParseTag ''v254'' = Some \<lparr>Year = 25, Q = 4\<rparr> \<and> ParseFromTarget ''25.4.11'' = Some \<lparr>Year = 25, Q = 4\<rparr>"
proof -
  have q: "MakeQuarter 25 4 = Inr \<lparr>Year = 25, Q = 4\<rparr>" by (simp add: MakeQuarter_def)
  have "Tag \<lparr>Year = 25, Q = 4\<rparr> = ''v254''" "quarter_string \<lparr>Year = 25, Q = 4\<rparr> @ ''.'' @ itoa_nat 11 = ''25.4.11''"
    by code_simp+
  with quarter_names_roundtrip [OF q, of _ _ 11] show ?thesis by simp
qed

section \<open>Never the wrong parser\<close>

lemma Built_valid: "Built h = Some q \<Longrightarrow> valid_quarter q"
  by (auto simp: Built_def quarterFromExecutable_def builtQuarterFromBuildInfo_def parseForkVersion_def Let_def
      dest: ParseTag_valid quarter_of_valid split: option.splits if_splits)

lemma FindBackend_Some:
  "FindBackend h want = Some p \<Longrightarrow> isExecutable h p
    \<and> (\<exists>dir \<in> set (search_dirs h). p = fp_Join h dir (BackendName want @ execSuffix h))"
  by (auto simp: FindBackend_def Let_def find_Some_iff intro!: bexI [OF _ nth_mem])

lemma ParseFromTarget_Nil: "ParseFromTarget [] = None"
  by (simp add: ParseFromTarget_def trim_space_no_space trim_prefix_def has_prefix_def)


section \<open>What discovery lists\<close>

definition chrono :: "quarter \<Rightarrow> bool \<times> int \<times> int" where
  "chrono q = (\<not> IsZero q, - Year q, - Q q)"

lemma quarterLess_chrono:
  "valid_quarter a \<or> IsZero a \<Longrightarrow> valid_quarter b \<or> IsZero b \<Longrightarrow>
   quarterLess b a \<longleftrightarrow> chrono a < chrono b"
  by (auto simp: quarterLess_def chrono_def less_prod_def IsZero_def)

lemma slice_stable_sort_key:
  assumes "\<And>a b. a \<in> set xs \<Longrightarrow> b \<in> set xs \<Longrightarrow> lt a b \<longleftrightarrow> k a < k b"
  shows "slice_stable lt xs = sort_key k xs"
proof -
  have ins: "insert_before lt x ys = insort_key k x ys" if "x \<in> set xs" "set ys \<subseteq> set xs" for x ys
    using that
  proof (induction ys)
    case (Cons y ys)
    then have "lt y x \<longleftrightarrow> k y < k x" by (intro assms) auto
    with Cons show ?case by (auto simp: not_le)
  qed simp
  have "foldr (insert_before lt) ys [] = foldr (insort_key k) ys []" if "set ys \<subseteq> set xs" for ys
    using that
  proof (induction ys)
    case (Cons y ys)
    have "set (foldr (insort_key k) ys []) = set ys"
      using set_sort [of k ys] by (simp add: sort_key_def)
    with Cons ins [of y "foldr (insort_key k) ys []"] show ?case by simp
  qed simp
  then show ?thesis by (simp add: slice_stable_def sort_key_def)
qed

text \<open>The invariant of the walk: what is listed is new, valid, executable and remembered.\<close>

definition disc_inv :: "host \<Rightarrow> backend list \<Rightarrow> discovery \<Rightarrow> bool" where
  "disc_inv h self st \<longleftrightarrow> (\<exists>sibs. found st = self @ sibs
     \<and> (\<forall>b \<in> set sibs. \<not> IsSelf b \<and> valid_quarter (Quarter b) \<and> isExecutable h (Path b)
          \<and> ParseTag (trim_prefix (trim_suffix (fp_Base h (Path b)) (execSuffix h)) backend_prefix) = Some (Quarter b))
     \<and> distinct (map Path (found st)) \<and> distinct (filter (\<lambda>q. \<not> IsZero q) (map Quarter (found st)))
     \<and> set (seenPaths st) = Path ` set (found st)
     \<and> set (seenQuarters st) = {q \<in> Quarter ` set (found st). \<not> IsZero q})"

lemma addCandidate_inv:
  assumes "disc_inv h self st" shows "disc_inv h self (addCandidate h path st)"
proof (cases "addCandidate h path st = st")
  case False
  from assms obtain sibs where inv: "found st = self @ sibs"
    "\<forall>b \<in> set sibs. \<not> IsSelf b \<and> valid_quarter (Quarter b) \<and> isExecutable h (Path b)
      \<and> ParseTag (trim_prefix (trim_suffix (fp_Base h (Path b)) (execSuffix h)) backend_prefix) = Some (Quarter b)"
    "distinct (map Path (found st))" "distinct (filter (\<lambda>q. \<not> IsZero q) (map Quarter (found st)))"
    "set (seenPaths st) = Path ` set (found st)" "set (seenQuarters st) = {q \<in> Quarter ` set (found st). \<not> IsZero q}"
    by (auto simp: disc_inv_def)
  from False obtain p q where new: "p \<notin> set (seenPaths st)" "isExecutable h p" "q \<notin> set (seenQuarters st)"
    "ParseTag (trim_prefix (trim_suffix (fp_Base h p) (execSuffix h)) backend_prefix) = Some q"
    "addCandidate h path st = \<lparr>found = found st @ [\<lparr>Quarter = q, Path = p, IsSelf = False\<rparr>],
       seenPaths = p # seenPaths st, seenQuarters = q # seenQuarters st\<rparr>"
    by (auto simp: addCandidate_def Let_def split: option.splits if_splits)
  have "valid_quarter q" "\<not> IsZero q" using new(4) ParseTag_valid valid_not_zero by blast+
  with inv new show ?thesis
    unfolding disc_inv_def
    by (intro exI [of _ "sibs @ [\<lparr>Quarter = q, Path = p, IsSelf = False\<rparr>]"]) auto
qed (use assms in simp)

lemma discover_init_inv:
  "disc_inv h (case selfBackend h of None \<Rightarrow> [] | Some b \<Rightarrow> [b]) (discover_init h)"
  by (auto simp: disc_inv_def discover_init_def split: option.split)

lemma selfBackend_quarter: "selfBackend h = Some b \<Longrightarrow> IsSelf b \<and> (valid_quarter (Quarter b) \<or> IsZero (Quarter b))"
  using Built_valid [of h]
  by (auto simp: selfBackend_def Let_def zero_quarter_def IsZero_def split: option.splits)

text \<open>\<open>Discover\<close> lists the running binary and the executables named after a quarter, each path once and
  each known quarter once, in the order of \<open>chrono\<close>: newest quarter first. An unknown quarter of the
  running binary, though, comes before every real backend and not after them.\<close>

theorem Discover_order:
  "distinct (map Path (Discover h)) \<and> distinct (filter (\<lambda>q. \<not> IsZero q) (map Quarter (Discover h)))
   \<and> sorted (map (\<lambda>b. chrono (Quarter b)) (Discover h))
   \<and> {b \<in> set (Discover h). IsSelf b} = set_option (selfBackend h)
   \<and> (\<forall>b \<in> set (Discover h). IsSelf b \<or> valid_quarter (Quarter b) \<and> isExecutable h (Path b))
   \<and> (\<forall>b. selfBackend h = Some b \<and> IsZero (Quarter b) \<longrightarrow> hd (Discover h) = b)"
proof -
  let ?self = "case selfBackend h of None \<Rightarrow> [] | Some b \<Rightarrow> [b]"
  define st where "st = fold (addCandidate h) (concat (map (walkBackendDir h) (search_dirs h))) (discover_init h)"
  have inv_fold: "disc_inv h ?self (fold (addCandidate h) paths (discover_init h))" for paths
    using discover_init_inv [of h] by (induction paths rule: rev_induct) (auto intro: addCandidate_inv)
  obtain sibs where inv: "found st = ?self @ sibs"
    "\<forall>b \<in> set sibs. \<not> IsSelf b \<and> valid_quarter (Quarter b) \<and> isExecutable h (Path b)"
    "distinct (map Path (found st))" "distinct (filter (\<lambda>q. \<not> IsZero q) (map Quarter (found st)))"
    using inv_fold [of "concat (map (walkBackendDir h) (search_dirs h))", folded st_def]
    unfolding disc_inv_def by (elim exE conjE) auto
  have quarters: "valid_quarter (Quarter b) \<or> IsZero (Quarter b)" if "b \<in> set (found st)" for b
    using that inv(1,2) selfBackend_quarter [of h b] by (auto split: option.splits)
  have D: "Discover h = sort_key (\<lambda>b. chrono (Quarter b)) (found st)"
    unfolding Discover_def st_def [symmetric] by (rule slice_stable_sort_key) (simp add: quarterLess_chrono quarters)
  have set_D: "set (Discover h) = set ?self \<union> set sibs" by (simp add: D inv(1))
  have perm: "mset (Discover h) = mset (found st)" by (simp add: D)
  have "distinct (map Path (Discover h))"
    using inv(3) by (metis perm mset_map mset_eq_imp_distinct_iff)
  moreover have "distinct (filter (\<lambda>q. \<not> IsZero q) (map Quarter (Discover h)))"
    using inv(4) by (metis perm mset_map mset_filter mset_eq_imp_distinct_iff)
  moreover have "hd (Discover h) = b" if b: "selfBackend h = Some b" "IsZero (Quarter b)" for b
  proof -
    have "chrono (Quarter b) < chrono (Quarter c)" if "c \<in> set sibs" for c
      using that inv(2) b(2) valid_not_zero by (fastforce simp: chrono_def less_prod_def)
    then have "insort_key (\<lambda>b. chrono (Quarter b)) b xs = b # xs" if "set xs \<subseteq> set sibs" for xs
      using that by (cases xs) (auto simp: less_imp_le)
    then show ?thesis by (simp add: D inv(1) b(1) sort_key_simps)
  qed
  moreover have "{b \<in> set (Discover h). IsSelf b} = set_option (selfBackend h)"
    using inv(2) selfBackend_quarter [of h] by (auto simp: set_D split: option.splits)
  moreover have "\<forall>b \<in> set (Discover h). IsSelf b \<or> valid_quarter (Quarter b) \<and> isExecutable h (Path b)"
    using inv(2) selfBackend_quarter [of h] by (auto simp: set_D split: option.splits)
  ultimately show ?thesis by (simp add: D)
qed

definition unstamped_host :: host where
  "unstamped_host = \<lparr>os_Executable = Some ''/opt/crdb-sql'', on_windows = False, builtQuarterStamp = [],
     build_info = None, path_list = [], os_ReadDir = (\<lambda>d. Some [(''crdb-sql-v254'', False)]),
     os_Stat = (\<lambda>p. Some (False, True)), fp_Abs = Some,
     fp_Base = (\<lambda>p. if p = ''/opt/crdb-sql'' then ''crdb-sql'' else ''crdb-sql-v254''), fp_Dir = (\<lambda>p. ''/opt''),
     fp_Join = (\<lambda>d n. d @ ''/'' @ n), syscall_Exec = (\<lambda>p as. None)\<rparr>"

theorem Discover_order_witness:
  "hd (Discover unstamped_host) = \<lparr>Quarter = zero_quarter, Path = ''/opt/crdb-sql'', IsSelf = True\<rparr>
   \<and> distinct (map Path (Discover unstamped_host))"
proof -
  have "\<not> has_prefix (trim_suffix ''crdb-sql'' ''.exe'') backend_prefix" by code_simp
  then have "selfBackend unstamped_host = Some \<lparr>Quarter = zero_quarter, Path = ''/opt/crdb-sql'', IsSelf = True\<rparr>"
    by (simp add: selfBackend_def unstamped_host_def Built_def quarterFromExecutable_def
        builtQuarterFromBuildInfo_def Let_def)
  with Discover_order [of unstamped_host] show ?thesis by (simp add: zero_quarter_def IsZero_def)
qed

end
