(* ===== verification/Pool.thy ===== *)
theory Pool
  imports Route
begin

text \<open>
  Package \<open>internal/mcp/proxy\<close>: the pool of warm sibling processes (\<open>pool.go\<close>) and the results the
  routers build themselves (\<open>proxy.go\<close>). Goroutines interleave, so the pool is a step relation over a
  shared state and the program counters of its threads. A critical section of \<open>PoolRouter.mu\<close> holds no
  other lock and is one step; an entry's own mutex is a field of the entry, taken and released by steps
  of their own. Entries and clients are numbered in the order they are made: an entry pointer is an
  index into the heap, and \<open>alive\<close> says which clients have not been closed. What the environment
  decides (whether a spawn or a call fails, the clock, the order of a map's range loop) is open in the
  rules.
\<close>

section \<open>State\<close>

record pooled_entry =
  pe_quarter :: quarter
  pe_path :: string
  pe_client :: "nat option"
  lastUsed :: int
  dead :: bool
  owner :: "nat option"

record pool =
  entries :: "(quarter \<times> nat) list"
  closed :: bool
  heap :: "pooled_entry list"
  alive :: "bool list"
  idleTimeout :: int

definition NewPoolRouter :: "int \<Rightarrow> pool" where
  "NewPoolRouter idle = \<lparr>entries = [], closed = False, heap = [], alive = [], idleTimeout = idle\<rparr>"

definition set_entry :: "nat \<Rightarrow> (pooled_entry \<Rightarrow> pooled_entry) \<Rightarrow> pool \<Rightarrow> pool" where
  "set_entry e f p = p\<lparr>heap := (heap p)[e := f (heap p ! e)]\<rparr>"

datatype checkout_result = PoolClosed | NotInstalled | Entry nat

definition checkout :: "(quarter \<Rightarrow> string option) \<Rightarrow> int \<Rightarrow> quarter \<Rightarrow> pool \<Rightarrow> checkout_result \<times> pool" where
  "checkout find_backend now want p =
     (if closed p then (PoolClosed, p)
      else
        (case (case map_of (entries p) want of Some e \<Rightarrow> if \<not> dead (heap p ! e) then Some e else None | None \<Rightarrow> None) of
           Some e \<Rightarrow> (Entry e, set_entry e (\<lambda>en. en\<lparr>lastUsed := now\<rparr>) p)
         | None \<Rightarrow>
             (case find_backend want of
                None \<Rightarrow> (NotInstalled, p)
              | Some path \<Rightarrow>
                  (Entry (length (heap p)),
                   p\<lparr>heap := heap p @ [\<lparr>pe_quarter = want, pe_path = path, pe_client = None, lastUsed = now,
                                        dead = False, owner = None\<rparr>],
                     entries := (want, length (heap p)) # filter (\<lambda>x. fst x \<noteq> want) (entries p)\<rparr>))))"

definition markUsed :: "int \<Rightarrow> nat \<Rightarrow> pool \<Rightarrow> pool" where
  "markUsed now e p = (if dead (heap p ! e) then p else set_entry e (\<lambda>en. en\<lparr>lastUsed := now\<rparr>) p)"

text \<open>The critical section of \<open>evict\<close>; the client is closed after it.\<close>

definition evict :: "quarter \<Rightarrow> nat \<Rightarrow> pool \<Rightarrow> pool" where
  "evict want e p =
     set_entry e (\<lambda>en. en\<lparr>dead := True\<rparr>)
       (if map_of (entries p) want = Some e then p\<lparr>entries := filter (\<lambda>x. fst x \<noteq> want) (entries p)\<rparr> else p)"

definition mark_dead :: "nat list \<Rightarrow> pool \<Rightarrow> pool" where
  "mark_dead es p = fold (\<lambda>e. set_entry e (\<lambda>en. en\<lparr>dead := True\<rparr>)) es p"

text \<open>The critical section of \<open>sweepIdle\<close> and that of \<open>Close\<close>, with the entries to close afterwards.\<close>

definition sweepIdle :: "int \<Rightarrow> pool \<Rightarrow> nat list \<times> pool" where
  "sweepIdle now p =
     (let idle = (\<lambda>(q, e). now - lastUsed (heap p ! e) \<ge> idleTimeout p);
          victims = map snd (filter idle (entries p))
      in if idleTimeout p \<le> 0 then ([], p)
         else (victims, mark_dead victims (p\<lparr>entries := filter (\<lambda>x. \<not> idle x) (entries p)\<rparr>)))"

definition pool_close :: "pool \<Rightarrow> nat list \<times> pool" where
  "pool_close p =
     (if closed p then ([], p)
      else (map snd (entries p), mark_dead (map snd (entries p)) (p\<lparr>closed := True, entries := []\<rparr>)))"

definition lock :: "nat \<Rightarrow> nat \<Rightarrow> pool \<Rightarrow> pool" where
  "lock t e p = set_entry e (\<lambda>en. en\<lparr>owner := Some t\<rparr>) p"

definition unlock :: "nat \<Rightarrow> pool \<Rightarrow> pool" where
  "unlock e p = set_entry e (\<lambda>en. en\<lparr>owner := None\<rparr>) p"

definition set_client :: "nat \<Rightarrow> nat option \<Rightarrow> pool \<Rightarrow> pool" where
  "set_client e c p = set_entry e (\<lambda>en. en\<lparr>pe_client := c\<rparr>) p"

definition spawn :: "nat \<Rightarrow> pool \<Rightarrow> pool" where
  "spawn e p = set_client e (Some (length (alive p))) (p\<lparr>alive := alive p @ [True]\<rparr>)"

definition close_client :: "nat \<Rightarrow> pool \<Rightarrow> pool" where
  "close_client c p = p\<lparr>alive := (alive p)[c := False]\<rparr>"

section \<open>Threads\<close>

text \<open>
  Where a goroutine is. In \<open>Dispatch\<close>: before \<open>checkout\<close>; waiting for the entry's mutex; holding it;
  in \<open>dispatchLocked\<close>; in \<open>CallTool\<close>; past \<open>Unlock\<close> and before \<open>evict\<close>; closing the evicted client;
  before \<open>markUsed\<close>. In the janitor's sweep or in \<open>Close\<close>: the victims left, one of them locked, its
  client being closed. The counter of \<open>Checkout\<close> is \<open>attempt\<close>.
\<close>

datatype pc =
    Idle
  | Checkout quarter nat
  | WantLock quarter nat nat
  | Locked quarter nat nat
  | Ready quarter nat
  | Calling quarter nat
  | Evicting quarter nat "nat option"
  | ClosingClient nat
  | Marking nat
  | Victims "nat list"
  | VictimLocked nat "nat list"
  | VictimClosing nat "nat list"

type_synonym config = "pool \<times> (nat \<Rightarrow> pc)"

inductive step :: "(quarter \<Rightarrow> string option) \<Rightarrow> nat \<Rightarrow> config \<Rightarrow> config \<Rightarrow> bool" for fb t where
  dispatch: "T t = Idle \<Longrightarrow> step fb t (p, T) (p, T(t := Checkout q 0))"
| checkout_fails:
    "T t = Checkout q n \<Longrightarrow> checkout fb now q p = (r, p') \<Longrightarrow> r = PoolClosed \<or> r = NotInstalled \<Longrightarrow>
     step fb t (p, T) (p', T(t := Idle))"
| checkout_entry:
    "T t = Checkout q n \<Longrightarrow> checkout fb now q p = (Entry e, p') \<Longrightarrow> step fb t (p, T) (p', T(t := WantLock q n e))"
| take_lock:
    "T t = WantLock q n e \<Longrightarrow> owner (heap p ! e) = None \<Longrightarrow> step fb t (p, T) (lock t e p, T(t := Locked q n e))"
| retry:
    "T t = Locked q n e \<Longrightarrow> dead (heap p ! e) \<Longrightarrow>
     step fb t (p, T) (unlock e p, T(t := if n > 16 then Idle else Checkout q (n + 1)))"
| not_dead:
    "T t = Locked q n e \<Longrightarrow> \<not> dead (heap p ! e) \<Longrightarrow> step fb t (p, T) (p, T(t := Ready q e))"
| spawn_fails:
    "T t = Ready q e \<Longrightarrow> pe_client (heap p ! e) = None \<Longrightarrow> step fb t (p, T) (unlock e p, T(t := Evicting q e None))"
| spawns:
    "T t = Ready q e \<Longrightarrow> pe_client (heap p ! e) = None \<Longrightarrow> step fb t (p, T) (spawn e p, T(t := Calling q e))"
| reuses:
    "T t = Ready q e \<Longrightarrow> pe_client (heap p ! e) = Some c \<Longrightarrow> step fb t (p, T) (p, T(t := Calling q e))"
| call_fails:
    "T t = Calling q e \<Longrightarrow>
     step fb t (p, T) (unlock e (set_client e None p), T(t := Evicting q e (pe_client (heap p ! e))))"
| call_returns: "T t = Calling q e \<Longrightarrow> step fb t (p, T) (unlock e p, T(t := Marking e))"
| evicts:
    "T t = Evicting q e c \<Longrightarrow>
     step fb t (p, T) (evict q e p, T(t := case c of None \<Rightarrow> Idle | Some c \<Rightarrow> ClosingClient c))"
| closes_evicted: "T t = ClosingClient c \<Longrightarrow> step fb t (p, T) (close_client c p, T(t := Idle))"
| marks: "T t = Marking e \<Longrightarrow> step fb t (p, T) (markUsed now e p, T(t := Idle))"
| sweeps:
    "T t = Idle \<Longrightarrow> sweepIdle now p = (vs, p') \<Longrightarrow> mset ws = mset vs \<Longrightarrow> step fb t (p, T) (p', T(t := Victims ws))"
| shuts_down:
    "T t = Idle \<Longrightarrow> pool_close p = (vs, p') \<Longrightarrow> mset ws = mset vs \<Longrightarrow> step fb t (p, T) (p', T(t := Victims ws))"
| victim_lock:
    "T t = Victims (e # es) \<Longrightarrow> owner (heap p ! e) = None \<Longrightarrow> step fb t (p, T) (lock t e p, T(t := VictimLocked e es))"
| victim_take:
    "T t = VictimLocked e es \<Longrightarrow>
     step fb t (p, T) (unlock e (set_client e None p),
       T(t := case pe_client (heap p ! e) of None \<Rightarrow> Victims es | Some c \<Rightarrow> VictimClosing c es))"
| victim_close: "T t = VictimClosing c es \<Longrightarrow> step fb t (p, T) (close_client c p, T(t := Victims es))"
| victims_done: "T t = Victims [] \<Longrightarrow> step fb t (p, T) (p, T(t := Idle))"

inductive reachable :: "(quarter \<Rightarrow> string option) \<Rightarrow> int \<Rightarrow> config \<Rightarrow> bool" for fb idle where
  start: "reachable fb idle (NewPoolRouter idle, \<lambda>_. Idle)"
| more: "reachable fb idle s \<Longrightarrow> step fb t s s' \<Longrightarrow> reachable fb idle s'"

text \<open>Runs without concurrency: a thread takes a step only while every other one is idle.\<close>

inductive reachable_alone :: "(quarter \<Rightarrow> string option) \<Rightarrow> int \<Rightarrow> config \<Rightarrow> bool" for fb idle where
  start: "reachable_alone fb idle (NewPoolRouter idle, \<lambda>_. Idle)"
| more: "reachable_alone fb idle (p, T) \<Longrightarrow> \<forall>u. u \<noteq> t \<longrightarrow> T u = Idle \<Longrightarrow> step fb t (p, T) s' \<Longrightarrow>
    reachable_alone fb idle s'"

section \<open>What every interleaving keeps\<close>

fun holds :: "pc \<Rightarrow> nat \<Rightarrow> bool" where
  "holds (Locked q n e) e' \<longleftrightarrow> e' = e"
| "holds (Ready q e) e' \<longleftrightarrow> e' = e"
| "holds (Calling q e) e' \<longleftrightarrow> e' = e"
| "holds (VictimLocked e es) e' \<longleftrightarrow> e' = e"
| "holds _ e' \<longleftrightarrow> False"

fun refers :: "pc \<Rightarrow> nat set" where
  "refers (WantLock q n e) = {e}"
| "refers (Locked q n e) = {e}"
| "refers (Ready q e) = {e}"
| "refers (Calling q e) = {e}"
| "refers (Evicting q e c) = {e}"
| "refers (Marking e) = {e}"
| "refers (Victims es) = set es"
| "refers (VictimLocked e es) = insert e (set es)"
| "refers (VictimClosing c es) = set es"
| "refers _ = {}"

fun serves :: "pc \<Rightarrow> (quarter \<times> nat) option" where
  "serves (WantLock q n e) = Some (q, e)"
| "serves (Locked q n e) = Some (q, e)"
| "serves (Ready q e) = Some (q, e)"
| "serves (Calling q e) = Some (q, e)"
| "serves (Evicting q e c) = Some (q, e)"
| "serves _ = None"

fun closing_client :: "pc \<Rightarrow> nat option" where
  "closing_client (Evicting q e c) = c"
| "closing_client (ClosingClient c) = Some c"
| "closing_client (VictimClosing c es) = Some c"
| "closing_client _ = None"

definition entries_inv :: "pool \<Rightarrow> bool" where
  "entries_inv p \<longleftrightarrow> distinct (map fst (entries p)) \<and> (closed p \<longrightarrow> entries p = [])
     \<and> (\<forall>(q, e) \<in> set (entries p). e < length (heap p) \<and> pe_quarter (heap p ! e) = q \<and> \<not> dead (heap p ! e))"

definition locks_inv :: "config \<Rightarrow> bool" where
  "locks_inv s \<longleftrightarrow> (\<forall>t. \<forall>e \<in> refers (snd s t). e < length (heap (fst s)))
     \<and> (\<forall>e < length (heap (fst s)). \<forall>t. owner (heap (fst s) ! e) = Some t \<longleftrightarrow> holds (snd s t) e)"

definition serves_inv :: "config \<Rightarrow> bool" where
  "serves_inv s \<longleftrightarrow> (\<forall>t q e. serves (snd s t) = Some (q, e) \<longrightarrow> pe_quarter (heap (fst s) ! e) = q)
     \<and> (\<forall>t q e. snd s t = Calling q e \<longrightarrow> pe_client (heap (fst s) ! e) \<noteq> None)"

definition clients_inv :: "config \<Rightarrow> bool" where
  "clients_inv s \<longleftrightarrow>
     (\<forall>e < length (heap (fst s)). \<forall>c. pe_client (heap (fst s) ! e) = Some c \<longrightarrow>
        c < length (alive (fst s)) \<and> alive (fst s) ! c
        \<and> (\<forall>e' < length (heap (fst s)). pe_client (heap (fst s) ! e') = Some c \<longrightarrow> e' = e))
     \<and> (\<forall>t c. closing_client (snd s t) = Some c \<longrightarrow>
        c < length (alive (fst s)) \<and> alive (fst s) ! c
        \<and> (\<forall>e < length (heap (fst s)). pe_client (heap (fst s) ! e) \<noteq> Some c)
        \<and> (\<forall>u. closing_client (snd s u) = Some c \<longrightarrow> u = t))"

lemmas pool_ops = set_entry_def lock_def unlock_def set_client_def spawn_def close_client_def markUsed_def

lemma set_entry_sel [simp]:
  "entries (set_entry e f p) = entries p" "closed (set_entry e f p) = closed p"
  "alive (set_entry e f p) = alive p" "idleTimeout (set_entry e f p) = idleTimeout p"
  "length (heap (set_entry e f p)) = length (heap p)"
  "heap (set_entry e f p) ! i = (if i = e \<and> e < length (heap p) then f (heap p ! e) else heap p ! i)"
  by (auto simp: set_entry_def nth_list_update list_update_beyond)

lemma mark_dead_sel [simp]:
  "entries (mark_dead es p) = entries p" "closed (mark_dead es p) = closed p"
  "alive (mark_dead es p) = alive p" "idleTimeout (mark_dead es p) = idleTimeout p"
  "length (heap (mark_dead es p)) = length (heap p)"
  "pe_quarter (heap (mark_dead es p) ! i) = pe_quarter (heap p ! i)"
  "pe_client (heap (mark_dead es p) ! i) = pe_client (heap p ! i)"
  "owner (heap (mark_dead es p) ! i) = owner (heap p ! i)"
  "i < length (heap p) \<Longrightarrow> dead (heap (mark_dead es p) ! i) \<longleftrightarrow> i \<in> set es \<or> dead (heap p ! i)"
  unfolding mark_dead_def by (induction es arbitrary: p) auto

lemma spawn_sel [simp]:
  "entries (spawn e p) = entries p" "closed (spawn e p) = closed p" "alive (spawn e p) = alive p @ [True]"
  "length (heap (spawn e p)) = length (heap p)"
  "heap (spawn e p) ! i = (if i = e \<and> e < length (heap p) then (heap p ! e)\<lparr>pe_client := Some (length (alive p))\<rparr>
     else heap p ! i)"
  by (auto simp: spawn_def set_client_def)

lemma close_client_sel [simp]:
  "entries (close_client c p) = entries p" "closed (close_client c p) = closed p" "heap (close_client c p) = heap p"
  "alive (close_client c p) = (alive p)[c := False]"
  by (simp_all add: close_client_def)

lemma entry_of:
  assumes "entries_inv p"
  shows "map_of (entries p) q = Some e \<longleftrightarrow> (q, e) \<in> set (entries p)"
  using assms by (auto simp: entries_inv_def)

lemma entries_invD:
  assumes "entries_inv p" "(q, e) \<in> set (entries p)"
  shows "e < length (heap p) \<and> pe_quarter (heap p ! e) = q \<and> \<not> dead (heap p ! e)"
proof -
  have "\<forall>x \<in> set (entries p). case x of (q, e) \<Rightarrow>
      e < length (heap p) \<and> pe_quarter (heap p ! e) = q \<and> \<not> dead (heap p ! e)"
    using assms(1) by (simp add: entries_inv_def)
  from bspec [OF this assms(2)] show ?thesis by simp
qed

text \<open>\<open>checkout\<close>: a live entry of the map, stamped, or a fresh one.\<close>

lemma checkout_cases:
  assumes "entries_inv p" "checkout fb now q p = (r, p')"
  obtains (fails) "p' = p" "r = PoolClosed \<or> r = NotInstalled"
  | (warm) e where "r = Entry e" "(q, e) \<in> set (entries p)" "p' = set_entry e (\<lambda>en. en\<lparr>lastUsed := now\<rparr>) p" "\<not> closed p"
  | (fresh) path where "r = Entry (length (heap p))" "map_of (entries p) q = None" "\<not> closed p"
      "p' = p\<lparr>heap := heap p @ [\<lparr>pe_quarter = q, pe_path = path, pe_client = None, lastUsed = now,
          dead = False, owner = None\<rparr>], entries := (q, length (heap p)) # filter (\<lambda>x. fst x \<noteq> q) (entries p)\<rparr>"
proof (cases "closed p")
  case True
  then show ?thesis using assms(2) by (intro fails) (auto simp: checkout_def)
next
  case False
  show ?thesis
  proof (cases "map_of (entries p) q")
    case None
    show ?thesis
    proof (cases "fb q")
      case None
      then show ?thesis
        using assms(2) False \<open>map_of (entries p) q = None\<close> by (intro fails) (auto simp: checkout_def)
    next
      case (Some path)
      then show ?thesis
        using assms(2) False \<open>map_of (entries p) q = None\<close> by (intro fresh [of path]) (auto simp: checkout_def)
    qed
  next
    case (Some e)
    then have e: "(q, e) \<in> set (entries p)" using entry_of [OF assms(1)] by simp
    then have "\<not> dead (heap p ! e)" using assms(1) by (auto simp: entries_inv_def)
    with e Some False assms(2) show ?thesis by (intro warm [of e]) (auto simp: checkout_def)
  qed
qed

lemma entries_inv_set_entry:
  assumes "entries_inv p" "\<And>en. pe_quarter (f en) = pe_quarter en \<and> dead (f en) = dead en"
  shows "entries_inv (set_entry e f p)"
  using assms unfolding entries_inv_def by (auto split: if_splits)

lemma entries_inv_checkout:
  assumes "entries_inv p" "checkout fb now q p = (r, p')"
  shows "entries_inv p'"
  using assms
proof (cases rule: checkout_cases)
  case (fresh path)
  have "distinct (map fst (filter (\<lambda>x. fst x \<noteq> q) (entries p)))"
    using assms(1) by (simp add: entries_inv_def distinct_map_filter)
  then show ?thesis
    using assms(1) fresh(3) unfolding entries_inv_def fresh(4) by (auto simp: nth_append)
qed (auto intro!: entries_inv_set_entry simp: assms(1))

lemma entries_inv_filter:
  assumes "entries_inv p" shows "entries_inv (p\<lparr>entries := filter P (entries p)\<rparr>)"
  using assms by (auto simp: entries_inv_def distinct_map_filter)

text \<open>Entries marked dead leave the map in the same critical section.\<close>

lemma entries_inv_mark_dead:
  assumes "entries_inv p" "\<forall>(q, e) \<in> set (entries p). e \<notin> set es"
  shows "entries_inv (mark_dead es p)"
  using assms by (fastforce simp: entries_inv_def)

lemma heap_ops [simp]:
  "length (heap (lock t e p)) = length (heap p)" "length (heap (unlock e p)) = length (heap p)"
  "length (heap (set_client e c p)) = length (heap p)" "length (heap (markUsed now e p)) = length (heap p)"
  "length (heap (evict q e p)) = length (heap p)"
  "alive (lock t e p) = alive p" "alive (unlock e p) = alive p" "alive (set_client e c p) = alive p"
  "alive (markUsed now e p) = alive p" "alive (evict q e p) = alive p"
  by (simp_all add: pool_ops(2-4,7) evict_def)

lemma owner_ops [simp]:
  "owner (heap (lock t e p) ! i) = (if i = e \<and> e < length (heap p) then Some t else owner (heap p ! i))"
  "owner (heap (unlock e p) ! i) = (if i = e \<and> e < length (heap p) then None else owner (heap p ! i))"
  "owner (heap (set_client e c p) ! i) = owner (heap p ! i)"
  "owner (heap (markUsed now e p) ! i) = owner (heap p ! i)"
  "owner (heap (evict q e p) ! i) = owner (heap p ! i)"
  "owner (heap (spawn e p) ! i) = owner (heap p ! i)"
  by (auto simp: lock_def unlock_def set_client_def markUsed_def evict_def)

lemma client_ops [simp]:
  "pe_client (heap (lock t e p) ! i) = pe_client (heap p ! i)"
  "pe_client (heap (unlock e p) ! i) = pe_client (heap p ! i)"
  "pe_client (heap (set_client e c p) ! i) = (if i = e \<and> e < length (heap p) then c else pe_client (heap p ! i))"
  "pe_client (heap (markUsed now e p) ! i) = pe_client (heap p ! i)"
  "pe_client (heap (evict q e p) ! i) = pe_client (heap p ! i)"
  by (auto simp: lock_def unlock_def set_client_def markUsed_def evict_def)

lemma quarter_ops [simp]:
  "pe_quarter (heap (lock t e p) ! i) = pe_quarter (heap p ! i)"
  "pe_quarter (heap (unlock e p) ! i) = pe_quarter (heap p ! i)"
  "pe_quarter (heap (set_client e c p) ! i) = pe_quarter (heap p ! i)"
  "pe_quarter (heap (markUsed now e p) ! i) = pe_quarter (heap p ! i)"
  "pe_quarter (heap (evict q e p) ! i) = pe_quarter (heap p ! i)"
  "pe_quarter (heap (spawn e p) ! i) = pe_quarter (heap p ! i)"
  by (auto simp: lock_def unlock_def set_client_def markUsed_def evict_def)

lemma entries_ops [simp]:
  "entries (lock t e p) = entries p" "entries (unlock e p) = entries p" "entries (set_client e c p) = entries p"
  "entries (markUsed now e p) = entries p"
  "entries (evict q e p) = (if map_of (entries p) q = Some e then filter (\<lambda>x. fst x \<noteq> q) (entries p) else entries p)"
  "closed (lock t e p) = closed p" "closed (unlock e p) = closed p" "closed (set_client e c p) = closed p"
  "closed (markUsed now e p) = closed p" "closed (evict q e p) = closed p"
  by (auto simp: lock_def unlock_def set_client_def markUsed_def evict_def)

lemma entries_inv_ops:
  assumes "entries_inv p"
  shows "entries_inv (lock t e p)" "entries_inv (unlock e p)" "entries_inv (set_client e c p)"
    "entries_inv (markUsed now e p)" "entries_inv (spawn e p)" "entries_inv (close_client d p)"
proof -
  have "entries_inv (p\<lparr>alive := a\<rparr>)" for a using assms by (simp add: entries_inv_def)
  then show "entries_inv (spawn e p)" "entries_inv (close_client d p)"
    by (auto simp: spawn_def set_client_def close_client_def intro!: entries_inv_set_entry)
qed (use assms in \<open>auto simp: lock_def unlock_def set_client_def markUsed_def intro!: entries_inv_set_entry\<close>)

text \<open>The two critical sections that empty part of the map, and what they hand over for closing.\<close>

lemma sweepIdle_cases:
  assumes "sweepIdle now p = (vs, p')"
  obtains (off) "vs = []" "p' = p"
  | (swept) idle where "vs = map snd (filter idle (entries p))"
      "p' = mark_dead vs (p\<lparr>entries := filter (\<lambda>x. \<not> idle x) (entries p)\<rparr>)"
      "idle = (\<lambda>(q, e). now - lastUsed (heap p ! e) \<ge> idleTimeout p)"
proof (cases "idleTimeout p \<le> 0")
  case True
  with assms show ?thesis by (intro off) (simp_all add: sweepIdle_def)
next
  case False
  with assms show ?thesis by (intro swept) (auto simp: sweepIdle_def Let_def)
qed

lemma pool_close_cases:
  assumes "pool_close p = (vs, p')"
  obtains (again) "vs = []" "p' = p" "closed p"
  | (shut) "vs = map snd (entries p)" "p' = mark_dead vs (p\<lparr>closed := True, entries := []\<rparr>)" "\<not> closed p"
proof (cases "closed p")
  case True
  with assms show ?thesis by (intro again) (simp_all add: pool_close_def)
next
  case False
  with assms show ?thesis by (intro shut) (auto simp: pool_close_def)
qed

lemma entry_at_most_once:
  assumes "entries_inv p" "(q, e) \<in> set (entries p)" "(q', e) \<in> set (entries p)"
  shows "q' = q"
  using entries_invD [OF assms(1,2)] entries_invD [OF assms(1,3)] by simp

lemma entries_inv_sweepIdle:
  assumes "entries_inv p" "sweepIdle now p = (vs, p')"
  shows "entries_inv p'"
  using assms(2)
proof (cases rule: sweepIdle_cases)
  case off
  with assms show ?thesis by simp
next
  case (swept idle)
  have "\<forall>(q, e) \<in> set (filter (\<lambda>x. \<not> idle x) (entries p)). e \<notin> set vs"
    unfolding swept(1) using entry_at_most_once [OF assms(1)] swept(3) by fastforce
  then show ?thesis unfolding swept(2) using assms(1) by (intro entries_inv_mark_dead entries_inv_filter) auto
qed

lemma entries_inv_pool_close:
  assumes "entries_inv p" "pool_close p = (vs, p')"
  shows "entries_inv p'"
  using assms(2)
proof (cases rule: pool_close_cases)
  case shut
  have "entries_inv (p\<lparr>closed := True, entries := []\<rparr>)" by (simp add: entries_inv_def)
  then show ?thesis unfolding shut(2) by (intro entries_inv_mark_dead) auto
qed (use assms in simp)

lemma entries_inv_evict:
  assumes "entries_inv p" "pe_quarter (heap p ! e) = q"
  shows "entries_inv (evict q e p)"
proof -
  let ?p = "if map_of (entries p) q = Some e then p\<lparr>entries := filter (\<lambda>x. fst x \<noteq> q) (entries p)\<rparr> else p"
  have inv: "entries_inv ?p" using assms(1) entries_inv_filter by simp
  have "\<forall>(q', e') \<in> set (entries ?p). e' \<noteq> e"
  proof (rule ballI, clarify)
    fix q' assume "(q', e) \<in> set (entries ?p)"
    then have e: "(q', e) \<in> set (entries p)" "map_of (entries p) q = Some e \<longrightarrow> q' \<noteq> q" by (auto split: if_splits)
    then have "q' = q" using assms by (auto simp: entries_inv_def)
    with e show False using entry_of [OF assms(1)] by simp
  qed
  then have "entries_inv (mark_dead [e] ?p)" using inv by (intro entries_inv_mark_dead) auto
  then show ?thesis by (simp add: evict_def mark_dead_def)
qed

lemma entries_inv_step:
  assumes "step fb t (p, T) (p', T')" "entries_inv p" "serves_inv (p, T)"
  shows "entries_inv p'"
  using assms(1)
proof cases
  case (evicts q e c)
  then have "serves (T t) = Some (q, e)" by simp
  then have "pe_quarter (heap p ! e) = q" using assms(3) by (simp add: serves_inv_def)
  then show ?thesis unfolding evicts using assms(2) by (intro entries_inv_evict)
next
  case (checkout_fails q n now r)
  show ?thesis by (rule entries_inv_checkout [OF assms(2) checkout_fails(3)])
next
  case (checkout_entry q n now e)
  show ?thesis by (rule entries_inv_checkout [OF assms(2) checkout_entry(3)])
next
  case (sweeps now vs ws)
  show ?thesis by (rule entries_inv_sweepIdle [OF assms(2) sweeps(3)])
next
  case (shuts_down vs ws)
  show ?thesis by (rule entries_inv_pool_close [OF assms(2) shuts_down(3)])
qed (simp_all add: entries_inv_ops assms(2))

text \<open>An entry's mutex: its owner is the one thread whose counter says it holds it.\<close>

lemma locks_inv_update:
  assumes inv: "locks_inv (p, T)" and len: "length (heap p) \<le> length (heap p')"
    and refs: "\<forall>e \<in> refers c. e < length (heap p')"
    and own: "\<And>e. e < length (heap p) \<Longrightarrow> owner (heap p' ! e)
      = (if holds c e then Some t else if holds (T t) e then None else owner (heap p ! e))"
    and fresh: "\<And>e. length (heap p) \<le> e \<Longrightarrow> e < length (heap p') \<Longrightarrow> owner (heap p' ! e) = None \<and> \<not> holds c e"
    and free: "\<And>e. e < length (heap p) \<Longrightarrow> holds c e \<Longrightarrow> owner (heap p ! e) = None \<or> owner (heap p ! e) = Some t"
  shows "locks_inv (p', T(t := c))"
  unfolding locks_inv_def fst_conv snd_conv
proof (intro conjI allI impI ballI)
  fix u e assume "e \<in> refers ((T(t := c)) u)"
  then show "e < length (heap p')" using inv refs len by (fastforce simp: locks_inv_def split: if_splits)
next
  fix e u assume e: "e < length (heap p')"
  have old: "owner (heap p ! e) = Some u \<longleftrightarrow> holds (T u) e" if "e < length (heap p)" for u
    using inv that by (simp add: locks_inv_def)
  have stale: "\<not> holds (T u) e" if "\<not> e < length (heap p)" for u
  proof
    assume h: "holds (T u) e"
    then have "e \<in> refers (T u)" by (cases "T u") auto
    with inv that show False by (auto simp: locks_inv_def)
  qed
  show "owner (heap p' ! e) = Some u \<longleftrightarrow> holds ((T(t := c)) u) e"
  proof (cases "e < length (heap p)")
    case True
    show ?thesis using own [OF True] free [OF True] old [OF True, of u] old [OF True, of t] by auto
  next
    case False
    then show ?thesis using fresh [of e] e stale [of u] by auto
  qed
qed

lemma refersD: "locks_inv (p, T) \<Longrightarrow> e \<in> refers (T t) \<Longrightarrow> e < length (heap p)"
  by (auto simp: locks_inv_def)

lemma ownerD: "locks_inv (p, T) \<Longrightarrow> e < length (heap p) \<Longrightarrow> owner (heap p ! e) = Some t \<longleftrightarrow> holds (T t) e"
  by (simp add: locks_inv_def)

lemma mset_set: "mset ws = mset vs \<Longrightarrow> set ws = set vs"
  by (rule mset_eq_setD)

lemma sweepIdle_heap:
  assumes "sweepIdle now p = (vs, p')" "entries_inv p"
  shows "length (heap p') = length (heap p) \<and> alive p' = alive p \<and> (\<forall>e \<in> set vs. e < length (heap p))
    \<and> (\<forall>e. owner (heap p' ! e) = owner (heap p ! e) \<and> pe_client (heap p' ! e) = pe_client (heap p ! e)
        \<and> pe_quarter (heap p' ! e) = pe_quarter (heap p ! e))"
  using assms(1)
proof (cases rule: sweepIdle_cases)
  case (swept idle)
  then show ?thesis using entries_invD [OF assms(2)] by auto
qed simp

lemma pool_close_heap:
  assumes "pool_close p = (vs, p')" "entries_inv p"
  shows "length (heap p') = length (heap p) \<and> alive p' = alive p \<and> (\<forall>e \<in> set vs. e < length (heap p))
    \<and> (\<forall>e. owner (heap p' ! e) = owner (heap p ! e) \<and> pe_client (heap p' ! e) = pe_client (heap p ! e)
        \<and> pe_quarter (heap p' ! e) = pe_quarter (heap p ! e))"
  using assms(1)
proof (cases rule: pool_close_cases)
  case shut
  then show ?thesis using entries_invD [OF assms(2)] by auto
qed simp

lemma locks_inv_step:
  assumes "step fb t (p, T) (p', T')" "entries_inv p" and inv: "locks_inv (p, T)"
  shows "locks_inv (p', T')"
  using assms(1)
proof cases
  case (checkout_fails q n now r)
  have "p' = p" using checkout_cases [OF assms(2) checkout_fails(3)] checkout_fails(4) by auto
  then show ?thesis unfolding checkout_fails(1) using checkout_fails inv by (intro locks_inv_update [OF inv]) auto
next
  case (checkout_entry q n now e)
  from assms(2) checkout_entry(3) show ?thesis
  proof (cases rule: checkout_cases)
    case (warm e')
    then show ?thesis unfolding checkout_entry(1) using checkout_entry(2) entries_invD [OF assms(2) warm(2)]
      by (intro locks_inv_update [OF inv]) auto
  next
    case (fresh path)
    then show ?thesis unfolding checkout_entry(1) using checkout_entry(2)
      by (intro locks_inv_update [OF inv]) (auto simp: nth_append)
  qed simp
next
  case (sweeps now vs ws)
  show ?thesis unfolding sweeps(1)
    using sweeps(2) sweepIdle_heap [OF sweeps(3) assms(2)] mset_set [OF sweeps(4)]
    by (intro locks_inv_update [OF inv]) auto
next
  case (shuts_down vs ws)
  show ?thesis unfolding shuts_down(1)
    using shuts_down(2) pool_close_heap [OF shuts_down(3) assms(2)] mset_set [OF shuts_down(4)]
    by (intro locks_inv_update [OF inv]) auto
next
  case (take_lock q n e)
  then have "e < length (heap p)" using refersD [OF inv, of e t] by simp
  with take_lock show ?thesis by (auto intro!: locks_inv_update [OF inv])
next
  case (victim_lock e es)
  then have "e < length (heap p)" "\<forall>e \<in> set es. e < length (heap p)" using refersD [OF inv, of _ t] by simp_all
  with victim_lock show ?thesis by (auto intro!: locks_inv_update [OF inv])
qed (use refersD [OF inv, of _ t] ownerD [OF inv, of _ t] in
    \<open>auto intro!: locks_inv_update [OF inv] split: option.splits\<close>)

text \<open>A dispatch works on an entry of its quarter, and calls only when the entry has a client.\<close>

lemma servesD: "serves_inv (p, T) \<Longrightarrow> serves (T t) = Some (q, e) \<Longrightarrow> pe_quarter (heap p ! e) = q"
  by (simp add: serves_inv_def)

lemma callingD: "serves_inv (p, T) \<Longrightarrow> T t = Calling q e \<Longrightarrow> pe_client (heap p ! e) \<noteq> None"
  by (simp add: serves_inv_def)

lemma serves_refers: "serves c = Some (q, e) \<Longrightarrow> e \<in> refers c"
  by (cases c) auto

lemma serves_inv_update:
  assumes inv: "serves_inv (p, T)" "locks_inv (p, T)"
    and quarter: "\<And>e. e < length (heap p) \<Longrightarrow> pe_quarter (heap p' ! e) = pe_quarter (heap p ! e)"
    and mine: "\<And>q e. serves c = Some (q, e) \<Longrightarrow> pe_quarter (heap p' ! e) = q"
    and calling: "\<And>q e. c = Calling q e \<Longrightarrow> pe_client (heap p' ! e) \<noteq> None"
    and client: "\<And>e. e < length (heap p) \<Longrightarrow> \<not> holds (T t) e \<Longrightarrow> pe_client (heap p' ! e) = None \<Longrightarrow>
      pe_client (heap p ! e) = None"
  shows "serves_inv (p', T(t := c))"
  unfolding serves_inv_def fst_conv snd_conv
proof (intro conjI allI impI)
  fix u q e assume u: "serves ((T(t := c)) u) = Some (q, e)"
  show "pe_quarter (heap p' ! e) = q"
  proof (cases "u = t")
    case False
    with u have s: "serves (T u) = Some (q, e)" by simp
    then show ?thesis
      using servesD [OF inv(1) s] quarter [OF refersD [OF inv(2) serves_refers [OF s]]] by simp
  qed (use u mine in simp)
next
  fix u q e assume u: "(T(t := c)) u = Calling q e"
  show "pe_client (heap p' ! e) \<noteq> None"
  proof (cases "u = t")
    case False
    with u have T: "T u = Calling q e" by simp
    then have e: "e < length (heap p)" using refersD [OF inv(2), of e u] by simp
    have "\<not> holds (T t) e" using ownerD [OF inv(2) e, of u] ownerD [OF inv(2) e, of t] T False by auto
    then show ?thesis using client [OF e] callingD [OF inv(1) T] by auto
  qed (use u calling in simp)
qed

lemma serves_inv_step:
  assumes "step fb t (p, T) (p', T')" "entries_inv p" and inv: "serves_inv (p, T)" "locks_inv (p, T)"
  shows "serves_inv (p', T')"
  using assms(1)
proof cases
  case (checkout_fails q n now r)
  have "p' = p" using checkout_cases [OF assms(2) checkout_fails(3)] checkout_fails(4) by auto
  then show ?thesis unfolding checkout_fails(1) using checkout_fails by (intro serves_inv_update [OF inv]) auto
next
  case (checkout_entry q n now e)
  from assms(2) checkout_entry(3) show ?thesis
  proof (cases rule: checkout_cases)
    case (warm e')
    then show ?thesis unfolding checkout_entry(1) using checkout_entry(2) entries_invD [OF assms(2) warm(2)]
      by (intro serves_inv_update [OF inv]) (auto split: if_splits)
  next
    case (fresh path)
    then show ?thesis unfolding checkout_entry(1) using checkout_entry(2)
      by (intro serves_inv_update [OF inv]) (auto simp: nth_append)
  qed simp
next
  case (sweeps now vs ws)
  show ?thesis unfolding sweeps(1)
    using sweeps(2) sweepIdle_heap [OF sweeps(3) assms(2)] by (intro serves_inv_update [OF inv]) auto
next
  case (shuts_down vs ws)
  show ?thesis unfolding shuts_down(1)
    using shuts_down(2) pool_close_heap [OF shuts_down(3) assms(2)] by (intro serves_inv_update [OF inv]) auto
next
  case (spawns q e)
  then have "e < length (heap p)" using refersD [OF inv(2), of e t] by simp
  with spawns servesD [OF inv(1), of t] show ?thesis
    by (auto intro!: serves_inv_update [OF inv] split: if_splits)
qed (use servesD [OF inv(1), of t] in
    \<open>auto intro!: serves_inv_update [OF inv] split: option.splits if_splits\<close>)

text \<open>A client is in one entry, or is being closed by one thread, and either way it is alive.\<close>

lemma heldD: "clients_inv (p, T) \<Longrightarrow> e < length (heap p) \<Longrightarrow> pe_client (heap p ! e) = Some c \<Longrightarrow>
    c < length (alive p) \<and> alive p ! c"
  unfolding clients_inv_def fst_conv snd_conv by blast

lemma held_once: "clients_inv (p, T) \<Longrightarrow> e < length (heap p) \<Longrightarrow> pe_client (heap p ! e) = Some c \<Longrightarrow>
    e' < length (heap p) \<Longrightarrow> pe_client (heap p ! e') = Some c \<Longrightarrow> e' = e"
  unfolding clients_inv_def fst_conv snd_conv by blast

lemma closingD: "clients_inv (p, T) \<Longrightarrow> closing_client (T t) = Some c \<Longrightarrow> c < length (alive p) \<and> alive p ! c"
  unfolding clients_inv_def fst_conv snd_conv by blast

lemma closing_out: "clients_inv (p, T) \<Longrightarrow> closing_client (T t) = Some c \<Longrightarrow> e < length (heap p) \<Longrightarrow>
    pe_client (heap p ! e) \<noteq> Some c"
  unfolding clients_inv_def fst_conv snd_conv by blast

lemma closing_once: "clients_inv (p, T) \<Longrightarrow> closing_client (T t) = Some c \<Longrightarrow> closing_client (T u) = Some c \<Longrightarrow> u = t"
  unfolding clients_inv_def fst_conv snd_conv by blast

lemma clients_invI:
  assumes "\<And>e c. e < length (heap p) \<Longrightarrow> pe_client (heap p ! e) = Some c \<Longrightarrow>
      c < length (alive p) \<and> alive p ! c"
    and "\<And>e e' c. e < length (heap p) \<Longrightarrow> e' < length (heap p) \<Longrightarrow> pe_client (heap p ! e) = Some c \<Longrightarrow>
      pe_client (heap p ! e') = Some c \<Longrightarrow> e' = e"
    and "\<And>t c. closing_client (T t) = Some c \<Longrightarrow> c < length (alive p) \<and> alive p ! c"
    and "\<And>t c e. closing_client (T t) = Some c \<Longrightarrow> e < length (heap p) \<Longrightarrow> pe_client (heap p ! e) \<noteq> Some c"
    and "\<And>t u c. closing_client (T t) = Some c \<Longrightarrow> closing_client (T u) = Some c \<Longrightarrow> u = t"
  shows "clients_inv (p, T)"
  using assms unfolding clients_inv_def fst_conv snd_conv by blast

lemma clients_inv_same:
  assumes "clients_inv (p, T)" "alive p' = alive p" "length (heap p) \<le> length (heap p')"
    and "\<And>e. e < length (heap p) \<Longrightarrow> pe_client (heap p' ! e) = pe_client (heap p ! e)"
    and "\<And>e. length (heap p) \<le> e \<Longrightarrow> e < length (heap p') \<Longrightarrow> pe_client (heap p' ! e) = None"
    and "closing_client c = closing_client (T t)"
  shows "clients_inv (p', T(t := c))"
proof -
  have old: "e < length (heap p) \<and> pe_client (heap p ! e) = Some d"
    if "e < length (heap p')" "pe_client (heap p' ! e) = Some d" for e d
    using assms(4,5) that by (cases "e < length (heap p)") auto
  have close: "closing_client ((T(t := c)) u) = closing_client (T u)" for u using assms(6) by simp
  show ?thesis
    by (rule clients_invI, unfold close assms(2))
      (auto dest!: old dest: heldD [OF assms(1)] closingD [OF assms(1)] held_once [OF assms(1)]
        closing_out [OF assms(1)] closing_once [OF assms(1)])
qed

text \<open>\<open>spawn\<close> adds a client no one else knows.\<close>

lemma clients_inv_spawn:
  assumes inv: "clients_inv (p, T)" and "e < length (heap p)" "closing_client c = closing_client (T t)"
  shows "clients_inv (spawn e p, T(t := c))"
proof -
  have close: "closing_client ((T(t := c)) u) = closing_client (T u)" for u using assms(3) by simp
  have client: "pe_client (heap (spawn e p) ! e') = (if e' = e then Some (length (alive p)) else pe_client (heap p ! e'))"
    for e' using assms(2) by simp
  show ?thesis
    by (rule clients_invI, unfold close client)
      (auto simp: nth_append split: if_splits
        dest: heldD [OF inv] closingD [OF inv] held_once [OF inv] closing_out [OF inv] closing_once [OF inv])
qed

text \<open>The thread that holds an entry takes its client out, to close it.\<close>

lemma clients_inv_take:
  assumes inv: "clients_inv (p, T)" and "e < length (heap p)" "closing_client (T t) = None"
    and "closing_client c = pe_client (heap p ! e)"
  shows "clients_inv (unlock e (set_client e None p), T(t := c))"
proof -
  have close: "closing_client ((T(t := c)) u) = (if u = t then pe_client (heap p ! e) else closing_client (T u))"
    for u using assms(4) by simp
  have client: "pe_client (heap (unlock e (set_client e None p)) ! e') = (if e' = e then None else pe_client (heap p ! e'))"
    for e' using assms(2) by simp
  have e: "pe_client (heap p ! e) = Some d \<Longrightarrow> d < length (alive p) \<and> alive p ! d" for d
    using heldD [OF inv assms(2)] by simp
  show ?thesis
  proof (rule clients_invI, unfold close client, goal_cases)
    case (2 e1 e2 d) then show ?case using held_once [OF inv, of e1 d e2] by (simp split: if_splits)
  next
    case (4 u d e') then show ?case
      using held_once [OF inv assms(2), of d e'] closing_out [OF inv, of u d e'] by (auto split: if_splits)
  next
    case (5 u v d) then show ?case
      using closing_out [OF inv _ assms(2), of _ d] closing_once [OF inv, of u d v] by (auto split: if_splits)
  qed (auto split: if_splits dest: heldD [OF inv] closingD [OF inv] e)
qed

lemma clients_inv_close:
  assumes inv: "clients_inv (p, T)" and "closing_client (T t) = Some d" "closing_client c = None"
  shows "clients_inv (close_client d p, T(t := c))"
proof -
  have close: "closing_client ((T(t := c)) u) = (if u = t then None else closing_client (T u))" for u
    using assms(3) by simp
  have other: "closing_client (T u) = Some d \<Longrightarrow> u = t" for u using closing_once [OF inv assms(2)] .
  have out: "e < length (heap p) \<Longrightarrow> pe_client (heap p ! e) \<noteq> Some d" for e using closing_out [OF inv assms(2)] .
  show ?thesis
  proof (rule clients_invI, unfold close close_client_sel, goal_cases)
    case (1 e d') then show ?case using heldD [OF inv, of e d'] out [of e] by (auto simp: nth_list_update)
  next
    case (2 e1 e2 d') then show ?case using held_once [OF inv, of e1 d' e2] by simp
  next
    case (3 u d')
    then have "d' \<noteq> d" using other [of u] by (auto split: if_splits)
    with 3 show ?case using closingD [OF inv, of u d'] by (simp split: if_splits)
  next
    case (4 u d' e') then show ?case using closing_out [OF inv, of u d' e'] by (simp split: if_splits)
  next
    case (5 u v d') then show ?case using closing_once [OF inv, of u d' v] by (simp split: if_splits)
  qed
qed

lemma clients_inv_step:
  assumes "step fb t (p, T) (p', T')" "entries_inv p" "serves_inv (p, T)" "locks_inv (p, T)"
    and inv: "clients_inv (p, T)"
  shows "clients_inv (p', T')"
  using assms(1)
proof cases
  case (checkout_fails q n now r)
  have "p' = p" using checkout_cases [OF assms(2) checkout_fails(3)] checkout_fails(4) by auto
  then show ?thesis unfolding checkout_fails(1) using checkout_fails by (intro clients_inv_same [OF inv]) auto
next
  case (checkout_entry q n now e)
  from assms(2) checkout_entry(3) show ?thesis
  proof (cases rule: checkout_cases)
    case (warm e')
    then show ?thesis unfolding checkout_entry(1) using checkout_entry(2)
      by (intro clients_inv_same [OF inv]) (auto split: if_splits)
  next
    case (fresh path)
    then show ?thesis unfolding checkout_entry(1) using checkout_entry(2)
      by (intro clients_inv_same [OF inv]) (auto simp: nth_append)
  qed simp
next
  case (sweeps now vs ws)
  show ?thesis unfolding sweeps(1)
    using sweeps(2) sweepIdle_heap [OF sweeps(3) assms(2)] by (intro clients_inv_same [OF inv]) auto
next
  case (shuts_down vs ws)
  show ?thesis unfolding shuts_down(1)
    using shuts_down(2) pool_close_heap [OF shuts_down(3) assms(2)] by (intro clients_inv_same [OF inv]) auto
next
  case (spawns q e)
  then show ?thesis using refersD [OF assms(4), of e t] by (auto intro!: clients_inv_spawn [OF inv])
next
  case (call_fails q e)
  then show ?thesis using refersD [OF assms(4), of e t] by (auto intro!: clients_inv_take [OF inv])
next
  case (victim_take e es)
  then show ?thesis using refersD [OF assms(4), of e t]
    by (auto intro!: clients_inv_take [OF inv] split: option.splits)
next
  case (closes_evicted c)
  then show ?thesis by (auto intro!: clients_inv_close [OF inv])
next
  case (victim_close c es)
  then show ?thesis by (auto intro!: clients_inv_close [OF inv])
qed (auto intro!: clients_inv_same [OF inv] split: option.splits if_splits)

definition pool_inv :: "config \<Rightarrow> bool" where
  "pool_inv s \<longleftrightarrow> entries_inv (fst s) \<and> locks_inv s \<and> serves_inv s \<and> clients_inv s"

lemma pool_inv_step:
  assumes "step fb t s s'" "pool_inv s" shows "pool_inv s'"
proof -
  obtain p T p' T' where s: "s = (p, T)" "s' = (p', T')" by (cases s, cases s')
  show ?thesis
    using assms entries_inv_step [of fb t p T p' T'] locks_inv_step [of fb t p T p' T']
      serves_inv_step [of fb t p T p' T'] clients_inv_step [of fb t p T p' T']
    by (simp add: s pool_inv_def)
qed

lemma pool_inv_start: "pool_inv (NewPoolRouter idle, \<lambda>_. Idle)"
  by (simp add: pool_inv_def NewPoolRouter_def entries_inv_def locks_inv_def serves_inv_def clients_inv_def)

lemma reachable_pool_inv: "reachable fb idle s \<Longrightarrow> pool_inv s"
  by (induction rule: reachable.induct) (auto intro: pool_inv_start pool_inv_step)

section \<open>Properties\<close>

lemma reachable_invs:
  assumes "reachable fb idle (p, T)"
  shows "entries_inv p" "locks_inv (p, T)" "serves_inv (p, T)" "clients_inv (p, T)"
  using reachable_pool_inv [OF assms] by (simp_all add: pool_inv_def)

text \<open>C28: In every interleaving of dispatches, sweeps and closes, a thread inside \<open>CallTool\<close> uses a client
  that is alive and of the quarter it wants; no other thread is calling it and none is closing it.\<close>

theorem pool_calls_live:
  assumes "reachable fb idle (p, T)" "T t = Calling q e"
  shows "\<exists>c. pe_client (heap p ! e) = Some c \<and> c < length (alive p) \<and> alive p ! c \<and> pe_quarter (heap p ! e) = q
    \<and> (\<forall>u q' e'. T u = Calling q' e' \<and> pe_client (heap p ! e') = Some c \<longrightarrow> u = t)
    \<and> (\<forall>u. closing_client (T u) \<noteq> Some c)"
proof -
  note inv = reachable_invs [OF assms(1)]
  have e: "e < length (heap p)" using refersD [OF inv(2), of e t] assms(2) by simp
  obtain c where c: "pe_client (heap p ! e) = Some c" using callingD [OF inv(3) assms(2)] by blast
  have "pe_quarter (heap p ! e) = q" using servesD [OF inv(3), of t] assms(2) by simp
  moreover have "u = t" if "T u = Calling q' e'" "pe_client (heap p ! e') = Some c" for u q' e'
  proof -
    have e': "e' < length (heap p)" using refersD [OF inv(2), of e' u] that(1) by simp
    have "e' = e" using held_once [OF inv(4) e c e' that(2)] .
    then show ?thesis using ownerD [OF inv(2) e, of u] ownerD [OF inv(2) e, of t] that(1) assms(2) by simp
  qed
  moreover have "closing_client (T u) \<noteq> Some c" for u using closing_out [OF inv(4) _ e] c by blast
  ultimately show ?thesis using heldD [OF inv(4) e c] c by blast
qed

text \<open>C29: A client is closed once: the thread about to close it closes a live client, which no entry holds
  any more and no other thread is closing.\<close>

theorem pool_closes_once:
  assumes "reachable fb idle (p, T)" "closing_client (T t) = Some c"
  shows "c < length (alive p) \<and> alive p ! c \<and> (\<forall>e < length (heap p). pe_client (heap p ! e) \<noteq> Some c)
    \<and> (\<forall>u. closing_client (T u) = Some c \<longrightarrow> u = t)"
  using closingD [OF reachable_invs(4) [OF assms(1)] assms(2)] closing_out [OF reachable_invs(4) [OF assms(1)] assms(2)]
    closing_once [OF reachable_invs(4) [OF assms(1)] assms(2)] by blast

text \<open>The pool keeps at most one entry per quarter; no mapped entry is dead, each is of its quarter, and a
  closed pool has none.\<close>

theorem pool_one_entry_per_quarter:
  assumes "reachable fb idle (p, T)"
  shows "distinct (map fst (entries p)) \<and> (closed p \<longrightarrow> entries p = [])
    \<and> (\<forall>q e. (q, e) \<in> set (entries p) \<longrightarrow> pe_quarter (heap p ! e) = q \<and> \<not> dead (heap p ! e))"
  using reachable_invs(1) [OF assms] entries_invD [OF reachable_invs(1) [OF assms]] by (simp add: entries_inv_def)

text \<open>A thread that waits for no mutex can take a step.\<close>

lemma runs_unless_waiting:
  assumes "c = T t" "c \<noteq> Idle" "\<And>q n e. c \<noteq> WantLock q n e" "\<And>e es. c \<noteq> Victims (e # es)"
  shows "\<exists>s. step fb t (p, T) s"
proof (cases c)
  case (Checkout q n)
  obtain r p' where "checkout fb 0 q p = (r, p')" by (cases "checkout fb 0 q p")
  moreover have "T t = Checkout q n" using assms(1) Checkout by simp
  ultimately show ?thesis by (cases r) (blast intro: checkout_fails checkout_entry)+
next
  case (Locked q n e)
  then show ?thesis using assms(1) by (cases "dead (heap p ! e)") (auto intro: retry not_dead)
next
  case (Ready q e)
  then show ?thesis using assms(1) by (cases "pe_client (heap p ! e)") (auto intro: spawns reuses)
next
  case (Calling q e) then show ?thesis using assms(1) by (metis call_returns)
next
  case (Evicting q e d) then show ?thesis using assms(1) by (metis evicts)
next
  case (ClosingClient d) then show ?thesis using assms(1) by (metis closes_evicted)
next
  case (Marking e) then show ?thesis using assms(1) by (metis marks)
next
  case (Victims es) then show ?thesis using assms(1,4) by (cases es) (auto intro: victims_done)
next
  case (VictimLocked e es) then show ?thesis using assms(1) by (metis victim_take)
next
  case (VictimClosing d es) then show ?thesis using assms(1) by (metis victim_close)
qed (use assms in auto)

lemma wait_or_run:
  assumes inv: "locks_inv (p, T)" and e: "e < length (heap p)"
  shows "owner (heap p ! e) = None \<or> (\<exists>u s. T u \<noteq> Idle \<and> step fb u (p, T) s)"
proof (cases "owner (heap p ! e)")
  case (Some u)
  then have "holds (T u) e" using ownerD [OF inv e] by simp
  then have "T u \<noteq> Idle" "\<And>q n e. T u \<noteq> WantLock q n e" "\<And>e es. T u \<noteq> Victims (e # es)" by auto
  then have "T u \<noteq> Idle \<and> (\<exists>s. step fb u (p, T) s)" using runs_unless_waiting [of "T u" T u fb p] by blast
  then show ?thesis by blast
qed simp

text \<open>C30: The pool does not deadlock: while some thread is inside an operation, one that is can take a step.\<close>

theorem pool_no_deadlock:
  assumes "reachable fb idle (p, T)" "T t \<noteq> Idle"
  shows "\<exists>u s. T u \<noteq> Idle \<and> step fb u (p, T) s"
proof -
  note inv = reachable_invs [OF assms(1)]
  consider (wait) q n e where "T t = WantLock q n e" | (victim) e es where "T t = Victims (e # es)"
    | (run) "\<And>q n e. T t \<noteq> WantLock q n e" "\<And>e es. T t \<noteq> Victims (e # es)"
    by blast
  then show ?thesis
  proof cases
    case wait
    then have e: "e < length (heap p)" using refersD [OF inv(2), of e t] by simp
    from wait_or_run [OF inv(2) e, of fb] show ?thesis
    proof
      assume "owner (heap p ! e) = None"
      from take_lock [of T t q n e, OF wait this] assms(2) show ?thesis by blast
    qed
  next
    case victim
    then have e: "e < length (heap p)" using refersD [OF inv(2), of e t] by simp
    from wait_or_run [OF inv(2) e, of fb] show ?thesis
    proof
      assume "owner (heap p ! e) = None"
      from victim_lock [of T t e es, OF victim this] assms(2) show ?thesis by blast
    qed
  next
    case run
    from runs_unless_waiting [of "T t" T t fb p] run assms(2) show ?thesis by blast
  qed
qed

section \<open>Clients that are never closed\<close>

text \<open>One thread acquires nothing new between two checks of \<open>dead\<close>; but \<open>dispatchLocked\<close> unlocks the entry
  before \<open>evict\<close> marks it dead, and in between a waiting dispatch may spawn into it.\<close>

lemma step_to: "reachable fb idle s \<Longrightarrow> step fb t s s' \<Longrightarrow> s' = r \<Longrightarrow> reachable fb idle r"
  using reachable.more by simp

definition leak_quarter :: quarter where
  "leak_quarter = \<lparr>Year = 26, Q = 2\<rparr>"

definition leak_pool :: "(quarter \<times> nat) list \<Rightarrow> bool \<Rightarrow> nat option \<Rightarrow> bool \<Rightarrow> nat option \<Rightarrow> bool list \<Rightarrow> pool" where
  "leak_pool es cl c d ow al =
     \<lparr>entries = es, closed = cl,
      heap = [\<lparr>pe_quarter = leak_quarter, pe_path = ''x'', pe_client = c, lastUsed = 0, dead = d, owner = ow\<rparr>],
      alive = al, idleTimeout = 0\<rparr>"

definition two_threads :: "pc \<Rightarrow> pc \<Rightarrow> nat \<Rightarrow> pc" where
  "two_threads a b t = (if t = 0 then a else if t = 1 then b else Idle)"

lemma two_threads_simps [simp]:
  "two_threads a b 0 = a" "two_threads a b (Suc 0) = b" "(two_threads a b)(0 := c) = two_threads c b"
  "(two_threads a b)(Suc 0 := c) = two_threads a c"
  by (auto simp: two_threads_def)

lemma leak_pool_ops [simp]:
  "checkout (\<lambda>_. Some ''x'') 0 leak_quarter (leak_pool [(leak_quarter, 0)] False c False ow al)
    = (Entry 0, leak_pool [(leak_quarter, 0)] False c False ow al)"
  "heap (leak_pool es cl c d ow al) ! 0
    = \<lparr>pe_quarter = leak_quarter, pe_path = ''x'', pe_client = c, lastUsed = 0, dead = d, owner = ow\<rparr>"
  "lock t 0 (leak_pool es cl c d ow al) = leak_pool es cl c d (Some t) al"
  "unlock 0 (leak_pool es cl c d ow al) = leak_pool es cl c d None al"
  "spawn 0 (leak_pool es cl c d ow al) = leak_pool es cl (Some (length al)) d ow (al @ [True])"
  "evict leak_quarter 0 (leak_pool [(leak_quarter, 0)] cl c d ow al) = leak_pool [] cl c True ow al"
  "markUsed now 0 (leak_pool es cl c True ow al) = leak_pool es cl c True ow al"
  "pool_close (leak_pool [] False c d ow al) = ([], leak_pool [] True c d ow al)"
  by (simp_all add: leak_pool_def checkout_def set_entry_def lock_def unlock_def spawn_def set_client_def evict_def
      markUsed_def pool_close_def mark_dead_def)

text \<open>C31: A spawn that fails while another dispatch waits for the entry leaks the client the waiter spawns: the
  waiter sees an entry that is not dead yet, spawns into it, and only then \<open>evict\<close> takes it out of the map.
  Every operation has returned and the pool is closed, and the client is still running.\<close>

theorem pool_leaks_on_failed_spawn:
  "\<exists>p T. reachable (\<lambda>_. Some ''x'') 0 (p, T) \<and> (\<forall>t. T t = Idle) \<and> closed p \<and> alive p = [True]"
proof -
  let ?R = "reachable (\<lambda>_. Some ''x'') 0" and ?q = leak_quarter and ?P = leak_pool and ?T = two_threads
  let ?es = "[(?q, 0)]"
  have "(\<lambda>_. Idle) = ?T Idle Idle" by (auto simp: two_threads_def)
  then have s0: "?R (NewPoolRouter 0, ?T Idle Idle)" using reachable.start [of "\<lambda>_. Some ''x''" 0] by simp
  have s1: "?R (NewPoolRouter 0, ?T (Checkout ?q 0) Idle)"
    by (rule step_to [OF s0], rule dispatch [where t = 0 and q = ?q], simp+)
  have s2: "?R (?P ?es False None False None [], ?T (WantLock ?q 0 0) Idle)"
    by (rule step_to [OF s1], rule checkout_entry [where t = 0 and now = 0], (simp add: checkout_def NewPoolRouter_def leak_pool_def)+)
  have s3: "?R (?P ?es False None False None [], ?T (WantLock ?q 0 0) (Checkout ?q 0))"
    by (rule step_to [OF s2], rule dispatch [where t = 1 and q = ?q], simp+)
  have s4: "?R (?P ?es False None False None [], ?T (WantLock ?q 0 0) (WantLock ?q 0 0))"
    by (rule step_to [OF s3], rule checkout_entry [where t = 1 and now = 0], simp+)
  have s5: "?R (?P ?es False None False (Some 0) [], ?T (Locked ?q 0 0) (WantLock ?q 0 0))"
    by (rule step_to [OF s4], rule take_lock [where t = 0], simp+)
  have s6: "?R (?P ?es False None False (Some 0) [], ?T (Ready ?q 0) (WantLock ?q 0 0))"
    by (rule step_to [OF s5], rule not_dead [where t = 0], simp+)
  have s7: "?R (?P ?es False None False None [], ?T (Evicting ?q 0 None) (WantLock ?q 0 0))"
    by (rule step_to [OF s6], rule spawn_fails [where t = 0], simp+)
  have s8: "?R (?P ?es False None False (Some 1) [], ?T (Evicting ?q 0 None) (Locked ?q 0 0))"
    by (rule step_to [OF s7], rule take_lock [where t = 1], simp+)
  have s9: "?R (?P ?es False None False (Some 1) [], ?T (Evicting ?q 0 None) (Ready ?q 0))"
    by (rule step_to [OF s8], rule not_dead [where t = 1], simp+)
  have s10: "?R (?P ?es False (Some 0) False (Some 1) [True], ?T (Evicting ?q 0 None) (Calling ?q 0))"
    by (rule step_to [OF s9], rule spawns [where t = 1], simp+)
  have s11: "?R (?P [] False (Some 0) True (Some 1) [True], ?T Idle (Calling ?q 0))"
    by (rule step_to [OF s10], rule evicts [where t = 0], simp+)
  have s12: "?R (?P [] False (Some 0) True None [True], ?T Idle (Marking 0))"
    by (rule step_to [OF s11], rule call_returns [where t = 1], simp+)
  have s13: "?R (?P [] False (Some 0) True None [True], ?T Idle Idle)"
    by (rule step_to [OF s12], rule marks [where t = 1 and now = 0], simp+)
  have s14: "?R (?P [] True (Some 0) True None [True], ?T (Victims []) Idle)"
    by (rule step_to [OF s13], rule shuts_down [where t = 0 and ws = "[]"], simp+)
  have s15: "?R (?P [] True (Some 0) True None [True], ?T Idle Idle)"
    by (rule step_to [OF s14], rule victims_done [where t = 0], simp+)
  then show ?thesis
    by (intro exI conjI) (auto simp: two_threads_def leak_pool_def)
qed

section \<open>Without concurrency nothing leaks\<close>

lemma alone_reachable: "reachable_alone fb idle s \<Longrightarrow> reachable fb idle s"
  by (induction rule: reachable_alone.induct) (auto intro: reachable.intros)

fun pending :: "pc \<Rightarrow> nat set" where
  "pending (Victims es) = set es"
| "pending (VictimLocked e es) = insert e (set es)"
| "pending (VictimClosing c es) = set es"
| "pending _ = {}"

text \<open>With one active thread, whose counter is \<open>c\<close>: a client that is alive is about to be closed by it, or
  is in an entry of the map or among its victims.\<close>

definition tracked :: "pool \<Rightarrow> pc \<Rightarrow> bool" where
  "tracked p c \<longleftrightarrow>
     (\<forall>d < length (alive p). alive p ! d \<longrightarrow> closing_client c = Some d
        \<or> (\<exists>e < length (heap p). pe_client (heap p ! e) = Some d \<and> (e \<in> snd ` set (entries p) \<or> e \<in> pending c)))
     \<and> (\<forall>q e. serves c = Some (q, e) \<longrightarrow> (q, e) \<in> set (entries p))
     \<and> (\<forall>q e d. c = Evicting q e d \<longrightarrow> pe_client (heap p ! e) = None)"

lemma trackedD:
  assumes "tracked p c" "d < length (alive p)" "alive p ! d"
  obtains "closing_client c = Some d"
  | e where "e < length (heap p)" "pe_client (heap p ! e) = Some d" "e \<in> snd ` set (entries p) \<or> e \<in> pending c"
  using assms unfolding tracked_def by blast

lemma tracked_serves: "tracked p c \<Longrightarrow> serves c = Some (q, e) \<Longrightarrow> (q, e) \<in> set (entries p)"
  by (simp add: tracked_def)

lemma trackedI:
  assumes "\<And>d. d < length (alive p) \<Longrightarrow> alive p ! d \<Longrightarrow> closing_client c \<noteq> Some d \<Longrightarrow>
      \<exists>e < length (heap p). pe_client (heap p ! e) = Some d \<and> (e \<in> snd ` set (entries p) \<or> e \<in> pending c)"
    and "\<And>q e. serves c = Some (q, e) \<Longrightarrow> (q, e) \<in> set (entries p)"
    and "\<And>q e d. c = Evicting q e d \<Longrightarrow> pe_client (heap p ! e) = None"
  shows "tracked p c"
  using assms unfolding tracked_def by blast

text \<open>A step that moves no client, drops no entry that has one, and closes none.\<close>

lemma tracked_same:
  assumes old: "tracked p c" and "alive p' = alive p" "length (heap p) \<le> length (heap p')"
    and client: "\<And>e. e < length (heap p) \<Longrightarrow> pe_client (heap p' ! e) = pe_client (heap p ! e)"
    and keeps: "\<And>e. e < length (heap p) \<Longrightarrow> pe_client (heap p ! e) \<noteq> None \<Longrightarrow>
      e \<in> snd ` set (entries p) \<or> e \<in> pending c \<Longrightarrow> e \<in> snd ` set (entries p') \<or> e \<in> pending c'"
    and "\<And>d. closing_client c = Some d \<Longrightarrow> closing_client c' = Some d"
    and "\<And>q e. serves c' = Some (q, e) \<Longrightarrow> (q, e) \<in> set (entries p')"
    and "\<And>q e d. c' = Evicting q e d \<Longrightarrow> pe_client (heap p' ! e) = None"
  shows "tracked p' c'"
proof (rule trackedI)
  fix d assume d: "d < length (alive p')" "alive p' ! d" "closing_client c' \<noteq> Some d"
  then have "d < length (alive p)" "alive p ! d" using assms(2) by simp_all
  with old show "\<exists>e < length (heap p'). pe_client (heap p' ! e) = Some d \<and> (e \<in> snd ` set (entries p') \<or> e \<in> pending c')"
  proof (cases rule: trackedD)
    case 1
    with assms(6) d(3) show ?thesis by blast
  next
    case (2 e)
    then have "e < length (heap p')" "pe_client (heap p' ! e) = Some d" using assms(3) client by simp_all
    with keeps [OF 2(1) _ 2(3)] 2(2) show ?thesis by auto
  qed
qed (use assms(7,8) in auto)

text \<open>The steps that do move, make or close a client.\<close>

lemma tracked_spawn:
  assumes old: "tracked p (Ready q e)" and "e < length (heap p)" "pe_client (heap p ! e) = None"
  shows "tracked (spawn e p) (Calling q e)"
proof (rule trackedI)
  fix d assume d: "d < length (alive (spawn e p))" "alive (spawn e p) ! d"
  have e: "(q, e) \<in> set (entries p)" using tracked_serves [OF old] by simp
  show "\<exists>e' < length (heap (spawn e p)). pe_client (heap (spawn e p) ! e') = Some d
      \<and> (e' \<in> snd ` set (entries (spawn e p)) \<or> e' \<in> pending (Calling q e))"
  proof (cases "d = length (alive p)")
    case True
    then show ?thesis using assms(2) e by (intro exI [of _ e]) (auto simp: rev_image_eqI)
  next
    case False
    then have "d < length (alive p)" "alive p ! d" using d by (auto simp: nth_append)
    with old show ?thesis
    proof (cases rule: trackedD)
      case (2 e')
      then have "e' \<noteq> e" using assms(3) by auto
      with 2 show ?thesis by (intro exI [of _ e']) auto
    qed simp
  qed
qed (use tracked_serves [OF old] in auto)

lemma tracked_take:
  assumes old: "tracked p c" and "e < length (heap p)" "closing_client c = None"
    and "closing_client c' = pe_client (heap p ! e)" "pending c \<subseteq> insert e (pending c')"
    and "\<And>q e'. serves c' = Some (q, e') \<Longrightarrow> serves c = Some (q, e')"
    and "\<And>q e' d. c' = Evicting q e' d \<Longrightarrow> e' = e"
  shows "tracked (unlock e (set_client e None p)) c'"
proof (rule trackedI)
  fix d assume d: "d < length (alive (unlock e (set_client e None p)))" "alive (unlock e (set_client e None p)) ! d"
    "closing_client c' \<noteq> Some d"
  then have "d < length (alive p)" "alive p ! d" by simp_all
  with old show "\<exists>e' < length (heap (unlock e (set_client e None p))).
      pe_client (heap (unlock e (set_client e None p)) ! e') = Some d
      \<and> (e' \<in> snd ` set (entries (unlock e (set_client e None p))) \<or> e' \<in> pending c')"
  proof (cases rule: trackedD)
    case (2 e')
    then have "e' \<noteq> e" using d(3) assms(4) by auto
    with 2 assms(5) show ?thesis by (intro exI [of _ e']) auto
  qed (use assms(3) in simp)
qed (use assms(2,6,7) tracked_serves [OF old] in auto)

lemma tracked_close:
  assumes old: "tracked p c" and "closing_client c = Some d" "pending c \<subseteq> pending c'" "serves c' = None"
    and "d < length (alive p)"
  shows "tracked (close_client d p) c'"
proof (rule trackedI)
  fix d' assume d': "d' < length (alive (close_client d p))" "alive (close_client d p) ! d'"
  then have "d' \<noteq> d" using assms(5) by auto
  then have "d' < length (alive p)" "alive p ! d'" using d' by simp_all
  with old show "\<exists>e < length (heap (close_client d p)). pe_client (heap (close_client d p) ! e) = Some d'
      \<and> (e \<in> snd ` set (entries (close_client d p)) \<or> e \<in> pending c')"
  proof (cases rule: trackedD)
    case (2 e)
    with assms(3) show ?thesis by (intro exI [of _ e]) auto
  qed (use assms(2) \<open>d' \<noteq> d\<close> in simp)
qed (use assms(4) in auto)

lemma tracked_checkout:
  assumes old: "tracked p (Checkout q n)" and "entries_inv p" "checkout fb now q p = (Entry e, p')"
  shows "tracked p' (WantLock q n e)"
  using assms(2,3)
proof (cases rule: checkout_cases)
  case (warm e')
  then show ?thesis by (auto intro!: tracked_same [OF old] split: if_splits)
next
  case (fresh path)
  then have "set (filter (\<lambda>x. fst x \<noteq> q) (entries p)) = set (entries p)"
    by (auto simp: map_of_eq_None_iff rev_image_eqI)
  with fresh show ?thesis by (auto intro!: tracked_same [OF old] simp: nth_append)
qed simp

lemma tracked_evict:
  assumes old: "tracked p (Evicting q e d)" and inv: "entries_inv p"
  shows "tracked (evict q e p) (case d of None \<Rightarrow> Idle | Some d \<Rightarrow> ClosingClient d)"
proof -
  have none: "pe_client (heap p ! e) = None" using old by (simp add: tracked_def)
  have "e' \<in> snd ` set (entries (evict q e p))"
    if e': "pe_client (heap p ! e') \<noteq> None" "(q', e') \<in> set (entries p)" for q' e'
  proof -
    have "q' \<noteq> q" if "map_of (entries p) q = Some e"
    proof
      assume "q' = q"
      then have "map_of (entries p) q = Some e'" using e'(2) entry_of [OF inv] by simp
      with that none e'(1) show False by simp
    qed
    with e'(2) have "(q', e') \<in> set (entries (evict q e p))" by simp
    then show ?thesis by (rule rev_image_eqI) simp
  qed
  then show ?thesis by (intro tracked_same [OF old]) (auto split: option.splits)
qed

lemma tracked_sweepIdle:
  assumes old: "tracked p Idle" and "entries_inv p" "sweepIdle now p = (vs, p')" "set ws = set vs"
  shows "tracked p' (Victims ws)"
  using assms(3)
proof (cases rule: sweepIdle_cases)
  case off
  with assms(4) show ?thesis by (auto intro!: tracked_same [OF old])
next
  case (swept idle)
  have "e \<in> snd ` set (entries p') \<or> e \<in> set ws" if "(q, e) \<in> set (entries p)" for q e
    using that assms(4) unfolding swept(1,2) by (cases "idle (q, e)") (auto simp: rev_image_eqI)
  then show ?thesis using sweepIdle_heap [OF assms(3,2)] by (intro tracked_same [OF old]) (auto, blast)
qed

lemma tracked_pool_close:
  assumes old: "tracked p Idle" and "entries_inv p" "pool_close p = (vs, p')" "set ws = set vs"
  shows "tracked p' (Victims ws)"
  using assms(3)
proof (cases rule: pool_close_cases)
  case again
  with assms(4) show ?thesis by (auto intro!: tracked_same [OF old])
next
  case shut
  then show ?thesis using assms(4) pool_close_heap [OF assms(3,2)] by (intro tracked_same [OF old]) auto
qed

lemma tracked_step:
  assumes "step fb t (p, T) (p', T')" "pool_inv (p, T)" and old: "tracked p (T t)"
  shows "tracked p' (T' t)"
proof -
  have inv: "entries_inv p" "locks_inv (p, T)" "serves_inv (p, T)" "clients_inv (p, T)"
    using assms(2) by (simp_all add: pool_inv_def)
  note bound = refersD [OF inv(2), of _ t]
  from assms(1) show ?thesis
  proof cases
    case (checkout_fails q n now r)
    have "p' = p" using checkout_cases [OF inv(1) checkout_fails(3)] checkout_fails(4) by auto
    with checkout_fails show ?thesis by (auto intro!: tracked_same [OF old])
  next
    case (checkout_entry q n now e)
    with old tracked_checkout [OF _ inv(1) checkout_entry(3)] show ?thesis by simp
  next
    case (spawns q e)
    with old bound [of e] show ?thesis by (simp add: tracked_spawn)
  next
    case (call_fails q e)
    with old bound [of e] show ?thesis by (auto intro!: tracked_take [of p "Calling q e"])
  next
    case (evicts q e d)
    with old tracked_evict [OF _ inv(1), of q e d] show ?thesis by simp
  next
    case (closes_evicted d)
    with old closingD [OF inv(4), of t d] show ?thesis by (auto intro!: tracked_close [of p "ClosingClient d"])
  next
    case (sweeps now vs ws)
    with old tracked_sweepIdle [OF _ inv(1) sweeps(3) mset_set [OF sweeps(4)]] show ?thesis by simp
  next
    case (shuts_down vs ws)
    with old tracked_pool_close [OF _ inv(1) shuts_down(3) mset_set [OF shuts_down(4)]] show ?thesis by simp
  next
    case (victim_take e es)
    with old bound [of e] show ?thesis
      by (auto intro!: tracked_take [of p "VictimLocked e es"] split: option.splits)
  next
    case (victim_close d es)
    with old closingD [OF inv(4), of t d] show ?thesis by (auto intro!: tracked_close [of p "VictimClosing d es"])
  qed (use tracked_serves [OF old] in \<open>auto intro!: tracked_same [OF old] split: if_splits\<close>)
qed

lemma step_moves_one: "step fb t (p, T) (p', T') \<Longrightarrow> u \<noteq> t \<Longrightarrow> T' u = T u"
  by (cases rule: step.cases) auto

lemma alone_tracked:
  assumes "reachable_alone fb idle s"
  shows "\<exists>t. (\<forall>u. u \<noteq> t \<longrightarrow> snd s u = Idle) \<and> tracked (fst s) (snd s t)"
  using assms
proof (induction rule: reachable_alone.induct)
  case start
  show ?case by (intro exI [of _ 0]) (simp add: tracked_def NewPoolRouter_def)
next
  case (more p T t s')
  obtain p' T' where s': "s' = (p', T')" by (cases s')
  obtain t0 where t0: "\<forall>u. u \<noteq> t0 \<longrightarrow> T u = Idle" "tracked p (T t0)" using more.IH by auto
  have "T t = T t0" using t0(1) more.hyps(2) by metis
  with t0 have "tracked p (T t)" by simp
  with more.hyps(3) s' have "tracked p' (T' t)"
    using tracked_step [of fb t p T p' T'] reachable_pool_inv [OF alone_reachable [OF more.hyps(1)]] by simp
  moreover have "\<forall>u. u \<noteq> t \<longrightarrow> T' u = Idle"
    using more.hyps(2,3) step_moves_one [of fb t p T p' T'] s' by simp
  ultimately show ?case using s' by (intro exI [of _ t]) simp
qed

text \<open>When operations do not overlap the pool leaks nothing: between operations the clients alive are
  exactly those of the mapped entries, and once the pool is closed every client is closed.\<close>

theorem pool_alone_no_leak:
  assumes "reachable_alone fb idle (p, T)" "\<And>t. T t = Idle"
  shows "(\<forall>d < length (alive p). alive p ! d \<longleftrightarrow> (\<exists>q e. (q, e) \<in> set (entries p) \<and> pe_client (heap p ! e) = Some d))
    \<and> (closed p \<longrightarrow> (\<forall>d < length (alive p). \<not> alive p ! d))"
proof -
  have inv: "pool_inv (p, T)" using reachable_pool_inv [OF alone_reachable [OF assms(1)]] .
  have idle: "tracked p Idle" using alone_tracked [OF assms(1)] assms(2) by simp
  have "\<exists>q e. (q, e) \<in> set (entries p) \<and> pe_client (heap p ! e) = Some d"
    if "d < length (alive p)" "alive p ! d" for d
    using trackedD [OF idle that] by fastforce
  moreover have "alive p ! d" if "(q, e) \<in> set (entries p)" "pe_client (heap p ! e) = Some d" for q e d
    using heldD [of p T e d] entries_invD [of p q e] inv that by (simp add: pool_inv_def)
  moreover have "entries p = []" if "closed p" using inv that by (simp add: pool_inv_def entries_inv_def)
  ultimately show ?thesis by fastforce
qed

text \<open>A dispatch that spawns, by itself: at the call, after a call that fails, and after one that returns.\<close>

lemma alone_to:
  "reachable_alone fb idle (p, T) \<Longrightarrow> \<forall>u. u \<noteq> t \<longrightarrow> T u = Idle \<Longrightarrow> step fb t (p, T) s' \<Longrightarrow> s' = r \<Longrightarrow>
     reachable_alone fb idle r"
  using reachable_alone.more by simp

lemma two_threads_idle: "\<forall>u. u \<noteq> 0 \<longrightarrow> two_threads a Idle u = Idle"
  by (simp add: two_threads_def)

lemma one_dispatch:
  "reachable_alone (\<lambda>_. Some ''x'') 0
     (leak_pool [(leak_quarter, 0)] False (Some 0) False (Some 0) [True], two_threads (Calling leak_quarter 0) Idle)"
proof -
  let ?R = "reachable_alone (\<lambda>_. Some ''x'') 0" and ?q = leak_quarter and ?P = leak_pool and ?T = "\<lambda>c. two_threads c Idle"
  let ?es = "[(?q, 0)]"
  have "(\<lambda>_. Idle) = ?T Idle" by (auto simp: two_threads_def)
  then have s0: "?R (NewPoolRouter 0, ?T Idle)" using reachable_alone.start [of "\<lambda>_. Some ''x''" 0] by simp
  have s1: "?R (NewPoolRouter 0, ?T (Checkout ?q 0))"
    by (rule alone_to [OF s0 two_threads_idle], rule dispatch [where t = 0 and q = ?q], simp+)
  have s2: "?R (?P ?es False None False None [], ?T (WantLock ?q 0 0))"
    by (rule alone_to [OF s1 two_threads_idle], rule checkout_entry [where t = 0 and now = 0])
      (simp add: checkout_def NewPoolRouter_def leak_pool_def)+
  have s3: "?R (?P ?es False None False (Some 0) [], ?T (Locked ?q 0 0))"
    by (rule alone_to [OF s2 two_threads_idle], rule take_lock [where t = 0], simp+)
  have s4: "?R (?P ?es False None False (Some 0) [], ?T (Ready ?q 0))"
    by (rule alone_to [OF s3 two_threads_idle], rule not_dead [where t = 0], simp+)
  show ?thesis
    by (rule alone_to [OF s4 two_threads_idle], rule spawns [where t = 0], simp+)
qed

lemma one_failed_call:
  "reachable_alone (\<lambda>_. Some ''x'') 0
     (leak_pool [(leak_quarter, 0)] False None False None [True], two_threads (Evicting leak_quarter 0 (Some 0)) Idle)"
  by (rule alone_to [OF one_dispatch two_threads_idle], rule call_fails [where t = 0])
    (simp add: leak_pool_def set_client_def unlock_def set_entry_def)+

lemma one_warm_client:
  "reachable_alone (\<lambda>_. Some ''x'') 0
     (leak_pool [(leak_quarter, 0)] False (Some 0) False None [True], two_threads Idle Idle)"
proof -
  have s1: "reachable_alone (\<lambda>_. Some ''x'') 0
     (leak_pool [(leak_quarter, 0)] False (Some 0) False None [True], two_threads (Marking 0) Idle)"
    by (rule alone_to [OF one_dispatch two_threads_idle], rule call_returns [where t = 0], simp+)
  show ?thesis
    by (rule alone_to [OF s1 two_threads_idle], rule marks [where t = 0 and now = 0])
      (simp add: leak_pool_def markUsed_def set_entry_def)+
qed

theorem pool_calls_live_witness:
  "\<exists>c. pe_client (heap (leak_pool [(leak_quarter, 0)] False (Some 0) False (Some 0) [True]) ! 0) = Some c
     \<and> alive (leak_pool [(leak_quarter, 0)] False (Some 0) False (Some 0) [True]) ! c"
  using pool_calls_live [OF alone_reachable [OF one_dispatch], of 0 leak_quarter 0] by auto

theorem pool_closes_once_witness:
  "alive (leak_pool [(leak_quarter, 0)] False None False None [True]) ! 0"
  using pool_closes_once [OF alone_reachable [OF one_failed_call], of 0 0] by simp

theorem pool_one_entry_per_quarter_witness:
  "distinct (map fst (entries (leak_pool [(leak_quarter, 0)] False (Some 0) False None [True])))"
  using pool_one_entry_per_quarter [OF alone_reachable [OF one_warm_client]] by simp

theorem pool_no_deadlock_witness:
  "\<exists>u s. two_threads (Evicting leak_quarter 0 (Some 0)) Idle u \<noteq> Idle
     \<and> step (\<lambda>_. Some ''x'') u (leak_pool [(leak_quarter, 0)] False None False None [True],
         two_threads (Evicting leak_quarter 0 (Some 0)) Idle) s"
  using pool_no_deadlock [OF alone_reachable [OF one_failed_call], of 0] by simp

theorem pool_alone_no_leak_witness:
  "\<exists>q e. (q, e) \<in> set (entries (leak_pool [(leak_quarter, 0)] False (Some 0) False None [True]))
     \<and> pe_client (heap (leak_pool [(leak_quarter, 0)] False (Some 0) False None [True]) ! e) = Some 0"
proof -
  have "\<And>t. two_threads Idle Idle t = Idle" by (simp add: two_threads_def)
  from pool_alone_no_leak [OF one_warm_client this] show ?thesis by (simp add: leak_pool_def)
qed

end
