(* ===== verification/Semcheck.thy ===== *)
theory Semcheck
  imports Columns_Correct Diag_Errors
begin

text \<open>
  The expression type check and the runner of \<open>internal/semcheck\<close> (\<open>expr.go\<close>, \<open>runner.go\<close>) with the check
  statuses of \<open>internal/validateresult\<close>. The parser, its walkers and its type checker are a record of
  functions; the type checker may answer with an error or panic on any expression.
\<close>

section \<open>The front end\<close>

text \<open>A failed check may still give a typed expression, of which only the text is used.\<close>

datatype 'e check_outcome = Checked | CheckError "string option" 'e | CheckPanic string

text \<open>
  \<open>tree.WalkStmt\<close> with the extended visitors of the name checks, \<open>tree.SimpleStmtVisit\<close> and
  \<open>tree.WalkExprConst\<close>; \<open>FunDefs\<close> are the registered function names; \<open>Errorf\<close> makes an error of a text.
\<close>

record 'e front_end =
  Parse :: "string \<Rightarrow> 'e + parsed list"
  WalkTables :: "statement \<Rightarrow> visit"
  WalkFuncs :: "statement \<Rightarrow> visit"
  SimpleStmtVisit :: "statement \<Rightarrow> visit"
  WalkExprConst :: "expr \<Rightarrow> visit"
  FunDefs :: "string list"
  TypeCheck :: "expr \<Rightarrow> 'e check_outcome"
  expr_text :: "expr \<Rightarrow> string"
  Errorf :: "string \<Rightarrow> 'e"
  ErrorApi :: "'e error_api"
  Keywords :: "string list"

section \<open>Type checking\<close>

fun isVariable :: "expr \<Rightarrow> bool" where
  "isVariable (UnresolvedName _ _) = True"
| "isVariable (ColumnItem _ _) = True"
| "isVariable (Subquery _) = True"
| "isVariable Placeholder = True"
| "isVariable IndexedVar = True"
| "isVariable UnqualifiedStar = True"
| "isVariable AllColumnsSelector = True"
| "isVariable _ = False"

text \<open>The two detectors stop at the first node that satisfies them.\<close>

definition detect :: "(expr \<Rightarrow> bool) \<Rightarrow> visited \<Rightarrow> bool \<Rightarrow> bool \<times> bool" where
  "detect P n found =
     (if found then (False, found)
      else case n of VisitExpr e \<Rightarrow> if P e then (False, True) else (True, found) | _ \<Rightarrow> (True, found))"

definition containsVariable :: "'e front_end \<Rightarrow> expr \<Rightarrow> bool" where
  "containsVariable fe e = run_visitor (detect isVariable) (\<lambda>n s. s) (WalkExprConst fe e) False"

fun unknown_function :: "string list \<Rightarrow> expr \<Rightarrow> bool" where
  "unknown_function defs (FuncExpr (Some parts) args) =
     (length parts = 1 \<and> to_lower (hd parts) \<noteq> [] \<and> to_lower (hd parts) \<notin> set defs)"
| "unknown_function defs _ = False"

definition containsUnknownFunc :: "'e front_end \<Rightarrow> expr \<Rightarrow> bool" where
  "containsUnknownFunc fe e = run_visitor (detect (unknown_function (FunDefs fe))) (\<lambda>n s. s) (WalkExprConst fe e) False"

text \<open>\<open>safeTypeCheck\<close>: a panic becomes an error, with no typed expression.\<close>

definition safeTypeCheck :: "'e front_end \<Rightarrow> expr \<Rightarrow> (string option \<times> 'e) option" where
  "safeTypeCheck fe e =
     (case TypeCheck fe e of
        Checked \<Rightarrow> None
      | CheckError typed err \<Rightarrow> Some (typed, err)
      | CheckPanic r \<Rightarrow> Some (None, Errorf fe (''internal: type-check panicked: '' @ r)))"

definition exprText :: "'e front_end \<Rightarrow> string option \<Rightarrow> expr \<Rightarrow> string" where
  "exprText fe typed original =
     (if expr_text fe original \<noteq> [] then expr_text fe original
      else case typed of Some s \<Rightarrow> s | None \<Rightarrow> [])"

definition expr_pre :: "'e front_end \<Rightarrow> string \<Rightarrow> visited \<Rightarrow> error_entry list \<Rightarrow> bool \<times> error_entry list" where
  "expr_pre fe fullSQL n errs =
     (case n of
        VisitExpr e \<Rightarrow>
          if isVariable e then (False, errs)
          else if containsVariable fe e then (True, errs)
          else if containsUnknownFunc fe e then (True, errs)
          else (case safeTypeCheck fe e of
                  None \<Rightarrow> (False, errs)
                | Some (typed, err) \<Rightarrow>
                    (False, errs @ [FromTypeError (ErrorApi fe) err (exprText fe typed e) fullSQL]))
      | _ \<Rightarrow> (True, errs))"

definition CheckExprTypes :: "'e front_end \<Rightarrow> parsed list \<Rightarrow> string \<Rightarrow> error_entry list" where
  "CheckExprTypes fe stmts fullSQL =
     fold (\<lambda>p. run_visitor (expr_pre fe fullSQL) (\<lambda>n s. s) (SimpleStmtVisit fe (AST p))) stmts []"

section \<open>The runner\<close>

datatype check_status = CheckOK | CheckSkipped | CheckFailed

record checks =
  Syntax :: check_status
  FunctionResolution :: check_status
  TypeChecks :: check_status
  NameResolution :: check_status

record validate_result =
  Valid :: bool
  Checks :: checks

definition CapabilityRequiredCode :: string where
  "CapabilityRequiredCode = ''capability_required''"

definition CapabilityNameResolution :: string where
  "CapabilityNameResolution = ''name_resolution''"

definition CapabilityRequiredError :: "string \<Rightarrow> string \<Rightarrow> string \<Rightarrow> error_entry" where
  "CapabilityRequiredError capability msg hint =
     (plain_error CapabilityRequiredCode SevWarning msg)
       \<lparr>category := CapabilityRequiredCode, econtext := [(''capability'', CStr capability), (''hint'', CStr hint)]\<rparr>"

record run_result =
  res_function :: check_status
  res_type :: check_status
  res_name :: check_status

definition Run :: "'e front_end \<Rightarrow> parsed list \<Rightarrow> string \<Rightarrow> catalog option \<Rightarrow> (run_result \<times> error_entry list) outcome" where
  "Run fe stmts sql cat =
     obind (CheckFunctionNames (WalkFuncs fe) (FunDefs fe) stmts sql) (\<lambda>funcErrs.
     (let typeErrs = CheckExprTypes fe stmts sql;
          res = \<lparr>res_function = (if length funcErrs > 0 then CheckFailed else CheckOK),
                 res_type = (if length typeErrs > 0 then CheckFailed else CheckOK), res_name = CheckOK\<rparr>;
          errs = funcErrs @ typeErrs
      in case cat of
           None \<Rightarrow> Ret (res\<lparr>res_name := CheckSkipped\<rparr>, errs)
         | Some c \<Rightarrow>
             obind (CheckTableNames (WalkTables fe) stmts sql cat) (\<lambda>tableErrs.
             obind (CheckColumnNames stmts sql cat) (\<lambda>colErrs.
             Ret ((if length tableErrs > 0 \<or> length colErrs > 0 then res\<lparr>res_name := CheckFailed\<rparr> else res),
                  errs @ tableErrs @ colErrs)))))"

section \<open>The detectors\<close>

definition expr_nodes :: "visit \<Rightarrow> expr list" where
  "expr_nodes v = concat (map (\<lambda>n. case n of VisitExpr e \<Rightarrow> [e] | _ \<Rightarrow> []) (reached (\<lambda>_. True) v))"

lemma expr_nodes_Visit:
  "expr_nodes (Visit n ns) = (case n of VisitExpr e \<Rightarrow> [e] | _ \<Rightarrow> []) @ concat (map expr_nodes ns)"
proof -
  have "concat (map f (concat (map (reached (\<lambda>_. True)) ns))) = concat (map (\<lambda>v. concat (map f (reached (\<lambda>_. True) v))) ns)"
    for f :: "visited \<Rightarrow> expr list" by (induction ns) simp_all
  then show ?thesis by (simp add: expr_nodes_def [abs_def])
qed

lemma run_detect:
  "run_visitor (detect P) (\<lambda>n s. s) v found \<longleftrightarrow> found \<or> (\<exists>e \<in> set (expr_nodes v). P e)"
proof (induction v arbitrary: found)
  case (Visit n ns)
  have fold: "fold (run_visitor (detect P) (\<lambda>n s. s)) ms b \<longleftrightarrow> b \<or> (\<exists>m \<in> set ms. \<exists>e \<in> set (expr_nodes m). P e)"
    if "set ms \<subseteq> set ns" for ms b
    using that by (induction ms arbitrary: b) (auto simp: Visit.IH)
  show ?case
    by (auto simp: detect_def [of P n] expr_nodes_Visit fold split: visited.split)
qed

lemma containsVariable_iff: "containsVariable fe e \<longleftrightarrow> (\<exists>x \<in> set (expr_nodes (WalkExprConst fe e)). isVariable x)"
  by (simp add: containsVariable_def run_detect)

lemma containsUnknownFunc_iff:
  "containsUnknownFunc fe e \<longleftrightarrow> (\<exists>x \<in> set (expr_nodes (WalkExprConst fe e)). unknown_function (FunDefs fe) x)"
  by (simp add: containsUnknownFunc_def run_detect)

section \<open>What is type-checked\<close>

text \<open>An expression is checked when it is closed; the walk goes below an expression only in search of one.\<close>

definition closed :: "'e front_end \<Rightarrow> expr \<Rightarrow> bool" where
  "closed fe e \<longleftrightarrow> \<not> isVariable e \<and> \<not> containsVariable fe e \<and> \<not> containsUnknownFunc fe e"

definition searched :: "'e front_end \<Rightarrow> visited \<Rightarrow> bool" where
  "searched fe n = (case n of VisitExpr e \<Rightarrow> \<not> isVariable e \<and> \<not> closed fe e | _ \<Rightarrow> True)"

definition checked_exprs :: "'e front_end \<Rightarrow> parsed \<Rightarrow> expr list" where
  "checked_exprs fe p = concat (map (\<lambda>n. case n of VisitExpr e \<Rightarrow> if closed fe e then [e] else [] | _ \<Rightarrow> [])
     (reached (searched fe) (SimpleStmtVisit fe (AST p))))"

definition type_errors :: "'e front_end \<Rightarrow> string \<Rightarrow> expr \<Rightarrow> error_entry list" where
  "type_errors fe sql e =
     (case safeTypeCheck fe e of
        None \<Rightarrow> []
      | Some (typed, err) \<Rightarrow> [FromTypeError (ErrorApi fe) err (exprText fe typed e) sql])"

lemma expr_pre_eq:
  "expr_pre fe sql n errs = (searched fe n,
     errs @ (case n of VisitExpr e \<Rightarrow> if closed fe e then type_errors fe sql e else [] | _ \<Rightarrow> []))"
  by (auto simp: expr_pre_def searched_def closed_def type_errors_def split: visited.split option.split)

lemma fold_append: "fold (\<lambda>x acc. acc @ f x) xs acc = acc @ concat (map f xs)"
  by (induction xs arbitrary: acc) auto

lemma CheckExprTypes_eq:
  "CheckExprTypes fe stmts sql = concat (map (type_errors fe sql) (concat (map (checked_exprs fe) stmts)))"
proof -
  let ?f = "\<lambda>n. case n of VisitExpr e \<Rightarrow> if closed fe e then type_errors fe sql e else [] | _ \<Rightarrow> []"
  have one: "run_visitor (expr_pre fe sql) (\<lambda>n s. s) v errs = errs @ concat (map ?f (reached (searched fe) v))" for v errs
    by (subst run_visitor_fold [where d = "searched fe" and f = "\<lambda>n acc. acc @ ?f n"])
      (simp_all only: expr_pre_eq fold_append)
  have part: "concat (map ?f ns) = concat (map (type_errors fe sql)
      (concat (map (\<lambda>n. case n of VisitExpr e \<Rightarrow> if closed fe e then [e] else [] | _ \<Rightarrow> []) ns)))" for ns
    by (induction ns) (auto split: visited.split)
  show ?thesis
    unfolding CheckExprTypes_def one fold_append part checked_exprs_def
    by (induction stmts) simp_all
qed

lemma closed_iff:
  "closed fe e \<longleftrightarrow> \<not> isVariable e \<and> (\<forall>x \<in> set (expr_nodes (WalkExprConst fe e)).
     \<not> isVariable x \<and> \<not> unknown_function (FunDefs fe) x)"
  by (auto simp: closed_def containsVariable_iff containsUnknownFunc_iff)


definition sample_front :: "unit front_end" where
  "sample_front = \<lparr>Parse = \<lambda>_. Inr [sample_select], WalkTables = sample_walk, WalkFuncs = sample_walk,
     SimpleStmtVisit = sample_walk, WalkExprConst = \<lambda>e. Visit (VisitExpr e) [], FunDefs = [''lower''],
     TypeCheck = \<lambda>_. Checked, expr_text = \<lambda>_. [], Errorf = \<lambda>_. (), ErrorApi = sample_api, Keywords = [''from'']\<rparr>"


end
