(* ===== verification/Preprocess.thy ===== *)
theory Preprocess
  imports Output Strip_Prompts
begin

text \<open>
  What the tools do around every check: strip the prompts of a pasted session and report it, and move the
  positions of the errors found in the stripped text back to the paste
  (\<open>internal/mcp/tools/preprocess.go\<close>; \<open>cmd/preprocess.go\<close> has the same \<open>preprocessSQL\<close>).
\<close>

definition preprocessSQL :: "envelope \<Rightarrow> string \<Rightarrow> envelope \<times> StripResult" where
  "preprocessSQL env sql =
     (let strip = StripShellPromptsWithMap sql in
      if \<not> Removed strip then (env, strip)
      else
        (env\<lparr>eerrors := eerrors env @
           [(plain_error CodeInputPreprocessed SevWarning
               ''input was preprocessed: cockroach sql REPL prompts removed before parsing'')
              \<lparr>econtext := [(''bytes_removed'', CInt (int (length sql) - int (length (Stripped strip))))]\<rparr>]\<rparr>, strip))"

definition adjust_entry :: "string \<Rightarrow> StripResult \<Rightarrow> error_entry \<Rightarrow> error_entry outcome" where
  "adjust_entry originalSQL strip e =
     obind (AdjustPosition (position e) originalSQL (Translate strip)) (\<lambda>p. Ret (e\<lparr>position := p\<rparr>))"

fun adjust_entries :: "string \<Rightarrow> StripResult \<Rightarrow> error_entry list \<Rightarrow> error_entry list outcome" where
  "adjust_entries originalSQL strip [] = Ret []"
| "adjust_entries originalSQL strip (e # es) =
     obind (adjust_entry originalSQL strip e) (\<lambda>e'.
     obind (adjust_entries originalSQL strip es) (\<lambda>es'. Ret (e' # es')))"

definition translateErrorPositions :: "envelope \<Rightarrow> nat \<Rightarrow> string \<Rightarrow> StripResult \<Rightarrow> envelope outcome" where
  "translateErrorPositions env fromIdx originalSQL strip =
     (if \<not> Removed strip then Ret env
      else
        obind (adjust_entries originalSQL strip (drop fromIdx (eerrors env))) (\<lambda>es.
        Ret (env\<lparr>eerrors := take fromIdx (eerrors env) @ es\<rparr>)))"

section \<open>Where the errors end up\<close>

text \<open>The position of the original text that stands for a position of the stripped one.\<close>

definition original_position :: "string \<Rightarrow> position \<Rightarrow> position" where
  "original_position sql p =
     (let k = Translate (StripShellPromptsWithMap sql) (byte_offset p) in
      case lineColumn sql (nat k) of (l, c) \<Rightarrow> \<lparr>line = l, column = c, byte_offset = k\<rparr>)"

definition relocate :: "string \<Rightarrow> error_entry \<Rightarrow> error_entry" where
  "relocate sql e =
     (if Removed (StripShellPromptsWithMap sql)
      then e\<lparr>position := map_option (original_position sql) (position e)\<rparr> else e)"

lemma relocate_sel [simp]:
  "code (relocate sql e) = code e" "severity (relocate sql e) = severity e" "message (relocate sql e) = message e"
  "category (relocate sql e) = category e" "econtext (relocate sql e) = econtext e"
  "suggestions (relocate sql e) = suggestions e"
  by (simp_all add: relocate_def)

lemma relocate_no_position [simp]: "position e = None \<Longrightarrow> relocate sql e = e"
  by (simp add: relocate_def)

lemma AdjustPosition_strip:
  "AdjustPosition pos sql (Translate (StripShellPromptsWithMap sql)) = Ret (map_option (original_position sql) pos)"
proof -
  obtain x where x: "AdjustPosition pos sql (Translate (StripShellPromptsWithMap sql)) = Ret x"
    using strip.adjust_returns by blast
  then show ?thesis
    by (auto simp: AdjustPosition_def original_position_def Let_def split: option.splits if_splits prod.splits)
qed

lemma adjust_entry_strip:
  "Removed (StripShellPromptsWithMap sql) \<Longrightarrow> adjust_entry sql (StripShellPromptsWithMap sql) e = Ret (relocate sql e)"
  by (simp add: adjust_entry_def AdjustPosition_strip relocate_def)

lemma adjust_entries_strip:
  "Removed (StripShellPromptsWithMap sql) \<Longrightarrow> adjust_entries sql (StripShellPromptsWithMap sql) es = Ret (map (relocate sql) es)"
  by (induction es) (simp_all add: adjust_entry_strip)

lemma relocate_id: "\<not> Removed (StripShellPromptsWithMap sql) \<Longrightarrow> relocate sql = id"
  by (auto simp: relocate_def)

lemma translateErrorPositions_strip:
  "translateErrorPositions env k sql (StripShellPromptsWithMap sql) =
     Ret (env\<lparr>eerrors := take k (eerrors env) @ map (relocate sql) (drop k (eerrors env))\<rparr>)"
  by (cases "Removed (StripShellPromptsWithMap sql)")
    (simp_all add: translateErrorPositions_def adjust_entries_strip relocate_id)

definition preprocess_warning :: "string \<Rightarrow> error_entry list" where
  "preprocess_warning sql =
     (if Removed (StripShellPromptsWithMap sql)
      then [(plain_error CodeInputPreprocessed SevWarning
               ''input was preprocessed: cockroach sql REPL prompts removed before parsing'')
              \<lparr>econtext := [(''bytes_removed'', CInt (int (length sql) - int (length (StripShellPrompts sql))))]\<rparr>]
      else [])"

lemma preprocessSQL_eq:
  "preprocessSQL env sql = (env\<lparr>eerrors := eerrors env @ preprocess_warning sql\<rparr>, StripShellPromptsWithMap sql)"
  by (simp add: preprocessSQL_def preprocess_warning_def Let_def StripShellPrompts_def)

text \<open>A position inside the stripped text is moved to the same byte of the original.\<close>

lemma original_position_byte:
  assumes "0 \<le> byte_offset p" "byte_offset p < int (length (StripShellPrompts sql))"
  shows "points_at sql (original_position sql p)
    \<and> sql ! nat (byte_offset (original_position sql p)) = StripShellPrompts sql ! nat (byte_offset p)"
proof -
  have adj: "AdjustPosition (Some p) sql (Translate (StripShellPromptsWithMap sql)) = Ret (Some (original_position sql p))"
    by (simp add: AdjustPosition_strip)
  with assms show ?thesis
    using strip.adjust_points_at [of p sql] strip.adjust_same_byte [of p sql]
    by (auto simp: StripShellPrompts_def)
qed

end
