(* ===== verification/Explain_Tree.thy ===== *)
theory Explain_Tree
  imports Diag_Position
begin

text \<open>
  \<open>internal/conn/explain_parse.go\<close>: the parser of the rows of \<open>EXPLAIN\<close>. A rune is the string of its
  bytes, and a \<open>[]rune\<close> a list of them; converting back replaces an invalid byte by U+FFFD. The Go
  stack holds pointers into the growing tree. A slice is appended to only when its owner is on top of
  the stack, so no pointer that is still on the stack points into a slice that moves, and the model
  names a node by its path from the roots; that every path stays on the right spine of the tree is the
  invariant \<open>on_spine\<close>.
\<close>

section \<open>Runes\<close>

definition rune_bytes :: "string \<Rightarrow> string" where
  "rune_bytes r = (if length r = 1 \<and> byte_of (hd r) \<ge> 128 then [CHR 0xEF, CHR 0xBF, CHR 0xBD] else r)"

definition from_runes :: "string list \<Rightarrow> string" where
  "from_runes rs = concat (map rune_bytes rs)"

definition bullet :: string where "bullet = [CHR 0xE2, CHR 0x80, CHR 0xA2]"
definition pipe :: string where "pipe = [CHR 0xE2, CHR 0x94, CHR 0x82]"
definition corner :: string where "corner = [CHR 0xE2, CHR 0x94, CHR 0x94]"
definition tee :: string where "tee = [CHR 0xE2, CHR 0x94, CHR 0x9C]"
definition dash :: string where "dash = [CHR 0xE2, CHR 0x94, CHR 0x80]"
definition middle_dot :: string where "middle_dot = [CHR 0xC2, CHR 0xB7]"

definition isTreeGlyph :: "string \<Rightarrow> bool" where
  "isTreeGlyph r \<longleftrightarrow> r \<in> {'' '', [CHR 0x09], pipe, corner, tee, dash}"

section \<open>The parser\<close>

datatype plan_node = PlanNode (Op: string) (Attrs: "string \<Rightarrow> string option") (Children: "plan_node list")

fun scan_operator :: "nat \<Rightarrow> string list \<Rightarrow> (nat \<times> string) option" where
  "scan_operator i [] = None"
| "scan_operator i (r # rs) =
     (if r = bullet then Some (i, trim_space (from_runes rs))
      else if \<not> isTreeGlyph r then None
      else scan_operator (i + 1) rs)"

definition parseOperatorLine :: "string \<Rightarrow> (nat \<times> string) option" where
  "parseOperatorLine s = scan_operator 0 (runes s)"

fun scan_content :: "nat \<Rightarrow> string list \<Rightarrow> int \<times> string" where
  "scan_content i [] = (-1, [])"
| "scan_content i (r # rs) =
     (if isTreeGlyph r then scan_content (i + 1) rs else (int i, trim_space (from_runes (r # rs))))"

definition findContent :: "string \<Rightarrow> int \<times> string" where
  "findContent s = scan_content 0 (runes s)"

definition splitKV :: "string \<Rightarrow> (string \<times> string) option" where
  "splitKV s =
     (case str_index s '':'' of None \<Rightarrow> None
      | Some i \<Rightarrow> Some (trim_space (take i s), trim_space (drop (i + 1) s)))"

text \<open>The children of the node at a path, the roots for the empty path, and their update in place.\<close>

fun kids :: "nat list \<Rightarrow> plan_node list \<Rightarrow> plan_node list" where
  "kids [] ns = ns"
| "kids (i # p) ns = kids p (Children (ns ! i))"

fun put_kids :: "nat list \<Rightarrow> (plan_node list \<Rightarrow> plan_node list) \<Rightarrow> plan_node list \<Rightarrow> plan_node list" where
  "put_kids [] f ns = f ns"
| "put_kids (i # p) f ns =
     ns[i := PlanNode (Op (ns ! i)) (Attrs (ns ! i)) (put_kids p f (Children (ns ! i)))]"

definition set_attr :: "nat list \<Rightarrow> string \<Rightarrow> string \<Rightarrow> plan_node list \<Rightarrow> plan_node list" where
  "set_attr p k v =
     put_kids (butlast p) (\<lambda>ns. ns[last p := PlanNode (Op (ns ! last p)) ((Attrs (ns ! last p))(k \<mapsto> v)) (Children (ns ! last p))])"

text \<open>\<open>stack\<close> has its top first; \<open>ownerByColumn\<close> takes the topmost entry of a column.\<close>

record explain_state =
  header :: "string \<Rightarrow> string option"
  roots :: "plan_node list"
  stack :: "(nat \<times> nat list) list"
  inHeader :: bool

definition ownerByColumn :: "(nat \<times> nat list) list \<Rightarrow> int \<Rightarrow> nat list option" where
  "ownerByColumn st c = map_option snd (find (\<lambda>e. int (fst e) = c) st)"

definition open_operator :: "nat \<Rightarrow> string \<Rightarrow> explain_state \<Rightarrow> explain_state" where
  "open_operator c name s =
     (let st = dropWhile (\<lambda>e. fst e \<ge> c) (stack s);
          p = (case st of [] \<Rightarrow> [] | e # _ \<Rightarrow> snd e);
          k = length (kids p (roots s))
      in s\<lparr>roots := put_kids p (\<lambda>ns. ns @ [PlanNode name Map.empty []]) (roots s),
           stack := (c, p @ [k]) # st, inHeader := False\<rparr>)"

definition row_error :: "nat \<Rightarrow> string \<Rightarrow> string" where
  "row_error i m = ''explain row '' @ itoa_nat i @ '': '' @ m"

definition explain_row :: "nat \<Rightarrow> string \<Rightarrow> explain_state \<Rightarrow> string + explain_state" where
  "explain_row i raw s =
     (let ln = trim_right_set (\<lambda>c. c = CHR '' '' \<or> c = CHR 0x09) raw in
      if ln = [] \<or> trim_space ln = middle_dot then Inr (s\<lparr>inHeader := False\<rparr>)
      else
        (case parseOperatorLine ln of
           Some (c, name) \<Rightarrow>
             if name = [] then Inl (row_error i (''bullet without operator name: '' @ quote raw))
             else Inr (open_operator c name s)
         | None \<Rightarrow>
             (let (c, content) = findContent ln in
              if content = [] then Inr s
              else if inHeader s then
                (case splitKV content of
                   None \<Rightarrow> Inl (row_error i (''header line is not key: value: '' @ quote raw))
                 | Some (k, v) \<Rightarrow> Inr (s\<lparr>header := (header s)(k \<mapsto> v)\<rparr>))
              else
                (case ownerByColumn (stack s) (c - 2) of
                   None \<Rightarrow> Inl (row_error i (''attribute at column '' @ itoa c
                     @ '' has no open operator at column '' @ itoa (c - 2) @ '' (raw: '' @ quote raw @ '')''))
                 | Some p \<Rightarrow>
                     (case splitKV content of
                        None \<Rightarrow> Inl (row_error i (''attribute is not key: value: '' @ quote raw))
                      | Some (k, v) \<Rightarrow> Inr (s\<lparr>roots := set_attr p k v (roots s)\<rparr>))))))"

fun explain_rows :: "nat \<Rightarrow> string list \<Rightarrow> explain_state \<Rightarrow> string + explain_state" where
  "explain_rows i [] s = Inr s"
| "explain_rows i (r # rs) s =
     (case explain_row i r s of Inl e \<Rightarrow> Inl e | Inr s' \<Rightarrow> explain_rows (i + 1) rs s')"

definition explain_start :: explain_state where
  "explain_start = \<lparr>header = Map.empty, roots = [], stack = [], inHeader = True\<rparr>"

definition parseExplainTree :: "string list \<Rightarrow> string + (string \<Rightarrow> string option) \<times> plan_node list" where
  "parseExplainTree rows =
     (if length rows = 0 then Inr (Map.empty, [])
      else (case explain_rows 0 rows explain_start of Inl e \<Rightarrow> Inl e | Inr s \<Rightarrow> Inr (header s, roots s)))"


section \<open>Every operator row becomes a node\<close>

fun preorder :: "plan_node \<Rightarrow> string list" where
  "preorder (PlanNode n a ks) = n # concat (map preorder ks)"

abbreviation operators :: "plan_node list \<Rightarrow> string list" where
  "operators ns \<equiv> concat (map preorder ns)"

text \<open>A path on the right spine: at every level it takes the last node.\<close>

fun on_spine :: "nat list \<Rightarrow> plan_node list \<Rightarrow> bool" where
  "on_spine [] ns \<longleftrightarrow> True"
| "on_spine (i # p) ns \<longleftrightarrow> ns \<noteq> [] \<and> i = length ns - 1 \<and> on_spine p (Children (last ns))"

definition stack_inv :: "(nat \<times> nat list) list \<Rightarrow> plan_node list \<Rightarrow> bool" where
  "stack_inv st ns \<longleftrightarrow> (\<forall>e \<in> set st. snd e \<noteq> [] \<and> on_spine (snd e) ns)
     \<and> sorted_wrt (\<lambda>a b. length (snd b) < length (snd a)) st"

lemma put_kids_spine:
  assumes "on_spine p ns"
  shows "operators (put_kids p (\<lambda>ks. ks @ [PlanNode n a []]) ns) = operators ns @ [n]"
  using assms
proof (induction p arbitrary: ns)
  case (Cons i p)
  then obtain ms m where ns: "ns = ms @ [m]" by (cases ns rule: rev_cases) auto
  with Cons show ?case by (cases m) (auto simp: nth_append)
qed simp

lemma put_kids_keeps:
  assumes "on_spine p ns" "on_spine q ns" "length q \<le> length p"
  shows "on_spine q (put_kids p (\<lambda>ks. ks @ [x]) ns)"
  using assms
proof (induction p arbitrary: q ns)
  case (Cons i p)
  then obtain ms m where ns: "ns = ms @ [m]" by (cases ns rule: rev_cases) auto
  with Cons show ?case by (cases q) (auto simp: nth_append)
qed simp

lemma put_kids_new:
  "on_spine p ns \<Longrightarrow> on_spine (p @ [length (kids p ns)]) (put_kids p (\<lambda>ks. ks @ [x]) ns)"
proof (induction p arbitrary: ns)
  case (Cons i p)
  then obtain ms m where ns: "ns = ms @ [m]" by (cases ns rule: rev_cases) auto
  with Cons show ?case by (auto simp: nth_append)
qed simp

lemma set_attr_Cons:
  "p \<noteq> [] \<Longrightarrow> set_attr (i # p) k v ns
    = ns[i := PlanNode (Op (ns ! i)) (Attrs (ns ! i)) (set_attr p k v (Children (ns ! i)))]"
  by (simp add: set_attr_def)

lemma set_attr_single:
  "set_attr [i] k v ns = ns[i := PlanNode (Op (ns ! i)) ((Attrs (ns ! i))(k \<mapsto> v)) (Children (ns ! i))]"
  by (simp add: set_attr_def)

lemma on_spine_last:
  assumes "\<And>q. on_spine q ks = on_spine q (Children m)"
  shows "on_spine q (ms @ [PlanNode n a ks]) = on_spine q (ms @ [m])"
  by (cases q) (auto simp: assms)

lemma preorder_node: "preorder m = Op m # operators (Children m)"
  by (cases m) simp

lemma set_attr_spine:
  assumes "on_spine p ns" "p \<noteq> []"
  shows "operators (set_attr p k v ns) = operators ns \<and> (\<forall>q. on_spine q (set_attr p k v ns) = on_spine q ns)"
  using assms
proof (induction p arbitrary: ns)
  case (Cons i p)
  then obtain ms m where ns: "ns = ms @ [m]" by (cases ns rule: rev_cases) auto
  have i: "i = length ms" "on_spine p (Children m)" using Cons.prems(1) by (auto simp: ns)
  show ?case
  proof (cases "p = []")
    case True
    have "set_attr (i # p) k v ns = ms @ [PlanNode (Op m) ((Attrs m)(k \<mapsto> v)) (Children m)]"
      by (simp add: True set_attr_single ns i)
    then show ?thesis by (simp add: ns preorder_node on_spine_last)
  next
    case False
    let ?ks = "set_attr p k v (Children m)"
    have IH: "operators ?ks = operators (Children m)" "\<And>q. on_spine q ?ks = on_spine q (Children m)"
      using Cons.IH [OF i(2) False] by simp_all
    have "set_attr (i # p) k v ns = ms @ [PlanNode (Op m) (Attrs m) ?ks]"
      by (simp add: set_attr_Cons [OF False] ns i)
    then show ?thesis by (simp add: ns IH(1) preorder_node on_spine_last [OF IH(2)])
  qed
qed simp

lemma stack_inv_dropWhile: "stack_inv st ns \<Longrightarrow> stack_inv (dropWhile P st) ns"
  by (auto simp: stack_inv_def sorted_wrt_dropWhile dest: set_dropWhileD)

lemma open_operator_inv:
  assumes "stack_inv (stack s) (roots s)"
  shows "stack_inv (stack (open_operator c n s)) (roots (open_operator c n s))
    \<and> operators (roots (open_operator c n s)) = operators (roots s) @ [n]"
proof -
  define st where "st = dropWhile (\<lambda>e. fst e \<ge> c) (stack s)"
  define p where "p = (case st of [] \<Rightarrow> [] | e # _ \<Rightarrow> snd e)"
  have inv: "stack_inv st (roots s)" using stack_inv_dropWhile [OF assms] by (simp add: st_def)
  then have p: "on_spine p (roots s)" by (auto simp: p_def stack_inv_def split: list.split)
  have len: "length (snd e) \<le> length p" if "e \<in> set st" for e
    using that inv by (fastforce simp: p_def stack_inv_def split: list.splits)
  have "stack_inv ((c, p @ [length (kids p (roots s))]) # st)
      (put_kids p (\<lambda>ns. ns @ [PlanNode n Map.empty []]) (roots s))"
    using inv p put_kids_keeps [OF p] put_kids_new [OF p] len
    by (auto simp: stack_inv_def le_imp_less_Suc)
  then show ?thesis
    using put_kids_spine [OF p] by (simp add: open_operator_def Let_def st_def [symmetric] p_def [symmetric])
qed

definition separator :: "string \<Rightarrow> bool" where
  "separator raw \<longleftrightarrow> (let ln = trim_right_set (\<lambda>c. c = CHR '' '' \<or> c = CHR 0x09) raw in ln = [] \<or> trim_space ln = middle_dot)"

definition row_operator :: "string \<Rightarrow> string list" where
  "row_operator raw =
     (if separator raw then []
      else case parseOperatorLine (trim_right_set (\<lambda>c. c = CHR '' '' \<or> c = CHR 0x09) raw) of
        None \<Rightarrow> [] | Some (c, n) \<Rightarrow> [n])"

lemma explain_row_inv:
  assumes "explain_row i raw s = Inr s'" "stack_inv (stack s) (roots s)"
  shows "stack_inv (stack s') (roots s') \<and> operators (roots s') = operators (roots s) @ row_operator raw"
proof -
  define ln where "ln = trim_right_set (\<lambda>c. c = CHR '' '' \<or> c = CHR 0x09) raw"
  have owner: "p \<noteq> [] \<and> on_spine p (roots s)" if own: "ownerByColumn (stack s) c = Some p" for c p
  proof -
    obtain e where e: "find (\<lambda>e. int (fst e) = c) (stack s) = Some e" "p = snd e"
      using own by (auto simp: ownerByColumn_def)
    then have "e \<in> set (stack s)" by (metis find_Some_iff nth_mem)
    with e(2) assms(2) show ?thesis by (simp add: stack_inv_def)
  qed
  have attr: "stack_inv (stack s) (set_attr p k v (roots s)) \<and> operators (set_attr p k v (roots s)) = operators (roots s)"
    if "ownerByColumn (stack s) c = Some p" for c p k v
    using owner [OF that] set_attr_spine [of p "roots s" k v] assms(2) by (simp add: stack_inv_def)
  show ?thesis
    using assms open_operator_inv [OF assms(2)] attr
    by (auto simp: explain_row_def Let_def row_operator_def separator_def ln_def [symmetric]
        split: if_splits option.splits prod.splits)
qed

lemma explain_rows_inv:
  assumes "explain_rows i rows s = Inr s'" "stack_inv (stack s) (roots s)"
  shows "stack_inv (stack s') (roots s') \<and> operators (roots s') = operators (roots s) @ concat (map row_operator rows)"
  using assms
proof (induction i rows s rule: explain_rows.induct)
  case (2 i r rs s)
  then obtain s1 where s1: "explain_row i r s = Inr s1" by (auto split: sum.splits)
  with 2(2) have "explain_rows (i + 1) rs s1 = Inr s'" by simp
  with 2(1) [OF s1] explain_row_inv [OF s1 2(3)] show ?case by simp
qed simp

text \<open>When the parser succeeds, no operator row is dropped or reordered: the operators of the returned
  forest in preorder are the operator rows of the input in order.\<close>

theorem parseExplainTree_operators:
  assumes "parseExplainTree rows = Inr (hdr, plan)"
  shows "operators plan = concat (map row_operator rows)"
proof (cases "rows = []")
  case True
  with assms show ?thesis by (simp add: parseExplainTree_def)
next
  case False
  with assms obtain s where "explain_rows 0 rows explain_start = Inr s" "plan = roots s"
    by (auto simp: parseExplainTree_def split: sum.splits)
  with explain_rows_inv [of 0 rows explain_start s] show ?thesis
    by (simp add: explain_start_def stack_inv_def)
qed

section \<open>What is printed is parsed back\<close>

text \<open>Rows as the cluster prints a plan: a child hangs on a connector, a continuation row before it.\<close>

datatype shown = Shown (shown_op: string) (shown_attrs: "(string \<times> string) list") (shown_subs: "shown list")

fun with_attrs :: "(string \<Rightarrow> string option) \<Rightarrow> (string \<times> string) list \<Rightarrow> string \<Rightarrow> string option" where
  "with_attrs m [] = m"
| "with_attrs m (kv # as) = with_attrs (m(fst kv \<mapsto> snd kv)) as"

fun plan_of :: "shown \<Rightarrow> plan_node" where
  "plan_of (Shown n as ss) = PlanNode n (with_attrs Map.empty as) (map plan_of ss)"

definition attr_row :: "string list \<Rightarrow> string \<times> string \<Rightarrow> string" where
  "attr_row g kv = concat g @ fst kv @ '': '' @ snd kv"

fun show_node :: "string list \<Rightarrow> string list \<Rightarrow> shown \<Rightarrow> string list"
and show_subs :: "string list \<Rightarrow> shown list \<Rightarrow> string list" where
  "show_node first rest (Shown n as ss) =
     (concat first @ bullet @ '' '' @ n)
     # map (attr_row (rest @ (if ss = [] then ['' '', '' ''] else [pipe, '' '']))) as @ show_subs rest ss"
| "show_subs rest [] = []"
| "show_subs rest (s # ss) =
     (concat rest @ pipe)
     # show_node (rest @ [if ss = [] then corner else tee, dash, dash, '' ''])
         (rest @ [if ss = [] then '' '' else pipe, '' '', '' '', '' '']) s
     @ show_subs rest ss"

definition show_plan :: "(string \<times> string) list \<Rightarrow> shown list \<Rightarrow> string list" where
  "show_plan hdr ts = map (attr_row []) hdr @ [[]] @ concat (map (show_node [] []) ts)"

text \<open>The texts a plan may hold: valid UTF-8 with no white space at its ends; an attribute starts with a rune
  that draws no tree and its key has no colon.\<close>

definition clean :: "string \<Rightarrow> bool" where
  "clean s \<longleftrightarrow> s \<noteq> [] \<and> trimmed s \<and> from_runes (runes s) = s"

definition clean_attr :: "string \<times> string \<Rightarrow> bool" where
  "clean_attr kv \<longleftrightarrow> trimmed (fst kv) \<and> trimmed (snd kv) \<and> CHR '':'' \<notin> set (fst kv) \<and> clean (attr_row [] kv)
     \<and> hd (runes (attr_row [] kv)) \<noteq> bullet \<and> \<not> isTreeGlyph (hd (runes (attr_row [] kv)))"

fun clean_node :: "shown \<Rightarrow> bool" where
  "clean_node (Shown n as ss) \<longleftrightarrow> clean n \<and> list_all clean_attr as \<and> list_all clean_node ss"

subsection \<open>Rows\<close>

lemmas glyph_defs = bullet_def pipe_def corner_def tee_def dash_def

lemma runes_glyph:
  assumes "isTreeGlyph g \<or> g = bullet" shows "runes (g @ s) = g # runes s"
proof -
  have "g \<noteq> [] \<and> rune_width (g @ s) = length g"
    using assms by (auto simp: isTreeGlyph_def glyph_defs rune_width_def byte_of_def second_ok_def is_cont_def)
  then show ?thesis by (subst runes.simps) simp
qed

lemma runes_glyphs: "list_all isTreeGlyph g \<Longrightarrow> runes (concat g @ s) = g @ runes s"
  by (induction g) (auto simp: runes_glyph)

lemma bullet_no_glyph: "\<not> isTreeGlyph bullet"
  by (simp add: isTreeGlyph_def glyph_defs)

lemma scan_operator_glyphs:
  "list_all isTreeGlyph g \<Longrightarrow> scan_operator i (g @ rs) = scan_operator (i + length g) rs"
  using bullet_no_glyph by (induction g arbitrary: i) auto

lemma scan_content_glyphs:
  "list_all isTreeGlyph g \<Longrightarrow> scan_content i (g @ rs) = scan_content (i + length g) rs"
  by (induction g arbitrary: i) auto

lemma strip_any_bytes: "set s \<subseteq> set (strip_any ws s) \<union> \<Union> (set ` set ws)"
proof (induction ws s rule: strip_any.induct)
  case (1 ws s)
  show ?case
  proof (cases "find (\<lambda>w. w \<noteq> [] \<and> has_prefix s w) ws")
    case None
    then show ?thesis by (subst strip_any.simps) auto
  next
    case (Some w)
    then have w: "w \<in> set ws" "take (length w) s = w" by (auto simp: find_Some_iff has_prefix_def)
    have "set s = set (take (length w) s) \<union> set (drop (length w) s)" by (metis append_take_drop_id set_append)
    with 1 [OF Some] w Some show ?thesis by (subst strip_any.simps) auto
  qed
qed

lemma trim_space_bytes: "c \<in> set s \<Longrightarrow> c \<in> set (trim_space s) \<or> (\<exists>w \<in> set white_space. c \<in> set w)"
  using strip_any_bytes [of s white_space] strip_any_bytes [of "rev (strip_any white_space s)" "map rev white_space"]
  by (auto simp: trim_space_def)

text \<open>A row with a byte no white space has is not a separator.\<close>

lemma no_separator:
  assumes "c \<in> set s" "c \<notin> \<Union> (set ` set white_space)" "c \<notin> {CHR 0xC2, CHR 0xB7}"
  shows "s \<noteq> [] \<and> trim_space s \<noteq> middle_dot"
  using assms trim_space_bytes [OF assms(1)] by (auto simp: middle_dot_def)

lemma row_bytes:
  "CHR 0xA2 \<notin> \<Union> (set ` set white_space)" "CHR '':'' \<notin> \<Union> (set ` set white_space)"
  "CHR 0x94 \<notin> \<Union> (set ` set white_space)"
  by (auto simp: white_space_def)

lemma trimmed_last:
  assumes "trimmed s" "s \<noteq> []" shows "last s \<noteq> CHR '' '' \<and> last s \<noteq> CHR 0x09"
proof -
  have "['' '', [CHR 0x09]] \<noteq> []" by simp
  obtain t c where s: "s = t @ [c]" using assms(2) by (cases s rule: rev_cases) auto
  have "'' '' \<in> set white_space" "[CHR 0x09] \<in> set white_space" by (simp_all add: white_space_def)
  with assms(1) have "\<not> has_prefix (rev s) (rev '' '')" "\<not> has_prefix (rev s) (rev [CHR 0x09])"
    unfolding trimmed_def by blast+
  then show ?thesis by (simp add: s has_prefix_def)
qed

lemma trim_right_id: "s \<noteq> [] \<Longrightarrow> \<not> P (last s) \<Longrightarrow> trim_right_set P s = s"
  by (cases s rule: rev_cases) (auto simp: trim_right_set_def)

abbreviation blank_end :: "char \<Rightarrow> bool" where
  "blank_end c \<equiv> c = CHR '' '' \<or> c = CHR 0x09"

lemma operator_row:
  assumes "list_all isTreeGlyph g" "clean n"
  shows "explain_row i (concat g @ bullet @ '' '' @ n) s = Inr (open_operator (length g) n s)"
proof -
  let ?r = "concat g @ bullet @ '' '' @ n"
  have n: "n \<noteq> []" "trimmed n" "from_runes (runes n) = n" using assms(2) by (auto simp: clean_def)
  have t: "trim_right_set blank_end ?r = ?r" using trimmed_last [OF n(2,1)] n(1) by (intro trim_right_id) auto
  have ne: "?r \<noteq> [] \<and> trim_space ?r \<noteq> middle_dot"
    by (rule no_separator [of "CHR 0xA2"]) (use row_bytes(1) in \<open>auto simp: bullet_def\<close>)
  have "from_runes ('' '' # runes n) = CHR '' '' # n" using n(3) by (simp add: from_runes_def rune_bytes_def byte_of_def)
  then have "parseOperatorLine ?r = Some (length g, n)"
    using assms(1) n(2) runes_glyph [of "'' ''" n] runes_glyph [of bullet "'' '' @ n"]
    by (simp add: parseOperatorLine_def runes_glyphs scan_operator_glyphs trim_space_space isTreeGlyph_def)
  with t ne n(1) show ?thesis by (simp add: explain_row_def Let_def)
qed

lemma glyph_row:
  assumes "list_all isTreeGlyph g"
  shows "explain_row i (concat g @ pipe) s = Inr s"
proof -
  let ?r = "concat g @ pipe"
  have t: "trim_right_set blank_end ?r = ?r" by (rule trim_right_id) (auto simp: pipe_def)
  have ne: "?r \<noteq> [] \<and> trim_space ?r \<noteq> middle_dot"
    by (rule no_separator [of "CHR 0x94"]) (use row_bytes(3) in \<open>auto simp: pipe_def\<close>)
  have p: "isTreeGlyph pipe" by (simp add: isTreeGlyph_def)
  have "runes ?r = g @ [pipe]" using assms runes_glyphs [of g pipe] runes_glyph [of pipe "[]"] p by simp
  then have "parseOperatorLine ?r = None" "findContent ?r = (-1, [])"
    using assms p bullet_no_glyph
    by (auto simp: parseOperatorLine_def findContent_def scan_operator_glyphs scan_content_glyphs)
  with t ne show ?thesis by (auto simp: explain_row_def Let_def pipe_def)
qed

lemma str_index_colon: "CHR '':'' \<notin> set k \<Longrightarrow> str_index (k @ CHR '':'' # v) '':'' = Some (length k)"
  by (induction k) (auto simp: has_prefix_def)

lemma splitKV_attr: "clean_attr kv \<Longrightarrow> splitKV (attr_row [] kv) = Some kv"
  using str_index_colon [of "fst kv" "CHR '' '' # snd kv"]
  by (cases kv) (auto simp: clean_attr_def attr_row_def splitKV_def trim_space_trimmed trim_space_space)

lemma attribute_row:
  assumes "list_all isTreeGlyph g" "clean_attr kv"
  shows "explain_row i (attr_row g kv) s =
    (if inHeader s then Inr (s\<lparr>header := (header s)(fst kv \<mapsto> snd kv)\<rparr>)
     else case ownerByColumn (stack s) (int (length g) - 2) of
       None \<Rightarrow> explain_row i (attr_row g kv) s
     | Some p \<Rightarrow> Inr (s\<lparr>roots := set_attr p (fst kv) (snd kv) (roots s)\<rparr>))"
proof -
  let ?c = "attr_row [] kv"
  have row: "attr_row g kv = concat g @ ?c" by (simp add: attr_row_def)
  have c: "?c \<noteq> []" "trimmed ?c" "from_runes (runes ?c) = ?c" "hd (runes ?c) \<noteq> bullet" "\<not> isTreeGlyph (hd (runes ?c))"
    using assms(2) by (auto simp: clean_attr_def clean_def)
  have t: "trim_right_set blank_end (concat g @ ?c) = concat g @ ?c"
    using trimmed_last [OF c(2,1)] c(1) by (intro trim_right_id) auto
  have ne: "concat g @ ?c \<noteq> [] \<and> trim_space (concat g @ ?c) \<noteq> middle_dot"
    by (rule no_separator [of "CHR '':''"]) (use row_bytes(2) in \<open>auto simp: attr_row_def\<close>)
  obtain r t where rt: "runes ?c = r # t" using c(1) by (cases "runes ?c") (simp_all add: runes.simps [of ?c])
  then have r: "r \<noteq> bullet" "\<not> isTreeGlyph r" "from_runes (r # t) = ?c" using c by simp_all
  have rs: "runes (concat g @ ?c) = g @ r # t" using runes_glyphs [OF assms(1), of ?c] rt by simp
  have "parseOperatorLine (concat g @ ?c) = None" "findContent (concat g @ ?c) = (int (length g), ?c)"
    using r c(2) assms(1)
    by (simp_all add: parseOperatorLine_def findContent_def rs scan_operator_glyphs scan_content_glyphs trim_space_trimmed)
  with t ne c(1) splitKV_attr [OF assms(2)] show ?thesis
    by (auto simp: explain_row_def Let_def row split: option.split prod.split)
qed

subsection \<open>Trees\<close>

fun valid_path :: "nat list \<Rightarrow> plan_node list \<Rightarrow> bool" where
  "valid_path [] ns \<longleftrightarrow> True"
| "valid_path (i # p) ns \<longleftrightarrow> i < length ns \<and> valid_path p (Children (ns ! i))"

lemma put_kids_compose:
  "valid_path p ns \<Longrightarrow> put_kids p f (put_kids p g ns) = put_kids p (f \<circ> g) ns"
  by (induction p arbitrary: ns) auto

lemma kids_put_kids: "valid_path p ns \<Longrightarrow> kids p (put_kids p f ns) = f (kids p ns)"
  by (induction p arbitrary: ns) auto

lemma valid_put_kids: "valid_path p ns \<Longrightarrow> valid_path p (put_kids p f ns)"
  by (induction p arbitrary: ns) auto

lemma put_kids_cong: "valid_path p ns \<Longrightarrow> f (kids p ns) = g (kids p ns) \<Longrightarrow> put_kids p f ns = put_kids p g ns"
  by (induction p arbitrary: ns) auto

lemma put_kids_id: "valid_path p ns \<Longrightarrow> put_kids p (\<lambda>ks. ks) ns = ns"
  by (induction p arbitrary: ns) auto

lemma valid_path_snoc: "valid_path (p @ [k]) ns \<longleftrightarrow> valid_path p ns \<and> k < length (kids p ns)"
  by (induction p arbitrary: ns) auto

lemma put_kids_snoc:
  "valid_path p ns \<Longrightarrow> put_kids (p @ [k]) f ns
    = put_kids p (\<lambda>ks. ks[k := PlanNode (Op (ks ! k)) (Attrs (ks ! k)) (f (Children (ks ! k)))]) ns"
  by (induction p arbitrary: ns) auto

text \<open>The node a path was just opened for: the next attribute or child goes into it.\<close>

abbreviation add_node :: "nat list \<Rightarrow> plan_node \<Rightarrow> plan_node list \<Rightarrow> plan_node list" where
  "add_node p n \<equiv> put_kids p (\<lambda>ks. ks @ [n])"

lemma set_attr_new:
  assumes "valid_path p ns"
  shows "set_attr (p @ [length (kids p ns)]) k v (add_node p (PlanNode n m cs) ns) = add_node p (PlanNode n (m(k \<mapsto> v)) cs) ns"
  using assms by (auto simp: set_attr_def put_kids_compose intro!: put_kids_cong)

lemma put_kids_new_node:
  assumes "valid_path p ns"
  shows "put_kids (p @ [length (kids p ns)]) f (add_node p (PlanNode n m cs) ns) = add_node p (PlanNode n m (f cs)) ns"
  using assms by (auto simp: put_kids_snoc valid_put_kids put_kids_compose intro!: put_kids_cong)

lemma valid_new_node: "valid_path p ns \<Longrightarrow> valid_path (p @ [length (kids p ns)]) (add_node p n ns)"
  by (simp add: valid_path_snoc valid_put_kids kids_put_kids)

text \<open>Rows that are read without an error from state \<open>s\<close>, and lead to \<open>s'\<close>.\<close>

definition reads :: "string list \<Rightarrow> explain_state \<Rightarrow> explain_state \<Rightarrow> bool" where
  "reads rows s s' \<longleftrightarrow> (\<forall>i. explain_rows i rows s = Inr s')"

lemma reads_Nil: "reads [] s s"
  by (simp add: reads_def)

lemma reads_Cons: "(\<And>i. explain_row i r s = Inr s1) \<Longrightarrow> reads rs s1 s' \<Longrightarrow> reads (r # rs) s s'"
  by (simp add: reads_def)

lemma reads_append: "reads rs s s1 \<Longrightarrow> reads rs' s1 s' \<Longrightarrow> reads (rs @ rs') s s'"
proof -
  have app: "explain_rows i (rs @ rs') s = (case explain_rows i rs s of Inl e \<Rightarrow> Inl e
      | Inr s1 \<Rightarrow> explain_rows (i + length rs) rs' s1)" for i
    by (induction i rs s rule: explain_rows.induct) (auto split: sum.split)
  show "reads rs s s1 \<Longrightarrow> reads rs' s1 s' \<Longrightarrow> reads (rs @ rs') s s'" by (simp add: reads_def app)
qed

lemma reads_header:
  assumes "list_all clean_attr as" "inHeader s"
  shows "reads (map (attr_row []) as) s (s\<lparr>header := with_attrs (header s) as\<rparr>)"
  using assms
proof (induction as arbitrary: s)
  case Nil then show ?case by (simp add: reads_Nil)
next
  case (Cons kv as)
  let ?s = "s\<lparr>header := (header s)(fst kv \<mapsto> snd kv)\<rparr>"
  have "explain_row i (attr_row [] kv) s = Inr ?s" for i
    using attribute_row [of "[]" kv i s] Cons.prems by simp
  moreover have "reads (map (attr_row []) as) ?s (?s\<lparr>header := with_attrs (header ?s) as\<rparr>)"
    using Cons.IH [of ?s] Cons.prems by (simp del: fun_upd_apply)
  ultimately show ?case by (auto intro: reads_Cons)
qed

lemma reads_attrs:
  assumes "list_all isTreeGlyph g" "list_all clean_attr as" "length g = c + 2" "\<not> inHeader s"
    and "stack s = (c, p @ [length (kids p ns)]) # st" "roots s = add_node p (PlanNode n m []) ns" "valid_path p ns"
  shows "reads (map (attr_row g) as) s
    (s\<lparr>roots := add_node p (PlanNode n (with_attrs m as) []) ns\<rparr>)"
  using assms(2-)
proof (induction as arbitrary: s m)
  case Nil
  then have "s\<lparr>roots := add_node p (PlanNode n m []) ns\<rparr> = s" by simp
  then show ?case by (simp add: reads_Nil)
next
  case (Cons kv as)
  let ?m = "m(fst kv \<mapsto> snd kv)"
  let ?s = "s\<lparr>roots := add_node p (PlanNode n ?m []) ns\<rparr>"
  have "ownerByColumn (stack s) (int (length g) - 2) = Some (p @ [length (kids p ns)])"
    using Cons.prems by (simp add: ownerByColumn_def)
  then have "explain_row i (attr_row g kv) s = Inr ?s" for i
    using attribute_row [OF assms(1), of kv i s] Cons.prems by (simp add: set_attr_new)
  moreover have "reads (map (attr_row g) as) ?s
      (?s\<lparr>roots := add_node p (PlanNode n (with_attrs ?m as) []) ns\<rparr>)"
    using Cons.IH [of ?s ?m] Cons.prems by (simp del: fun_upd_apply)
  ultimately show ?case by (auto intro: reads_Cons)
qed

text \<open>Reading a printed node adds it below the node on top of the stack, once the entries at its column and
  deeper are popped.\<close>

definition parent :: "(nat \<times> nat list) list \<Rightarrow> nat list" where
  "parent st = (case st of [] \<Rightarrow> [] | e # _ \<Rightarrow> snd e)"

lemma glyph_lists:
  "list_all isTreeGlyph (rest @ [if b then corner else tee, dash, dash, '' '']) = list_all isTreeGlyph rest"
  "list_all isTreeGlyph (rest @ [if b then '' '' else pipe, '' '', '' '', '' '']) = list_all isTreeGlyph rest"
  "list_all isTreeGlyph (rest @ (if b then ['' '', '' ''] else [pipe, '' ''])) = list_all isTreeGlyph rest"
  by (auto simp: isTreeGlyph_def)

lemma dropWhile_stack:
  "(\<forall>e \<in> set xs. (c :: nat) \<le> fst e) \<Longrightarrow> (\<forall>e \<in> set st. fst e < c) \<Longrightarrow> dropWhile (\<lambda>e. fst e \<ge> c) (xs @ st) = st"
  by (induction xs) (auto simp: dropWhile_eq_self_iff, (cases st; auto)+)

lemma reads_node_subs:
  "list_all isTreeGlyph first \<Longrightarrow> list_all isTreeGlyph rest \<Longrightarrow> length first = c \<Longrightarrow> length rest = c \<Longrightarrow> clean_node t \<Longrightarrow>
   stack s = xs @ st \<Longrightarrow> \<forall>e \<in> set xs. c \<le> fst e \<Longrightarrow> \<forall>e \<in> set st. fst e < c \<Longrightarrow> valid_path (parent st) (roots s) \<Longrightarrow>
   \<exists>ys. (\<forall>e \<in> set ys. c \<le> fst e) \<and> reads (show_node first rest t) s
     (s\<lparr>roots := add_node (parent st) (plan_of t) (roots s), stack := ys @ st, inHeader := False\<rparr>)"
  "list_all isTreeGlyph rest \<Longrightarrow> length rest = c \<Longrightarrow> list_all clean_node ts \<Longrightarrow> \<not> inHeader s \<Longrightarrow>
   stack s = xs @ st \<Longrightarrow> \<forall>e \<in> set xs. c + 4 \<le> fst e \<Longrightarrow> \<forall>e \<in> set st. fst e < c + 4 \<Longrightarrow> valid_path (parent st) (roots s) \<Longrightarrow>
   \<exists>ys. (\<forall>e \<in> set ys. c + 4 \<le> fst e) \<and> reads (show_subs rest ts) s
     (s\<lparr>roots := put_kids (parent st) (\<lambda>ks. ks @ map plan_of ts) (roots s), stack := ys @ st\<rparr>)"
proof (induction first rest t and rest ts arbitrary: c s xs st and c s xs st rule: show_node_show_subs.induct)
  case (1 first rest n as ss)
  let ?p = "parent st" and ?k = "length (kids (parent st) (roots s))"
  let ?s1 = "open_operator c n s"
  let ?A = "with_attrs Map.empty as"
  let ?s2 = "?s1\<lparr>roots := add_node ?p (PlanNode n ?A []) (roots s)\<rparr>"
  have s1: "?s1 = s\<lparr>roots := add_node ?p (PlanNode n Map.empty []) (roots s), stack := (c, ?p @ [?k]) # st, inHeader := False\<rparr>"
    by (simp add: open_operator_def Let_def 1(7) dropWhile_stack [OF 1(8,9)] parent_def [symmetric])
  have op: "explain_row i (concat first @ bullet @ '' '' @ n) s = Inr ?s1" for i
    using operator_row [OF 1(2), of n i s] 1(4,6) by simp
  have attrs: "reads (map (attr_row (rest @ (if ss = [] then ['' '', '' ''] else [pipe, '' '']))) as) ?s1 ?s2"
  proof -
    have g: "list_all isTreeGlyph (rest @ (if ss = [] then ['' '', '' ''] else [pipe, '' '']))"
      "length (rest @ (if ss = [] then ['' '', '' ''] else [pipe, '' ''])) = c + 2"
      using 1(3,5) by (simp_all add: glyph_lists del: list_all_append)
    have "reads (map (attr_row (rest @ (if ss = [] then ['' '', '' ''] else [pipe, '' '']))) as) ?s1
        (?s1\<lparr>roots := add_node ?p (PlanNode n ?A []) (roots s)\<rparr>)"
      by (rule reads_attrs [OF g(1) _ g(2), where st = st and m = Map.empty]) (use 1(6,10) in \<open>simp_all add: s1\<close>)
    then show ?thesis .
  qed
  have prems: "list_all clean_node ss" "\<not> inHeader ?s2" "stack ?s2 = [] @ (c, ?p @ [?k]) # st"
    "\<forall>e \<in> set []. c + 4 \<le> fst (e :: nat \<times> nat list)" "\<forall>e \<in> set ((c, ?p @ [?k]) # st). fst e < c + 4"
    using 1(6,9) by (auto simp: s1)
  have valid: "valid_path (parent ((c, ?p @ [?k]) # st)) (roots ?s2)"
    using valid_new_node [OF 1(10)] by (simp add: s1 parent_def)
  obtain ys where ys: "\<forall>e \<in> set ys. c + 4 \<le> fst e" "reads (show_subs rest ss) ?s2
      (?s2\<lparr>roots := put_kids (?p @ [?k]) (\<lambda>ks. ks @ map plan_of ss) (roots ?s2), stack := ys @ (c, ?p @ [?k]) # st\<rparr>)"
    using 1(1) [OF 1(3,5) prems valid] by (auto simp: parent_def)
  have "put_kids (?p @ [?k]) (\<lambda>ks. ks @ map plan_of ss) (roots ?s2) = add_node ?p (plan_of (Shown n as ss)) (roots s)"
    using put_kids_new_node [OF 1(10)] by simp
  moreover have order: "s\<lparr>roots := R, stack := X, inHeader := False\<rparr> = s\<lparr>inHeader := False, roots := R, stack := X\<rparr>"
    for R X by (cases s) simp
  ultimately have subs: "reads (show_subs rest ss) ?s2 (s\<lparr>roots := add_node ?p (plan_of (Shown n as ss)) (roots s),
      stack := (ys @ [(c, ?p @ [?k])]) @ st, inHeader := False\<rparr>)"
    using ys(2) by (simp add: s1 order)
  have "\<forall>e \<in> set (ys @ [(c, ?p @ [?k])]). c \<le> fst e" using ys(1) by auto
  moreover have "reads (show_node first rest (Shown n as ss)) s (s\<lparr>roots := add_node ?p (plan_of (Shown n as ss)) (roots s),
      stack := (ys @ [(c, ?p @ [?k])]) @ st, inHeader := False\<rparr>)"
    unfolding show_node.simps by (rule reads_Cons [OF op reads_append [OF attrs subs]])
  ultimately show ?case by blast
next
  case (2 rest)
  have "s\<lparr>roots := put_kids (parent st) (\<lambda>ks. ks @ map plan_of []) (roots s), stack := xs @ st\<rparr> = s"
    using put_kids_id [OF 2(8)] 2(5) by simp
  then show ?case using 2(6) reads_Nil [of s] by (intro exI [of _ xs]) simp
next
  case (3 rest t ts)
  let ?f = "rest @ [if ts = [] then corner else tee, dash, dash, '' '']"
  let ?r = "rest @ [if ts = [] then '' '' else pipe, '' '', '' '', '' '']"
  let ?R = "add_node (parent st) (plan_of t) (roots s)"
  have spacer: "explain_row i (concat rest @ pipe) s = Inr s" for i using glyph_row 3(3) by blast
  have "list_all isTreeGlyph ?f" "list_all isTreeGlyph ?r" "length ?f = c + 4" "length ?r = c + 4" "clean_node t"
    using 3(3-5) by (simp_all add: glyph_lists del: list_all_append)
  from 3(1) [OF this 3(7-10)] obtain ys where ys: "\<forall>e \<in> set ys. c + 4 \<le> fst e"
    "reads (show_node ?f ?r t) s (s\<lparr>roots := ?R, stack := ys @ st, inHeader := False\<rparr>)" by blast
  let ?s = "s\<lparr>roots := ?R, stack := ys @ st, inHeader := False\<rparr>"
  have "list_all clean_node ts" "\<not> inHeader ?s" "stack ?s = ys @ st" "valid_path (parent st) (roots ?s)"
    using 3(5) valid_put_kids [OF 3(10)] by simp_all
  from 3(2) [OF 3(3,4) this(1-3) ys(1) 3(9) this(4)] obtain zs where zs: "\<forall>e \<in> set zs. c + 4 \<le> fst e"
    "reads (show_subs rest ts) ?s
      (?s\<lparr>roots := put_kids (parent st) (\<lambda>ks. ks @ map plan_of ts) (roots ?s), stack := zs @ st\<rparr>)" by blast
  have "put_kids (parent st) (\<lambda>ks. ks @ map plan_of ts) ?R = put_kids (parent st) (\<lambda>ks. ks @ map plan_of (t # ts)) (roots s)"
    using put_kids_compose [OF 3(10)] by (simp add: comp_def)
  moreover have "inHeader s = False" using 3(6) by simp
  ultimately have "?s\<lparr>roots := put_kids (parent st) (\<lambda>ks. ks @ map plan_of ts) (roots ?s), stack := zs @ st\<rparr>
      = s\<lparr>roots := put_kids (parent st) (\<lambda>ks. ks @ map plan_of (t # ts)) (roots s), stack := zs @ st\<rparr>"
    by simp
  then have "reads (show_subs rest (t # ts)) s
      (s\<lparr>roots := put_kids (parent st) (\<lambda>ks. ks @ map plan_of (t # ts)) (roots s), stack := zs @ st\<rparr>)"
    unfolding show_subs.simps using reads_Cons [OF spacer reads_append [OF ys(2) zs(2)]] by simp
  with zs(1) show ?case by blast
qed

text \<open>C22: A plan the cluster prints is parsed back: for every forest of operators with attributes, drawn as
  \<open>EXPLAIN\<close> draws it under its header lines, the parser returns the header and the forest, every
  attribute with its own operator and every operator under its parent.\<close>

theorem parseExplainTree_show:
  assumes "list_all clean_attr hdr" "list_all clean_node ts"
  shows "parseExplainTree (show_plan hdr ts) = Inr (with_attrs Map.empty hdr, map plan_of ts)"
proof -
  let ?s1 = "explain_start\<lparr>header := with_attrs Map.empty hdr\<rparr>"
  let ?s2 = "?s1\<lparr>inHeader := False\<rparr>"
  have hdr: "reads (map (attr_row []) hdr) explain_start ?s1"
    using reads_header [OF assms(1), of explain_start] by (simp add: explain_start_def)
  have sep: "reads [[]] ?s1 ?s2" by (simp add: reads_def explain_row_def trim_right_set_def)
  have "\<exists>st. reads (concat (map (show_node [] []) ts)) s (s\<lparr>roots := roots s @ map plan_of ts, stack := st\<rparr>)"
    if "\<not> inHeader s" for s
    using assms(2) that
  proof (induction ts arbitrary: s)
    case Nil
    have "s\<lparr>roots := roots s @ [], stack := stack s\<rparr> = s" by simp
    then show ?case using reads_Nil [of s] by (intro exI [of _ "stack s"]) simp
  next
    case (Cons t ts)
    from reads_node_subs(1) [of "[]" "[]" 0 t s "stack s" "[]"] Cons.prems obtain ys where
      t: "reads (show_node [] [] t) s (s\<lparr>roots := roots s @ [plan_of t], stack := ys, inHeader := False\<rparr>)"
      by (auto simp: parent_def)
    let ?s = "s\<lparr>roots := roots s @ [plan_of t], stack := ys, inHeader := False\<rparr>"
    from Cons.IH [of ?s] Cons.prems obtain st where
      "reads (concat (map (show_node [] []) ts)) ?s (?s\<lparr>roots := roots ?s @ map plan_of ts, stack := st\<rparr>)" by auto
    moreover have "?s\<lparr>roots := roots ?s @ map plan_of ts, stack := st\<rparr>
        = s\<lparr>roots := roots s @ map plan_of (t # ts), stack := st\<rparr>"
      using Cons.prems(2) by (cases s) simp
    ultimately have "reads (show_node [] [] t @ concat (map (show_node [] []) ts)) s
        (s\<lparr>roots := roots s @ map plan_of (t # ts), stack := st\<rparr>)" using reads_append [OF t] by simp
    then show ?case by auto
  qed
  from this [of ?s2] obtain st where
    "reads (concat (map (show_node [] []) ts)) ?s2 (?s2\<lparr>roots := roots ?s2 @ map plan_of ts, stack := st\<rparr>)" by auto
  from reads_append [OF hdr reads_append [OF sep this]]
  have "explain_rows 0 (show_plan hdr ts) explain_start
      = Inr (?s2\<lparr>roots := roots ?s2 @ map plan_of ts, stack := st\<rparr>)" by (simp add: reads_def show_plan_def)
  then show ?thesis by (simp add: parseExplainTree_def show_plan_def explain_start_def)
qed

text \<open>A join of a scan with an attribute and a bare scan.\<close>

definition sample_plan :: "shown list" where
  "sample_plan = [Shown ''join'' [(''type'', ''inner'')] [Shown ''scan'' [(''table'', ''t@pk'')] [], Shown ''scan'' [] []]]"

definition sample_header :: "(string \<times> string) list" where
  "sample_header = [(''distribution'', ''local'')]"

lemma sample_plan_clean: "list_all clean_attr sample_header \<and> list_all clean_node sample_plan"
  by code_simp

theorem parseExplainTree_show_witness:
  "parseExplainTree (show_plan sample_header sample_plan) = Inr (with_attrs Map.empty sample_header, map plan_of sample_plan)
   \<and> length (show_plan sample_header sample_plan) = 9"
proof -
  have "length (show_plan sample_header sample_plan) = 9" by code_simp
  with parseExplainTree_show [of sample_header sample_plan] sample_plan_clean show ?thesis by simp
qed

theorem parseExplainTree_operators_witness:
  "operators (map plan_of sample_plan) = concat (map row_operator (show_plan sample_header sample_plan))"
  using parseExplainTree_operators [OF parseExplainTree_show [of sample_header sample_plan]] sample_plan_clean by simp

end
