(* ===== verification/Explain_DDL.thy ===== *)
theory Explain_DDL
  imports Explain_Tree
begin

text \<open>
  \<open>internal/conn/explain_ddl_parse.go\<close>: the parser of \<open>EXPLAIN (DDL, SHAPE)\<close>, one text whose first line
  names the statement and whose other lines are operations and the targets below them.
\<close>

record ddl_operation =
  ddl_op :: string
  ddl_targets :: "string list"

datatype shape_depth = shapeDepthOperation | shapeDepthTarget

definition ddlPlanHeaderPrefix :: string where
  "ddlPlanHeaderPrefix = ''Schema change plan for ''"

definition connectors :: "string list" where
  "connectors = [tee @ dash @ dash @ '' '', corner @ dash @ dash @ '' '']"

definition stripConnector :: "string \<Rightarrow> string \<Rightarrow> string option" where
  "stripConnector ln pre =
     (if \<not> has_prefix ln pre then None
      else
        (let rest = drop (length pre) ln in
         case find (has_prefix rest) connectors of
           None \<Rightarrow> None
         | Some connector \<Rightarrow>
             (let content = trim_space (drop (length connector) rest) in
              if content = [] then None else Some content)))"

definition target_prefixes :: "string list" where
  "target_prefixes = ['' '' @ pipe @ ''    '', ''      '']"

definition classifyShapeLine :: "string \<Rightarrow> string + shape_depth \<times> string" where
  "classifyShapeLine ln =
     (case stripConnector ln '' '' of
        Some op \<Rightarrow> Inr (shapeDepthOperation, op)
      | None \<Rightarrow>
          (case find (\<lambda>t. t \<noteq> None) (map (stripConnector ln) target_prefixes) of
             Some (Some t) \<Rightarrow> Inr (shapeDepthTarget, t)
           | _ \<Rightarrow> Inl ''unrecognized tree-connector prefix''))"

definition add_target :: "string \<Rightarrow> ddl_operation list \<Rightarrow> ddl_operation list" where
  "add_target t ops = butlast ops @ [(last ops)\<lparr>ddl_targets := ddl_targets (last ops) @ [t]\<rparr>]"

definition shape_error :: "nat \<Rightarrow> string \<Rightarrow> string \<Rightarrow> string" where
  "shape_error n m raw = ''parse SHAPE output: line '' @ itoa_nat n @ '': '' @ m @ '' (raw: '' @ quote raw @ '')''"

fun shape_lines :: "nat \<Rightarrow> string list \<Rightarrow> ddl_operation list \<Rightarrow> string + ddl_operation list" where
  "shape_lines i [] operations = Inr operations"
| "shape_lines i (raw # ls) operations =
     (let ln = trim_right_set (\<lambda>c. c = CHR '' '' \<or> c = CHR 0x09) raw in
      if ln = [] then shape_lines (i + 1) ls operations
      else
        (case classifyShapeLine ln of
           Inl err \<Rightarrow> Inl (shape_error (i + 2) err raw)
         | Inr (shapeDepthOperation, content) \<Rightarrow>
             shape_lines (i + 1) ls (operations @ [\<lparr>ddl_op = content, ddl_targets = []\<rparr>])
         | Inr (shapeDepthTarget, content) \<Rightarrow>
             if length operations = 0 then Inl (shape_error (i + 2) ''target before any operation'' raw)
             else shape_lines (i + 1) ls (add_target content operations)))"

definition parseExplainDDLShape :: "string \<Rightarrow> string + string \<times> ddl_operation list" where
  "parseExplainDDLShape txt =
     (if txt = [] then Inl ''parse SHAPE output: empty input''
      else
        (let ls = split_on newline (trim_right_set (\<lambda>c. c = newline) txt);
             header = hd ls
         in if \<not> has_prefix header ddlPlanHeaderPrefix
            then Inl (''parse SHAPE output: first line missing '' @ quote ddlPlanHeaderPrefix @ '' prefix: '' @ quote header)
            else
              (case shape_lines 0 (tl ls) [] of
                 Inl err \<Rightarrow> Inl err
               | Inr operations \<Rightarrow> Inr (trim_suffix (trim_prefix header ddlPlanHeaderPrefix) '';'', operations))))"

section \<open>Nothing is dropped\<close>

text \<open>The operations with their targets below them, as they were listed.\<close>

definition listed :: "ddl_operation list \<Rightarrow> (shape_depth \<times> string) list" where
  "listed ops = concat (map (\<lambda>d. (shapeDepthOperation, ddl_op d) # map (Pair shapeDepthTarget) (ddl_targets d)) ops)"

definition line_items :: "string \<Rightarrow> (shape_depth \<times> string) list" where
  "line_items raw =
     (let ln = trim_right_set (\<lambda>c. c = CHR '' '' \<or> c = CHR 0x09) raw in
      if ln = [] then [] else case classifyShapeLine ln of Inl e \<Rightarrow> [] | Inr item \<Rightarrow> [item])"

lemma listed_snoc [simp]:
  "listed (ops @ [d]) = listed ops @ (shapeDepthOperation, ddl_op d) # map (Pair shapeDepthTarget) (ddl_targets d)"
  by (simp add: listed_def)

lemma listed_add_target: "ops \<noteq> [] \<Longrightarrow> listed (add_target t ops) = listed ops @ [(shapeDepthTarget, t)]"
  by (cases ops rule: rev_cases) (simp_all add: add_target_def)

lemma shape_lines_listed:
  "shape_lines i ls ops = Inr ops' \<Longrightarrow> listed ops' = listed ops @ concat (map line_items ls)
     \<and> (\<forall>raw \<in> set ls. trim_right_set (\<lambda>c. c = CHR '' '' \<or> c = CHR 0x09) raw = [] \<or> line_items raw \<noteq> [])"
proof (induction i ls ops rule: shape_lines.induct)
  case (2 i raw ls ops)
  let ?ln = "trim_right_set (\<lambda>c. c = CHR '' '' \<or> c = CHR 0x09) raw"
  show ?case
  proof (cases "?ln = []")
    case True
    with 2(1) [OF refl] 2(4) show ?thesis by (simp add: line_items_def)
  next
    case False
    then obtain d c where dc: "classifyShapeLine ?ln = Inr (d, c)" using 2(4) by (auto split: sum.splits)
    show ?thesis
    proof (cases d)
      case shapeDepthOperation
      with 2(2) [OF refl False dc _ ] 2(4) dc False show ?thesis by (simp add: line_items_def)
    next
      case shapeDepthTarget
      with 2(4) dc False have "ops \<noteq> []" "shape_lines (i + 1) ls (add_target c ops) = Inr ops'"
        by (auto split: if_splits)
      with 2(3) [OF refl False dc _ shapeDepthTarget] dc False shapeDepthTarget show ?thesis
        by (simp add: line_items_def listed_add_target)
    qed
  qed
qed simp

text \<open>A plan shape that parses is complete: every line after the header is blank or is one operation or
  target of the result, in the order of the lines.\<close>

theorem parseExplainDDLShape_complete:
  assumes "parseExplainDDLShape txt = Inr (stmt, ops)"
  shows "listed ops = concat (map line_items (tl (split_on newline (trim_right_set (\<lambda>c. c = newline) txt))))
    \<and> (\<forall>raw \<in> set (tl (split_on newline (trim_right_set (\<lambda>c. c = newline) txt))).
         trim_right_set (\<lambda>c. c = CHR '' '' \<or> c = CHR 0x09) raw = [] \<or> line_items raw \<noteq> [])"
  using assms shape_lines_listed [of 0 "tl (split_on newline (trim_right_set (\<lambda>c. c = newline) txt))" "[]" ops]
  by (auto simp: parseExplainDDLShape_def Let_def listed_def split: if_splits sum.splits)

section \<open>What is printed is parsed back\<close>

definition connect :: "bool \<Rightarrow> string" where
  "connect final = (if final then corner else tee) @ dash @ dash @ '' ''"

fun show_targets :: "string \<Rightarrow> string list \<Rightarrow> string list" where
  "show_targets pre [] = []"
| "show_targets pre (t # ts) = (pre @ connect (ts = []) @ t) # show_targets pre ts"

fun show_operations :: "ddl_operation list \<Rightarrow> string list" where
  "show_operations [] = []"
| "show_operations (d # ds) =
     ('' '' @ connect (ds = []) @ ddl_op d)
     # show_targets (if ds = [] then ''      '' else '' '' @ pipe @ ''    '') (ddl_targets d) @ show_operations ds"

definition show_shape :: "string \<Rightarrow> ddl_operation list \<Rightarrow> string" where
  "show_shape stmt ds = join_with [newline] ((ddlPlanHeaderPrefix @ stmt @ '';'') # show_operations ds) @ [newline]"

definition one_line :: "string \<Rightarrow> bool" where
  "one_line s \<longleftrightarrow> s \<noteq> [] \<and> trimmed s \<and> newline \<notin> set s"

definition clean_operation :: "ddl_operation \<Rightarrow> bool" where
  "clean_operation d \<longleftrightarrow> one_line (ddl_op d) \<and> list_all one_line (ddl_targets d)"

lemma stripConnector_show:
  assumes "one_line c" shows "stripConnector (pre @ connect b @ c) pre = Some c"
proof -
  have "find (has_prefix (connect b @ c)) connectors = Some (connect b)"
    by (cases b) (simp_all add: connectors_def connect_def has_prefix_def glyph_defs)
  with assms show ?thesis by (simp add: stripConnector_def Let_def one_line_def trim_space_trimmed)
qed

lemma classify_operation: "one_line c \<Longrightarrow> classifyShapeLine ('' '' @ connect b @ c) = Inr (shapeDepthOperation, c)"
  unfolding classifyShapeLine_def stripConnector_show by simp

lemma classify_target:
  assumes "one_line c" "pre \<in> set target_prefixes"
  shows "classifyShapeLine (pre @ connect b @ c) = Inr (shapeDepthTarget, c)"
proof -
  have pre: "pre = '' '' @ pipe @ ''    '' \<or> pre = ''      ''" using assms(2) by (auto simp: target_prefixes_def)
  have "stripConnector (pre @ connect b @ c) '' '' = None"
    using pre by (auto simp: stripConnector_def connectors_def has_prefix_def glyph_defs)
  moreover have "stripConnector (''      '' @ connect b @ c) ('' '' @ pipe @ ''    '') = None"
    by (simp add: stripConnector_def has_prefix_def pipe_def)
  ultimately show ?thesis
    using pre stripConnector_show [OF assms(1), of pre b]
    by (auto simp: classifyShapeLine_def target_prefixes_def simp del: append.simps append_Cons append_assoc)
qed

lemma trim_shown: "one_line c \<Longrightarrow> trim_right_set blank_end (pre @ c) = pre @ c \<and> pre @ c \<noteq> []"
  using trimmed_last [of c] by (auto simp: one_line_def intro!: trim_right_id)

lemma shape_lines_targets:
  assumes "list_all one_line ts" "pre \<in> set target_prefixes" "ops \<noteq> []"
  shows "shape_lines i (show_targets pre ts @ ls) ops
    = shape_lines (i + length ts) ls (butlast ops @ [(last ops)\<lparr>ddl_targets := ddl_targets (last ops) @ ts\<rparr>])"
  using assms
proof (induction ts arbitrary: i ops)
  case (Cons t ts)
  have c: "classifyShapeLine (pre @ connect (ts = []) @ t) = Inr (shapeDepthTarget, t)"
    using Cons.prems classify_target by simp
  have r: "trim_right_set blank_end (pre @ connect (ts = []) @ t) = pre @ connect (ts = []) @ t
      \<and> pre @ connect (ts = []) @ t \<noteq> []"
    using trim_shown [of t "pre @ connect (ts = [])"] Cons.prems by simp
  have "shape_lines i (show_targets pre (t # ts) @ ls) ops
      = shape_lines (i + 1) (show_targets pre ts @ ls) (add_target t ops)"
    using c r Cons.prems(3) by (auto simp: Let_def)
  also have "\<dots> = shape_lines (i + 1 + length ts) ls (butlast (add_target t ops)
      @ [(last (add_target t ops))\<lparr>ddl_targets := ddl_targets (last (add_target t ops)) @ ts\<rparr>])"
    using Cons.prems by (intro Cons.IH) (auto simp: add_target_def)
  finally show ?case by (simp add: add_target_def)
qed simp

lemma shape_lines_show:
  "list_all clean_operation ds \<Longrightarrow> shape_lines i (show_operations ds) ops = Inr (ops @ ds)"
proof (induction ds arbitrary: i ops)
  case (Cons d ds)
  let ?pre = "if ds = [] then ''      '' else '' '' @ pipe @ ''    ''"
  have d: "one_line (ddl_op d)" "list_all one_line (ddl_targets d)" using Cons.prems by (auto simp: clean_operation_def)
  have r: "trim_right_set blank_end ('' '' @ connect (ds = []) @ ddl_op d) = '' '' @ connect (ds = []) @ ddl_op d
      \<and> '' '' @ connect (ds = []) @ ddl_op d \<noteq> []"
    using trim_shown [OF d(1), of "'' '' @ connect (ds = [])"] by simp
  have "shape_lines i (show_operations (d # ds)) ops
      = shape_lines (i + 1) (show_targets ?pre (ddl_targets d) @ show_operations ds) (ops @ [\<lparr>ddl_op = ddl_op d, ddl_targets = []\<rparr>])"
    unfolding show_operations.simps shape_lines.simps Let_def
    using classify_operation [OF d(1), of "ds = []"] r by auto
  also have "\<dots> = shape_lines (i + 1 + length (ddl_targets d)) (show_operations ds) (ops @ [d])"
    using shape_lines_targets [OF d(2), of ?pre "ops @ [\<lparr>ddl_op = ddl_op d, ddl_targets = []\<rparr>]"]
    by (cases d) (simp add: target_prefixes_def)
  also have "\<dots> = Inr ((ops @ [d]) @ ds)" using Cons by simp
  finally show ?case by simp
qed simp

lemma split_join:
  "ls \<noteq> [] \<Longrightarrow> \<forall>s \<in> set ls. c \<notin> set s \<Longrightarrow> split_on c (join_with [c] ls) = ls"
proof (induction ls)
  case (Cons s ls)
  then show ?case by (cases ls) (simp_all add: split_on_no_sep split_on_append)
qed simp

lemma newline_glyph: "newline \<notin> set (connect b)" "newline \<notin> set pipe"
  by (auto simp: connect_def glyph_defs newline_def)

lemma show_targets_lines:
  assumes "list_all one_line ts" "newline \<notin> set pre"
  shows "\<forall>s \<in> set (show_targets pre ts). newline \<notin> set s \<and> s \<noteq> []"
  using assms newline_glyph by (induction ts) (auto simp: one_line_def)

lemma show_operations_lines:
  "list_all clean_operation ds \<Longrightarrow> \<forall>s \<in> set (show_operations ds). newline \<notin> set s \<and> s \<noteq> []"
proof (induction ds)
  case (Cons d ds)
  let ?pre = "if ds = [] then ''      '' else '' '' @ pipe @ ''    ''"
  have nl: "newline \<noteq> CHR '' ''" "newline \<notin> set ?pre" by (auto simp: newline_def pipe_def)
  have d: "one_line (ddl_op d)" "list_all one_line (ddl_targets d)" "list_all clean_operation ds"
    using Cons.prems by (auto simp: clean_operation_def [of d])
  have "newline \<notin> set ('' '' @ connect (ds = []) @ ddl_op d) \<and> '' '' @ connect (ds = []) @ ddl_op d \<noteq> []"
    using d(1) nl(1) newline_glyph(1) by (simp add: one_line_def)
  with show_targets_lines [OF d(2) nl(2)] Cons.IH [OF d(3)] show ?case
    unfolding show_operations.simps by (simp only: set_append set_simps ball_Un ball_simps) blast
qed simp

lemma last_join: "ls \<noteq> [] \<Longrightarrow> \<forall>s \<in> set ls. s \<noteq> [] \<Longrightarrow> join_with sep ls \<noteq> [] \<and> last (join_with sep ls) = last (last ls)"
proof (induction ls)
  case (Cons s ls)
  then show ?case by (cases ls) auto
qed simp

text \<open>A schema change plan the cluster prints is parsed back: the statement without its semicolon and
  every operation with its targets.\<close>

theorem parseExplainDDLShape_show:
  assumes "list_all clean_operation ds" "newline \<notin> set stmt"
  shows "parseExplainDDLShape (show_shape stmt ds) = Inr (stmt, ds)"
proof -
  let ?h = "ddlPlanHeaderPrefix @ stmt @ '';''"
  let ?ls = "?h # show_operations ds"
  have h: "newline \<notin> set ?h" "?h \<noteq> []" using assms(2) by (auto simp: ddlPlanHeaderPrefix_def newline_def)
  have ls: "\<forall>s \<in> set ?ls. newline \<notin> set s" "\<forall>s \<in> set ?ls. s \<noteq> []"
    using h show_operations_lines [OF assms(1)] by auto
  have "last (join_with [newline] ?ls) = last (last ?ls)" "join_with [newline] ?ls \<noteq> []"
    using last_join [OF _ ls(2)] by blast+
  moreover have "last (last ?ls) \<noteq> newline" using ls by (metis last_in_set list.distinct(1))
  ultimately have "trim_right_set (\<lambda>c. c = newline) (show_shape stmt ds) = join_with [newline] ?ls"
    by (cases "join_with [newline] ?ls" rule: rev_cases) (simp_all add: show_shape_def trim_right_set_def)
  then have "split_on newline (trim_right_set (\<lambda>c. c = newline) (show_shape stmt ds)) = ?ls"
    using split_join [OF _ ls(1)] by simp
  moreover have "show_shape stmt ds \<noteq> []" by (simp add: show_shape_def)
  moreover have "trim_suffix (stmt @ '';'') '';'' = stmt" by (simp add: trim_suffix_def has_suffix_def)
  ultimately show ?thesis
    using shape_lines_show [OF assms(1), of 0 "[]"]
    by (simp add: parseExplainDDLShape_def Let_def del: append_assoc)
qed

definition sample_operations :: "ddl_operation list" where
  "sample_operations = [\<lparr>ddl_op = ''backfill'', ddl_targets = [''into t_pkey+'']\<rparr>, \<lparr>ddl_op = ''execute'', ddl_targets = []\<rparr>]"

lemma sample_operations_clean: "list_all clean_operation sample_operations \<and> newline \<notin> set ''ALTER TABLE t''"
  by code_simp

theorem parseExplainDDLShape_show_witness:
  "parseExplainDDLShape (show_shape ''ALTER TABLE t'' sample_operations) = Inr (''ALTER TABLE t'', sample_operations)
   \<and> length sample_operations = 2"
  using parseExplainDDLShape_show [of sample_operations "''ALTER TABLE t''"] sample_operations_clean
  by (simp add: sample_operations_def)

theorem parseExplainDDLShape_complete_witness:
  "listed sample_operations
    = concat (map line_items (tl (split_on newline (trim_right_set (\<lambda>c. c = newline) (show_shape ''ALTER TABLE t'' sample_operations)))))"
  using parseExplainDDLShape_complete [OF parseExplainDDLShape_show [of sample_operations "''ALTER TABLE t''"]]
    sample_operations_clean by blast

end
