(* ===== verification/Conn.thy ===== *)
theory Conn
  imports Explain_DDL Safety
begin

text \<open>
  Package \<open>internal/conn\<close>: the connection manager (\<open>manager.go\<close>), statement execution (\<open>execute.go\<close>) and
  simulation (\<open>simulate.go\<close>). The driver and the cluster behind it are a record of functions from
  everything sent so far to the reply, so that a theorem holds whatever they answer and whenever they
  fail; \<open>log\<close> is what the manager sent, oldest first. A method that returns an error as well as a
  result returns a sum; a rollback after a commit sends nothing, as in the driver.
\<close>

section \<open>The wire\<close>

datatype access = ReadOnly | ReadWrite

datatype wire =
    Connect | BeginTx access | Exec string | Query string | QueryRow string | Commit | Rollback | CloseConn

datatype row_result = NoRows | RowError string | Row int string

record query_reply =
  qr_fields :: "(string \<times> string option) list"
  qr_rows :: "(string + string list) list"
  qr_err :: "string option"
  qr_affected :: int
  qr_tag :: string

record driver =
  drv_connect :: "wire list \<Rightarrow> string option"
  drv_begin :: "wire list \<Rightarrow> string option"
  drv_exec :: "wire list \<Rightarrow> string option"
  drv_text :: "wire list \<Rightarrow> string + (string + string) list \<times> string option"
  drv_query :: "wire list \<Rightarrow> string + query_reply"
  drv_stats :: "wire list \<Rightarrow> row_result"
  drv_info :: "wire list \<Rightarrow> string + string \<times> string"
  drv_commit :: "wire list \<Rightarrow> string option"
  drv_close :: "wire list \<Rightarrow> string option"

section \<open>The manager\<close>

record manager =
  dsn :: string
  stmtTimeout :: int
  conn :: bool
  tx_open :: bool
  log :: "wire list"

text \<open>Durations are \<open>time.Duration\<close>: nanoseconds.\<close>

definition DefaultStatementTimeout :: int where
  "DefaultStatementTimeout = 30 * 10 ^ 9"

definition WithStatementTimeout :: "int \<Rightarrow> manager \<Rightarrow> manager" where
  "WithStatementTimeout d m = (if d \<le> 0 then m\<lparr>stmtTimeout := DefaultStatementTimeout\<rparr> else m\<lparr>stmtTimeout := d\<rparr>)"

definition NewManager :: "string \<Rightarrow> (manager \<Rightarrow> manager) list \<Rightarrow> manager" where
  "NewManager name opts =
     fold (\<lambda>opt m. opt m) opts
       \<lparr>dsn = name, stmtTimeout = DefaultStatementTimeout, conn = False, tx_open = False, log = []\<rparr>"

type_synonym 'a io = "manager \<Rightarrow> (string + 'a) \<times> manager"

definition ret :: "'a \<Rightarrow> 'a io" where
  "ret x m = (Inr x, m)"

definition err :: "string \<Rightarrow> 'a io" where
  "err e m = (Inl e, m)"

definition and_then :: "'a io \<Rightarrow> ('a \<Rightarrow> 'b io) \<Rightarrow> 'b io" where
  "and_then f g m = (case f m of (Inl e, m') \<Rightarrow> (Inl e, m') | (Inr x, m') \<Rightarrow> g x m')"

definition wrap :: "string \<Rightarrow> 'a io \<Rightarrow> 'a io" where
  "wrap p f m = (case f m of (Inl e, m') \<Rightarrow> (Inl (p @ e), m') | (Inr x, m') \<Rightarrow> (Inr x, m'))"

definition send :: "wire \<Rightarrow> manager \<Rightarrow> manager" where
  "send w m = m\<lparr>log := log m @ [w]\<rparr>"

definition done_or :: "string option \<Rightarrow> string + unit" where
  "done_or r = (case r of Some e \<Rightarrow> Inl e | None \<Rightarrow> Inr ())"

definition exec :: "driver \<Rightarrow> string \<Rightarrow> unit io" where
  "exec d s m = (let m' = send (Exec s) m in (done_or (drv_exec d (log m')), m'))"

definition commit :: "driver \<Rightarrow> unit io" where
  "commit d m = (let m' = send Commit m in (done_or (drv_commit d (log m')), m'\<lparr>tx_open := False\<rparr>))"

definition rollback :: "manager \<Rightarrow> manager" where
  "rollback m = (if tx_open m then (send Rollback m)\<lparr>tx_open := False\<rparr> else m)"

text \<open>\<open>BeginTx\<close>, the body, and the deferred \<open>Rollback\<close>.\<close>

definition in_tx :: "driver \<Rightarrow> access \<Rightarrow> string \<Rightarrow> 'a io \<Rightarrow> 'a io" where
  "in_tx d a what body m =
     (let m' = send (BeginTx a) m in
      case drv_begin d (log m') of
        Some e \<Rightarrow> (Inl (what @ e), m')
      | None \<Rightarrow> (case body (m'\<lparr>tx_open := True\<rparr>) of (r, m2) \<Rightarrow> (r, rollback m2)))"

definition timeout_statement :: "manager \<Rightarrow> string" where
  "timeout_statement m = ''SET LOCAL statement_timeout = '' @ [CHR 0x27] @ itoa (stmtTimeout m div 1000000) @ ''ms'' @ [CHR 0x27]"

definition set_timeout :: "driver \<Rightarrow> unit io" where
  "set_timeout d m = wrap ''set statement_timeout: '' (exec d (timeout_statement m)) m"

subsection \<open>Connecting\<close>

text \<open>\<open>dsnCredentialPattern.ReplaceAllString\<close>: from the leftmost \<open>://\<close> that an \<open>@\<close> follows on its line, with
  something in between, to the last such \<open>@\<close>.\<close>

definition last_at :: "string \<Rightarrow> nat option" where
  "last_at s =
     (case filter (\<lambda>i. s ! i = CHR ''@'') [1..<length (takeWhile (\<lambda>c. c \<noteq> newline) s)] of
        [] \<Rightarrow> None | is \<Rightarrow> Some (last is))"

function scrub :: "string \<Rightarrow> string" where
  "scrub s =
     (if s = [] then []
      else if has_prefix s ''://''
      then (case last_at (drop 3 s) of
              Some i \<Rightarrow> ''://REDACTED@'' @ scrub (drop (i + 1) (drop 3 s))
            | None \<Rightarrow> hd s # scrub (tl s))
      else hd s # scrub (tl s))"
  by pat_completeness auto
termination
  by (relation "measure length") (auto simp: has_prefix_def)

declare scrub.simps [simp del]

definition sanitizeConnErr :: "string \<Rightarrow> string" where
  "sanitizeConnErr e = scrub e"

definition connect :: "driver \<Rightarrow> unit io" where
  "connect d m =
     (if conn m then (Inr (), m)
      else
        (let m' = send Connect m in
         case drv_connect d (log m') of
           Some e \<Rightarrow> (Inl (''connect to CockroachDB: '' @ sanitizeConnErr e), m')
         | None \<Rightarrow> (Inr (), m'\<lparr>conn := True\<rparr>)))"

text \<open>The shape every method shares: connect, run, and on an error close and forget the connection.\<close>

definition with_conn :: "driver \<Rightarrow> 'a io \<Rightarrow> 'a io" where
  "with_conn d f m =
     (case connect d m of
        (Inl e, m1) \<Rightarrow> (Inl e, m1)
      | (Inr _, m1) \<Rightarrow>
          (case f m1 of
             (Inl e, m2) \<Rightarrow> (Inl e, (send CloseConn m2)\<lparr>conn := False\<rparr>)
           | (Inr x, m2) \<Rightarrow> (Inr x, m2)))"

definition Ping :: "driver \<Rightarrow> (string \<times> string) io" where
  "Ping d = with_conn d (\<lambda>m.
     (let m' = send (QueryRow ''SELECT crdb_internal.cluster_id()::STRING, version()'') m in
      wrap ''query cluster info: '' (\<lambda>m. (drv_info d (log m), m)) m'))"

definition Close :: "driver \<Rightarrow> manager \<Rightarrow> string option \<times> manager" where
  "Close d m =
     (if \<not> conn m then (None, m)
      else (let m' = send CloseConn m in (drv_close d (log m'), m'\<lparr>conn := False\<rparr>)))"

text \<open>The timeout the cluster is given, in whole milliseconds: 30 seconds when none or a non-positive one was
  asked for; but a positive timeout below one millisecond is sent as \<open>0ms\<close>, which switches the
  cluster's timeout off.\<close>

theorem timeout_sent:
  "timeout_statement (NewManager name [WithStatementTimeout t]) = ''SET LOCAL statement_timeout = '' @ [CHR 0x27]
     @ itoa (if t \<le> 0 then 30000 else if t < 10 ^ 6 then 0 else t div 10 ^ 6) @ ''ms'' @ [CHR 0x27]
   \<and> timeout_statement (NewManager name []) = ''SET LOCAL statement_timeout = '' @ [CHR 0x27] @ itoa 30000 @ ''ms'' @ [CHR 0x27]"
proof -
  have "t div 1000000 = 0" if "0 < t" "t < 1000000" using that by (simp add: div_pos_pos_trivial)
  then show ?thesis
    by (auto simp: timeout_statement_def NewManager_def WithStatementTimeout_def DefaultStatementTimeout_def)
qed

section \<open>EXPLAIN\<close>

record explain_result =
  Header :: "string \<Rightarrow> string option"
  Plan :: "plan_node list"
  RawRows :: "string list"

record ddl_result =
  Statement :: string
  Operations :: "ddl_operation list"
  RawText :: string

fun scan_rows :: "string \<Rightarrow> (string + string) list \<Rightarrow> string + string list" where
  "scan_rows what [] = Inr []"
| "scan_rows what (Inl e # rs) = Inl (what @ e)"
| "scan_rows what (Inr info # rs) = (case scan_rows what rs of Inl e \<Rightarrow> Inl e | Inr raw \<Rightarrow> Inr (info # raw))"

text \<open>\<open>Query\<close>, the scan loop and \<open>rows.Err\<close>, for the verb of an \<open>EXPLAIN\<close> variant.\<close>

definition explain_query :: "driver \<Rightarrow> string \<Rightarrow> string \<Rightarrow> string list io" where
  "explain_query d verb sql m =
     (let m' = send (Query (verb @ '' '' @ sql)) m in
      case drv_text d (log m') of
        Inl e \<Rightarrow> (Inl (''run '' @ verb @ '': '' @ e), m')
      | Inr (rows, tail_err) \<Rightarrow>
          (case scan_rows (''scan '' @ verb @ '' row: '') rows of
             Inl e \<Rightarrow> (Inl e, m')
           | Inr raw \<Rightarrow>
               (case tail_err of
                  Some e \<Rightarrow> (Inl (''read '' @ verb @ '' rows: '' @ e), m')
                | None \<Rightarrow> (Inr raw, m'))))"

definition run_explain :: "driver \<Rightarrow> string \<Rightarrow> string \<Rightarrow> explain_result io" where
  "run_explain d verb sql =
     in_tx d ReadOnly ''begin read-only txn: ''
       (and_then (set_timeout d) (\<lambda>_.
        and_then (explain_query d verb sql) (\<lambda>raw.
        and_then (wrap ''commit read-only txn: '' (commit d)) (\<lambda>_.
        (case parseExplainTree raw of
           Inl e \<Rightarrow> err (''parse '' @ verb @ '' output: '' @ e)
         | Inr (hdr, plan) \<Rightarrow> ret \<lparr>Header = hdr, Plan = plan, RawRows = raw\<rparr>)))))"

definition runExplain :: "driver \<Rightarrow> string \<Rightarrow> explain_result io" where
  "runExplain d = run_explain d ''EXPLAIN''"

definition runExplainAnalyze :: "driver \<Rightarrow> string \<Rightarrow> explain_result io" where
  "runExplainAnalyze d = run_explain d ''EXPLAIN ANALYZE''"

definition Explain :: "driver \<Rightarrow> string \<Rightarrow> explain_result io" where
  "Explain d sql = with_conn d (runExplain d sql)"

definition ExplainAnalyze :: "driver \<Rightarrow> string \<Rightarrow> explain_result io" where
  "ExplainAnalyze d sql = with_conn d (runExplainAnalyze d sql)"

definition runExplainDDL :: "driver \<Rightarrow> string \<Rightarrow> ddl_result io" where
  "runExplainDDL d sql =
     in_tx d ReadWrite ''begin txn: ''
       (and_then (set_timeout d) (\<lambda>_.
        and_then (explain_query d ''EXPLAIN (DDL, SHAPE)'' sql) (\<lambda>raw.
        if length raw \<noteq> 1
        then err (''EXPLAIN (DDL, SHAPE) returned '' @ itoa_nat (length raw)
               @ '' rows, expected exactly 1 (CRDB output format may have changed)'')
        else
          and_then (wrap ''commit txn: '' (commit d)) (\<lambda>_.
          (case parseExplainDDLShape (hd raw) of
             Inl e \<Rightarrow> err (''parse EXPLAIN (DDL, SHAPE) output: '' @ e)
           | Inr (stmt, ops) \<Rightarrow> ret \<lparr>Statement = stmt, Operations = ops, RawText = hd raw\<rparr>)))))"

definition ExplainDDL :: "driver \<Rightarrow> string \<Rightarrow> ddl_result io" where
  "ExplainDDL d sql = with_conn d (runExplainDDL d sql)"

datatype strategy = NoStrategy | StrategyExplainAnalyze | StrategyExplain | StrategyExplainDDL

record explain_any_result =
  any_strategy :: strategy
  any_plan :: "explain_result option"
  any_ddl_plan :: "ddl_result option"

definition ExplainAny :: "driver \<Rightarrow> (string \<Rightarrow> string + parsed list) \<Rightarrow> string \<Rightarrow> explain_any_result io" where
  "ExplainAny d parse sql =
     (case parse sql of
        Inl e \<Rightarrow> err (''parse explain input: '' @ e)
      | Inr [] \<Rightarrow> err ''no statements parsed''
      | Inr [p] \<Rightarrow>
          (case type_of (AST p) of
             TypeDDL \<Rightarrow> and_then (ExplainDDL d sql) (\<lambda>ddl.
               ret \<lparr>any_strategy = StrategyExplainDDL, any_plan = None, any_ddl_plan = Some ddl\<rparr>)
           | TypeDML \<Rightarrow> and_then (Explain d sql) (\<lambda>plan.
               ret \<lparr>any_strategy = StrategyExplain, any_plan = Some plan, any_ddl_plan = None\<rparr>)
           | _ \<Rightarrow> err (''explain has no route for statement type '' @ tag_of (AST p)))
      | Inr stmts \<Rightarrow> err (''explain accepts a single statement, got '' @ itoa_nat (length stmts)
          @ '' (use simulate for multi-statement input)''))"

section \<open>Credentials\<close>

definition at_on_line :: "string \<Rightarrow> bool" where
  "at_on_line s \<longleftrightarrow> CHR ''@'' \<in> set (takeWhile (\<lambda>c. c \<noteq> newline) s)"

lemma at_on_line_simps [simp]:
  "\<not> at_on_line []" "at_on_line (c # s) \<longleftrightarrow> c \<noteq> newline \<and> (c = CHR ''@'' \<or> at_on_line s)"
  by (auto simp: at_on_line_def newline_def)

lemma at_on_line_append: "newline \<notin> set x \<Longrightarrow> at_on_line (x @ s) \<longleftrightarrow> CHR ''@'' \<in> set x \<or> at_on_line s"
  by (induction x) auto

lemma last_at_None: "last_at (c # s) = None \<longleftrightarrow> c = newline \<or> \<not> at_on_line s"
proof -
  let ?t = "takeWhile (\<lambda>c. c \<noteq> newline) s"
  have "filter (\<lambda>i. (c # s) ! i = CHR ''@'') [1..<length (c # ?t)] = [] \<longleftrightarrow> CHR ''@'' \<notin> set ?t"
  proof -
    have "(\<exists>i \<in> {1..<Suc (length ?t)}. (c # s) ! i = CHR ''@'') \<longleftrightarrow> CHR ''@'' \<in> set ?t"
    proof
      assume "\<exists>i \<in> {1..<Suc (length ?t)}. (c # s) ! i = CHR ''@''"
      then obtain j where "j < length ?t" "s ! j = CHR ''@''" by (metis Suc_le_eq Suc_pred' atLeastLessThan_iff
        less_Suc_eq_le nth_Cons_Suc One_nat_def)
      then show "CHR ''@'' \<in> set ?t" by (metis nth_mem takeWhile_nth)
    next
      assume "CHR ''@'' \<in> set ?t"
      then obtain j where "j < length ?t" "?t ! j = CHR ''@''" by (auto simp: in_set_conv_nth)
      then show "\<exists>i \<in> {1..<Suc (length ?t)}. (c # s) ! i = CHR ''@''"
        by (intro bexI [of _ "Suc j"]) (auto simp: takeWhile_nth)
    qed
    moreover have "filter (\<lambda>i. (c # s) ! i = CHR ''@'') [1..<length (c # ?t)] = []
        \<longleftrightarrow> \<not> (\<exists>i \<in> {1..<Suc (length ?t)}. (c # s) ! i = CHR ''@'')"
      by (simp only: filter_empty_conv set_upt list.size(4) add_Suc_right add_0_right) blast
    ultimately show ?thesis by blast
  qed
  then show ?thesis
    by (cases "c = newline") (auto simp: last_at_def at_on_line_def split: list.split)
qed

lemma last_at_Nil [simp]: "last_at [] = None"
  by (simp add: last_at_def)

lemma le_last: "sorted xs \<Longrightarrow> (n :: nat) \<in> set xs \<Longrightarrow> n \<le> last xs"
  by (induction xs) (auto split: if_splits)

text \<open>Nothing after the match is left on its line.\<close>

lemma last_at_rest:
  assumes "last_at s = Some i" shows "\<not> at_on_line (drop (i + 1) s)"
proof
  let ?is = "filter (\<lambda>i. s ! i = CHR ''@'') [1..<length (takeWhile (\<lambda>c. c \<noteq> newline) s)]"
  let ?t = "takeWhile (\<lambda>c. c \<noteq> newline) s"
  from assms have i: "i = last ?is" "?is \<noteq> []" by (auto simp: last_at_def split: list.splits)
  then have iin: "i \<in> set ?is" using last_in_set by blast
  assume "at_on_line (drop (i + 1) s)"
  have il: "i < length ?t" using iin by auto
  have "drop (i + 1) s = drop (i + 1) ?t @ drop (length ?t) s"
    using il by (metis append_take_drop_id drop_append takeWhile_dropWhile_id dropWhile_eq_drop Suc_eq_plus1 Suc_leI diff_is_0_eq drop_0)
  moreover have "drop (length ?t) s = dropWhile (\<lambda>c. c \<noteq> newline) s" by (simp add: dropWhile_eq_drop)
  moreover have "\<not> at_on_line (dropWhile (\<lambda>c. c \<noteq> newline) s)"
  proof (cases "dropWhile (\<lambda>c. c \<noteq> newline) s")
    case Nil
    then show ?thesis by (simp only: at_on_line_simps not_False_eq_True)
  next
    case (Cons c w)
    then have "c = newline" using hd_dropWhile [of "\<lambda>c. c \<noteq> newline" s] by simp
    with Cons show ?thesis by simp
  qed
  moreover have "newline \<notin> set (drop (i + 1) ?t)" by (auto dest: in_set_dropD set_takeWhileD)
  ultimately have "CHR ''@'' \<in> set (drop (i + 1) ?t)"
    using \<open>at_on_line (drop (i + 1) s)\<close> by (simp add: at_on_line_append)
  then obtain j where j: "i + 1 + j < length ?t" "?t ! (i + 1 + j) = CHR ''@''" by (auto simp: in_set_conv_nth less_diff_conv add.commute)
  then have "i + 1 + j \<in> set ?is" by (auto simp: takeWhile_nth)
  moreover have "sorted ?is" by (rule sorted_wrt_filter, rule sorted_upt)
  ultimately have "i + 1 + j \<le> last ?is" by (rule le_last [rotated])
  with i show False by simp
qed

lemma has_prefix_iff: "has_prefix s p \<longleftrightarrow> (\<exists>t. s = p @ t)"
  by (auto elim: has_prefixE)

lemma scrub_Nil [simp]: "scrub [] = []"
  by (simp add: scrub.simps)

lemma scrub_at_on_line: "at_on_line (scrub s) \<Longrightarrow> at_on_line s"
proof (induction s rule: scrub.induct)
  case (1 s)
  show ?case
  proof (cases "s = [] \<or> \<not> has_prefix s ''://'' \<or> last_at (drop 3 s) = None")
    case True
    then have "s = [] \<or> scrub s = hd s # scrub (tl s)" by (subst scrub.simps) auto
    with 1 True show ?thesis by (cases s) (auto split: option.splits)
  next
    case False
    then obtain t where s: "s = ''://'' @ t" "last_at t \<noteq> None" by (auto simp: has_prefix_iff)
    then show ?thesis by (cases t) (auto simp: last_at_None newline_def)
  qed
qed

lemma scrub_cases:
  obtains "s = []" "scrub s = []"
  | t i where "s = ''://'' @ t" "last_at t = Some i" "scrub s = ''://REDACTED@'' @ scrub (drop (i + 1) t)"
  | c t where "s = c # t" "scrub s = c # scrub t" "\<And>u. s = ''://'' @ u \<Longrightarrow> last_at u = None"
proof (cases "s = []")
  case True
  with that(1) show thesis by simp
next
  case ne: False
  show thesis
  proof (cases "has_prefix s ''://'' \<and> last_at (drop 3 s) \<noteq> None")
    case True
    then obtain t i where "s = ''://'' @ t" "last_at t = Some i" by (auto simp: has_prefix_iff)
    moreover from this(2) have "scrub (''://'' @ t) = ''://REDACTED@'' @ scrub (drop (i + 1) t)"
      by (subst scrub.simps) (simp add: has_prefix_def)
    ultimately show thesis by (intro that(2) [of t i]) simp_all
  next
    case False
    with ne have "scrub s = hd s # scrub (tl s)" by (auto simp: scrub.simps [of s])
    with ne False show thesis by (intro that(3) [of "hd s" "tl s"]) (auto simp: has_prefix_iff)
  qed
qed

lemma append_overlap:
  assumes "p @ r = q @ t"
  obtains u where "p = q @ u" "t = u @ r" "u \<noteq> []" | u where "q = p @ u" "r = u @ t"
  using assms unfolding append_eq_append_conv2 by (metis append_Nil append_Nil2)

lemma redacted_split:
  assumes "''REDACTED@'' @ r = x @ ''@'' @ b" "\<not> at_on_line r" "newline \<notin> set x" shows "x = ''REDACTED''"
proof -
  from assms(1) have "''REDACTED@'' @ r = (x @ ''@'') @ b" by simp
  then show ?thesis
  proof (cases rule: append_overlap)
    case (1 u)
    then show ?thesis by (auto simp: Cons_eq_append_conv)
  next
    case (2 u)
    show ?thesis
    proof (cases u rule: rev_cases)
      case Nil
      with 2(1) have "x @ ''@'' = ''REDACTED'' @ ''@''" by simp
      then show ?thesis by (simp only: append_same_eq)
    next
      case (snoc w c)
      with 2(1) have "x @ ''@'' = (''REDACTED@'' @ w) @ [c]" by simp
      then have "x = ''REDACTED@'' @ w" "c = CHR ''@''" by (simp_all only: append1_eq_conv)
      with snoc 2(2) assms(2,3) show ?thesis by (simp add: at_on_line_append newline_def)
    qed
  qed
qed

lemma scrub_no_credentials:
  assumes "scrub s = a @ ''://'' @ x @ ''@'' @ b" "x \<noteq> []" "newline \<notin> set x" shows "x = ''REDACTED''"
  using assms(1)
proof (induction "length s" arbitrary: s a rule: less_induct)
  case less
  show ?case
  proof (cases s rule: scrub_cases)
    case 1
    with less.prems show ?thesis by simp
  next
    case (2 t i)
    let ?r = "scrub (drop (i + 1) t)"
    have r: "\<not> at_on_line ?r" using last_at_rest [OF 2(2)] scrub_at_on_line by blast
    from less.prems 2(3) have "''://REDACTED@'' @ ?r = a @ ''://'' @ x @ ''@'' @ b" by simp
    then show ?thesis
    proof (cases rule: append_overlap)
      case (1 u)
      have "a = []"
      proof (cases a)
        case (Cons c a')
        from 1(2,3) obtain u' where "u = CHR '':'' # u'" by (cases u) auto
        with 1(1) Cons show ?thesis by (auto simp: Cons_eq_append_conv)
      qed simp
      with 1 have "u = ''://REDACTED@''" by simp
      with 1(2) have "''REDACTED@'' @ ?r = x @ ''@'' @ b" by simp
      from redacted_split [OF this r assms(3)] show ?thesis .
    next
      case (2 u)
      show ?thesis by (rule less.hyps [OF _ 2(2)]) (simp add: \<open>s = ''://'' @ t\<close>)
    qed
  next
    case (3 c t)
    show ?thesis
    proof (cases a)
      case (Cons d a')
      with less.prems 3(2) have "scrub t = a' @ ''://'' @ x @ ''@'' @ b" by simp
      then show ?thesis by (rule less.hyps [rotated]) (simp add: 3(1))
    next
      case Nil
      with less.prems 3(2) have c: "c = CHR '':''" and t: "scrub t = ''//'' @ x @ ''@'' @ b" by simp_all
      from t obtain t1 where t1: "t = CHR ''/'' # t1" "scrub t1 = ''/'' @ x @ ''@'' @ b"
        by (cases t rule: scrub_cases) auto
      from t1(2) obtain u where u: "t1 = CHR ''/'' # u" "scrub u = x @ ''@'' @ b"
        by (cases t1 rule: scrub_cases) auto
      have none: "last_at u = None" by (rule 3(3)) (simp add: 3(1) c t1 u)
      have "at_on_line (scrub u)" using u(2) assms(3) by (simp add: at_on_line_append newline_def)
      have False
      proof (cases u rule: scrub_cases)
        case 1
        with u(2) show False by simp
      next
        case (2 w i)
        have "w \<noteq> []" using 2(2) by auto
        then obtain g w' where w: "w = g # w'" by (cases w) auto
        with 2(2) last_at_None [of g w'] have "g \<noteq> newline" "at_on_line w'" by auto
        with none 2(1) w show False by (simp add: last_at_None newline_def)
      next
        case (3 h w)
        from 3(2) u(2) assms(2) obtain x' where x': "x = h # x'" "scrub w = x' @ ''@'' @ b" by (cases x) auto
        with assms(3) have "at_on_line (scrub w)" "h \<noteq> newline" by (auto simp: at_on_line_append newline_def)
        with scrub_at_on_line none 3(1) show False by (simp add: last_at_None)
      qed
      then show ?thesis ..
    qed
  qed
qed

lemma scrub_same:
  assumes "\<And>a x b. s = a @ ''://'' @ x @ ''@'' @ b \<Longrightarrow> x \<noteq> [] \<Longrightarrow> newline \<in> set x" shows "scrub s = s"
  using assms
proof (induction s)
  case Nil
  then show ?case by simp
next
  case (Cons c s)
  have tail: "scrub s = s"
    by (rule Cons.IH, rule Cons.prems [of "c # a" for a]) simp_all
  show ?case
  proof (cases "c # s" rule: scrub_cases)
    case (2 t i)
    then have ne: "last_at t \<noteq> None" by simp
    then obtain g t' where t: "t = g # t'" by (cases t) auto
    with ne have g: "g \<noteq> newline" "at_on_line t'" by (simp_all add: last_at_None)
    then obtain y z where "takeWhile (\<lambda>c. c \<noteq> newline) t' = y @ CHR ''@'' # z" unfolding at_on_line_def by (meson split_list)
    note yz = this
    define z' where "z' = z @ dropWhile (\<lambda>c. c \<noteq> newline) t'"
    have y: "t' = y @ CHR ''@'' # z'"
      using takeWhile_dropWhile_id [of "\<lambda>c. c \<noteq> newline" t', unfolded yz] by (simp add: z'_def)
    have "set y \<subseteq> set (takeWhile (\<lambda>c. c \<noteq> newline) t')" by (auto simp: yz)
    then have "newline \<notin> set y" by (auto dest: set_takeWhileD)
    have "newline \<in> set (g # y)" by (rule Cons.prems [of "[]" _ z']) (simp_all add: 2(1) t y)
    with g \<open>newline \<notin> set y\<close> show ?thesis by simp
  qed (use tail in auto)
qed


definition refusing_driver :: driver where
  "refusing_driver = \<lparr>drv_connect = \<lambda>_. Some ''dial postgres://root:p@ss@db:26257'', drv_begin = \<lambda>_. None,
     drv_exec = \<lambda>_. None, drv_text = \<lambda>_. Inl ''down'', drv_query = \<lambda>_. Inl ''down'', drv_stats = \<lambda>_. NoRows,
     drv_info = \<lambda>_. Inl ''down'', drv_commit = \<lambda>_. None, drv_close = \<lambda>_. None\<rparr>"


end
