(* ===== verification/Tls.thy ===== *)
theory Tls
  imports Go_Prelude
begin

text \<open>
  TLS parameters of a connection string, \<open>internal/conn/tls.go\<close>, with the query-string part of Go's
  \<open>net/url\<close> they go through: \<open>Values\<close> are the decoded pairs of a query in order, so that \<open>Get\<close> is the first
  value of a name and \<open>Encode\<close> sorts by name. \<open>url.Parse\<close> itself is an argument that splits a URL into its
  raw query and the rest, or gives the reason it cannot; \<open>String\<close> puts the two together.
\<close>

section \<open>Query strings\<close>

definition unreserved :: "char \<Rightarrow> bool" where
  "unreserved c \<longleftrightarrow> is_alpha c \<or> is_digit c \<or> c \<in> set ''-_.~''"

definition upper_hex :: "nat \<Rightarrow> char" where
  "upper_hex d = (if d < 10 then char_of (48 + d) else char_of (55 + d))"

definition escape_char :: "char \<Rightarrow> string" where
  "escape_char c =
     (if unreserved c then [c]
      else if c = CHR '' '' then ''+''
      else [CHR ''%'', upper_hex (byte_of c div 16), upper_hex (byte_of c mod 16)])"

definition QueryEscape :: "string \<Rightarrow> string" where
  "QueryEscape s = concat (map escape_char s)"

definition unhex :: "char \<Rightarrow> nat option" where
  "unhex c =
     (if is_digit c then Some (byte_of c - 48)
      else if 97 \<le> byte_of c \<and> byte_of c \<le> 102 then Some (byte_of c - 87)
      else if 65 \<le> byte_of c \<and> byte_of c \<le> 70 then Some (byte_of c - 55)
      else None)"

fun QueryUnescape :: "string \<Rightarrow> string option" where
  "QueryUnescape [] = Some []"
| "QueryUnescape (c # s) =
     (if c = CHR ''%''
      then (case s of
              a # b # t \<Rightarrow>
                (case (unhex a, unhex b, QueryUnescape t) of
                   (Some h, Some l, Some r) \<Rightarrow> Some (char_of (16 * h + l) # r)
                 | _ \<Rightarrow> None)
            | _ \<Rightarrow> None)
      else map_option ((#) (if c = CHR ''+'' then CHR '' '' else c)) (QueryUnescape s))"

definition cut_at :: "char \<Rightarrow> string \<Rightarrow> string \<times> string" where
  "cut_at c s = (takeWhile (\<lambda>x. x \<noteq> c) s, drop 1 (dropWhile (\<lambda>x. x \<noteq> c) s))"

definition query_pair :: "string \<Rightarrow> (string \<times> string) option" where
  "query_pair seg =
     (if CHR '';'' \<in> set seg \<or> seg = [] then None
      else
        (case cut_at CHR ''='' seg of
           (k, v) \<Rightarrow>
             (case (QueryUnescape k, QueryUnescape v) of
                (Some k', Some v') \<Rightarrow> Some (k', v')
              | _ \<Rightarrow> None)))"

type_synonym url_values = "(string \<times> string) list"

definition ParseQuery :: "string \<Rightarrow> url_values" where
  "ParseQuery raw = List.map_filter query_pair (split_on CHR ''&'' raw)"

definition values_of :: "url_values \<Rightarrow> string \<Rightarrow> string list" where
  "values_of q k = map snd (filter (\<lambda>p. fst p = k) q)"

definition Get :: "url_values \<Rightarrow> string \<Rightarrow> string" where
  "Get q k = (case values_of q k of [] \<Rightarrow> [] | v # _ \<Rightarrow> v)"

definition Set :: "url_values \<Rightarrow> string \<Rightarrow> string \<Rightarrow> url_values" where
  "Set q k v = filter (\<lambda>p. fst p \<noteq> k) q @ [(k, v)]"

definition Encode :: "url_values \<Rightarrow> string" where
  "Encode q = join_with ''&'' (map (\<lambda>p. QueryEscape (fst p) @ ''='' @ QueryEscape (snd p)) (sort_key fst q))"

section \<open>Merging\<close>

record tls_params =
  SSLMode :: string
  SSLRootCert :: string
  SSLCert :: string
  SSLKey :: string

definition IsZero :: "tls_params \<Rightarrow> bool" where
  "IsZero p \<longleftrightarrow> SSLMode p = [] \<and> SSLRootCert p = [] \<and> SSLCert p = [] \<and> SSLKey p = []"

record url_api =
  url_Parse :: "string \<Rightarrow> string + string \<times> string"
  url_String :: "string \<times> string \<Rightarrow> string"

definition tls_fields :: "tls_params \<Rightarrow> (string \<times> string) list" where
  "tls_fields p =
     [(''sslmode'', SSLMode p), (''sslrootcert'', SSLRootCert p), (''sslcert'', SSLCert p), (''sslkey'', SSLKey p)]"

fun set_fields :: "(string \<times> string) list \<Rightarrow> url_values \<Rightarrow> string + url_values" where
  "set_fields [] q = Inr q"
| "set_fields ((name, val) # fs) q =
     (if val = [] then set_fields fs q
      else if Get q name \<noteq> []
      then Inl (''TLS parameter '' @ quote name @ '' already present in DSN (='' @ quote (Get q name)
             @ ''); remove the flag or the DSN param'')
      else set_fields fs (Set q name val))"

text \<open>\<open>*url.Error\<close> prints the operation, the quoted URL and the reason.\<close>

definition MergeTLSParams :: "url_api \<Rightarrow> string \<Rightarrow> tls_params \<Rightarrow> string + string" where
  "MergeTLSParams api dsn p =
     (if IsZero p then Inr dsn
      else if (SSLCert p = []) \<noteq> (SSLKey p = []) then Inl ''sslcert and sslkey must be supplied together''
      else
        (let trimmed = trim_space dsn in
         if trimmed = [] then Inl ''TLS parameters require a DSN''
         else if \<not> has_prefix trimmed ''postgres://'' \<and> \<not> has_prefix trimmed ''postgresql://''
         then Inl ''TLS parameters require a postgres:// URI DSN; the keyword/value form is not supported''
         else
           (case url_Parse api trimmed of
              Inl e \<Rightarrow> Inl (''parse dsn: parse '' @ quote (takeWhile (\<lambda>c. c \<noteq> CHR ''#'') trimmed) @ '': '' @ e)
            | Inr (raw, others) \<Rightarrow>
                (case set_fields (tls_fields p) (ParseQuery raw) of
                   Inl e \<Rightarrow> Inl e
                 | Inr q \<Rightarrow> Inr (url_String api (Encode q, others))))))"

section \<open>Round trip of a query\<close>

lemma unhex_upper_hex: "d < 16 \<Longrightarrow> unhex (upper_hex d) = Some d"
  by (auto simp: unhex_def upper_hex_def is_digit_def)

lemma unreserved_chars: "unreserved c \<Longrightarrow> c \<noteq> CHR ''%'' \<and> c \<noteq> CHR ''+'' \<and> c \<noteq> CHR ''&'' \<and> c \<noteq> CHR '';'' \<and> c \<noteq> CHR ''=''"
  by (auto simp: unreserved_def is_alpha_def is_upper_def is_lower_def is_digit_def byte_of_def)

lemma unescape_escape_char: "QueryUnescape (escape_char c @ s) = map_option ((#) c) (QueryUnescape s)"
proof (cases "unreserved c \<or> c = CHR '' ''")
  case True
  then show ?thesis using unreserved_chars [of c] by (auto simp: escape_char_def)
next
  case False
  have "unhex (upper_hex (byte_of c div 16)) = Some (byte_of c div 16)" "unhex (upper_hex (byte_of c mod 16)) = Some (byte_of c mod 16)"
    using byte_of_lt [of c] by (auto intro!: unhex_upper_hex)
  moreover have "char_of (16 * (byte_of c div 16) + byte_of c mod 16) = c" by (simp add: byte_of_def)
  ultimately show ?thesis using False by (auto simp: escape_char_def split: option.split)
qed

lemma QueryUnescape_Escape [simp]: "QueryUnescape (QueryEscape s) = Some s"
  by (induction s) (auto simp: QueryEscape_def unescape_escape_char)

lemma escape_char_clean: "set (escape_char c) \<inter> set ''&;='' = {}"
proof -
  have "upper_hex d \<notin> set ''&;=''" if "d < 16" for d
  proof -
    have "byte_of (upper_hex d) = (if d < 10 then 48 + d else 55 + d)" using that by (simp add: upper_hex_def)
    moreover have "\<forall>c \<in> set ''&;=''. byte_of c \<in> {38, 59, 61}" by (simp add: byte_of_def)
    ultimately show ?thesis using that by (auto split: if_splits)
  qed
  from this [of "byte_of c div 16"] this [of "byte_of c mod 16"] byte_of_lt [of c] have
    "upper_hex (byte_of c div 16) \<notin> set ''&;=''" "upper_hex (byte_of c mod 16) \<notin> set ''&;=''" by simp_all
  moreover have "c \<notin> set ''&;=''" if "unreserved c" using unreserved_chars [OF that] by simp
  moreover have "CHR ''+'' \<notin> set ''&;=''" "CHR ''%'' \<notin> set ''&;=''" by simp_all
  moreover have "set (escape_char c) = (if unreserved c then {c} else if c = CHR '' '' then {CHR ''+''}
      else {CHR ''%'', upper_hex (byte_of c div 16), upper_hex (byte_of c mod 16)})" by (simp add: escape_char_def)
  ultimately show ?thesis by (simp only: split: if_split) blast
qed

lemma QueryEscape_clean: "set (QueryEscape s) \<inter> set ''&;='' = {}"
  using escape_char_clean by (fastforce simp: QueryEscape_def)

lemma pieces_join: "\<forall>p \<in> set ps. c \<notin> set p \<Longrightarrow> ps \<noteq> [] \<Longrightarrow> split_on c (join_with [c] ps) = ps"
proof (induction ps)
  case (Cons p ps)
  then show ?case by (cases ps) (auto simp: split_on_no_sep split_on_append)
qed simp

lemma query_pair_encode: "query_pair (QueryEscape k @ ''='' @ QueryEscape v) = Some (k, v)"
proof -
  have k: "\<forall>x \<in> set (QueryEscape k). x \<noteq> CHR ''=''" and semi: "CHR '';'' \<notin> set (QueryEscape k @ ''='' @ QueryEscape v)"
    using QueryEscape_clean [of k] QueryEscape_clean [of v] by auto
  from k have "cut_at CHR ''='' (QueryEscape k @ ''='' @ QueryEscape v) = (QueryEscape k, QueryEscape v)"
    by (simp add: cut_at_def takeWhile_append dropWhile_append)
  with semi show ?thesis by (simp add: query_pair_def)
qed

lemma map_filter_inverse: "(\<And>x. f (g x) = Some x) \<Longrightarrow> List.map_filter f (map g xs) = xs"
  by (induction xs) (simp_all add: List.map_filter_simps)

lemma ParseQuery_Encode: "ParseQuery (Encode q) = sort_key fst q"
proof (cases "q = []")
  case True
  then show ?thesis by (simp add: ParseQuery_def Encode_def query_pair_def List.map_filter_simps)
next
  case False
  let ?enc = "\<lambda>p. QueryEscape (fst p) @ ''='' @ QueryEscape (snd p)"
  have "\<forall>s \<in> set (map ?enc (sort_key fst q)). CHR ''&'' \<notin> set s" using QueryEscape_clean by auto
  moreover have "map ?enc (sort_key fst q) \<noteq> []" using False set_sort [of fst q] by (auto simp del: set_sort)
  ultimately have "split_on CHR ''&'' (Encode q) = map ?enc (sort_key fst q)"
    unfolding Encode_def by (rule pieces_join)
  moreover have "query_pair (?enc p) = Some p" for p using query_pair_encode [of "fst p" "snd p"] by (simp only: prod.collapse)
  then have "List.map_filter query_pair (map ?enc ps) = ps" for ps by (rule map_filter_inverse)
  ultimately show ?thesis unfolding ParseQuery_def by (simp only:)
qed

lemma filter_sort_key_eq: "filter (\<lambda>p. fst p = k) (sort_key fst q) = filter (\<lambda>p. fst p = k) q"
  by (rule sort_key_stable)

lemma values_of_Encode [simp]: "values_of (ParseQuery (Encode q)) k = values_of q k"
  by (simp add: ParseQuery_Encode values_of_def filter_sort_key_eq)

lemma values_of_Set [simp]: "values_of (Set q k v) n = (if n = k then [v] else values_of q n)"
proof -
  have "filter (\<lambda>p. fst p = n) (filter (\<lambda>p. fst p \<noteq> k) q) = (if n = k then [] else filter (\<lambda>p. fst p = n) q)"
    by (induction q) auto
  then show ?thesis by (simp add: values_of_def Set_def del: filter_filter)
qed

lemma set_fields_Inr:
  assumes "distinct (map fst fs)"
  shows "set_fields fs q = Inr q' \<longleftrightarrow> (\<forall>(n, v) \<in> set fs. v \<noteq> [] \<longrightarrow> Get q n = []) \<and> q' = fold (\<lambda>(n, v) q. if v = [] then q else Set q n v) fs q"
  using assms
proof (induction fs arbitrary: q)
  case (Cons f fs)
  obtain n v where f: "f = (n, v)" by fastforce
  have "Get (Set q n v) m = Get q m" if "m \<noteq> n" for m using that by (simp add: Get_def)
  moreover have "m \<noteq> n" if "(m, w) \<in> set fs" for m w using Cons.prems that by (force simp: f)
  ultimately have "(\<forall>(m, w) \<in> set fs. w \<noteq> [] \<longrightarrow> Get (Set q n v) m = []) \<longleftrightarrow> (\<forall>(m, w) \<in> set fs. w \<noteq> [] \<longrightarrow> Get q m = [])" by auto
  then show ?case using Cons by (auto simp: f)
qed auto

lemma values_of_fold:
  assumes "distinct (map fst fs)"
  shows "values_of (fold (\<lambda>(n, v) q. if v = [] then q else Set q n v) fs q) k =
    (case map_of fs k of Some (c # v) \<Rightarrow> [c # v] | _ \<Rightarrow> values_of q k)"
  using assms
proof (induction fs arbitrary: q)
  case (Cons f fs)
  obtain n v where f: "f = (n, v)" by fastforce
  have "map_of fs n = None" using Cons.prems by (simp add: f map_of_eq_None_iff)
  with Cons show ?case by (cases v) (auto simp: f split: option.split list.split)
qed simp

section \<open>Properties\<close>

lemma MergeTLSParams_Inr:
  "MergeTLSParams api dsn p = Inr out \<longleftrightarrow> IsZero p \<and> out = dsn \<or> \<not> IsZero p \<and> (SSLCert p = []) = (SSLKey p = [])
      \<and> (has_prefix (trim_space dsn) ''postgres://'' \<or> has_prefix (trim_space dsn) ''postgresql://'')
      \<and> (\<exists>raw others q. url_Parse api (trim_space dsn) = Inr (raw, others)
          \<and> set_fields (tls_fields p) (ParseQuery raw) = Inr q \<and> out = url_String api (Encode q, others))"
  by (auto simp: MergeTLSParams_def Let_def has_prefix_def split: sum.splits)

text \<open>What is assumed of \<open>net/url\<close>: a parsed URL printed with an encoded query parses to the same with that query.\<close>

definition reparses :: "url_api \<Rightarrow> bool" where
  "reparses api \<longleftrightarrow> (\<forall>s raw others q. url_Parse api s = Inr (raw, others)
      \<longrightarrow> url_Parse api (url_String api (Encode q, others)) = Inr (Encode q, others))"

text \<open>C18: Merging TLS parameters into a connection string succeeds exactly when there are none, or the
  certificate and key come together, the string is a \<open>postgres\<close> URL and no parameter supplied is already in
  its query with a non-empty (first) value; then parsing the result gives each supplied parameter as the
  one value of its name and every other value of the query as it was.\<close>

theorem MergeTLSParams_spec:
  assumes url: "reparses api"
  shows "((\<exists>out. MergeTLSParams api dsn p = Inr out) \<longleftrightarrow> IsZero p \<or> (SSLCert p = []) = (SSLKey p = [])
      \<and> (has_prefix (trim_space dsn) ''postgres://'' \<or> has_prefix (trim_space dsn) ''postgresql://'')
      \<and> (\<exists>raw others. url_Parse api (trim_space dsn) = Inr (raw, others)
          \<and> (\<forall>(n, v) \<in> set (tls_fields p). v = [] \<or> Get (ParseQuery raw) n = [])))
    \<and> (\<forall>out. MergeTLSParams api dsn p = Inr out \<longrightarrow> IsZero p \<and> out = dsn \<or> (\<exists>raw raw' others.
          url_Parse api (trim_space dsn) = Inr (raw, others) \<and> url_Parse api out = Inr (raw', others)
          \<and> (\<forall>k. values_of (ParseQuery raw') k =
               (case map_of (tls_fields p) k of Some (c # v) \<Rightarrow> [c # v] | _ \<Rightarrow> values_of (ParseQuery raw) k))))"
proof -
  have d: "distinct (map fst (tls_fields p))" by (simp add: tls_fields_def)
  note fields = set_fields_Inr [OF d] values_of_fold [OF d]
  have "\<exists>raw raw' others. url_Parse api (trim_space dsn) = Inr (raw, others) \<and> url_Parse api out = Inr (raw', others)
      \<and> (\<forall>k. values_of (ParseQuery raw') k =
           (case map_of (tls_fields p) k of Some (c # v) \<Rightarrow> [c # v] | _ \<Rightarrow> values_of (ParseQuery raw) k))"
    if "url_Parse api (trim_space dsn) = Inr (raw, others)" "set_fields (tls_fields p) (ParseQuery raw) = Inr q"
      "out = url_String api (Encode q, others)" for raw others q out
    using that url [unfolded reparses_def, rule_format, OF that(1), of q] by (intro exI [of _ raw] exI [of _ "Encode q"] exI [of _ others]) (simp add: fields)
  then have result: "\<forall>out. MergeTLSParams api dsn p = Inr out \<longrightarrow> IsZero p \<and> out = dsn \<or> (\<exists>raw raw' others.
          url_Parse api (trim_space dsn) = Inr (raw, others) \<and> url_Parse api out = Inr (raw', others)
          \<and> (\<forall>k. values_of (ParseQuery raw') k =
               (case map_of (tls_fields p) k of Some (c # v) \<Rightarrow> [c # v] | _ \<Rightarrow> values_of (ParseQuery raw) k)))"
    unfolding MergeTLSParams_Inr by fast
  have free: "(\<forall>(n, v) \<in> set (tls_fields p). v = [] \<or> Get q n = []) \<longleftrightarrow> (\<exists>q'. set_fields (tls_fields p) q = Inr q')" for q
    by (simp add: fields(1) case_prod_unfold imp_conv_disj)
  have "(\<exists>out. MergeTLSParams api dsn p = Inr out) \<longleftrightarrow> IsZero p \<or> (SSLCert p = []) = (SSLKey p = [])
      \<and> (has_prefix (trim_space dsn) ''postgres://'' \<or> has_prefix (trim_space dsn) ''postgresql://'')
      \<and> (\<exists>raw others. url_Parse api (trim_space dsn) = Inr (raw, others)
          \<and> (\<exists>q'. set_fields (tls_fields p) (ParseQuery raw) = Inr q'))"
  proof (cases "IsZero p")
    case True
    then show ?thesis by (simp add: MergeTLSParams_Inr)
  next
    case False
    then show ?thesis unfolding MergeTLSParams_Inr
      by (simp only: simp_thms ex_simps ex_comm [of "\<lambda>out _. _ out"]) (intro conj_cong refl, blast)
  qed
  with result show ?thesis unfolding free by (rule conjI [rotated])
qed

definition sample_url :: url_api where
  "sample_url = \<lparr>url_Parse = \<lambda>s. case cut_at CHR ''?'' s of (a, b) \<Rightarrow> Inr (b, a), url_String = \<lambda>(b, a). a @ ''?'' @ b\<rparr>"

theorem MergeTLSParams_spec_witness:
  "\<exists>out raw. MergeTLSParams sample_url ''postgres://h/d?sslmode=&x=a%20b''
        \<lparr>SSLMode = ''require'', SSLRootCert = ''/c a'', SSLCert = [], SSLKey = []\<rparr> = Inr out
     \<and> url_Parse sample_url out = Inr (raw, ''postgres://h/d'') \<and> Get (ParseQuery raw) ''sslmode'' = ''require''
     \<and> Get (ParseQuery raw) ''sslrootcert'' = ''/c a'' \<and> Get (ParseQuery raw) ''x'' = ''a b''"
proof -
  let ?p = "\<lparr>SSLMode = ''require'', SSLRootCert = ''/c a'', SSLCert = [], SSLKey = []\<rparr>"
  have url: "reparses sample_url" unfolding reparses_def
  proof (intro allI impI)
    fix s raw others q
    assume that: "url_Parse sample_url s = Inr (raw, others)"
    have "others = takeWhile (\<lambda>x. x \<noteq> CHR ''?'') s" using that by (simp add: sample_url_def cut_at_def)
    then have "\<forall>x \<in> set others. x \<noteq> CHR ''?''" by (auto dest: set_takeWhileD)
    then show "url_Parse sample_url (url_String sample_url (Encode q, others)) = Inr (Encode q, others)"
      by (simp add: sample_url_def cut_at_def takeWhile_append dropWhile_append)
  qed
  obtain out where out: "MergeTLSParams sample_url ''postgres://h/d?sslmode=&x=a%20b'' ?p = Inr out"
    "url_Parse sample_url (trim_space ''postgres://h/d?sslmode=&x=a%20b'') = Inr (''sslmode=&x=a%20b'', ''postgres://h/d'')"
    "\<not> IsZero ?p" "values_of (ParseQuery ''sslmode=&x=a%20b'') ''x'' = [''a b'']"
  proof -
    have "MergeTLSParams sample_url ''postgres://h/d?sslmode=&x=a%20b'' ?p
        = Inr ''postgres://h/d?sslmode=require&sslrootcert=%2Fc+a&x=a+b''" by code_simp
    moreover have "url_Parse sample_url (trim_space ''postgres://h/d?sslmode=&x=a%20b'') = Inr (''sslmode=&x=a%20b'', ''postgres://h/d'')"
      by code_simp
    moreover have "\<not> IsZero ?p" "values_of (ParseQuery ''sslmode=&x=a%20b'') ''x'' = [''a b'']" by code_simp+
    ultimately show thesis by (rule that)
  qed
  from MergeTLSParams_spec [OF url, THEN conjunct2, rule_format, OF out(1)] out(2,3)
  obtain raw' where "url_Parse sample_url out = Inr (raw', ''postgres://h/d'')"
    "\<forall>k. values_of (ParseQuery raw') k = (case map_of (tls_fields ?p) k of Some (c # v) \<Rightarrow> [c # v]
        | _ \<Rightarrow> values_of (ParseQuery ''sslmode=&x=a%20b'') k)" by auto
  with out show ?thesis by (intro exI [of _ out] exI [of _ raw']) (simp add: Get_def tls_fields_def)
qed

lemma quote_plain: "\<forall>c \<in> set s. 32 \<le> byte_of c \<and> byte_of c \<noteq> 127 \<and> c \<noteq> CHR 0x22 \<and> c \<noteq> CHR 0x5C \<Longrightarrow> quote s = CHR 0x22 # s @ [CHR 0x22]"
proof -
  assume s: "\<forall>c \<in> set s. 32 \<le> byte_of c \<and> byte_of c \<noteq> 127 \<and> c \<noteq> CHR 0x22 \<and> c \<noteq> CHR 0x5C"
  have "byte_of c \<noteq> 34" "byte_of c \<noteq> 92" if "c \<noteq> CHR 0x22" "c \<noteq> CHR 0x5C" for c
    using that byte_of_eq_iff [of c "CHR 0x22"] byte_of_eq_iff [of c "CHR 0x5C"] by (simp_all add: byte_of_def)
  then have "quote_char c = [c]" if "c \<in> set s" for c
    using s [rule_format, OF that] by (simp add: quote_char_def Let_def)
  then have "concat (map quote_char s) = s" by (induction s) simp_all
  then show ?thesis by (simp add: quote_def)
qed

text \<open>When the connection string is not a URL that parses, the error repeats it, user and password included,
  although the tools promise not to echo credentials and the connection errors are redacted.\<close>

theorem MergeTLSParams_shows_dsn:
  assumes "url_Parse api (''postgres://'' @ r) = Inl e" "\<not> IsZero p" "(SSLCert p = []) = (SSLKey p = [])"
    "\<forall>c \<in> set r. 33 \<le> byte_of c \<and> byte_of c \<le> 126 \<and> c \<noteq> CHR ''#'' \<and> c \<noteq> CHR 0x22 \<and> c \<noteq> CHR 0x5C"
  shows "MergeTLSParams api (''postgres://'' @ r) p = Inl (''parse dsn: parse '' @ [CHR 0x22] @ ''postgres://'' @ r @ [CHR 0x22] @ '': '' @ e)"
proof -
  let ?s = "''postgres://'' @ r"
  have chars: "\<forall>c \<in> set ?s. 33 \<le> byte_of c \<and> byte_of c \<le> 126 \<and> c \<noteq> CHR ''#'' \<and> c \<noteq> CHR 0x22 \<and> c \<noteq> CHR 0x5C"
    using assms(4) by (simp add: byte_of_def)
  then have trim: "trim_space ?s = ?s"
    by (intro trim_space_no_space) (fastforce simp: is_space_def byte_of_def)
  have tw: "takeWhile (\<lambda>c. c \<noteq> CHR ''#'') ?s = ?s" using chars by (intro takeWhile_eq_all_conv [THEN iffD2]) blast
  have qt: "quote (takeWhile (\<lambda>c. c \<noteq> CHR ''#'') ?s) = CHR 0x22 # ?s @ [CHR 0x22]"
    unfolding tw using chars by (intro quote_plain) fastforce
  have "has_prefix ?s ''postgres://''" by (rule has_prefix_append)
  moreover have "?s \<noteq> []" by simp
  ultimately show ?thesis
    unfolding MergeTLSParams_def trim Let_def assms(1) qt using assms(2,3) by (simp del: append.simps append_Cons)
qed

theorem MergeTLSParams_shows_dsn_witness:
  "MergeTLSParams \<lparr>url_Parse = \<lambda>_. Inl ''invalid port'', url_String = \<lambda>_. []\<rparr> ''postgres://u:secret@h:port/d''
      \<lparr>SSLMode = ''require'', SSLRootCert = [], SSLCert = [], SSLKey = []\<rparr>
    = Inl (''parse dsn: parse '' @ [CHR 0x22] @ ''postgres://'' @ ''u:secret@h:port/d'' @ [CHR 0x22] @ '': '' @ ''invalid port'')"
  using MergeTLSParams_shows_dsn [of "\<lparr>url_Parse = \<lambda>_. Inl ''invalid port'', url_String = \<lambda>_. []\<rparr>"
      "''u:secret@h:port/d''" "''invalid port''" "\<lparr>SSLMode = ''require'', SSLRootCert = [], SSLCert = [], SSLKey = []\<rparr>"]
  by (simp add: IsZero_def byte_of_def)

end
