(* ===== verification/Mcp_Params.thy ===== *)
theory Mcp_Params
  imports Preprocess Conn Tls Catalog "HOL-Library.Word" Complex_Main
begin

text \<open>
  The request parameters and envelopes of the MCP tools, \<open>internal/mcp/tools/tools.go\<close> and the argument
  readers of \<open>catalog.go\<close>. A request's arguments are a decoded JSON object; a number is the \<open>float64\<close> it
  decodes to, of which the code uses the exact value. A reader returns the value or the text of the tool
  error, and \<open>%T\<close> prints the Go type of a decoded value.
\<close>

section \<open>Requests\<close>

datatype json = JNull | JBool bool | JNum rat | JStr string | JArr "json list" | JObj "(string \<times> json) list"

type_synonym request = "string \<rightharpoonup> json"

fun go_type :: "json \<Rightarrow> string" where
  "go_type JNull = ''<nil>''"
| "go_type (JBool _) = ''bool''"
| "go_type (JNum _) = ''float64''"
| "go_type (JStr _) = ''string''"
| "go_type (JArr _) = ''[]interface {}''"
| "go_type (JObj _) = ''map[string]interface {}''"

definition must_be :: "string \<Rightarrow> string \<Rightarrow> json \<Rightarrow> string + 'a" where
  "must_be name what v = Inl (name @ '' parameter must be '' @ what @ '', got '' @ go_type v)"

definition extractRequiredString :: "request \<Rightarrow> string \<Rightarrow> string + string" where
  "extractRequiredString req name =
     (case req name of
        None \<Rightarrow> Inl (name @ '' parameter is required'')
      | Some (JStr s0) \<Rightarrow>
          (let s = trim_space s0 in
           if s = [] then Inl (name @ '' parameter must not be empty'') else Inr s)
      | Some v \<Rightarrow> must_be name ''a string'' v)"

definition extractSQL :: "request \<Rightarrow> string + string" where
  "extractSQL req = extractRequiredString req ''sql''"

definition extractOptionalString :: "request \<Rightarrow> string \<Rightarrow> string + string" where
  "extractOptionalString req name =
     (case req name of
        None \<Rightarrow> Inr []
      | Some JNull \<Rightarrow> Inr []
      | Some (JStr s) \<Rightarrow> Inr (trim_space s)
      | Some v \<Rightarrow> must_be name ''a string'' v)"

definition extractOptionalBool :: "request \<Rightarrow> string \<Rightarrow> string + bool" where
  "extractOptionalBool req name =
     (case req name of
        None \<Rightarrow> Inr False
      | Some JNull \<Rightarrow> Inr False
      | Some (JBool b) \<Rightarrow> Inr b
      | Some v \<Rightarrow> must_be name ''a boolean'' v)"

definition resolveTargetVersion :: "request \<Rightarrow> string \<Rightarrow> string + string" where
  "resolveTargetVersion req defaultTargetVersion =
     (case req ''target_version'' of
        None \<Rightarrow> Inr defaultTargetVersion
      | Some (JStr s0) \<Rightarrow>
          (let s = trim_space s0 in
           if s = [] then Inr defaultTargetVersion
           else
             (case ValidateTargetVersion s of
                Inl e \<Rightarrow> Inl (''target_version parameter: '' @ e)
              | Inr canonical \<Rightarrow> Inr canonical))
      | Some v \<Rightarrow> must_be ''target_version'' ''a string'' v)"

definition resolveSafetyMode :: "request \<Rightarrow> string + mode" where
  "resolveSafetyMode req =
     (case req ''mode'' of
        None \<Rightarrow> Inr DefaultMode
      | Some (JStr s) \<Rightarrow>
          (case ParseMode (trim_space s) of
             Inl e \<Rightarrow> Inl (''mode parameter: '' @ e)
           | Inr m \<Rightarrow> Inr m)
      | Some v \<Rightarrow> must_be ''mode'' ''a string'' v)"

text \<open>
  \<open>int(n)\<close> on a \<open>float64\<close> cuts off the fraction; outside the 64-bit range the result depends on the
  platform and is an argument.
\<close>

definition go_int :: "(rat \<Rightarrow> int) \<Rightarrow> rat \<Rightarrow> int" where
  "go_int overflow_int n =
     (let i = (if n < 0 then - \<lfloor>- n\<rfloor> else \<lfloor>n\<rfloor>) in
      if - (2 ^ 63) \<le> i \<and> i < 2 ^ 63 then i else overflow_int n)"

definition resolveMaxRows :: "(rat \<Rightarrow> int) \<Rightarrow> request \<Rightarrow> int \<Rightarrow> string + int" where
  "resolveMaxRows overflow_int req defaultMax =
     (case req ''max_rows'' of
        None \<Rightarrow> Inr defaultMax
      | Some (JNum n) \<Rightarrow> if n < 0 then Inr 0 else Inr (go_int overflow_int n)
      | Some v \<Rightarrow> must_be ''max_rows'' ''a number'' v)"

text \<open>\<open>time.Duration(ms) * time.Millisecond\<close> wraps in 64 bits.\<close>

definition resolveStatementTimeout :: "(rat \<Rightarrow> int) \<Rightarrow> request \<Rightarrow> string + int" where
  "resolveStatementTimeout overflow_int req =
     (case req ''statement_timeout_ms'' of
        None \<Rightarrow> Inr DefaultStatementTimeout
      | Some (JNum ms) \<Rightarrow>
          if ms \<le> 0 then Inr DefaultStatementTimeout
          else Inr (sint (word_of_int (go_int overflow_int ms) * 1000000 :: 64 word))
      | Some v \<Rightarrow> must_be ''statement_timeout_ms'' ''a number (milliseconds)'' v)"

section \<open>Envelopes\<close>

definition stampTargetVersion :: "envelope \<Rightarrow> string \<Rightarrow> string \<Rightarrow> envelope" where
  "stampTargetVersion env parserVersion targetVersion =
     (if targetVersion = [] then env
      else
        (let env = env\<lparr>target_version := targetVersion\<rparr> in
         case VersionMismatchWarning parserVersion targetVersion of
           Some w \<Rightarrow> env\<lparr>eerrors := eerrors env @ [w]\<rparr>
         | None \<Rightarrow> env))"

definition tier_envelope :: "tier \<Rightarrow> string \<Rightarrow> string \<Rightarrow> envelope" where
  "tier_envelope t parserVersion targetVersion =
     stampTargetVersion
       \<lparr>etier = t, parser_version = parserVersion, target_version = [], econnection = ConnectionDisconnected,
        eerrors = [], edata = None\<rparr> parserVersion targetVersion"

definition baseEnvelope :: "string \<Rightarrow> string \<Rightarrow> envelope" where
  "baseEnvelope = tier_envelope TierZeroConfig"

definition schemaFileEnvelope :: "string \<Rightarrow> string \<Rightarrow> envelope" where
  "schemaFileEnvelope = tier_envelope TierSchemaFile"

definition connectedEnvelope :: "string \<Rightarrow> string \<Rightarrow> envelope" where
  "connectedEnvelope = tier_envelope TierConnected"

text \<open>A tool error, or a result whose text is the printed envelope.\<close>

datatype tool_result = ToolError string | ToolText string

definition envelopeResult :: "(envelope \<Rightarrow> string + string) \<Rightarrow> envelope \<Rightarrow> tool_result" where
  "envelopeResult marshal env =
     (case marshal env of Inl e \<Rightarrow> ToolError (''encode result: '' @ e) | Inr body \<Rightarrow> ToolText body)"

section \<open>Connection strings\<close>

definition resolveTLSParams :: "request \<Rightarrow> string + tls_params" where
  "resolveTLSParams req =
     (case extractOptionalString req ''sslmode'' of Inl e \<Rightarrow> Inl e | Inr m \<Rightarrow>
     (case extractOptionalString req ''sslrootcert'' of Inl e \<Rightarrow> Inl e | Inr rootCert \<Rightarrow>
     (case extractOptionalString req ''sslcert'' of Inl e \<Rightarrow> Inl e | Inr cert \<Rightarrow>
     (case extractOptionalString req ''sslkey'' of Inl e \<Rightarrow> Inl e | Inr key \<Rightarrow>
        Inr \<lparr>SSLMode = m, SSLRootCert = rootCert, SSLCert = cert, SSLKey = key\<rparr>))))"

definition tls_param_error :: "string \<Rightarrow> error_entry" where
  "tls_param_error e = (plain_error ''tls_param_error'' SevError e)\<lparr>category := ''connect''\<rparr>"

definition mergeDSNWithTLS ::
    "(envelope \<Rightarrow> string + string) \<Rightarrow> url_api \<Rightarrow> request \<Rightarrow> envelope \<Rightarrow> string \<Rightarrow> tool_result + string" where
  "mergeDSNWithTLS marshal url req env name =
     (case resolveTLSParams req of
        Inl e \<Rightarrow> Inl (ToolError e)
      | Inr p \<Rightarrow>
          (case MergeTLSParams url name p of
             Inl e \<Rightarrow> Inl (envelopeResult marshal (env\<lparr>eerrors := eerrors env @ [tls_param_error e]\<rparr>))
           | Inr merged \<Rightarrow> Inr merged))"

section \<open>Inline schemas\<close>

definition schema_item :: "nat \<Rightarrow> json \<Rightarrow> string + schema_source" where
  "schema_item i item =
     (let entry = ''schemas['' @ itoa_nat i @ '']'' in
      case item of
        JObj obj \<Rightarrow>
          (case map_of obj ''sql'' of
             None \<Rightarrow> Inl (entry @ ''.sql is required'')
           | Some (JStr s) \<Rightarrow>
               if trim_space s = [] then Inl (entry @ ''.sql must not be empty'')
               else
                 (case map_of obj ''label'' of
                    None \<Rightarrow> Inr \<lparr>src_path = [], src_sql = trim_space s, src_label = []\<rparr>
                  | Some JNull \<Rightarrow> Inr \<lparr>src_path = [], src_sql = trim_space s, src_label = []\<rparr>
                  | Some (JStr lbl) \<Rightarrow> Inr \<lparr>src_path = [], src_sql = trim_space s, src_label = lbl\<rparr>
                  | Some v \<Rightarrow> Inl (entry @ ''.label must be a string, got '' @ go_type v))
           | Some v \<Rightarrow> Inl (entry @ ''.sql must be a string, got '' @ go_type v))
      | v \<Rightarrow> Inl (entry @ '' must be an object, got '' @ go_type v))"

fun schema_items :: "nat \<Rightarrow> json list \<Rightarrow> string + schema_source list" where
  "schema_items i [] = Inr []"
| "schema_items i (item # items) =
     (case schema_item i item of
        Inl e \<Rightarrow> Inl e
      | Inr src \<Rightarrow> (case schema_items (Suc i) items of Inl e \<Rightarrow> Inl e | Inr srcs \<Rightarrow> Inr (src # srcs)))"

definition extractSchemas :: "request \<Rightarrow> bool \<Rightarrow> string + schema_source list" where
  "extractSchemas req required =
     (case req ''schemas'' of
        None \<Rightarrow> if required then Inl ''schemas parameter is required'' else Inr []
      | Some JNull \<Rightarrow> if required then Inl ''schemas parameter is required'' else Inr []
      | Some (JArr items) \<Rightarrow>
          if items = [] then (if required then Inl ''schemas parameter must contain at least one entry'' else Inr [])
          else schema_items 0 items
      | Some v \<Rightarrow> must_be ''schemas'' ''an array'' v)"

definition requireExactlyOneSource :: "schema_source list \<Rightarrow> string \<Rightarrow> string option" where
  "requireExactlyOneSource sources name =
     (if sources = [] \<and> name = [] then Some ''must supply either schemas or dsn''
      else if sources \<noteq> [] \<and> name \<noteq> [] then Some ''schemas and dsn are mutually exclusive; supply exactly one''
      else None)"

definition schemawarn_Append :: "envelope \<Rightarrow> catalog option \<Rightarrow> envelope" where
  "schemawarn_Append env cat =
     (case cat of
        None \<Rightarrow> env
      | Some c \<Rightarrow> env\<lparr>eerrors := eerrors env @ map (plain_error ''schema_warning'' SevWarning) (warnings c)\<rparr>)"

section \<open>The timeout of a request\<close>

lemma sint_product: "sint (word_of_int i * 1000000 :: 64 word) = (i * 1000000 + 2 ^ 63) mod 2 ^ 64 - 2 ^ 63"
proof -
  have w: "(word_of_int i * 1000000 :: 64 word) = word_of_int (i * 1000000)" by simp
  show ?thesis unfolding w int_word_sint by simp
qed

lemma go_int_pos: "0 \<le> n \<Longrightarrow> n < 2 ^ 63 \<Longrightarrow> go_int f n = \<lfloor>n\<rfloor>"
  by (simp add: go_int_def Let_def floor_less_iff)

text \<open>C19: What the cluster is told for the \<open>statement_timeout_ms\<close> of a request: its whole milliseconds, up to the
  292 years that fit 64 bits of nanoseconds; 30 seconds when that is zero. The multiplication is not checked: just
  above the bound it wraps to a negative duration, which becomes 30 seconds too, and at 18446744073710 to less than
  a millisecond, which switches the timeout off.\<close>

theorem request_timeout_sent:
  assumes "req ''statement_timeout_ms'' = Some (JNum ms)" "ms < 18446744073711"
  shows "\<exists>t. resolveStatementTimeout overflow_int req = Inr t
    \<and> timeout_statement (NewManager name [WithStatementTimeout t]) = ''SET LOCAL statement_timeout = '' @ [CHR 0x27]
        @ itoa (if ms < 1 then 30000 else if ms < 9223372036855 then \<lfloor>ms\<rfloor> else if ms < 18446744073710 then 30000 else 0)
        @ ''ms'' @ [CHR 0x27]"
proof (cases "ms \<le> 0")
  case True
  with assms(1) show ?thesis
    by (simp add: resolveStatementTimeout_def timeout_statement_def NewManager_def WithStatementTimeout_def DefaultStatementTimeout_def)
next
  case False
  define i where "i = \<lfloor>ms\<rfloor>"
  have g: "go_int overflow_int ms = i" using False assms(2) by (simp add: go_int_pos i_def)
  have i: "0 \<le> i" "i \<le> 18446744073710" using False assms(2) by (simp_all add: i_def floor_le_iff)
  have bounds: "ms < 1 \<longleftrightarrow> i < 1" "ms < 9223372036855 \<longleftrightarrow> i < 9223372036855" "ms < 18446744073710 \<longleftrightarrow> i < 18446744073710"
    by (simp_all add: i_def floor_less_iff)
  define t where "t = sint (word_of_int i * 1000000 :: 64 word)"
  have t: "t = (if i < 9223372036855 then i * 1000000 else if i < 18446744073710 then i * 1000000 - 2 ^ 64 else 448384)"
  proof -
    have "(i * 1000000 + 2 ^ 63) mod 2 ^ 64 = i * 1000000 + 2 ^ 63" if "i < 9223372036855"
      using i(1) that by (intro mod_pos_pos_trivial) simp_all
    moreover have "(i * 1000000 + 2 ^ 63) mod 2 ^ 64 = i * 1000000 + 2 ^ 63 - 2 ^ 64" if "\<not> i < 9223372036855"
    proof -
      have "(i * 1000000 + 2 ^ 63) mod 2 ^ 64 = (i * 1000000 + 2 ^ 63 - 2 ^ 64) mod 2 ^ 64" by (metis minus_mod_self2)
      also have "\<dots> = i * 1000000 + 2 ^ 63 - 2 ^ 64" using i that by (intro mod_pos_pos_trivial) simp_all
      finally show ?thesis .
    qed
    moreover have "i = 18446744073710" if "\<not> i < 18446744073710" using i that by simp
    ultimately show ?thesis unfolding t_def sint_product by auto
  qed
  have r: "resolveStatementTimeout overflow_int req = Inr t" using assms(1) False by (simp add: resolveStatementTimeout_def g t_def)
  have e: "stmtTimeout (NewManager name [WithStatementTimeout t]) div 1000000 =
      (if i < 1 then 30000 else if i < 9223372036855 then i else if i < 18446744073710 then 30000 else 0)"
    using i by (auto simp: NewManager_def WithStatementTimeout_def DefaultStatementTimeout_def t)
  show ?thesis
    by (rule exI [of _ t], rule conjI, rule r) (simp only: timeout_statement_def e bounds i_def [symmetric])
qed

theorem request_timeout_sent_witness:
  "\<exists>t. resolveStatementTimeout (\<lambda>_. 0) [''statement_timeout_ms'' \<mapsto> JNum 18446744073710] = Inr t
     \<and> timeout_statement (NewManager [] [WithStatementTimeout t]) = ''SET LOCAL statement_timeout = '' @ [CHR 0x27] @ itoa 0 @ ''ms'' @ [CHR 0x27]"
proof -
  have n: "(if (18446744073710 :: rat) < 1 then 30000 else if (18446744073710 :: rat) < 9223372036855 then \<lfloor>18446744073710 :: rat\<rfloor>
      else if (18446744073710 :: rat) < 18446744073710 then 30000 else 0) = (0 :: int)" by simp
  have "[''statement_timeout_ms'' \<mapsto> JNum 18446744073710] ''statement_timeout_ms'' = Some (JNum 18446744073710)"
    "(18446744073710 :: rat) < 18446744073711" by simp_all
  from request_timeout_sent [where req = "[''statement_timeout_ms'' \<mapsto> JNum 18446744073710]", OF this, of "\<lambda>_. 0" "[]"] show ?thesis unfolding n .
qed

end
