(* ===== verification/Mcp_Tools.thy ===== *)
theory Mcp_Tools
  imports Mcp_Params Semcheck Risk Version_Features
begin

text \<open>
  The parser-only MCP tools, \<open>parse_sql\<close>, \<open>format_sql\<close>, \<open>detect_risky_sql\<close> and \<open>validate_sql\<close> of
  \<open>internal/mcp/tools\<close>, with \<open>internal/sqlparse\<close>, the printer of \<open>internal/sqlformat/format.go\<close>, and what a
  request can rely on: no panic, a tool error only for a malformed request, and positions in the text sent.
\<close>

section \<open>Classification and formatting\<close>

datatype classified_type = ClassDDL | ClassDML | ClassDCL | ClassTCL | ClassUNKNOWN

record classified =
  cls_type :: classified_type
  cls_tag :: string
  cls_sql :: string
  cls_normalized :: string

fun mapStatementType :: "statement_type \<Rightarrow> classified_type" where
  "mapStatementType TypeDDL = ClassDDL"
| "mapStatementType TypeDML = ClassDML"
| "mapStatementType TypeDCL = ClassDCL"
| "mapStatementType TypeTCL = ClassTCL"
| "mapStatementType TypeUnclassified = ClassUNKNOWN"

text \<open>\<open>tree.FormatStatementHideConstants\<close> is an argument.\<close>

definition ClassifyParsed :: "(statement \<Rightarrow> string) \<Rightarrow> parsed list \<Rightarrow> classified list" where
  "ClassifyParsed hide stmts =
     map (\<lambda>s. \<lparr>cls_type = mapStatementType (type_of (AST s)), cls_tag = tag_of (AST s), cls_sql = SQL s,
              cls_normalized = hide (AST s)\<rparr>) stmts"

definition Classify :: "(string \<Rightarrow> 'e + parsed list) \<Rightarrow> (statement \<Rightarrow> string) \<Rightarrow> string \<Rightarrow> 'e + classified list" where
  "Classify parse hide sql = (case parse sql of Inl e \<Rightarrow> Inl e | Inr stmts \<Rightarrow> Inr (ClassifyParsed hide stmts))"

text \<open>The loop of \<open>FormatParsed\<close>; \<open>cfg.Pretty\<close> is an argument.\<close>

fun format_loop :: "(statement \<Rightarrow> string + string) \<Rightarrow> nat \<Rightarrow> parsed list \<Rightarrow> string \<Rightarrow> string + string" where
  "format_loop pretty i [] acc = Inr acc"
| "format_loop pretty i (s # ss) acc =
     (let acc = (if i > 0 then acc @ '';'' @ [newline] else acc) in
      case pretty (AST s) of
        Inl e \<Rightarrow> Inl (''format statement '' @ itoa_nat (i + 1) @ '': '' @ e)
      | Inr p \<Rightarrow> format_loop pretty (Suc i) ss (acc @ p))"

definition FormatParsed :: "(statement \<Rightarrow> string + string) \<Rightarrow> parsed list \<Rightarrow> string + string" where
  "FormatParsed pretty stmts = (if length stmts = 0 then Inr [] else format_loop pretty 0 stmts [])"

lemma format_loop_join:
  "format_loop pretty (Suc i) ss acc = Inr out \<longleftrightarrow>
     (\<exists>ps. list_all2 (\<lambda>s p. pretty (AST s) = Inr p) ss ps \<and> out = acc @ concat (map (\<lambda>p. '';'' @ [newline] @ p) ps))"
proof (induction ss arbitrary: i acc)
  case (Cons s ss)
  show ?case
  proof (cases "pretty (AST s)")
    case (Inr p)
    have "(\<exists>ps. list_all2 (\<lambda>s p. pretty (AST s) = Inr p) (s # ss) ps \<and> R ps)
        \<longleftrightarrow> (\<exists>ps. list_all2 (\<lambda>s p. pretty (AST s) = Inr p) ss ps \<and> R (p # ps))" for R
      by (auto simp: list_all2_Cons1 Inr)
    with Inr show ?thesis by (simp add: Let_def Cons.IH)
  qed (auto simp: Let_def list_all2_Cons1)
qed auto

section \<open>The environment of a tool\<close>

datatype payload =
    ClassifiedData "classified list"
  | FormattedData string
  | FindingsData "finding list"
  | ValidateData validate_result

text \<open>\<open>json.Marshal\<close> of an envelope and of a payload, the formatters, the risk rules' \<open>show_name\<close>, and \<open>pgerror.GetPGCode\<close> of a schema error, which the model knows by its text.\<close>

record 'e tool_env =
  Front :: "'e front_end"
  MarshalEnvelope :: "envelope \<Rightarrow> string + string"
  MarshalData :: "payload \<Rightarrow> string + string"
  Pretty :: "statement \<Rightarrow> string + string"
  HideConstants :: "statement \<Rightarrow> string"
  ShowName :: "string \<Rightarrow> string"
  Files :: file_system
  GetCode :: "string \<Rightarrow> string"

definition parse_failure :: "'e tool_env \<Rightarrow> envelope \<Rightarrow> 'e \<Rightarrow> string \<Rightarrow> StripResult \<Rightarrow> envelope outcome" where
  "parse_failure te env perr originalSQL strip =
     translateErrorPositions
       (env\<lparr>eerrors := eerrors env @ [FromParseError (ErrorApi (Front te)) (Keywords (Front te)) perr (Stripped strip)]\<rparr>)
       (length (eerrors env)) originalSQL strip"

text \<open>The steps the parser-only handlers share; \<open>body\<close> is what follows \<open>version.Inspect\<close>.\<close>

definition parser_tool ::
    "'e tool_env \<Rightarrow> string \<Rightarrow> string \<Rightarrow> request \<Rightarrow> (envelope \<Rightarrow> parsed list \<Rightarrow> string \<Rightarrow> tool_result outcome) \<Rightarrow> tool_result outcome" where
  "parser_tool te parserVersion defaultTargetVersion req body =
     (case extractSQL req of
        Inl e \<Rightarrow> Ret (ToolError e)
      | Inr originalSQL \<Rightarrow>
          (case resolveTargetVersion req defaultTargetVersion of
             Inl e \<Rightarrow> Ret (ToolError e)
           | Inr target \<Rightarrow>
               (case preprocessSQL (baseEnvelope parserVersion target) originalSQL of
                  (env, strip) \<Rightarrow>
                    (case Parse (Front te) (Stripped strip) of
                       Inl perr \<Rightarrow>
                         obind (parse_failure te env perr originalSQL strip)
                           (\<lambda>env. Ret (envelopeResult (MarshalEnvelope te) env))
                     | Inr stmts \<Rightarrow>
                         obind (Inspect stmts target None)
                           (\<lambda>ws. body (env\<lparr>eerrors := eerrors env @ ws\<rparr>) stmts (Stripped strip))))))"

definition data_result :: "'e tool_env \<Rightarrow> string \<Rightarrow> envelope \<Rightarrow> payload \<Rightarrow> tool_result" where
  "data_result te what env payload =
     (case MarshalData te payload of
        Inl e \<Rightarrow> ToolError (''encode '' @ what @ '': '' @ e)
      | Inr d \<Rightarrow> envelopeResult (MarshalEnvelope te) (env\<lparr>edata := Some d\<rparr>))"

definition ParseSQLHandler :: "'e tool_env \<Rightarrow> string \<Rightarrow> string \<Rightarrow> request \<Rightarrow> tool_result outcome" where
  "ParseSQLHandler te pv dflt req = parser_tool te pv dflt req (\<lambda>env stmts sql.
     Ret (data_result te ''statements'' env (ClassifiedData (ClassifyParsed (HideConstants te) stmts))))"

definition FormatSQLHandler :: "'e tool_env \<Rightarrow> string \<Rightarrow> string \<Rightarrow> request \<Rightarrow> tool_result outcome" where
  "FormatSQLHandler te pv dflt req = parser_tool te pv dflt req (\<lambda>env stmts sql.
     case FormatParsed (Pretty te) stmts of
       Inl e \<Rightarrow> Ret (envelopeResult (MarshalEnvelope te)
                 (env\<lparr>eerrors := eerrors env @ [plain_error ''internal_error'' SevError (''format: '' @ e)]\<rparr>))
     | Inr formatted \<Rightarrow> Ret (data_result te ''result'' env (FormattedData formatted)))"

definition DetectRiskySQLHandler :: "'e tool_env \<Rightarrow> string \<Rightarrow> string \<Rightarrow> request \<Rightarrow> tool_result outcome" where
  "DetectRiskySQLHandler te pv dflt req = parser_tool te pv dflt req (\<lambda>env stmts sql.
     obind (AnalyzeParsed (ShowName te) stmts sql) (\<lambda>findings.
     Ret (data_result te ''findings'' env (FindingsData findings))))"

section \<open>Validation\<close>

definition failureEnvelope :: "'e tool_env \<Rightarrow> envelope \<Rightarrow> checks \<Rightarrow> tool_result" where
  "failureEnvelope te env cs =
     (case MarshalData te (ValidateData \<lparr>Valid = False, Checks = cs\<rparr>) of
        Inl e \<Rightarrow> envelopeResult (MarshalEnvelope te)
          (env\<lparr>eerrors := eerrors env @ [plain_error ''internal_error'' SevError (''encode result: '' @ e)]\<rparr>)
      | Inr d \<Rightarrow> envelopeResult (MarshalEnvelope te) (env\<lparr>edata := Some d\<rparr>))"

definition schemaLoadErrorCode :: string where
  "schemaLoadErrorCode = ''schema_load_error''"

definition schemaLoadEnvelopeError :: "'e tool_env \<Rightarrow> string \<Rightarrow> error_entry" where
  "schemaLoadEnvelopeError te perr =
     (let c0 = GetCode te perr;
          c = (if c0 = [] \<or> c0 = ''XXUUU'' then schemaLoadErrorCode else c0)
      in (plain_error c SevError perr)\<lparr>category := CategoryForCode c\<rparr>)"

definition parse_failed_checks :: checks where
  "parse_failed_checks =
     \<lparr>Syntax = CheckFailed, FunctionResolution = CheckSkipped, TypeChecks = CheckSkipped, NameResolution = CheckSkipped\<rparr>"

definition ran_checks :: "run_result \<Rightarrow> checks" where
  "ran_checks r =
     \<lparr>Syntax = CheckOK, FunctionResolution = res_function r, TypeChecks = res_type r, NameResolution = res_name r\<rparr>"

definition parse_text :: "'e front_end \<Rightarrow> string \<Rightarrow> string + parsed list" where
  "parse_text fe sql = map_sum (error_string (ErrorApi fe)) id (Parse fe sql)"

text \<open>The catalog, or the envelope that ends the call.\<close>

definition load_schemas :: "'e tool_env \<Rightarrow> schema_source list \<Rightarrow> envelope \<Rightarrow> envelope + catalog option \<times> envelope" where
  "load_schemas te srcs env =
     (if length srcs = 0
      then Inr (None, env\<lparr>eerrors := eerrors env @ [CapabilityRequiredError CapabilityNameResolution
             ''name resolution skipped: schemas not provided''
             ''pass the schemas argument to enable table name resolution'']\<rparr>)
      else
        (case Load (parse_text (Front te)) (Files te) srcs of
           Inl e \<Rightarrow> Inl (env\<lparr>eerrors := eerrors env @ [schemaLoadEnvelopeError te e]\<rparr>)
         | Inr c \<Rightarrow> Inr (Some c, schemawarn_Append env (Some c))))"

text \<open>From \<open>semcheck.Run\<close> on.\<close>

definition semantic_phase ::
    "'e tool_env \<Rightarrow> envelope \<Rightarrow> parsed list \<Rightarrow> string \<Rightarrow> StripResult \<Rightarrow> catalog option \<Rightarrow> tool_result outcome" where
  "semantic_phase te env stmts originalSQL strip cat =
     obind (Run (Front te) stmts (Stripped strip) cat) (\<lambda>(semRes, semErrs).
     if semErrs \<noteq> []
     then obind (translateErrorPositions (env\<lparr>eerrors := eerrors env @ semErrs\<rparr>) (length (eerrors env)) originalSQL strip)
            (\<lambda>env. Ret (failureEnvelope te env (ran_checks semRes)))
     else Ret (data_result te ''result'' env (ValidateData \<lparr>Valid = True, Checks = ran_checks semRes\<rparr>)))"

definition ValidateSQLHandler :: "'e tool_env \<Rightarrow> string \<Rightarrow> string \<Rightarrow> request \<Rightarrow> tool_result outcome" where
  "ValidateSQLHandler te parserVersion defaultTargetVersion req =
     (case extractSQL req of
        Inl e \<Rightarrow> Ret (ToolError e)
      | Inr originalSQL \<Rightarrow>
     (case resolveTargetVersion req defaultTargetVersion of
        Inl e \<Rightarrow> Ret (ToolError e)
      | Inr target \<Rightarrow>
     (case extractSchemas req False of
        Inl e \<Rightarrow> Ret (ToolError e)
      | Inr srcs \<Rightarrow>
     (case preprocessSQL (if srcs = [] then baseEnvelope parserVersion target
                          else schemaFileEnvelope parserVersion target) originalSQL of
        (env, strip) \<Rightarrow>
     (case Parse (Front te) (Stripped strip) of
        Inl perr \<Rightarrow>
          obind (parse_failure te env perr originalSQL strip) (\<lambda>env. Ret (failureEnvelope te env parse_failed_checks))
      | Inr stmts \<Rightarrow>
          obind (Inspect stmts target None) (\<lambda>ws.
          (case load_schemas te srcs (env\<lparr>eerrors := eerrors env @ ws\<rparr>) of
             Inl env \<Rightarrow> Ret (envelopeResult (MarshalEnvelope te) env)
           | Inr (cat, env) \<Rightarrow> semantic_phase te env stmts originalSQL strip cat)))))))"

section \<open>The answer to a well-formed request\<close>

abbreviation parse_error_of :: "'e tool_env \<Rightarrow> 'e \<Rightarrow> string \<Rightarrow> error_entry" where
  "parse_error_of te perr sql \<equiv> FromParseError (ErrorApi (Front te)) (Keywords (Front te)) perr sql"

lemma parse_failure_eq:
  "parse_failure te env perr sql (StripShellPromptsWithMap sql) =
     Ret (env\<lparr>eerrors := eerrors env @ [relocate sql (parse_error_of te perr (StripShellPrompts sql))]\<rparr>)"
  by (simp add: parse_failure_def translateErrorPositions_strip StripShellPrompts_def)

text \<open>The envelope a call starts from, the prompts reported.\<close>

definition start_envelope :: "tier \<Rightarrow> string \<Rightarrow> string \<Rightarrow> string \<Rightarrow> envelope" where
  "start_envelope t pv target sql =
     (tier_envelope t pv target)\<lparr>eerrors := eerrors (tier_envelope t pv target) @ preprocess_warning sql\<rparr>"

lemma parser_tool_eq:
  assumes "extractSQL req = Inr sql" "resolveTargetVersion req dflt = Inr target"
  shows "parser_tool te pv dflt req body =
    (let env = start_envelope TierZeroConfig pv target sql in
     case Parse (Front te) (StripShellPrompts sql) of
       Inl perr \<Rightarrow> Ret (envelopeResult (MarshalEnvelope te)
         (env\<lparr>eerrors := eerrors env @ [relocate sql (parse_error_of te perr (StripShellPrompts sql))]\<rparr>))
     | Inr stmts \<Rightarrow> obind (Inspect stmts target None) (\<lambda>ws. body (env\<lparr>eerrors := eerrors env @ ws\<rparr>) stmts (StripShellPrompts sql)))"
  using assms
  by (simp add: parser_tool_def preprocessSQL_eq parse_failure_eq baseEnvelope_def start_envelope_def Let_def
      StripShellPrompts_def [symmetric] split: sum.split)

lemma Inspect_returns: "\<exists>ws. Inspect stmts target None = Ret ws"
proof -
  obtain r where r: "DefaultRegistry = Ret r" using DefaultRegistry_ok by auto
  from Inspect_Ret(1) [OF r [unfolded DefaultRegistry_def], of stmts target]
    Inspect_Ret(2) [OF r [unfolded DefaultRegistry_def] r, of stmts target] show ?thesis by auto
qed

lemma AnalyzeParsed_returns: "\<exists>fs. AnalyzeParsed show_name stmts sql = Ret fs"
  by (simp add: AnalyzeParsed_def DefaultRules_registry)

lemma Run_returns: "located sql 0 stmts \<Longrightarrow> \<exists>res errs. Run fe stmts sql cat = Ret (res, errs)"
proof -
  assume l: "located sql 0 stmts"
  obtain fs where f: "CheckFunctionNames (WalkFuncs fe) (FunDefs fe) stmts sql = Ret fs" using CheckFunctionNames_run [OF l] by blast
  show ?thesis
  proof (cases cat)
    case None
    then show ?thesis by (simp add: Run_def f Let_def)
  next
    case (Some c)
    obtain ts where t: "CheckTableNames (WalkTables fe) stmts sql (Some c) = Ret ts" using CheckTableNames_run [OF l] by blast
    obtain st :: col_state where "CheckColumnNames stmts sql (Some c) = Ret (cs_errs st)" using CheckColumnNames_run [OF l] by blast
    with Some show ?thesis by (simp add: Run_def f t Let_def)
  qed
qed

text \<open>A validation of a well-formed request.\<close>

definition semantic_result ::
    "'e tool_env \<Rightarrow> envelope \<Rightarrow> string \<Rightarrow> run_result \<times> error_entry list \<Rightarrow> tool_result" where
  "semantic_result te env sql r =
     (if snd r \<noteq> []
      then failureEnvelope te (env\<lparr>eerrors := eerrors env @ map (relocate sql) (snd r)\<rparr>) (ran_checks (fst r))
      else data_result te ''result'' env (ValidateData \<lparr>Valid = True, Checks = ran_checks (fst r)\<rparr>))"

lemma semantic_phase_eq:
  "semantic_phase te env stmts sql (StripShellPromptsWithMap sql) cat =
     obind (Run (Front te) stmts (StripShellPrompts sql) cat) (\<lambda>r. Ret (semantic_result te env sql r))"
  by (cases "Run (Front te) stmts (StripShellPrompts sql) cat")
    (simp_all add: semantic_phase_def semantic_result_def translateErrorPositions_strip
      StripShellPrompts_def [symmetric] split: prod.split)

lemma ValidateSQLHandler_eq:
  assumes "extractSQL req = Inr sql" "resolveTargetVersion req dflt = Inr target" "extractSchemas req False = Inr srcs"
  shows "ValidateSQLHandler te pv dflt req =
    (let env = start_envelope (if srcs = [] then TierZeroConfig else TierSchemaFile) pv target sql in
     case Parse (Front te) (StripShellPrompts sql) of
       Inl perr \<Rightarrow> Ret (failureEnvelope te
         (env\<lparr>eerrors := eerrors env @ [relocate sql (parse_error_of te perr (StripShellPrompts sql))]\<rparr>) parse_failed_checks)
     | Inr stmts \<Rightarrow> obind (Inspect stmts target None) (\<lambda>ws.
         case load_schemas te srcs (env\<lparr>eerrors := eerrors env @ ws\<rparr>) of
           Inl env \<Rightarrow> Ret (envelopeResult (MarshalEnvelope te) env)
         | Inr (cat, env) \<Rightarrow> obind (Run (Front te) stmts (StripShellPrompts sql) cat)
             (\<lambda>r. Ret (semantic_result te env sql r))))"
proof -
  have "(if srcs = [] then baseEnvelope pv target else schemaFileEnvelope pv target)
      = tier_envelope (if srcs = [] then TierZeroConfig else TierSchemaFile) pv target"
    by (simp add: baseEnvelope_def schemaFileEnvelope_def)
  then show ?thesis
    unfolding ValidateSQLHandler_def preprocessSQL_eq prod.case semantic_phase_eq baseEnvelope_def schemaFileEnvelope_def
    using assms by (simp add: parse_failure_eq start_envelope_def Let_def StripShellPrompts_def [symmetric] split: sum.split)
qed

lemma start_envelope_sel [simp]:
  "edata (start_envelope t pv target sql) = None" "econnection (start_envelope t pv target sql) = ConnectionDisconnected"
  "etier (start_envelope t pv target sql) = t" "parser_version (start_envelope t pv target sql) = pv"
  "target_version (start_envelope t pv target sql) = target"
  by (simp_all add: start_envelope_def tier_envelope_def stampTargetVersion_def Let_def split: option.split)

section \<open>Properties\<close>

definition marshals :: "'e tool_env \<Rightarrow> bool" where
  "marshals te \<longleftrightarrow> (\<forall>env. \<exists>s. MarshalEnvelope te env = Inr s) \<and> (\<forall>d. \<exists>s. MarshalData te d = Inr s)"

definition locating :: "'e front_end \<Rightarrow> bool" where
  "locating fe \<longleftrightarrow> (\<forall>sql stmts. Parse fe sql = Inr stmts \<longrightarrow> located sql 0 stmts)"

fun is_tool_error :: "tool_result \<Rightarrow> bool" where
  "is_tool_error (ToolError _) = True"
| "is_tool_error (ToolText _) = False"

lemma results_marshalled [simp]:
  assumes "marshals te"
  shows "\<not> is_tool_error (envelopeResult (MarshalEnvelope te) env)" "\<not> is_tool_error (data_result te what env d)"
    "\<not> is_tool_error (failureEnvelope te env cs)" "\<not> is_tool_error (semantic_result te env sql r)"
proof -
  have env: "\<not> is_tool_error (envelopeResult (MarshalEnvelope te) env)" for env
    using assms by (auto simp: envelopeResult_def marshals_def dest!: spec [of _ env])
  have d: "\<not> is_tool_error (data_result te what env d)" for what env d
    using assms env by (auto simp: data_result_def marshals_def split: sum.split dest!: spec [of _ d])
  have f: "\<not> is_tool_error (failureEnvelope te env cs)" for env cs
    using env by (auto simp: failureEnvelope_def split: sum.split)
  show "\<not> is_tool_error (envelopeResult (MarshalEnvelope te) env)" "\<not> is_tool_error (data_result te what env d)"
    "\<not> is_tool_error (failureEnvelope te env cs)" "\<not> is_tool_error (semantic_result te env sql r)"
    by (simp_all add: env d f semantic_result_def)
qed

lemma parser_tool_error:
  assumes "marshals te" and body: "\<And>env stmts sql. \<exists>r. body env stmts sql = Ret r \<and> \<not> is_tool_error r"
  shows "\<exists>r. parser_tool te pv dflt req body = Ret r
    \<and> (is_tool_error r \<longleftrightarrow> isl (extractSQL req) \<or> isl (resolveTargetVersion req dflt))"
proof (cases "extractSQL req")
  case (Inl e)
  then show ?thesis by (simp add: parser_tool_def)
next
  case sql: (Inr sql)
  show ?thesis
  proof (cases "resolveTargetVersion req dflt")
    case (Inl e)
    then show ?thesis by (simp add: parser_tool_def sql)
  next
    case (Inr target)
    show ?thesis
    proof (cases "Parse (Front te) (StripShellPrompts sql)")
      case Inl2: (Inl perr)
      show ?thesis using assms(1) by (simp add: parser_tool_eq [OF sql Inr] Inl2 sql Inr Let_def)
    next
      case Inr2: (Inr stmts)
      obtain ws where "Inspect stmts target None = Ret ws" using Inspect_returns by blast
      then show ?thesis using body by (simp add: parser_tool_eq [OF sql Inr] Inr2 sql Inr Let_def)
    qed
  qed
qed

lemma ValidateSQLHandler_error:
  assumes "marshals te" "locating (Front te)"
  shows "\<exists>r. ValidateSQLHandler te pv dflt req = Ret r
    \<and> (is_tool_error r \<longleftrightarrow> isl (extractSQL req) \<or> isl (resolveTargetVersion req dflt) \<or> isl (extractSchemas req False))"
proof (cases "isl (extractSQL req) \<or> isl (resolveTargetVersion req dflt) \<or> isl (extractSchemas req False)")
  case True
  then show ?thesis by (auto simp: ValidateSQLHandler_def split: sum.splits)
next
  case False
  then obtain sql target srcs where ok: "extractSQL req = Inr sql" "resolveTargetVersion req dflt = Inr target"
    "extractSchemas req False = Inr srcs" by (cases "extractSQL req"; cases "resolveTargetVersion req dflt"; cases "extractSchemas req False") auto
  show ?thesis
  proof (cases "Parse (Front te) (StripShellPrompts sql)")
    case (Inl perr)
    then show ?thesis using assms(1) by (simp add: ValidateSQLHandler_eq [OF ok] ok Let_def)
  next
    case (Inr stmts)
    obtain ws where ws: "Inspect stmts target None = Ret ws" using Inspect_returns by blast
    let ?env = "start_envelope (if srcs = [] then TierZeroConfig else TierSchemaFile) pv target sql"
    show ?thesis
    proof (cases "load_schemas te srcs (?env\<lparr>eerrors := eerrors ?env @ ws\<rparr>)")
      case (Inl env)
      then show ?thesis using assms(1) Inr ws by (simp add: ValidateSQLHandler_eq [OF ok] ok Let_def)
    next
      case Inr2: (Inr ce)
      obtain cat env where ce: "ce = (cat, env)" by fastforce
      have "located (StripShellPrompts sql) 0 stmts" using assms(2) Inr by (simp add: locating_def)
      then obtain res where "Run (Front te) stmts (StripShellPrompts sql) cat = Ret res" using Run_returns by (metis surj_pair)
      then show ?thesis using assms(1) Inr ws Inr2 ce by (simp add: ValidateSQLHandler_eq [OF ok] ok Let_def)
    qed
  qed
qed

lemma tool_bodies:
  assumes "marshals te"
  shows "\<exists>r. ParseSQLHandler te pv dflt req = Ret r \<and> (is_tool_error r \<longleftrightarrow> isl (extractSQL req) \<or> isl (resolveTargetVersion req dflt))"
    and "\<exists>r. FormatSQLHandler te pv dflt req = Ret r \<and> (is_tool_error r \<longleftrightarrow> isl (extractSQL req) \<or> isl (resolveTargetVersion req dflt))"
    and "\<exists>r. DetectRiskySQLHandler te pv dflt req = Ret r \<and> (is_tool_error r \<longleftrightarrow> isl (extractSQL req) \<or> isl (resolveTargetVersion req dflt))"
proof -
  show "\<exists>r. ParseSQLHandler te pv dflt req = Ret r \<and> (is_tool_error r \<longleftrightarrow> isl (extractSQL req) \<or> isl (resolveTargetVersion req dflt))"
    unfolding ParseSQLHandler_def using assms by (intro parser_tool_error) simp_all
  show "\<exists>r. FormatSQLHandler te pv dflt req = Ret r \<and> (is_tool_error r \<longleftrightarrow> isl (extractSQL req) \<or> isl (resolveTargetVersion req dflt))"
    unfolding FormatSQLHandler_def using assms by (intro parser_tool_error) (simp_all split: sum.split)
  show "\<exists>r. DetectRiskySQLHandler te pv dflt req = Ret r \<and> (is_tool_error r \<longleftrightarrow> isl (extractSQL req) \<or> isl (resolveTargetVersion req dflt))"
    unfolding DetectRiskySQLHandler_def
  proof (intro parser_tool_error)
    fix env stmts sql
    obtain fs where "AnalyzeParsed (ShowName te) stmts sql = Ret fs" using AnalyzeParsed_returns by blast
    then show "\<exists>r. obind (AnalyzeParsed (ShowName te) stmts sql) (\<lambda>findings. Ret (data_result te ''findings'' env (FindingsData findings))) = Ret r
        \<and> \<not> is_tool_error r" using assms by simp
  qed (rule assms)
qed

text \<open>C11: The parser-only tools never panic, and answer with a tool error exactly when the request is malformed: a
  missing, non-string or blank \<open>sql\<close>, a \<open>target_version\<close> that is no version, or (for \<open>validate_sql\<close>) malformed
  \<open>schemas\<close>. Whatever is wrong with the SQL itself comes back in an envelope.\<close>

theorem tool_error_iff_malformed:
  assumes "marshals te" "locating (Front te)"
  shows "\<exists>p f d v. ParseSQLHandler te pv dflt req = Ret p \<and> FormatSQLHandler te pv dflt req = Ret f
    \<and> DetectRiskySQLHandler te pv dflt req = Ret d \<and> ValidateSQLHandler te pv dflt req = Ret v
    \<and> (\<forall>r \<in> {p, f, d}. is_tool_error r \<longleftrightarrow> isl (extractSQL req) \<or> isl (resolveTargetVersion req dflt))
    \<and> (is_tool_error v \<longleftrightarrow> isl (extractSQL req) \<or> isl (resolveTargetVersion req dflt) \<or> isl (extractSchemas req False))"
proof -
  obtain p f d where pfd: "ParseSQLHandler te pv dflt req = Ret p" "FormatSQLHandler te pv dflt req = Ret f"
    "DetectRiskySQLHandler te pv dflt req = Ret d"
    "\<forall>r \<in> {p, f, d}. is_tool_error r \<longleftrightarrow> isl (extractSQL req) \<or> isl (resolveTargetVersion req dflt)"
    using tool_bodies [OF assms(1), of pv dflt req] by blast
  obtain v where v: "ValidateSQLHandler te pv dflt req = Ret v"
    "is_tool_error v \<longleftrightarrow> isl (extractSQL req) \<or> isl (resolveTargetVersion req dflt) \<or> isl (extractSchemas req False)"
    using ValidateSQLHandler_error [OF assms, of pv dflt req] by blast
  show ?thesis
    by (rule exI [of _ p], rule exI [of _ f], rule exI [of _ d], rule exI [of _ v], intro conjI)
      (rule pfd v)+
qed

text \<open>The answer to a request whose SQL does not parse.\<close>

definition parse_error_envelope :: "'e tool_env \<Rightarrow> string \<Rightarrow> string \<Rightarrow> string \<Rightarrow> 'e \<Rightarrow> envelope" where
  "parse_error_envelope te pv target sql perr =
     (let env = start_envelope TierZeroConfig pv target sql in
      env\<lparr>eerrors := eerrors env @ [relocate sql (parse_error_of te perr (StripShellPrompts sql))]\<rparr>)"

lemma parse_error_result:
  assumes "extractSQL req = Inr sql" "resolveTargetVersion req dflt = Inr target"
    "Parse (Front te) (StripShellPrompts sql) = Inl perr"
  shows "parser_tool te pv dflt req body = Ret (envelopeResult (MarshalEnvelope te) (parse_error_envelope te pv target sql perr))"
  using assms by (simp add: parser_tool_eq parse_error_envelope_def Let_def)

lemma not_removed_byte:
  assumes "\<not> StripResult.Removed (StripShellPromptsWithMap sql)" "k < length (StripShellPrompts sql)"
  shows "k < length sql \<and> sql ! k = StripShellPrompts sql ! k"
proof -
  have "segments (StripShellPromptsWithMap sql) = []"
    using assms(1) by (auto simp: StripShellPromptsWithMap_def Let_def split: if_splits)
  then have "Translate (StripShellPromptsWithMap sql) (int k) = int k"
    using assms(2) by (simp add: Translate_def Let_def StripShellPrompts_def)
  then show ?thesis using strip.translate_byte [of k sql] assms(2) by (simp add: StripShellPrompts_def)
qed

text \<open>When the SQL of a well-formed request does not parse, the parser-only tools answer with a disconnected
  envelope without data whose last error has the parser's SQLSTATE, its category and its message, after the warnings about
  the target version and the stripped prompts. A position in the stripped text comes back as a position of
  the text that was sent, at the same byte.\<close>

theorem parse_error_answer:
  assumes "extractSQL req = Inr sql" "resolveTargetVersion req dflt = Inr target"
    "Parse (Front te) (StripShellPrompts sql) = Inl perr"
  shows "\<exists>env e. ParseSQLHandler te pv dflt req = Ret (envelopeResult (MarshalEnvelope te) env)
    \<and> FormatSQLHandler te pv dflt req = Ret (envelopeResult (MarshalEnvelope te) env)
    \<and> DetectRiskySQLHandler te pv dflt req = Ret (envelopeResult (MarshalEnvelope te) env)
    \<and> econnection env = ConnectionDisconnected \<and> edata env = None \<and> target_version env = target
    \<and> eerrors env = (if target = [] then [] else case VersionMismatchWarning pv target of None \<Rightarrow> [] | Some w \<Rightarrow> [w])
        @ preprocess_warning sql @ [e]
    \<and> code e = GetPGCode (ErrorApi (Front te)) perr \<and> category e = CategoryForCode (code e)
    \<and> message e = error_string (ErrorApi (Front te)) perr
    \<and> (case position (parse_error_of te perr (StripShellPrompts sql)) of
         None \<Rightarrow> position e = None
       | Some p \<Rightarrow> \<exists>q. position e = Some q
           \<and> (0 \<le> byte_offset p \<and> byte_offset p < int (length (StripShellPrompts sql)) \<longrightarrow>
               sql ! nat (byte_offset q) = StripShellPrompts sql ! nat (byte_offset p)
               \<and> (StripResult.Removed (StripShellPromptsWithMap sql) \<longrightarrow> points_at sql q)))"
proof -
  let ?e0 = "parse_error_of te perr (StripShellPrompts sql)"
  have errs: "eerrors (start_envelope TierZeroConfig pv target sql) =
      (if target = [] then [] else case VersionMismatchWarning pv target of None \<Rightarrow> [] | Some w \<Rightarrow> [w]) @ preprocess_warning sql"
    by (simp add: start_envelope_def tier_envelope_def stampTargetVersion_def Let_def split: option.split)
  have pos: "\<exists>q. position (relocate sql ?e0) = Some q
      \<and> (0 \<le> byte_offset p \<and> byte_offset p < int (length (StripShellPrompts sql)) \<longrightarrow>
          sql ! nat (byte_offset q) = StripShellPrompts sql ! nat (byte_offset p)
          \<and> (StripResult.Removed (StripShellPromptsWithMap sql) \<longrightarrow> points_at sql q))" if "position ?e0 = Some p" for p
  proof (cases "StripResult.Removed (StripShellPromptsWithMap sql)")
    case True
    with that original_position_byte [of p sql] show ?thesis by (simp add: relocate_def)
  next
    case False
    with that not_removed_byte [OF False, of "nat (byte_offset p)"] show ?thesis by (auto simp: relocate_id nat_less_iff)
  qed
  show ?thesis
    unfolding ParseSQLHandler_def FormatSQLHandler_def DetectRiskySQLHandler_def parse_error_result [OF assms]
    by (intro exI [of _ "parse_error_envelope te pv target sql perr"] exI [of _ "relocate sql ?e0"] conjI)
      (simp_all add: parse_error_envelope_def Let_def errs pos split: option.split, simp_all add: FromParseError_def Let_def)
qed

text \<open>But \<open>translateErrorPositions\<close> moves only positions. The range of a suggestion, documented as a byte range of the
  original input, stays in the stripped text, so in a paste that starts with a prompt it lies before the
  word the error points at, and applying the edit replaces something else.\<close>

theorem suggestion_range_not_translated:
  assumes "extractSQL req = Inr sql" "resolveTargetVersion req dflt = Inr target"
    "Parse (Front te) (StripShellPrompts sql) = Inl perr"
    and "suggestions (parse_error_of te perr (StripShellPrompts sql)) \<noteq> []" "Translate (StripShellPromptsWithMap sql) 0 > 0"
  shows "\<exists>env q. ParseSQLHandler te pv dflt req = Ret (envelopeResult (MarshalEnvelope te) env)
    \<and> position (last (eerrors env)) = Some q \<and> suggestions (last (eerrors env)) \<noteq> []
    \<and> (\<forall>s \<in> set (suggestions (last (eerrors env))). range_start (srange s) < byte_offset q
         \<and> Translate (StripShellPromptsWithMap sql) (range_start (srange s)) = byte_offset q)"
proof -
  let ?e0 = "parse_error_of te perr (StripShellPrompts sql)"
  let ?env = "parse_error_envelope te pv target sql perr"
  have sugg: "suggestions ?e0 = SuggestKeyword (Keywords (Front te)) (identifierAt (StripShellPrompts sql) (position ?e0)) (position ?e0)"
    by (simp add: FromParseError_def Let_def)
  then have ne: "identifierAt (StripShellPrompts sql) (position ?e0) \<noteq> []" using assms(4) by (auto simp: SuggestKeyword_def)
  then obtain p where p: "position ?e0 = Some p" "0 \<le> byte_offset p" "nat (byte_offset p) < length (StripShellPrompts sql)"
    by (rule identifierAt_takeWhile)
  have start: "range_start (srange s) = byte_offset p" if "s \<in> set (suggestions ?e0)" for s
    using that p(1) unfolding sugg by (elim SuggestKeyword_sound) simp
  have ge: "Translate (StripShellPromptsWithMap sql) 0 + int k \<le> Translate (StripShellPromptsWithMap sql) (int k)"
    if "k < length (StripShellPrompts sql)" for k
    using that
  proof (induction k)
    case (Suc k)
    have "Translate (StripShellPromptsWithMap sql) (int k) < Translate (StripShellPromptsWithMap sql) (int (Suc k))"
      using Suc.prems by (intro strip.translate_mono) (simp_all add: StripShellPrompts_def)
    with Suc show ?case by simp
  qed simp
  have rem: "StripResult.Removed (StripShellPromptsWithMap sql)"
    using assms(5) by (auto simp: StripShellPromptsWithMap_def Let_def Translate_def split: if_splits)
  have off: "byte_offset (original_position sql p) = Translate (StripShellPromptsWithMap sql) (byte_offset p)"
    by (simp add: original_position_def Let_def split: prod.split)
  have last: "last (eerrors ?env) = relocate sql ?e0" by (simp add: parse_error_envelope_def Let_def)
  have "byte_offset p < Translate (StripShellPromptsWithMap sql) (byte_offset p)" using ge [OF p(3)] assms(5) p(2) by simp
  then show ?thesis
    using start assms(4) rem p(1)
    by (intro exI [of _ ?env] exI [of _ "original_position sql p"])
      (simp add: ParseSQLHandler_def parse_error_result [OF assms(1-3)] last relocate_def off)
qed

section \<open>A sample request\<close>

definition sample_tools :: "unit tool_env" where
  "sample_tools = \<lparr>Front = sample_front\<lparr>Parse := \<lambda>_. Inl (), Keywords := [''from'', ''intersect'']\<rparr>,
     MarshalEnvelope = \<lambda>_. Inr [], MarshalData = \<lambda>_. Inr [], Pretty = \<lambda>_. Inr [], HideConstants = \<lambda>_. [],
     ShowName = id, Files = \<lparr>os_Stat = (\<lambda>_. Inl []), os_ReadFile = (\<lambda>_. Inl [])\<rparr>, GetCode = \<lambda>_. []\<rparr>"

definition sample_typo :: string where
  "sample_typo = ''root@:1/d> SELECT 1 FORM t''"

abbreviation sample_request :: request where
  "sample_request \<equiv> [''sql'' \<mapsto> JStr sample_typo]"

lemma sample_strip: "StripShellPrompts sample_typo = ''SELECT 1 FORM t''" "Translate (StripShellPromptsWithMap sample_typo) 0 = 11"
  by code_simp+

lemma sample_params: "extractSQL sample_request = Inr sample_typo" "resolveTargetVersion sample_request [] = Inr []"
proof -
  have "trim_space sample_typo = sample_typo" "sample_typo \<noteq> []" by code_simp+
  then show "extractSQL sample_request = Inr sample_typo"
    by (simp add: extractSQL_def extractRequiredString_def Let_def)
  show "resolveTargetVersion sample_request [] = Inr []" by (simp add: resolveTargetVersion_def)
qed

lemma sample_tools_sel: "Parse (Front sample_tools) s = Inl ()" "ErrorApi (Front sample_tools) = sample_api"
  "Keywords (Front sample_tools) = [''from'', ''intersect'']"
  by (simp_all add: sample_tools_def sample_front_def)

theorem suggestion_range_not_translated_witness:
  "\<exists>env q. ParseSQLHandler sample_tools ''v'' [] sample_request = Ret (envelopeResult (MarshalEnvelope sample_tools) env)
    \<and> position (last (eerrors env)) = Some q \<and> range_start (srange (hd (suggestions (last (eerrors env))))) < byte_offset q"
proof -
  have "suggestions (parse_error_of sample_tools () (StripShellPrompts sample_typo)) \<noteq> []"
    unfolding sample_tools_sel sample_strip by (rule sample_suggestions)
  moreover have "0 < Translate (StripShellPromptsWithMap sample_typo) 0" unfolding sample_strip by simp
  ultimately have "\<exists>env q. ParseSQLHandler sample_tools ''v'' [] sample_request = Ret (envelopeResult (MarshalEnvelope sample_tools) env)
    \<and> position (last (eerrors env)) = Some q \<and> suggestions (last (eerrors env)) \<noteq> []
    \<and> (\<forall>s \<in> set (suggestions (last (eerrors env))). range_start (srange s) < byte_offset q
         \<and> Translate (StripShellPromptsWithMap sample_typo) (range_start (srange s)) = byte_offset q)"
    by (rule suggestion_range_not_translated [OF sample_params sample_tools_sel(1)])
  then obtain env q where
    "ParseSQLHandler sample_tools ''v'' [] sample_request = Ret (envelopeResult (MarshalEnvelope sample_tools) env)"
    "position (last (eerrors env)) = Some q" "suggestions (last (eerrors env)) \<noteq> []"
    "\<forall>s \<in> set (suggestions (last (eerrors env))). range_start (srange s) < byte_offset q"
    by (elim exE conjE) (rule that, assumption+, blast)
  then show ?thesis by (intro exI [of _ env] exI [of _ q]) simp
qed

theorem parse_error_answer_witness:
  "\<exists>env e. ParseSQLHandler sample_tools ''v'' [] sample_request = Ret (envelopeResult (MarshalEnvelope sample_tools) env)
    \<and> eerrors env = preprocess_warning sample_typo @ [e] \<and> code e = ''42601''"
proof -
  have c: "GetPGCode sample_api () = ''42601''" by (simp add: sample_api_def)
  show ?thesis
    using parse_error_answer [OF sample_params sample_tools_sel(1), of "''v''"] unfolding sample_tools_sel c
    by (elim exE conjE) (rule exI, rule exI, intro conjI, assumption, simp, assumption)
qed

theorem tool_error_iff_malformed_witness:
  "\<exists>r. ParseSQLHandler sample_tools ''v'' [] Map.empty = Ret r \<and> is_tool_error r"
proof -
  have "marshals sample_tools" "locating (Front sample_tools)"
    by (simp_all add: marshals_def locating_def sample_tools_sel) (simp_all add: sample_tools_def)
  moreover have "isl (extractSQL Map.empty)" by (simp add: extractSQL_def extractRequiredString_def)
  ultimately show ?thesis using tool_error_iff_malformed [of sample_tools "''v''" "[]" Map.empty] by auto
qed

end
