(* ===== verification/Execute.thy ===== *)
theory Execute
  imports Conn
begin

text \<open>
  \<open>internal/conn/execute.go\<close>, and what every method of the manager keeps: the guard of the statements on
  the wire and the recovery of the connection.
\<close>

section \<open>Execute\<close>

record execute_options =
  opt_mode :: mode
  MaxRows :: int

record execute_result =
  Columns :: "(string \<times> string) list"
  Rows :: "string list list"
  RowsReturned :: nat
  RowsAffected :: int
  CommandTag :: string
  LimitInjected :: "nat option"
  Truncated :: bool

definition txOptionsForMode :: "mode \<Rightarrow> string + access" where
  "txOptionsForMode mo =
     (case mo of
        ModeReadOnly \<Rightarrow> Inr ReadOnly
      | ModeSafeWrite \<Rightarrow> Inr ReadWrite
      | ModeFullAccess \<Rightarrow> Inr ReadWrite
      | UnknownMode s \<Rightarrow> Inl (''execute: unknown safety mode '' @ quote s))"

text \<open>A field comes with the name its type has in the connection's type map, if it has one.\<close>

definition buildColumnMeta :: "(string \<times> string option) list \<Rightarrow> (string \<times> string) list" where
  "buildColumnMeta fds = map (\<lambda>(n, t). (n, case t of Some ty \<Rightarrow> ty | None \<Rightarrow> [])) fds"

text \<open>The \<open>rows.Next\<close> loop: the rows scanned and whether it stopped at the cap.\<close>

fun scan_values :: "int \<Rightarrow> (string + string list) list \<Rightarrow> string list list \<Rightarrow> string + string list list \<times> bool" where
  "scan_values cap [] acc = Inr (acc, False)"
| "scan_values cap (r # rs) acc =
     (if cap > 0 \<and> int (length acc) \<ge> cap then Inr (acc, True)
      else case r of Inl e \<Rightarrow> Inl (''scan row: '' @ e) | Inr values \<Rightarrow> scan_values cap rs (acc @ [values]))"

definition execute_query :: "driver \<Rightarrow> string \<Rightarrow> int \<Rightarrow> execute_result io" where
  "execute_query d sql cap m =
     (let m' = send (Query sql) m in
      case drv_query d (log m') of
        Inl e \<Rightarrow> (Inl (''execute statement: '' @ e), m')
      | Inr q \<Rightarrow>
          (case scan_values cap (qr_rows q) [] of
             Inl e \<Rightarrow> (Inl e, m')
           | Inr (rows, truncated) \<Rightarrow>
               (case qr_err q of
                  Some e \<Rightarrow> (Inl (''read rows: '' @ e), m')
                | None \<Rightarrow>
                    (Inr \<lparr>Columns = buildColumnMeta (qr_fields q), Rows = rows, RowsReturned = length rows,
                          RowsAffected = qr_affected q, CommandTag = qr_tag q, LimitInjected = None,
                          Truncated = truncated\<rparr>, m'))))"

definition safe_updates_statement :: string where
  "safe_updates_statement = ''SET LOCAL sql_safe_updates = on''"

definition runExecute :: "driver \<Rightarrow> string \<Rightarrow> execute_options \<Rightarrow> execute_result io" where
  "runExecute d sql opts =
     (case txOptionsForMode (opt_mode opts) of
        Inl e \<Rightarrow> err e
      | Inr a \<Rightarrow>
          in_tx d a ''begin txn: ''
            (and_then (set_timeout d) (\<lambda>_.
             and_then (if opt_mode opts = ModeSafeWrite
                       then wrap ''set sql_safe_updates: '' (exec d safe_updates_statement) else ret ()) (\<lambda>_.
             and_then (execute_query d sql (MaxRows opts)) (\<lambda>out.
             and_then (wrap ''commit txn: '' (commit d)) (\<lambda>_. ret out))))))"

definition Execute :: "driver \<Rightarrow> string \<Rightarrow> execute_options \<Rightarrow> execute_result io" where
  "Execute d sql opts = with_conn d (runExecute d sql opts)"

lemma scan_values_spec:
  "scan_values cap rs acc = Inr (out, tr) \<Longrightarrow> (cap > 0 \<longrightarrow> int (length acc) \<le> cap) \<Longrightarrow>
     (\<exists>n. out = acc @ map projr (take n rs) \<and> (\<forall>r \<in> set (take n rs). \<exists>v. r = Inr v)
        \<and> (tr \<longrightarrow> n < length rs \<and> int (length out) = cap) \<and> (\<not> tr \<longrightarrow> n = length rs))
     \<and> (cap > 0 \<longrightarrow> int (length out) \<le> cap)"
proof (induction cap rs acc rule: scan_values.induct)
  case (1 cap acc)
  then show ?case by (auto intro: exI [of _ 0])
next
  case (2 cap r rs acc)
  show ?case
  proof (cases "cap > 0 \<and> int (length acc) \<ge> cap")
    case True
    with 2 show ?thesis by (auto intro!: exI [of _ 0])
  next
    case False
    with 2(2) obtain v where v: "r = Inr v" by (auto split: sum.splits)
    have ih: "scan_values cap rs (acc @ [v]) = Inr (out, tr)" using 2(2) False v by simp
    moreover have "cap > 0 \<longrightarrow> int (length (acc @ [v])) \<le> cap" using False by auto
    ultimately obtain n where "out = (acc @ [v]) @ map projr (take n rs)" "\<forall>r \<in> set (take n rs). \<exists>v. r = Inr v"
      "tr \<longrightarrow> n < length rs \<and> int (length out) = cap" "\<not> tr \<longrightarrow> n = length rs" "cap > 0 \<longrightarrow> int (length out) \<le> cap"
      using 2(1) [OF False v] by blast
    then show ?thesis by (intro conjI exI [of _ "Suc n"]) (auto simp: v)
  qed
qed

section \<open>What goes over the wire\<close>

text \<open>
  The monitor of the wire reads it event by event. Its state is the open transaction, if any, with its
  access mode and the settings made in it; it stops at a query which is not guarded. \<open>writes mo sql\<close> says
  that statement \<open>sql\<close> was given to \<open>Execute\<close> with mode \<open>mo\<close>.
\<close>

type_synonym tx_state = "(access \<times> string list) option"

definition guarded_query :: "string \<Rightarrow> (mode \<Rightarrow> string \<Rightarrow> bool) \<Rightarrow> tx_state \<Rightarrow> string \<Rightarrow> bool" where
  "guarded_query timeout writes st q =
     (case st of
        None \<Rightarrow> False
      | Some (a, settings) \<Rightarrow>
          timeout \<in> set settings
          \<and> (a = ReadOnly
             \<or> has_prefix q ''EXPLAIN (DDL, SHAPE) ''
             \<or> writes ModeSafeWrite q \<and> safe_updates_statement \<in> set settings
             \<or> writes ModeFullAccess q))"

fun monitor :: "string \<Rightarrow> (mode \<Rightarrow> string \<Rightarrow> bool) \<Rightarrow> wire list \<Rightarrow> tx_state \<Rightarrow> tx_state option" where
  "monitor to w [] st = Some st"
| "monitor to w (e # es) st =
     (case e of
        BeginTx a \<Rightarrow> if st = None then monitor to w es (Some (a, [])) else None
      | Exec s \<Rightarrow> (case st of Some (a, ss) \<Rightarrow> monitor to w es (Some (a, s # ss)) | None \<Rightarrow> None)
      | Query q \<Rightarrow> if guarded_query to w st q then monitor to w es st else None
      | Commit \<Rightarrow> monitor to w es None
      | Rollback \<Rightarrow> monitor to w es None
      | CloseConn \<Rightarrow> monitor to w es None
      | _ \<Rightarrow> monitor to w es st)"

lemma monitor_append:
  "monitor to w (xs @ ys) st = (case monitor to w xs st of None \<Rightarrow> None | Some st' \<Rightarrow> monitor to w ys st')"
  by (induction to w xs st rule: monitor.induct) (auto split: wire.split option.split)

text \<open>A method sends a guarded sequence and leaves no transaction open; an error leaves no connection.\<close>

definition guarded :: "(mode \<Rightarrow> string \<Rightarrow> bool) \<Rightarrow> 'a io \<Rightarrow> bool" where
  "guarded w f \<longleftrightarrow> (\<forall>m r m'. \<not> tx_open m \<longrightarrow> f m = (r, m') \<longrightarrow>
     (\<exists>es. log m' = log m @ es \<and> monitor (timeout_statement m) w es None = Some None)
     \<and> \<not> tx_open m' \<and> dsn m' = dsn m \<and> stmtTimeout m' = stmtTimeout m
     \<and> conn m' = (case r of Inr _ \<Rightarrow> True | Inl _ \<Rightarrow> False))"

lemmas io_defs = ret_def err_def and_then_def wrap_def exec_def commit_def rollback_def set_timeout_def send_def done_or_def

text \<open>A method's part on the connection: guarded, and no transaction is left open unless it fails.\<close>

definition guarded_part :: "(mode \<Rightarrow> string \<Rightarrow> bool) \<Rightarrow> 'a io \<Rightarrow> bool" where
  "guarded_part w f \<longleftrightarrow> (\<forall>m r m'. \<not> tx_open m \<longrightarrow> f m = (r, m') \<longrightarrow>
     (\<exists>es st. log m' = log m @ es \<and> monitor (timeout_statement m) w es None = Some st \<and> (isl r \<or> st = None))
     \<and> \<not> tx_open m' \<and> dsn m' = dsn m \<and> stmtTimeout m' = stmtTimeout m \<and> conn m' = conn m)"

text \<open>The part inside the transaction: it succeeds only after a commit.\<close>

definition inner :: "(mode \<Rightarrow> string \<Rightarrow> bool) \<Rightarrow> access \<Rightarrow> 'a io \<Rightarrow> bool" where
  "inner w a f \<longleftrightarrow> (\<forall>m r m'. tx_open m \<longrightarrow> f m = (r, m') \<longrightarrow>
     (\<exists>es st. log m' = log m @ es \<and> monitor (timeout_statement m) w es (Some (a, [])) = Some st
        \<and> (tx_open m' \<or> st = None) \<and> (isl r \<or> \<not> tx_open m'))
     \<and> dsn m' = dsn m \<and> stmtTimeout m' = stmtTimeout m \<and> conn m' = conn m)"

lemma timeout_statement_send [simp]:
  "timeout_statement (m\<lparr>log := l\<rparr>) = timeout_statement m" "timeout_statement (m\<lparr>conn := b\<rparr>) = timeout_statement m"
  "timeout_statement (m\<lparr>tx_open := b\<rparr>) = timeout_statement m" "timeout_statement (send e m) = timeout_statement m"
  by (simp_all add: timeout_statement_def send_def)

lemma send_sel [simp]:
  "log (send e m) = log m @ [e]" "tx_open (send e m) = tx_open m" "conn (send e m) = conn m"
  "dsn (send e m) = dsn m" "stmtTimeout (send e m) = stmtTimeout m"
  by (simp_all add: send_def)

lemma connect_cases:
  assumes "connect d m = (r, m')"
  obtains "conn m" "r = Inr ()" "m' = m"
  | e where "r = Inl e" "m' = send Connect m" "\<not> conn m"
  | "r = Inr ()" "m' = (send Connect m)\<lparr>conn := True\<rparr>" "\<not> conn m"
  using assms by (auto simp: connect_def Let_def split: if_splits option.splits)

lemma guarded_with_conn:
  assumes body: "guarded_part w f"
  shows "guarded w (with_conn d f)"
  unfolding guarded_def
proof (intro allI impI)
  fix m r m' assume closed: "\<not> tx_open m" and run: "with_conn d f m = (r, m')"
  obtain r1 m1 where c: "connect d m = (r1, m1)" by fastforce
  show "(\<exists>es. log m' = log m @ es \<and> monitor (timeout_statement m) w es None = Some None)
     \<and> \<not> tx_open m' \<and> dsn m' = dsn m \<and> stmtTimeout m' = stmtTimeout m
     \<and> conn m' = (case r of Inr _ \<Rightarrow> True | Inl _ \<Rightarrow> False)"
  proof (cases "isl r1")
    case True
    with c have "r1 = Inl (projl r1)" "m1 = send Connect m" "\<not> conn m" by (auto elim: connect_cases)
    with run c closed show ?thesis by (cases r1) (auto simp: with_conn_def)
  next
    case False
    then have ok: "r1 = Inr ()" by (cases r1) auto
    have m1: "\<exists>cs. log m1 = log m @ cs \<and> (cs = [] \<or> cs = [Connect])" "conn m1" "\<not> tx_open m1" "dsn m1 = dsn m"
      "stmtTimeout m1 = stmtTimeout m" "timeout_statement m1 = timeout_statement m"
      using c ok closed by (auto elim!: connect_cases)
    then obtain cs where cs: "log m1 = log m @ cs" "cs = [] \<or> cs = [Connect]" by blast
    obtain r2 m2 where f: "f m1 = (r2, m2)" by fastforce
    with body m1 obtain es st where es: "log m2 = log m1 @ es" "monitor (timeout_statement m) w es None = Some st"
      "isl r2 \<or> st = None" "\<not> tx_open m2" "dsn m2 = dsn m" "stmtTimeout m2 = stmtTimeout m" "conn m2"
      unfolding guarded_part_def by metis
    have mon: "monitor (timeout_statement m) w (cs @ es) None = Some st" using cs(2) es(2) by auto
    show ?thesis
    proof (cases r2)
      case (Inl e)
      with run c f ok have r: "r = Inl e" "m' = (send CloseConn m2)\<lparr>conn := False\<rparr>" by (auto simp: with_conn_def)
      have "monitor (timeout_statement m) w ((cs @ es) @ [CloseConn]) None = Some None"
        using mon by (simp only: monitor_append) simp
      with r es cs(1) show ?thesis by (intro conjI exI [of _ "(cs @ es) @ [CloseConn]"]) auto
    next
      case (Inr x)
      with run c f ok have "r = Inr x" "m' = m2" by (auto simp: with_conn_def)
      with mon es cs(1) Inr show ?thesis by (auto intro!: exI [of _ "cs @ es"])
    qed
  qed
qed

text \<open>A part of the body from monitor state \<open>st\<close>: on success it leads to states and results in \<open>R\<close>.\<close>

definition steps :: "string \<Rightarrow> (mode \<Rightarrow> string \<Rightarrow> bool) \<Rightarrow> access \<times> string list \<Rightarrow> 'a io \<Rightarrow> ('a \<Rightarrow> tx_state \<Rightarrow> bool \<Rightarrow> bool) \<Rightarrow> bool" where
  "steps to w st f R \<longleftrightarrow> (\<forall>m r m'. tx_open m \<longrightarrow> timeout_statement m = to \<longrightarrow> f m = (r, m') \<longrightarrow>
     dsn m' = dsn m \<and> stmtTimeout m' = stmtTimeout m \<and> conn m' = conn m
     \<and> (\<exists>es st'. log m' = log m @ es \<and> monitor to w es (Some st) = Some st'
        \<and> (case r of Inl _ \<Rightarrow> tx_open m' \<or> st' = None | Inr x \<Rightarrow> R x st' (tx_open m'))))"

lemma stepsI:
  assumes "\<And>m r m'. tx_open m \<Longrightarrow> timeout_statement m = to \<Longrightarrow> f m = (r, m') \<Longrightarrow>
     \<exists>es st'. dsn m' = dsn m \<and> stmtTimeout m' = stmtTimeout m \<and> conn m' = conn m \<and> log m' = log m @ es
        \<and> monitor to w es (Some st) = Some st'
        \<and> (case r of Inl _ \<Rightarrow> tx_open m' \<or> st' = None | Inr x \<Rightarrow> R x st' (tx_open m'))"
  shows "steps to w st f R"
  unfolding steps_def using assms by blast

lemma stepsD:
  assumes "steps to w st f R" "tx_open m" "timeout_statement m = to" "f m = (r, m')"
  obtains es st' where "dsn m' = dsn m" "stmtTimeout m' = stmtTimeout m" "conn m' = conn m"
    "log m' = log m @ es" "monitor to w es (Some st) = Some st'"
    "case r of Inl _ \<Rightarrow> tx_open m' \<or> st' = None | Inr x \<Rightarrow> R x st' (tx_open m')"
  using assms unfolding steps_def by blast

lemma steps_then:
  assumes f: "steps to w st f (\<lambda>x st' open'. open' \<and> (\<exists>t. st' = Some t \<and> steps to w t (g x) R))"
  shows "steps to w st (and_then f g) R"
proof (rule stepsI)
  fix m r m' assume m: "tx_open m" "timeout_statement m = to" "and_then f g m = (r, m')"
  obtain r1 m1 where f1: "f m = (r1, m1)" by fastforce
  from stepsD [OF f m(1,2) f1] obtain es st' where es: "dsn m1 = dsn m" "stmtTimeout m1 = stmtTimeout m" "conn m1 = conn m"
    "log m1 = log m @ es" "monitor to w es (Some st) = Some st'"
    "case r1 of Inl _ \<Rightarrow> tx_open m1 \<or> st' = None
       | Inr x \<Rightarrow> tx_open m1 \<and> (\<exists>t. st' = Some t \<and> steps to w t (g x) R)" .
  show "\<exists>es st'. dsn m' = dsn m \<and> stmtTimeout m' = stmtTimeout m \<and> conn m' = conn m \<and> log m' = log m @ es
        \<and> monitor to w es (Some st) = Some st'
        \<and> (case r of Inl _ \<Rightarrow> tx_open m' \<or> st' = None | Inr x \<Rightarrow> R x st' (tx_open m'))"
  proof (cases r1)
    case (Inl e)
    with m(3) f1 have "r = Inl e" "m' = m1" by (auto simp: and_then_def)
    with es Inl show ?thesis by (intro exI [of _ es] exI [of _ st']) auto
  next
    case (Inr x)
    with m(3) f1 have g: "g x m1 = (r, m')" by (simp add: and_then_def)
    from es(6) Inr obtain t where t: "tx_open m1" "st' = Some t" "steps to w t (g x) R" by auto
    have "timeout_statement m1 = to" using m(2) es(2) by (simp add: timeout_statement_def)
    from stepsD [OF t(3,1) this g] obtain es2 st2 where "dsn m' = dsn m1" "stmtTimeout m' = stmtTimeout m1"
      "conn m' = conn m1" "log m' = log m1 @ es2" "monitor to w es2 (Some t) = Some st2"
      "case r of Inl _ \<Rightarrow> tx_open m' \<or> st2 = None | Inr x \<Rightarrow> R x st2 (tx_open m')" .
    with es t(2) show ?thesis by (intro exI [of _ "es @ es2"] exI [of _ st2]) (simp add: monitor_append)
  qed
qed

lemma steps_wrap:
  assumes f: "steps to w st f R" shows "steps to w st (wrap p f) R"
proof (rule stepsI)
  fix m r m' assume m: "tx_open m" "timeout_statement m = to" "wrap p f m = (r, m')"
  obtain r1 m1 where f1: "f m = (r1, m1)" by fastforce
  with m(3) have r: "m' = m1" "case r1 of Inl e \<Rightarrow> r = Inl (p @ e) | Inr x \<Rightarrow> r = Inr x"
    by (auto simp: wrap_def split: sum.splits)
  from stepsD [OF f m(1,2) f1] obtain es st' where "dsn m1 = dsn m" "stmtTimeout m1 = stmtTimeout m" "conn m1 = conn m"
    "log m1 = log m @ es" "monitor to w es (Some st) = Some st'"
    "case r1 of Inl _ \<Rightarrow> tx_open m1 \<or> st' = None | Inr x \<Rightarrow> R x st' (tx_open m1)" .
  with r show "\<exists>es st'. dsn m' = dsn m \<and> stmtTimeout m' = stmtTimeout m \<and> conn m' = conn m \<and> log m' = log m @ es
        \<and> monitor to w es (Some st) = Some st'
        \<and> (case r of Inl _ \<Rightarrow> tx_open m' \<or> st' = None | Inr x \<Rightarrow> R x st' (tx_open m'))"
    by (intro exI [of _ es] exI [of _ st']) (cases r1, auto)
qed

lemma steps_err: "steps to w st (err e) R"
  by (rule stepsI) (auto simp: err_def intro!: exI [of _ "[]"])

lemma steps_if: "steps to w st f R \<Longrightarrow> steps to w st g R \<Longrightarrow> steps to w st (if b then f else g) R"
  by simp

lemma steps_ret: "R x (Some st) True \<Longrightarrow> steps to w st (ret x) R"
  by (rule stepsI) (auto simp: ret_def intro!: exI [of _ "[]"])

lemma steps_exec: "R () (Some (a, s # ss)) True \<Longrightarrow> steps to w (a, ss) (exec d s) R"
  by (rule stepsI) (auto simp: exec_def Let_def done_or_def split: option.splits intro!: exI [of _ "[Exec s]"])

lemma steps_timeout:
  assumes "R () (Some (a, to # ss)) True" shows "steps to w (a, ss) (set_timeout d) R"
proof (rule stepsI)
  fix m r m' assume m: "tx_open m" "timeout_statement m = to" "set_timeout d m = (r, m')"
  have "steps to w (a, ss) (wrap ''set statement_timeout: '' (exec d to)) R"
    using assms by (intro steps_wrap steps_exec)
  moreover have "wrap ''set statement_timeout: '' (exec d to) m = (r, m')" using m by (simp add: set_timeout_def)
  ultimately show "\<exists>es st'. dsn m' = dsn m \<and> stmtTimeout m' = stmtTimeout m \<and> conn m' = conn m \<and> log m' = log m @ es
        \<and> monitor to w es (Some (a, ss)) = Some st'
        \<and> (case r of Inl _ \<Rightarrow> tx_open m' \<or> st' = None | Inr x \<Rightarrow> R x st' (tx_open m'))"
    using m(1,2) by (elim stepsD) blast+
qed

lemma steps_query:
  assumes "guarded_query to w (Some st) (verb @ '' '' @ sql)" "\<And>raw. R raw (Some st) True"
  shows "steps to w st (explain_query d verb sql) R"
  by (rule stepsI)
    (use assms in \<open>auto simp: explain_query_def Let_def split: option.splits sum.splits prod.splits
       intro!: exI [of _ "[Query (verb @ '' '' @ sql)]"]\<close>)

text \<open>After the commit nothing more is sent.\<close>

lemma steps_commit:
  assumes "\<And>m. snd (k m) = m" "\<And>x. R x None False"
  shows "steps to w st (and_then (wrap p (commit d)) (\<lambda>_. k)) R"
proof (rule stepsI)
  fix m r m' assume m: "tx_open m" "timeout_statement m = to" "and_then (wrap p (commit d)) (\<lambda>_. k) m = (r, m')"
  have "m' = (send Commit m)\<lparr>tx_open := False\<rparr>"
    using m(3) assms(1) [of "(send Commit m)\<lparr>tx_open := False\<rparr>"]
    by (auto simp: and_then_def wrap_def commit_def Let_def done_or_def split: option.splits prod.splits sum.splits)
  then show "\<exists>es st'. dsn m' = dsn m \<and> stmtTimeout m' = stmtTimeout m \<and> conn m' = conn m \<and> log m' = log m @ es
        \<and> monitor to w es (Some st) = Some st'
        \<and> (case r of Inl _ \<Rightarrow> tx_open m' \<or> st' = None | Inr x \<Rightarrow> R x st' (tx_open m'))"
    using assms(2) by (auto split: sum.split intro!: exI [of _ "[Commit]"])
qed

text \<open>A transaction whose body succeeds only after the commit is a guarded part of a method.\<close>

lemma guarded_in_tx:
  assumes "\<And>to. steps to w (a, []) body (\<lambda>x st open'. st = None \<and> \<not> open')"
  shows "guarded_part w (in_tx d a what body)"
  unfolding guarded_part_def
proof (intro allI impI)
  fix m r m' assume closed: "\<not> tx_open m" and run: "in_tx d a what body m = (r, m')"
  let ?m = "send (BeginTx a) m"
  show "(\<exists>es st. log m' = log m @ es \<and> monitor (timeout_statement m) w es None = Some st \<and> (isl r \<or> st = None))
     \<and> \<not> tx_open m' \<and> dsn m' = dsn m \<and> stmtTimeout m' = stmtTimeout m \<and> conn m' = conn m"
  proof (cases "drv_begin d (log ?m)")
    case (Some e)
    with run closed show ?thesis by (auto simp: in_tx_def Let_def)
  next
    case None
    obtain r2 m2 where b: "body (?m\<lparr>tx_open := True\<rparr>) = (r2, m2)" by fastforce
    with None run have m': "r = r2" "m' = rollback m2" by (auto simp: in_tx_def Let_def)
    have "tx_open (?m\<lparr>tx_open := True\<rparr>)" "timeout_statement (?m\<lparr>tx_open := True\<rparr>) = timeout_statement m" by simp_all
    from stepsD [OF assms this b] obtain es st where "dsn m2 = dsn (?m\<lparr>tx_open := True\<rparr>)"
      "stmtTimeout m2 = stmtTimeout (?m\<lparr>tx_open := True\<rparr>)" "conn m2 = conn (?m\<lparr>tx_open := True\<rparr>)"
      "log m2 = log (?m\<lparr>tx_open := True\<rparr>) @ es" "monitor (timeout_statement m) w es (Some (a, [])) = Some st"
      "case r2 of Inl _ \<Rightarrow> tx_open m2 \<or> st = None | Inr x \<Rightarrow> st = None \<and> \<not> tx_open m2" .
    then have es: "log m2 = log m @ BeginTx a # es" "monitor (timeout_statement m) w es (Some (a, [])) = Some st"
      "case r2 of Inl _ \<Rightarrow> tx_open m2 \<or> st = None | Inr x \<Rightarrow> st = None \<and> \<not> tx_open m2"
      "dsn m2 = dsn m" "stmtTimeout m2 = stmtTimeout m" "conn m2 = conn m" by simp_all
    show ?thesis
    proof (cases "tx_open m2")
      case True
      have "monitor (timeout_statement m) w ((BeginTx a # es) @ [Rollback]) None = Some None"
        unfolding monitor_append using es(2) by simp
      with True es m' show ?thesis
        by (intro conjI exI [of _ "(BeginTx a # es) @ [Rollback]"] exI [of _ None]) (auto simp: rollback_def)
    next
      case False
      with es have "st = None" by (cases r2) auto
      with False es m' show ?thesis
        by (intro conjI exI [of _ "BeginTx a # es"] exI [of _ None]) (auto simp: rollback_def)
    qed
  qed
qed

lemma run_explain_guarded: "guarded_part w (run_explain d verb sql)"
proof -
  have "steps to w (ReadOnly, []) (and_then (set_timeout d) (\<lambda>_. and_then (explain_query d verb sql) (\<lambda>raw.
      and_then (wrap ''commit read-only txn: '' (commit d)) (\<lambda>_.
      (case parseExplainTree raw of Inl e \<Rightarrow> err (''parse '' @ verb @ '' output: '' @ e)
       | Inr (hdr, plan) \<Rightarrow> ret \<lparr>Header = hdr, Plan = plan, RawRows = raw\<rparr>)))))
      (\<lambda>x st open'. st = None \<and> \<not> open')" for to
    by (intro steps_then steps_timeout conjI exI [of _ "(ReadOnly, [to])"] steps_query steps_commit)
      (auto simp: guarded_query_def err_def ret_def split: sum.split prod.split)
  then show ?thesis unfolding run_explain_def by (rule guarded_in_tx)
qed

lemma runExplainDDL_guarded: "guarded_part w (runExplainDDL d sql)"
proof -
  have "steps to w (ReadWrite, []) (and_then (set_timeout d) (\<lambda>_.
        and_then (explain_query d ''EXPLAIN (DDL, SHAPE)'' sql) (\<lambda>raw.
        if length raw \<noteq> 1
        then err (''EXPLAIN (DDL, SHAPE) returned '' @ itoa_nat (length raw)
               @ '' rows, expected exactly 1 (CRDB output format may have changed)'')
        else
          and_then (wrap ''commit txn: '' (commit d)) (\<lambda>_.
          (case parseExplainDDLShape (hd raw) of
             Inl e \<Rightarrow> err (''parse EXPLAIN (DDL, SHAPE) output: '' @ e)
           | Inr (stmt, ops) \<Rightarrow> ret \<lparr>Statement = stmt, Operations = ops, RawText = hd raw\<rparr>)))))
      (\<lambda>x st open'. st = None \<and> \<not> open')" for to
    by (intro steps_then steps_timeout conjI exI [of _ "(ReadWrite, [to])"] steps_query steps_if steps_err steps_commit)
      (auto simp: guarded_query_def has_prefix_def err_def ret_def split: sum.split prod.split)
  then show ?thesis unfolding runExplainDDL_def by (rule guarded_in_tx)
qed

lemma runExecute_guarded:
  assumes "w (opt_mode opts) sql" shows "guarded_part w (runExecute d sql opts)"
proof (cases "txOptionsForMode (opt_mode opts)")
  case (Inl e)
  then show ?thesis by (auto simp: runExecute_def guarded_part_def err_def intro!: exI [of _ "[]"])
next
  case (Inr a)
  let ?set = "if opt_mode opts = ModeSafeWrite
    then wrap ''set sql_safe_updates: '' (exec d safe_updates_statement) else ret ()"
  have query: "steps to w st (execute_query d sql cap) R"
    if "guarded_query to w (Some st) sql" "\<And>x. R x (Some st) True" for to st cap R
    by (rule stepsI)
      (use that in \<open>auto simp: execute_query_def Let_def split: option.splits sum.splits prod.splits
         intro!: exI [of _ "[Query sql]"]\<close>)
  have "steps to w (a, []) (and_then (set_timeout d) (\<lambda>_. and_then ?set (\<lambda>_.
      and_then (execute_query d sql (MaxRows opts)) (\<lambda>out. and_then (wrap ''commit txn: '' (commit d)) (\<lambda>_. ret out)))))
      (\<lambda>x st open'. st = None \<and> \<not> open')" for to
  proof (cases "opt_mode opts = ModeSafeWrite")
    case True
    with Inr assms have "guarded_query to w (Some (a, [safe_updates_statement, to])) sql"
      by (simp add: guarded_query_def)
    then show ?thesis unfolding if_P [OF True]
      by (intro steps_then steps_timeout conjI exI [of _ "(a, [to])"] steps_wrap steps_exec
          exI [of _ "(a, [safe_updates_statement, to])"] query steps_commit) (simp_all add: ret_def)
  next
    case False
    with Inr assms have "guarded_query to w (Some (a, [to])) sql"
      by (auto simp: guarded_query_def txOptionsForMode_def split: mode.splits)
    then show ?thesis unfolding if_not_P [OF False]
      by (intro steps_then steps_timeout conjI exI [of _ "(a, [to])"] steps_ret query steps_commit) (simp_all add: ret_def)
  qed
  then show ?thesis using Inr by (auto simp: runExecute_def intro: guarded_in_tx)
qed

text \<open>A single read outside a transaction: \<open>Ping\<close> and the statistics lookup.\<close>

lemma query_row_guarded:
  assumes "\<And>m. \<exists>q. snd (f m) = send (QueryRow q) m" shows "guarded_part w f"
  unfolding guarded_part_def
proof (intro allI impI)
  fix m r m' assume "\<not> tx_open m" "f m = (r, m')"
  moreover obtain q where "snd (f m) = send (QueryRow q) m" using assms by blast
  ultimately show "(\<exists>es st. log m' = log m @ es \<and> monitor (timeout_statement m) w es None = Some st \<and> (isl r \<or> st = None))
     \<and> \<not> tx_open m' \<and> dsn m' = dsn m \<and> stmtTimeout m' = stmtTimeout m \<and> conn m' = conn m"
    by (auto intro!: exI [of _ "[QueryRow q]"])
qed

lemma Ping_guarded: "guarded w (Ping d)"
  unfolding Ping_def
  by (intro guarded_with_conn query_row_guarded) (auto simp: wrap_def split: sum.split prod.split)

lemma Execute_guarded: "w (opt_mode opts) sql \<Longrightarrow> guarded w (Execute d sql opts)"
  unfolding Execute_def by (intro guarded_with_conn runExecute_guarded)

lemma Explain_guarded: "guarded w (Explain d sql)"
  unfolding Explain_def runExplain_def by (intro guarded_with_conn run_explain_guarded)

lemma ExplainAnalyze_guarded: "guarded w (ExplainAnalyze d sql)"
  unfolding ExplainAnalyze_def runExplainAnalyze_def by (intro guarded_with_conn run_explain_guarded)

lemma ExplainDDL_guarded: "guarded w (ExplainDDL d sql)"
  unfolding ExplainDDL_def by (intro guarded_with_conn runExplainDDL_guarded)

section \<open>What a successful execution returns\<close>

lemma and_then_Inr:
  "and_then f g m = (Inr x, m') \<longleftrightarrow> (\<exists>y m1. f m = (Inr y, m1) \<and> g y m1 = (Inr x, m'))"
  by (auto simp: and_then_def split: sum.splits prod.splits)

lemma wrap_Inr: "wrap p f m = (Inr x, m') \<longleftrightarrow> f m = (Inr x, m')"
  by (auto simp: wrap_def split: sum.splits prod.splits)

lemma in_tx_Inr:
  assumes "in_tx d a what f m = (Inr x, m')"
  obtains m1 m2 where "f m1 = (Inr x, m2)" "m' = rollback m2"
  using assms by (auto simp: in_tx_def Let_def split: option.splits prod.splits)

lemma runExecute_committed:
  assumes "runExecute d sql opts m = (Inr out, m')"
  obtains l q rows tr where "log m' = l @ [Query sql, Commit]" "drv_query d (l @ [Query sql]) = Inr q" "qr_err q = None"
    "scan_values (MaxRows opts) (qr_rows q) [] = Inr (rows, tr)" "drv_commit d (l @ [Query sql, Commit]) = None"
    "out = \<lparr>Columns = buildColumnMeta (qr_fields q), Rows = rows, RowsReturned = length rows,
       RowsAffected = qr_affected q, CommandTag = qr_tag q, LimitInjected = None, Truncated = tr\<rparr>"
proof -
  from assms obtain a m1 m2 where run: "(and_then (set_timeout d) (\<lambda>_.
             and_then (if opt_mode opts = ModeSafeWrite
                       then wrap ''set sql_safe_updates: '' (exec d safe_updates_statement) else ret ()) (\<lambda>_.
             and_then (execute_query d sql (MaxRows opts)) (\<lambda>out.
             and_then (wrap ''commit txn: '' (commit d)) (\<lambda>_. ret out))))) m1 = (Inr out, m2)" and m': "m' = rollback m2"
    by (auto simp: runExecute_def err_def split: sum.splits elim!: in_tx_Inr)
  then obtain m3 m4 where q: "execute_query d sql (MaxRows opts) m3 = (Inr out, m4)" and c: "commit d m4 = (Inr (), m2)"
    by (auto simp: and_then_Inr wrap_Inr ret_def split: if_splits)
  from c have m2: "m2 = (send Commit m4)\<lparr>tx_open := False\<rparr>" "drv_commit d (log m4 @ [Commit]) = None"
    by (auto simp: commit_def Let_def done_or_def split: option.splits)
  from q obtain qr rows tr where qr: "drv_query d (log m3 @ [Query sql]) = Inr qr" "qr_err qr = None" "log m4 = log m3 @ [Query sql]"
    "scan_values (MaxRows opts) (qr_rows qr) [] = Inr (rows, tr)"
    "out = \<lparr>Columns = buildColumnMeta (qr_fields qr), Rows = rows, RowsReturned = length rows,
       RowsAffected = qr_affected qr, CommandTag = qr_tag qr, LimitInjected = None, Truncated = tr\<rparr>"
    by (auto simp: execute_query_def Let_def split: sum.splits option.splits prod.splits)
  show ?thesis by (rule that [of "log m3" qr rows tr]) (use qr m2 m' in \<open>simp_all add: rollback_def\<close>)
qed

lemma with_conn_Inr:
  assumes "with_conn d f m = (Inr x, m')"
  obtains m1 where "f m1 = (Inr x, m')"
  using assms by (auto simp: with_conn_def split: sum.splits prod.splits)

text \<open>C15: A successful \<open>Execute\<close> has committed the statement it sent. With a positive cap it returns at most that
  many rows; the rows are the first of the cluster's reply, all of them unless the result is marked
  truncated, which it is only when the cap was reached and at least one row was left out.\<close>

theorem Execute_rows:
  assumes "Execute d sql opts m = (Inr out, m')"
  shows "\<exists>l q. log m' = l @ [Query sql, Commit] \<and> drv_query d (l @ [Query sql]) = Inr q \<and> qr_err q = None
    \<and> (\<exists>n. Rows out = map projr (take n (qr_rows q)) \<and> (\<forall>r \<in> set (take n (qr_rows q)). \<exists>v. r = Inr v)
        \<and> (if Truncated out then n < length (qr_rows q) \<and> int (length (Rows out)) = MaxRows opts else n = length (qr_rows q)))
    \<and> RowsReturned out = length (Rows out) \<and> (MaxRows opts > 0 \<longrightarrow> int (RowsReturned out) \<le> MaxRows opts)
    \<and> CommandTag out = qr_tag q \<and> RowsAffected out = qr_affected q \<and> map fst (Columns out) = map fst (qr_fields q)"
proof -
  from assms obtain m1 where run: "runExecute d sql opts m1 = (Inr out, m')"
    unfolding Execute_def by (rule with_conn_Inr)
  then obtain l q rows tr where c: "log m' = l @ [Query sql, Commit]" "drv_query d (l @ [Query sql]) = Inr q" "qr_err q = None"
    and scan: "scan_values (MaxRows opts) (qr_rows q) [] = Inr (rows, tr)"
    and out: "out = \<lparr>Columns = buildColumnMeta (qr_fields q), Rows = rows, RowsReturned = length rows,
       RowsAffected = qr_affected q, CommandTag = qr_tag q, LimitInjected = None, Truncated = tr\<rparr>"
    by (rule runExecute_committed)
  have "(\<exists>n. rows = [] @ map projr (take n (qr_rows q)) \<and> (\<forall>r \<in> set (take n (qr_rows q)). \<exists>v. r = Inr v)
        \<and> (tr \<longrightarrow> n < length (qr_rows q) \<and> int (length rows) = MaxRows opts) \<and> (\<not> tr \<longrightarrow> n = length (qr_rows q)))
     \<and> (MaxRows opts > 0 \<longrightarrow> int (length rows) \<le> MaxRows opts)"
    by (rule scan_values_spec [OF scan]) simp
  then obtain n where n: "rows = map projr (take n (qr_rows q))"
    "\<forall>r \<in> set (take n (qr_rows q)). \<exists>v. r = Inr v" "tr \<longrightarrow> n < length (qr_rows q) \<and> int (length rows) = MaxRows opts"
    "\<not> tr \<longrightarrow> n = length (qr_rows q)" "MaxRows opts > 0 \<longrightarrow> int (length rows) \<le> MaxRows opts"
    unfolding append_Nil by blast
  have cols: "map fst (Columns out) = map fst (qr_fields q)" by (simp add: out buildColumnMeta_def case_prod_beta comp_def)
  show ?thesis
    by (rule exI [of _ l], rule exI [of _ q], intro conjI c exI [of _ n] cols) (use n in \<open>auto simp: out min_def\<close>)
qed

text \<open>A cluster that accepts everything and answers a query with three rows.\<close>

definition three_rows :: driver where
  "three_rows = \<lparr>drv_connect = \<lambda>_. None, drv_begin = \<lambda>_. None, drv_exec = \<lambda>_. None,
     drv_text = \<lambda>_. Inl ''down'', drv_query = \<lambda>_. Inr \<lparr>qr_fields = [], qr_rows = [Inr [''1''], Inr [''2''], Inr [''3'']],
       qr_err = None, qr_affected = 3, qr_tag = ''SELECT 3''\<rparr>,
     drv_stats = \<lambda>_. NoRows, drv_info = \<lambda>_. Inr (''c'', ''v''), drv_commit = \<lambda>_. None, drv_close = \<lambda>_. None\<rparr>"

theorem Execute_rows_witness:
  "\<exists>out m'. Execute three_rows ''SELECT 1'' \<lparr>opt_mode = ModeReadOnly, MaxRows = 2\<rparr> (NewManager ''d'' []) = (Inr out, m')
     \<and> Truncated out \<and> RowsReturned out = length (Rows out) \<and> int (RowsReturned out) \<le> 2"
proof -
  have "\<exists>out m'. Execute three_rows ''SELECT 1'' \<lparr>opt_mode = ModeReadOnly, MaxRows = 2\<rparr> (NewManager ''d'' []) = (Inr out, m')
     \<and> Truncated out"
    by (simp add: Execute_def three_rows_def NewManager_def with_conn_def connect_def runExecute_def txOptionsForMode_def
        in_tx_def execute_query_def io_defs Let_def)
  then obtain out m' where run: "Execute three_rows ''SELECT 1'' \<lparr>opt_mode = ModeReadOnly, MaxRows = 2\<rparr> (NewManager ''d'' []) = (Inr out, m')"
    "Truncated out" by blast
  from Execute_rows [OF run(1)] run show ?thesis by auto
qed

end
