(* ===== verification/Simulate.thy ===== *)
theory Simulate
  imports Execute
begin

text \<open>
  \<open>internal/conn/simulate.go\<close>: every statement of a script runs through the \<open>EXPLAIN\<close> variant of its class,
  a failure stays with its step, and a schema change is annotated with the statistics of its tables.
  \<open>sanitize\<close> is \<open>pgx.Identifier.Sanitize\<close>. The last section is about whole sessions of the manager.
\<close>

section \<open>Steps\<close>

record table_stat =
  ts_schema :: string
  ts_table :: string
  RowCount :: int
  Source :: string
  CollectedAt :: string

record simulate_step =
  StatementIndex :: nat
  step_tag :: string
  step_strategy :: strategy
  step_sql :: string
  step_plan :: "explain_result option"
  DDLPlan :: "ddl_result option"
  TableStats :: "table_stat list"
  Error :: string
  StatsError :: string

definition int_list :: "nat list \<Rightarrow> string" where
  "int_list ns = ''['' @ join_with '' '' (map itoa_nat ns) @ '']''"

definition StepFailureSummary :: "simulate_step list \<Rightarrow> (string \<times> nat list \<times> nat list) option" where
  "StepFailureSummary sts =
     (let planFails = map StatementIndex (filter (\<lambda>st. Error st \<noteq> []) sts);
          statsFails = map StatementIndex (filter (\<lambda>st. StatsError st \<noteq> []) sts);
          parts = (if planFails \<noteq> [] then [itoa_nat (length planFails) @ '' plan error(s) at step(s) '' @ int_list planFails] else [])
            @ (if statsFails \<noteq> [] then [itoa_nat (length statsFails) @ '' stats error(s) at step(s) '' @ int_list statsFails] else [])
      in if planFails = [] \<and> statsFails = [] then None
         else Some (join_with ''; '' parts @ '' (see data.steps for per-step detail)'', planFails, statsFails))"

definition simulateStrategyForAST :: "statement \<Rightarrow> strategy option" where
  "simulateStrategyForAST ast =
     (case type_of ast of
        TypeDDL \<Rightarrow> Some StrategyExplainDDL
      | TypeDML \<Rightarrow> if CanWriteData (class_of ast) then Some StrategyExplain else Some StrategyExplainAnalyze
      | _ \<Rightarrow> None)"

section \<open>Table statistics\<close>

definition stats_query :: "string \<Rightarrow> string" where
  "stats_query qualified = ''SELECT row_count, created::STRING FROM [SHOW STATISTICS FOR TABLE '' @ qualified
     @ ''] ORDER BY created DESC, row_count DESC LIMIT 1''"

definition runGetTableStats :: "driver \<Rightarrow> (string list \<Rightarrow> string) \<Rightarrow> string \<Rightarrow> string \<Rightarrow> table_stat io" where
  "runGetTableStats d sanitize schema tbl m =
     (if tbl = [] then (Inl ''table must not be empty'', m)
      else
        (let qualified = (if schema = [] then sanitize [tbl] else sanitize [schema, tbl]);
             m' = send (QueryRow (stats_query qualified)) m;
             stat = \<lparr>ts_schema = schema, ts_table = tbl, RowCount = 0, Source = ''show_statistics'', CollectedAt = []\<rparr>
         in case drv_stats d (log m') of
              NoRows \<Rightarrow> (Inr stat, m')
            | RowError e \<Rightarrow> (Inl (''SHOW STATISTICS FOR TABLE '' @ qualified @ '': '' @ e), m')
            | Row n at \<Rightarrow> (Inr (stat\<lparr>RowCount := n, CollectedAt := at\<rparr>), m')))"

definition GetTableStats :: "driver \<Rightarrow> (string list \<Rightarrow> string) \<Rightarrow> string \<Rightarrow> string \<Rightarrow> table_stat io" where
  "GetTableStats d sanitize schema tbl = with_conn d (runGetTableStats d sanitize schema tbl)"

definition ddlTargets :: "statement \<Rightarrow> (string \<times> string) list" where
  "ddlTargets stmt =
     (case stmt of
        Plain _ (AlterTable t _) \<Rightarrow> [(Schema t, Table t)]
      | Plain _ (CreateIndex t _) \<Rightarrow> [(Schema t, Table t)]
      | Plain _ (DropTable names) \<Rightarrow> map (\<lambda>t. (Schema t, Table t)) names
      | Plain _ (DropIndex idxs) \<Rightarrow> map (\<lambda>t. (Schema t, Table t)) idxs
      | _ \<Rightarrow> [])"

fun stats_loop ::
    "driver \<Rightarrow> (string list \<Rightarrow> string) \<Rightarrow> (string \<times> string) list \<Rightarrow> table_stat list \<Rightarrow> string list \<Rightarrow> manager
      \<Rightarrow> (table_stat list \<times> string list) \<times> manager" where
  "stats_loop d sanitize [] stats failures m = ((stats, failures), m)"
| "stats_loop d sanitize ((schema, tbl) # ts) stats failures m =
     (case GetTableStats d sanitize schema tbl m of
        (Inl e, m') \<Rightarrow>
          stats_loop d sanitize ts stats (failures @ [(if schema \<noteq> [] then schema @ ''.'' @ tbl else tbl) @ '': '' @ e]) m'
      | (Inr stat, m') \<Rightarrow> stats_loop d sanitize ts (stats @ [stat]) failures m')"

definition collectDDLTableStats ::
    "driver \<Rightarrow> (string list \<Rightarrow> string) \<Rightarrow> statement \<Rightarrow> manager \<Rightarrow> (table_stat list \<times> string) \<times> manager" where
  "collectDDLTableStats d sanitize ast m =
     (let targets = ddlTargets ast in
      if length targets = 0 then (([], []), m)
      else (case stats_loop d sanitize targets [] [] m of
              ((stats, failures), m') \<Rightarrow> ((stats, join_with ''; '' failures), m')))"

section \<open>Simulate\<close>

definition dispatchSimulateStep ::
    "driver \<Rightarrow> (string list \<Rightarrow> string) \<Rightarrow> statement \<Rightarrow> string \<Rightarrow> simulate_step \<Rightarrow> manager \<Rightarrow> simulate_step \<times> manager" where
  "dispatchSimulateStep d sanitize ast sql st m =
     (case type_of ast of
        TypeDDL \<Rightarrow>
          (let st = st\<lparr>step_strategy := StrategyExplainDDL\<rparr> in
           case ExplainDDL d sql m of
             (Inl e, m') \<Rightarrow> (st\<lparr>Error := e\<rparr>, m')
           | (Inr ddl, m') \<Rightarrow>
               (case collectDDLTableStats d sanitize ast m' of
                  ((stats, e), m2) \<Rightarrow> (st\<lparr>DDLPlan := Some ddl, TableStats := stats, StatsError := e\<rparr>, m2)))
      | TypeDML \<Rightarrow>
          if CanWriteData (class_of ast)
          then (let st = st\<lparr>step_strategy := StrategyExplain\<rparr> in
                case Explain d sql m of
                  (Inl e, m') \<Rightarrow> (st\<lparr>Error := e\<rparr>, m')
                | (Inr plan, m') \<Rightarrow> (st\<lparr>step_plan := Some plan\<rparr>, m'))
          else (let st = st\<lparr>step_strategy := StrategyExplainAnalyze\<rparr> in
                case ExplainAnalyze d sql m of
                  (Inl e, m') \<Rightarrow> (st\<lparr>Error := e\<rparr>, m')
                | (Inr plan, m') \<Rightarrow> (st\<lparr>step_plan := Some plan\<rparr>, m'))
      | _ \<Rightarrow> (st\<lparr>Error := ''simulate has no route for statement type '' @ tag_of ast\<rparr>, m))"

definition new_step :: "nat \<Rightarrow> parsed \<Rightarrow> simulate_step" where
  "new_step i s = \<lparr>StatementIndex = i, step_tag = tag_of (AST s), step_strategy = NoStrategy, step_sql = SQL s,
     step_plan = None, DDLPlan = None, TableStats = [], Error = [], StatsError = []\<rparr>"

fun simulate_loop ::
    "driver \<Rightarrow> (string list \<Rightarrow> string) \<Rightarrow> nat \<Rightarrow> parsed list \<Rightarrow> manager \<Rightarrow> simulate_step list \<times> manager" where
  "simulate_loop d sanitize i [] m = ([], m)"
| "simulate_loop d sanitize i (s # ss) m =
     (case dispatchSimulateStep d sanitize (AST s) (SQL s) (new_step i s) m of
        (st, m') \<Rightarrow> (case simulate_loop d sanitize (i + 1) ss m' of (sts, m2) \<Rightarrow> (st # sts, m2)))"

definition Simulate ::
    "driver \<Rightarrow> (string list \<Rightarrow> string) \<Rightarrow> (string \<Rightarrow> string + parsed list) \<Rightarrow> string \<Rightarrow> simulate_step list io" where
  "Simulate d sanitize parse sql m =
     (case parse sql of
        Inl e \<Rightarrow> (Inl (''parse simulate input: '' @ e), m)
      | Inr stmts \<Rightarrow>
          if length stmts = 0 then (Inl ''no statements parsed'', m)
          else
            (case connect d m of
               (Inl e, m') \<Rightarrow> (Inl e, m')
             | (Inr _, m') \<Rightarrow> (case simulate_loop d sanitize 0 stmts m' of (sts, m2) \<Rightarrow> (Inr sts, m2))))"

section \<open>Sessions\<close>

text \<open>The calls a client can make, each with what it returns reduced to whether it failed.\<close>

datatype manager_call =
    CallPing
  | CallExplain string
  | CallExplainAnalyze string
  | CallExplainDDL string
  | CallExplainAny string
  | CallExecute string execute_options
  | CallGetTableStats string string
  | CallSimulate string
  | CallClose

definition failed :: "(string + 'a) \<times> manager \<Rightarrow> bool \<times> manager" where
  "failed = map_prod isl id"

fun call :: "driver \<Rightarrow> (string list \<Rightarrow> string) \<Rightarrow> (string \<Rightarrow> string + parsed list) \<Rightarrow> manager_call \<Rightarrow> manager \<Rightarrow> bool \<times> manager" where
  "call d sanitize parse CallPing m = failed (Ping d m)"
| "call d sanitize parse (CallExplain sql) m = failed (Explain d sql m)"
| "call d sanitize parse (CallExplainAnalyze sql) m = failed (ExplainAnalyze d sql m)"
| "call d sanitize parse (CallExplainDDL sql) m = failed (ExplainDDL d sql m)"
| "call d sanitize parse (CallExplainAny sql) m = failed (ExplainAny d parse sql m)"
| "call d sanitize parse (CallExecute sql opts) m = failed (Execute d sql opts m)"
| "call d sanitize parse (CallGetTableStats schema tbl) m = failed (GetTableStats d sanitize schema tbl m)"
| "call d sanitize parse (CallSimulate sql) m = failed (Simulate d sanitize parse sql m)"
| "call d sanitize parse CallClose m = map_prod (\<lambda>e. e \<noteq> None) id (Close d m)"

fun session :: "driver \<Rightarrow> (string list \<Rightarrow> string) \<Rightarrow> (string \<Rightarrow> string + parsed list) \<Rightarrow> manager_call list \<Rightarrow> manager \<Rightarrow> bool list \<times> manager" where
  "session d sanitize parse [] m = ([], m)"
| "session d sanitize parse (c # cs) m =
     (case call d sanitize parse c m of (b, m') \<Rightarrow>
        (case session d sanitize parse cs m' of (bs, m2) \<Rightarrow> (b # bs, m2)))"

text \<open>What any composition of guarded methods keeps.\<close>

definition safe :: "(mode \<Rightarrow> string \<Rightarrow> bool) \<Rightarrow> (manager \<Rightarrow> 'r \<times> manager) \<Rightarrow> bool" where
  "safe w f \<longleftrightarrow> (\<forall>m r m'. \<not> tx_open m \<longrightarrow> f m = (r, m') \<longrightarrow>
     (\<exists>es. log m' = log m @ es \<and> monitor (timeout_statement m) w es None = Some None)
     \<and> \<not> tx_open m' \<and> stmtTimeout m' = stmtTimeout m)"

lemma safeD:
  assumes "safe w f" "\<not> tx_open m" "f m = (r, m')"
  obtains es where "log m' = log m @ es" "monitor (timeout_statement m) w es None = Some None"
    "\<not> tx_open m'" "stmtTimeout m' = stmtTimeout m" "timeout_statement m' = timeout_statement m"
proof -
  from assms have *: "(\<exists>es. log m' = log m @ es \<and> monitor (timeout_statement m) w es None = Some None)
     \<and> \<not> tx_open m' \<and> stmtTimeout m' = stmtTimeout m" unfolding safe_def by blast
  then have "timeout_statement m' = timeout_statement m" by (simp add: timeout_statement_def)
  with * that show thesis by blast
qed

lemma guarded_safe: "guarded w f \<Longrightarrow> safe w f"
  unfolding guarded_def safe_def by blast

lemma safe_return: assumes "\<And>m. snd (f m) = m" shows "safe w f"
proof -
  have "m' = m" if "f m = (r, m')" for m r m' using assms [of m] that by simp
  then show ?thesis unfolding safe_def by (auto intro!: exI [of _ "[]"])
qed

lemma safe_bind:
  assumes f: "safe w f" and g: "\<And>x. safe w (g x)" and h: "\<And>m. h m = (case f m of (x, m') \<Rightarrow> g x m')"
  shows "safe w h"
  unfolding safe_def
proof (intro allI impI)
  fix m r m' assume m: "\<not> tx_open m" and run: "h m = (r, m')"
  obtain x m1 where fm: "f m = (x, m1)" by fastforce
  with run have gm: "g x m1 = (r, m')" by (simp add: h)
  obtain es where es: "log m1 = log m @ es" "monitor (timeout_statement m) w es None = Some None"
    "\<not> tx_open m1" "stmtTimeout m1 = stmtTimeout m" "timeout_statement m1 = timeout_statement m"
    by (rule safeD [OF f m fm])
  obtain es2 where es2: "log m' = log m1 @ es2" "monitor (timeout_statement m1) w es2 None = Some None"
    "\<not> tx_open m'" "stmtTimeout m' = stmtTimeout m1" "timeout_statement m' = timeout_statement m1"
    by (rule safeD [OF g es(3) gm])
  show "(\<exists>es. log m' = log m @ es \<and> monitor (timeout_statement m) w es None = Some None)
     \<and> \<not> tx_open m' \<and> stmtTimeout m' = stmtTimeout m"
    using es es2 by (intro conjI exI [of _ "es @ es2"]) (simp_all add: monitor_append)
qed

lemma GetTableStats_guarded: "guarded w (GetTableStats d sanitize schema tbl)"
proof -
  have part: "guarded_part w (runGetTableStats d sanitize schema tbl)"
  proof (cases "tbl = []")
    case True
    then show ?thesis by (auto simp: runGetTableStats_def guarded_part_def intro!: exI [of _ "[]"])
  next
    case False
    then show ?thesis
      by (intro query_row_guarded) (auto simp: runGetTableStats_def Let_def split: row_result.split)
  qed
  then show ?thesis unfolding GetTableStats_def by (rule guarded_with_conn)
qed

lemma stats_loop_safe: "safe w (stats_loop d sanitize ts stats failures)"
proof (induction ts arbitrary: stats failures)
  case Nil
  show ?case by (rule safe_return) simp
next
  case (Cons t ts)
  obtain schema tbl where t: "t = (schema, tbl)" by fastforce
  have "safe w (GetTableStats d sanitize schema tbl)" by (rule guarded_safe, rule GetTableStats_guarded)
  then show ?case unfolding t
    by (rule safe_bind [where g = "\<lambda>r. case r of
          Inl e \<Rightarrow> stats_loop d sanitize ts stats
            (failures @ [(if schema \<noteq> [] then schema @ ''.'' @ tbl else tbl) @ '': '' @ e])
        | Inr stat \<Rightarrow> stats_loop d sanitize ts (stats @ [stat]) failures"])
      (simp_all add: Cons.IH split: sum.split prod.split)
qed

lemma collectDDLTableStats_safe: "safe w (collectDDLTableStats d sanitize ast)"
proof (cases "ddlTargets ast = []")
  case True
  show ?thesis by (rule safe_return) (simp add: collectDDLTableStats_def True)
next
  case False
  show ?thesis
    by (rule safe_bind [OF stats_loop_safe [where d = d and sanitize = sanitize and ts = "ddlTargets ast"
          and stats = "[]" and failures = "[]"], where g = "\<lambda>r m. ((fst r, join_with ''; '' (snd r)), m)"])
      (use False in \<open>simp_all add: collectDDLTableStats_def safe_return split: prod.split\<close>)
qed

lemmas method_safe = Ping_guarded [THEN guarded_safe] Explain_guarded [THEN guarded_safe]
  ExplainAnalyze_guarded [THEN guarded_safe] ExplainDDL_guarded [THEN guarded_safe]
  GetTableStats_guarded [THEN guarded_safe]

lemma dispatchSimulateStep_safe: "safe w (dispatchSimulateStep d sanitize ast sql st)"
proof -
  have fail: "safe w (\<lambda>m. (x, m))" for x :: simulate_step by (rule safe_return) simp
  have ddl: "safe w (\<lambda>m. case collectDDLTableStats d sanitize ast m of (x, m') \<Rightarrow> (g x, m'))"
    for g :: "_ \<Rightarrow> simulate_step"
    by (rule safe_bind [OF collectDDLTableStats_safe, where g = "\<lambda>x m. (g x, m)"]) (simp_all add: fail)
  show ?thesis
  proof (cases "type_of ast")
    case TypeDDL
    show ?thesis
      by (rule safe_bind [OF method_safe(4) [where d = d and sql = sql], where g = "\<lambda>r. case r of
            Inl e \<Rightarrow> (\<lambda>m. (st\<lparr>step_strategy := StrategyExplainDDL, Error := e\<rparr>, m))
          | Inr x \<Rightarrow> (\<lambda>m. case collectDDLTableStats d sanitize ast m of (y, m') \<Rightarrow>
              (st\<lparr>step_strategy := StrategyExplainDDL, DDLPlan := Some x, TableStats := fst y, StatsError := snd y\<rparr>, m'))"])
        (simp_all add: dispatchSimulateStep_def TypeDDL fail ddl split: sum.split prod.split)
  next
    case TypeDML
    show ?thesis
    proof (cases "CanWriteData (class_of ast)")
      case True
      show ?thesis
        by (rule safe_bind [OF method_safe(2) [where d = d and sql = sql], where g = "\<lambda>r m. (case r of
              Inl e \<Rightarrow> st\<lparr>step_strategy := StrategyExplain, Error := e\<rparr>
            | Inr x \<Rightarrow> st\<lparr>step_strategy := StrategyExplain, step_plan := Some x\<rparr>, m)"])
          (simp_all add: dispatchSimulateStep_def TypeDML True fail split: sum.split prod.split)
    next
      case False
      show ?thesis
        by (rule safe_bind [OF method_safe(3) [where d = d and sql = sql], where g = "\<lambda>r m. (case r of
              Inl e \<Rightarrow> st\<lparr>step_strategy := StrategyExplainAnalyze, Error := e\<rparr>
            | Inr x \<Rightarrow> st\<lparr>step_strategy := StrategyExplainAnalyze, step_plan := Some x\<rparr>, m)"])
          (simp_all add: dispatchSimulateStep_def TypeDML False fail split: sum.split prod.split)
    qed
  qed (rule safe_return, simp add: dispatchSimulateStep_def)+
qed

lemma simulate_loop_safe: "safe w (simulate_loop d sanitize i ss)"
proof (induction ss arbitrary: i)
  case Nil
  show ?case by (rule safe_return) simp
next
  case (Cons s ss)
  have pair: "safe w (\<lambda>m. case simulate_loop d sanitize (Suc i) ss m of (x, m') \<Rightarrow> (g x, m'))" for g :: "_ \<Rightarrow> simulate_step list"
    by (rule safe_bind [OF Cons.IH, where g = "\<lambda>x m. (g x, m)"]) (simp_all add: safe_return)
  show ?case
    by (rule safe_bind [OF dispatchSimulateStep_safe [where ast = "AST s" and sql = "SQL s" and st = "new_step i s"
          and d = d and sanitize = sanitize], where g = "\<lambda>st m. case simulate_loop d sanitize (i + 1) ss m of (x, m') \<Rightarrow> (st # x, m')"])
      (simp_all add: pair)
qed

lemma connect_safe: "safe w (connect d)"
  unfolding safe_def by (auto elim!: connect_cases)

lemma ExplainAny_safe: "safe w (ExplainAny d parse sql)"
proof -
  have fail: "safe w (err e)" "safe w (ret y)" for e :: string and y :: explain_any_result
    by (rule safe_return, simp add: err_def ret_def)+
  have bind: "safe w (and_then f g)" if "guarded w f" "\<And>x. safe w (g x)" for f :: "'a io" and g :: "'a \<Rightarrow> explain_any_result io"
    by (rule safe_bind [OF guarded_safe [OF that(1)], where g = "case_sum (\<lambda>e m. (Inl e, m)) g"])
      (auto simp: that(2) and_then_def intro: safe_return split: sum.split prod.split)
  show ?thesis unfolding ExplainAny_def
    by (auto intro!: fail bind Explain_guarded ExplainDDL_guarded split: sum.split list.split statement_type.split)
qed

lemma Simulate_safe: "safe w (Simulate d sanitize parse sql)"
proof (cases "parse sql")
  case (Inl e)
  show ?thesis by (rule safe_return) (simp add: Simulate_def Inl)
next
  case (Inr stmts)
  show ?thesis
  proof (cases "stmts = []")
    case True
    show ?thesis by (rule safe_return) (simp add: Simulate_def Inr True)
  next
    case False
    have pair: "safe w (\<lambda>m. case simulate_loop d sanitize 0 stmts m of (x, m') \<Rightarrow> (g x, m'))" for g :: "_ \<Rightarrow> string + simulate_step list"
      by (rule safe_bind [OF simulate_loop_safe [where d = d and sanitize = sanitize and i = 0 and ss = stmts], where g = "\<lambda>x m. (g x, m)"])
        (simp_all add: safe_return)
    show ?thesis
      by (rule safe_bind [OF connect_safe [where d = d], where g = "case_sum (\<lambda>e m. (Inl e, m))
          (\<lambda>_ m. case simulate_loop d sanitize 0 stmts m of (x, m') \<Rightarrow> (Inr x, m'))"])
        (auto simp: Simulate_def Inr False pair intro: safe_return split: sum.split prod.split)
  qed
qed

lemma Close_safe: "safe w (Close d)"
  unfolding safe_def by (auto simp: Close_def Let_def intro!: exI [of _ "[CloseConn]"])

lemma safe_map: "safe w f \<Longrightarrow> (\<And>m. h m = map_prod g id (f m)) \<Longrightarrow> safe w h"
  by (rule safe_bind [where g = "\<lambda>x m. (g x, m)"]) (auto intro: safe_return split: prod.split)

text \<open>The only statements that go to the server bare are those given to \<open>Execute\<close> during the session.\<close>

definition executed :: "manager_call list \<Rightarrow> mode \<Rightarrow> string \<Rightarrow> bool" where
  "executed cs mo sql \<longleftrightarrow> (\<exists>opts. CallExecute sql opts \<in> set cs \<and> opt_mode opts = mo)"

lemma call_safe:
  assumes "\<And>sql opts. c = CallExecute sql opts \<Longrightarrow> w (opt_mode opts) sql" shows "safe w (call d sanitize parse c)"
proof (cases c)
  case (CallExecute sql opts)
  with assms have "safe w (Execute d sql opts)" by (intro guarded_safe Execute_guarded) simp
  then show ?thesis by (rule safe_map) (simp add: CallExecute failed_def)
qed ((rule safe_map [OF method_safe(1)] safe_map [OF method_safe(2)] safe_map [OF method_safe(3)] safe_map [OF method_safe(4)]
   safe_map [OF ExplainAny_safe] safe_map [OF method_safe(5)] safe_map [OF Simulate_safe] safe_map [OF Close_safe],
   simp add: failed_def)+)

lemma session_safe:
  assumes "\<And>sql opts. CallExecute sql opts \<in> set cs \<Longrightarrow> w (opt_mode opts) sql"
  shows "safe w (session d sanitize parse cs)"
  using assms
proof (induction cs)
  case Nil
  show ?case by (rule safe_return) simp
next
  case (Cons c cs)
  then have cs: "safe w (session d sanitize parse cs)" by simp
  have c: "safe w (call d sanitize parse c)" using Cons.prems by (intro call_safe) simp
  show ?case
    by (rule safe_bind [OF c, where g = "\<lambda>b m. map_prod ((#) b) id (session d sanitize parse cs m)"])
      (auto split: prod.split intro: safe_map [OF cs])
qed

lemma NewManager_timeouts: "stmtTimeout (NewManager name (map WithStatementTimeout ts)) > 0"
  "\<not> tx_open (NewManager name (map WithStatementTimeout ts))" "log (NewManager name (map WithStatementTimeout ts)) = []"
proof -
  have "P (fold (\<lambda>opt m. opt m) (map WithStatementTimeout ts) m)" if "P m" "\<And>t m. P m \<Longrightarrow> P (WithStatementTimeout t m)" for P m
    using that by (induction ts arbitrary: m) auto
  from this [of "\<lambda>m. stmtTimeout m > 0 \<and> \<not> tx_open m \<and> log m = []"]
  show "stmtTimeout (NewManager name (map WithStatementTimeout ts)) > 0"
  "\<not> tx_open (NewManager name (map WithStatementTimeout ts))" "log (NewManager name (map WithStatementTimeout ts)) = []"
    by (auto simp: NewManager_def WithStatementTimeout_def DefaultStatementTimeout_def)
qed

subsection \<open>What a query on the wire looks like\<close>

lemma monitor_open:
  assumes "monitor to w xs None = Some (Some (a, ss))"
  shows "\<exists>pre mid. xs = pre @ BeginTx a # mid
     \<and> set mid \<inter> {Commit, Rollback, CloseConn} = {} \<and> (\<forall>s \<in> set ss. Exec s \<in> set mid)"
  using assms
proof (induction xs arbitrary: ss rule: rev_induct)
  case Nil
  then show ?case by simp
next
  case (snoc e xs)
  then obtain st where st: "monitor to w xs None = Some st" "monitor to w [e] st = Some (Some (a, ss))"
    by (auto simp: monitor_append split: option.splits)
  show ?case
  proof (cases st)
    case None
    with st(2) have "e = BeginTx a" "ss = []" by (auto split: wire.splits if_splits option.splits)
    then show ?thesis by (intro exI [of _ xs] exI [of _ "[]"]) auto
  next
    case (Some t)
    obtain b ts where t: "t = (b, ts)" by fastforce
    have e: "b = a" "set ss \<subseteq> set ts \<union> {s. e = Exec s}" "e \<notin> {Commit, Rollback, CloseConn}"
      using st(2) Some t by (auto split: wire.splits if_splits option.splits)
    with snoc.IH [of ts] st(1) Some t obtain pre mid where xs: "xs = pre @ BeginTx a # mid"
      "set mid \<inter> {Commit, Rollback, CloseConn} = {}" "\<forall>s \<in> set ts. Exec s \<in> set mid" by blast
    show ?thesis
      by (rule exI [of _ pre], rule exI [of _ "mid @ [e]"]) (use xs e in auto)
  qed
qed

lemma monitor_query:
  assumes "monitor to w (xs @ Query q # ys) None = Some st"
  shows "\<exists>pre a mid. xs = pre @ BeginTx a # mid \<and> set mid \<inter> {Commit, Rollback, CloseConn} = {}
     \<and> Exec to \<in> set mid
     \<and> (a = ReadOnly \<or> has_prefix q ''EXPLAIN (DDL, SHAPE) ''
        \<or> w ModeSafeWrite q \<and> Exec safe_updates_statement \<in> set mid \<or> w ModeFullAccess q)"
proof -
  from assms obtain u where u: "monitor to w xs None = Some u" "guarded_query to w u q"
    by (auto simp: monitor_append split: option.splits if_splits)
  then obtain a ss where a: "u = Some (a, ss)" by (auto simp: guarded_query_def split: option.splits)
  with u monitor_open [of to w xs a ss] obtain pre mid where "xs = pre @ BeginTx a # mid"
    "set mid \<inter> {Commit, Rollback, CloseConn} = {}" "\<forall>s \<in> set ss. Exec s \<in> set mid" by blast
  moreover from u(2) a have "to \<in> set ss" "a = ReadOnly \<or> has_prefix q ''EXPLAIN (DDL, SHAPE) ''
      \<or> w ModeSafeWrite q \<and> safe_updates_statement \<in> set ss \<or> w ModeFullAccess q"
    by (auto simp: guarded_query_def)
  ultimately show ?thesis by blast
qed



subsection \<open>What the steps hold\<close>

definition visible :: "'a io \<Rightarrow> bool" where
  "visible f \<longleftrightarrow> (\<forall>m m'. f m \<noteq> (Inl [], m'))"

lemma visible_simps:
  "p \<noteq> [] \<Longrightarrow> visible (wrap p f)" "e \<noteq> [] \<Longrightarrow> visible (err e)" "visible (ret x)"
  by (auto simp: visible_def wrap_def err_def ret_def split: sum.splits prod.splits)

lemma visible_then: "visible f \<Longrightarrow> (\<And>x. visible (g x)) \<Longrightarrow> visible (and_then f g)"
  unfolding visible_def and_then_def by (auto split: sum.splits prod.splits)

lemma visible_in_tx: "what \<noteq> [] \<Longrightarrow> visible f \<Longrightarrow> visible (in_tx d a what f)"
  unfolding visible_def in_tx_def Let_def by (auto split: option.splits prod.splits)

lemma visible_with_conn: "visible f \<Longrightarrow> visible (with_conn d f)"
  unfolding visible_def with_conn_def
  by (auto split: sum.splits prod.splits elim!: connect_cases simp: connect_def Let_def split: if_splits option.splits)

lemma visible_timeout: "visible (set_timeout d)"
  using visible_simps(1) [of "''set statement_timeout: ''"] unfolding visible_def set_timeout_def by auto

lemma visible_query: "visible (explain_query d verb sql)"
proof -
  have "scan_rows what rs \<noteq> Inl []" if "what \<noteq> []" for what rs
    using that by (induction rs rule: scan_rows.induct [of _ what]) (auto split: sum.splits)
  then show ?thesis
    unfolding visible_def explain_query_def Let_def by (auto split: sum.splits prod.splits option.splits)
qed

lemmas visible_rules = visible_in_tx visible_then visible_timeout visible_query visible_simps

lemma visible_explain: "visible (Explain d sql)" "visible (ExplainAnalyze d sql)" "visible (ExplainDDL d sql)"
  unfolding Explain_def ExplainAnalyze_def ExplainDDL_def runExplain_def runExplainAnalyze_def runExplainDDL_def run_explain_def
  by (auto intro!: visible_with_conn visible_rules split: sum.split prod.split)

lemma dispatch_shape:
  assumes "dispatchSimulateStep d sanitize (AST s) sql (new_step i s) m = (st, m')"
  shows "StatementIndex st = i \<and> step_tag st = tag_of (AST s) \<and> step_sql st = SQL s
    \<and> (case simulateStrategyForAST (AST s) of
         None \<Rightarrow> step_strategy st = NoStrategy \<and> step_plan st = None \<and> DDLPlan st = None \<and> Error st \<noteq> []
       | Some g \<Rightarrow> step_strategy st = g
           \<and> (if g = StrategyExplainDDL then step_plan st = None \<and> (DDLPlan st = None \<longleftrightarrow> Error st \<noteq> [])
              else DDLPlan st = None \<and> (step_plan st = None \<longleftrightarrow> Error st \<noteq> [])))
    \<and> (StatsError st \<noteq> [] \<or> TableStats st \<noteq> [] \<longrightarrow> DDLPlan st \<noteq> None)"
  using assms visible_explain [unfolded visible_def]
  unfolding dispatchSimulateStep_def simulateStrategyForAST_def new_step_def Let_def
  by (auto split: statement_type.splits if_splits sum.splits prod.splits)

lemma simulate_loop_shape:
  assumes "simulate_loop d sanitize i ss m = (sts, m')"
  shows "length sts = length ss \<and> (\<forall>k < length ss. \<exists>m1 m2.
    dispatchSimulateStep d sanitize (AST (ss ! k)) (SQL (ss ! k)) (new_step (i + k) (ss ! k)) m1 = (sts ! k, m2))"
  using assms
proof (induction ss arbitrary: i m sts m')
  case Nil
  then show ?case by simp
next
  case (Cons s ss)
  obtain st m1 where st: "dispatchSimulateStep d sanitize (AST s) (SQL s) (new_step i s) m = (st, m1)" by fastforce
  obtain sts' m2 where sts': "simulate_loop d sanitize (Suc i) ss m1 = (sts', m2)" by fastforce
  from Cons.prems st sts' have sts: "sts = st # sts'" by simp
  show ?case
  proof (intro conjI allI impI)
    show "length sts = length (s # ss)" using Cons.IH [OF sts'] sts by simp
  next
    fix k assume k: "k < length (s # ss)"
    show "\<exists>m1 m2. dispatchSimulateStep d sanitize (AST ((s # ss) ! k)) (SQL ((s # ss) ! k))
        (new_step (i + k) ((s # ss) ! k)) m1 = (sts ! k, m2)"
    proof (cases k)
      case 0
      with st sts show ?thesis by auto
    next
      case (Suc j)
      with k Cons.IH [OF sts'] sts show ?thesis by auto
    qed
  qed
qed

text \<open>C16: A simulation returns one step per statement, in order, with its index, tag and text; the strategy is the
  one of its class; a step holds its one plan exactly when it has no error, and statistics only next to
  a schema-change plan.\<close>

theorem Simulate_steps:
  assumes "Simulate d sanitize parse sql m = (Inr sts, m')"
  shows "\<exists>ss. parse sql = Inr ss \<and> ss \<noteq> [] \<and> length sts = length ss \<and> (\<forall>k < length ss.
     StatementIndex (sts ! k) = k \<and> step_tag (sts ! k) = tag_of (AST (ss ! k)) \<and> step_sql (sts ! k) = SQL (ss ! k)
     \<and> (case simulateStrategyForAST (AST (ss ! k)) of
          None \<Rightarrow> step_strategy (sts ! k) = NoStrategy \<and> step_plan (sts ! k) = None \<and> DDLPlan (sts ! k) = None
            \<and> Error (sts ! k) \<noteq> []
        | Some g \<Rightarrow> step_strategy (sts ! k) = g
            \<and> (if g = StrategyExplainDDL
               then step_plan (sts ! k) = None \<and> (DDLPlan (sts ! k) = None \<longleftrightarrow> Error (sts ! k) \<noteq> [])
               else DDLPlan (sts ! k) = None \<and> (step_plan (sts ! k) = None \<longleftrightarrow> Error (sts ! k) \<noteq> [])))
     \<and> (StatsError (sts ! k) \<noteq> [] \<or> TableStats (sts ! k) \<noteq> [] \<longrightarrow> DDLPlan (sts ! k) \<noteq> None))"
proof -
  from assms obtain ss m1 m2 where ss: "parse sql = Inr ss" "ss \<noteq> []" and run: "simulate_loop d sanitize 0 ss m1 = (sts, m2)"
    by (auto simp: Simulate_def split: sum.splits if_splits prod.splits)
  from simulate_loop_shape [OF run] have len: "length sts = length ss" by blast
  show ?thesis
  proof (rule exI [of _ ss], intro conjI ss len allI impI)
    fix k assume "k < length ss"
    with simulate_loop_shape [OF run] obtain m3 m4 where
      step: "dispatchSimulateStep d sanitize (AST (ss ! k)) (SQL (ss ! k)) (new_step k (ss ! k)) m3 = (sts ! k, m4)" by auto
    from dispatch_shape [OF step]
    show "StatementIndex (sts ! k) = k" "step_tag (sts ! k) = tag_of (AST (ss ! k))" "step_sql (sts ! k) = SQL (ss ! k)"
     "case simulateStrategyForAST (AST (ss ! k)) of
          None \<Rightarrow> step_strategy (sts ! k) = NoStrategy \<and> step_plan (sts ! k) = None \<and> DDLPlan (sts ! k) = None
            \<and> Error (sts ! k) \<noteq> []
        | Some g \<Rightarrow> step_strategy (sts ! k) = g
            \<and> (if g = StrategyExplainDDL
               then step_plan (sts ! k) = None \<and> (DDLPlan (sts ! k) = None \<longleftrightarrow> Error (sts ! k) \<noteq> [])
               else DDLPlan (sts ! k) = None \<and> (step_plan (sts ! k) = None \<longleftrightarrow> Error (sts ! k) \<noteq> []))"
     "StatsError (sts ! k) \<noteq> [] \<or> TableStats (sts ! k) \<noteq> [] \<Longrightarrow> DDLPlan (sts ! k) \<noteq> None"
      by blast+
  qed
qed

subsection \<open>What a simulation sends\<close>

text \<open>Every event a method adds to the wire satisfies \<open>P\<close>; \<open>sends Q\<close> is the same for its queries.\<close>

definition adds :: "(wire \<Rightarrow> bool) \<Rightarrow> (manager \<Rightarrow> 'r \<times> manager) \<Rightarrow> bool" where
  "adds P f \<longleftrightarrow> (\<forall>m. \<exists>es. log (snd (f m)) = log m @ es \<and> (\<forall>e \<in> set es. P e))"

abbreviation sends :: "(string \<Rightarrow> bool) \<Rightarrow> (manager \<Rightarrow> 'r \<times> manager) \<Rightarrow> bool" where
  "sends Q \<equiv> adds (\<lambda>e. \<forall>q. e = Query q \<longrightarrow> Q q)"

lemma sends_def: "sends Q f \<longleftrightarrow> (\<forall>m. \<exists>es. log (snd (f m)) = log m @ es \<and> (\<forall>q. Query q \<in> set es \<longrightarrow> Q q))"
  unfolding adds_def by metis

lemma adds_bind:
  assumes f: "adds P f" and g: "\<And>x. adds P (g x)" and h: "\<And>m. h m = (case f m of (x, m') \<Rightarrow> g x m')"
  shows "adds P h"
  unfolding adds_def
proof
  fix m
  obtain x m1 where fm: "f m = (x, m1)" by fastforce
  from f fm obtain es where "log m1 = log m @ es" "\<forall>e \<in> set es. P e" unfolding adds_def by (metis snd_conv)
  moreover from g obtain es2 where "log (snd (g x m1)) = log m1 @ es2" "\<forall>e \<in> set es2. P e"
    unfolding adds_def by blast
  ultimately show "\<exists>es. log (snd (h m)) = log m @ es \<and> (\<forall>e \<in> set es. P e)"
    by (intro exI [of _ "es @ es2"]) (auto simp: h fm)
qed

lemmas sends_bind = adds_bind [where P = "\<lambda>e. \<forall>q. e = Query q \<longrightarrow> Q q" for Q]

lemma adds_return: assumes "\<And>m. snd (f m) = m" shows "adds P f"
  unfolding adds_def by (intro allI exI [of _ "[]"]) (simp add: assms)

lemmas sends_return = adds_return [where P = "\<lambda>e. \<forall>q. e = Query q \<longrightarrow> Q q" for Q]

lemma adds_event: assumes "\<And>m. log (snd (f m)) = log m @ [e]" "P e" shows "adds P f"
  unfolding adds_def by (intro allI exI [of _ "[e]"]) (use assms in auto)

lemma sends_event:
  assumes "\<And>m. log (snd (f m)) = log m @ [e]" "\<And>q. e = Query q \<Longrightarrow> Q q" shows "sends Q f"
  using assms by (intro adds_event [of f e]) auto

lemma adds_then: "adds P f \<Longrightarrow> (\<And>x. adds P (g x)) \<Longrightarrow> adds P (and_then f g)"
  by (rule adds_bind [where g = "case_sum (\<lambda>e m. (Inl e, m)) g"])
    (auto simp: and_then_def intro: adds_return split: sum.split prod.split)

lemma adds_wrap: "adds P f \<Longrightarrow> adds P (wrap p f)"
  by (rule adds_bind [where g = "\<lambda>r m. (case r of Inl e \<Rightarrow> Inl (p @ e) | Inr x \<Rightarrow> Inr x, m)"])
    (auto simp: wrap_def intro: adds_return split: sum.split prod.split)

lemma adds_exec: "P (Exec s) \<Longrightarrow> adds P (exec d s)" "P Commit \<Longrightarrow> adds P (commit d)" "adds P (err e)" "adds P (ret x)"
  by (rule adds_event [of _ "Exec s"] adds_event [of _ Commit] adds_return; simp add: exec_def commit_def Let_def err_def ret_def)+

lemma adds_timeout: assumes "\<And>s. P (Exec s)" shows "adds P (set_timeout d)"
  unfolding set_timeout_def adds_def
proof
  fix m
  show "\<exists>es. log (snd (wrap ''set statement_timeout: '' (exec d (timeout_statement m)) m)) = log m @ es
      \<and> (\<forall>e \<in> set es. P e)"
    using adds_wrap [OF adds_exec(1) [where P = P, OF assms], unfolded adds_def] by blast
qed

lemma sends_query: "Q (verb @ '' '' @ sql) \<Longrightarrow> sends Q (explain_query d verb sql)"
  by (rule sends_event [of _ "Query (verb @ '' '' @ sql)"])
    (auto simp: explain_query_def Let_def split: sum.split prod.split option.split)

lemma adds_connect: "P Connect \<Longrightarrow> adds P (connect d)"
  unfolding adds_def connect_def Let_def by (auto split: option.split)

lemma adds_in_tx:
  assumes "P (BeginTx a)" "P Rollback" "adds P f" shows "adds P (in_tx d a what f)"
proof -
  have rb: "\<exists>es. log (rollback m) = log m @ es \<and> (\<forall>e \<in> set es. P e)" for m
    using assms(2) by (auto simp: rollback_def)
  have body: "adds P (\<lambda>m. case f (m\<lparr>tx_open := True\<rparr>) of (r, m') \<Rightarrow> (r, rollback m'))"
    unfolding adds_def
  proof
    fix m :: manager
    let ?m = "m\<lparr>tx_open := True\<rparr>"
    obtain r m' where f: "f ?m = (r, m')" by fastforce
    with assms(3) have "\<exists>es. log m' = log ?m @ es \<and> (\<forall>e \<in> set es. P e)"
      unfolding adds_def by (metis snd_conv)
    with rb [of m'] obtain es es2 where "log m' = log m @ es" "\<forall>e \<in> set es. P e"
      "log (rollback m') = log m' @ es2" "\<forall>e \<in> set es2. P e" by auto
    then show "\<exists>es. log (snd (case f ?m of (r, m') \<Rightarrow> (r, rollback m'))) = log m @ es \<and> (\<forall>e \<in> set es. P e)"
      by (intro exI [of _ "es @ es2"]) (auto simp: f)
  qed
  have start: "adds P (\<lambda>m. (drv_begin d (log (send (BeginTx a) m)), send (BeginTx a) m))"
    by (rule adds_event [of _ "BeginTx a"]) (simp_all add: assms(1))
  show ?thesis
    by (rule adds_bind [OF start, where g = "\<lambda>x. case x of Some e \<Rightarrow> (\<lambda>m. (Inl (what @ e), m))
        | None \<Rightarrow> (\<lambda>m. case f (m\<lparr>tx_open := True\<rparr>) of (r, m') \<Rightarrow> (r, rollback m'))"])
      (auto simp: in_tx_def Let_def body intro: adds_return split: option.split)
qed

lemma adds_with_conn:
  assumes "P Connect" "P CloseConn" and f: "adds P f" shows "adds P (with_conn d f)"
proof -
  have fin: "adds P (\<lambda>m. (Inl e :: string + 'a, (send CloseConn m)\<lparr>conn := False\<rparr>))" for e
    by (rule adds_event [of _ CloseConn]) (simp_all add: assms(2))
  have body: "adds P (\<lambda>m1. case f m1 of
             (Inl e, m2) \<Rightarrow> (Inl e, (send CloseConn m2)\<lparr>conn := False\<rparr>)
           | (Inr x, m2) \<Rightarrow> (Inr x, m2))"
    by (rule adds_bind [OF f, where g = "case_sum (\<lambda>e m. (Inl e, (send CloseConn m)\<lparr>conn := False\<rparr>)) (\<lambda>x m. (Inr x, m))"])
      (auto simp: fin intro: adds_return split: sum.split prod.split)
  show ?thesis
    by (rule adds_bind [OF adds_connect [where d = d and P = P, OF assms(1)], where g = "case_sum (\<lambda>e m. (Inl e, m)) (\<lambda>_ m1. case f m1 of
             (Inl e, m2) \<Rightarrow> (Inl e, (send CloseConn m2)\<lparr>conn := False\<rparr>)
           | (Inr x, m2) \<Rightarrow> (Inr x, m2))"])
      (auto simp: with_conn_def body intro: adds_return split: sum.split prod.split)
qed

lemma sends_connect: "sends Q (connect d)"
  by (rule adds_connect) simp

lemma sends_with_conn: "sends Q f \<Longrightarrow> sends Q (with_conn d f)"
  by (rule adds_with_conn) simp_all

lemma sends_in_tx: "sends Q f \<Longrightarrow> sends Q (in_tx d a what f)"
  by (rule adds_in_tx) simp_all

lemma sends_timeout: "sends Q (set_timeout d)"
  by (rule adds_timeout) simp

lemma sends_exec: "sends Q (exec d s)" "sends Q (commit d)" "sends Q (err e)" "sends Q (ret x)"
  by (simp_all add: adds_exec)

lemmas sends_then = adds_then [where P = "\<lambda>e. \<forall>q. e = Query q \<longrightarrow> Q q" for Q]

lemmas sends_wrap = adds_wrap [where P = "\<lambda>e. \<forall>q. e = Query q \<longrightarrow> Q q" for Q]

lemmas sends_rules = sends_with_conn sends_in_tx sends_then sends_wrap sends_timeout sends_query sends_exec

lemma sends_explain:
  "Q (''EXPLAIN '' @ sql) \<Longrightarrow> sends Q (Explain d sql)"
  "Q (''EXPLAIN ANALYZE '' @ sql) \<Longrightarrow> sends Q (ExplainAnalyze d sql)"
  "Q (''EXPLAIN (DDL, SHAPE) '' @ sql) \<Longrightarrow> sends Q (ExplainDDL d sql)"
  unfolding Explain_def ExplainAnalyze_def ExplainDDL_def runExplain_def runExplainAnalyze_def runExplainDDL_def run_explain_def
  by (auto intro!: sends_rules split: sum.split prod.split)

lemma sends_stats: "sends Q (GetTableStats d sanitize schema tbl)"
  unfolding GetTableStats_def
proof (rule sends_with_conn, cases "tbl = []")
  case True
  show "sends Q (runGetTableStats d sanitize schema tbl)"
    by (rule sends_return) (simp add: runGetTableStats_def True)
next
  case False
  show "sends Q (runGetTableStats d sanitize schema tbl)"
    by (rule sends_event [of _ "QueryRow (stats_query (if schema = [] then sanitize [tbl] else sanitize [schema, tbl]))"])
      (use False in \<open>auto simp: runGetTableStats_def Let_def split: row_result.split\<close>)
qed

lemma sends_stats_loop: "sends Q (stats_loop d sanitize ts stats failures)"
proof (induction ts arbitrary: stats failures)
  case Nil
  show ?case by (rule sends_return) simp
next
  case (Cons t ts)
  obtain schema tbl where t: "t = (schema, tbl)" by fastforce
  show ?case unfolding t
    by (rule sends_bind [OF sends_stats [where d = d and sanitize = sanitize and schema = schema and tbl = tbl],
          where g = "\<lambda>r. case r of
          Inl e \<Rightarrow> stats_loop d sanitize ts stats
            (failures @ [(if schema \<noteq> [] then schema @ ''.'' @ tbl else tbl) @ '': '' @ e])
        | Inr stat \<Rightarrow> stats_loop d sanitize ts (stats @ [stat]) failures"])
      (simp_all add: Cons.IH split: sum.split prod.split)
qed

text \<open>The text a statement of a simulation goes out as.\<close>

definition simulate_query :: "parsed \<Rightarrow> string \<Rightarrow> bool" where
  "simulate_query s q \<longleftrightarrow>
     (case simulateStrategyForAST (AST s) of
        Some StrategyExplainDDL \<Rightarrow> q = ''EXPLAIN (DDL, SHAPE) '' @ SQL s
      | Some StrategyExplain \<Rightarrow> q = ''EXPLAIN '' @ SQL s
      | Some StrategyExplainAnalyze \<Rightarrow> q = ''EXPLAIN ANALYZE '' @ SQL s
      | _ \<Rightarrow> False)"

lemma sends_dispatch: "sends (simulate_query s) (dispatchSimulateStep d sanitize (AST s) (SQL s) st)"
proof (cases "type_of (AST s)")
  case TypeDDL
  have stats: "sends Q (\<lambda>m. case collectDDLTableStats d sanitize (AST s) m of (y, m') \<Rightarrow> (h y, m'))"
    for Q and h :: "table_stat list \<times> string \<Rightarrow> simulate_step"
    by (rule sends_bind [OF sends_stats_loop [where d = d and sanitize = sanitize and ts = "ddlTargets (AST s)"
          and stats = "[]" and failures = "[]"], where g = "\<lambda>r m. (h (if ddlTargets (AST s) = [] then ([], []) else (fst r, join_with ''; '' (snd r))), m)"])
      (auto simp: collectDDLTableStats_def intro: sends_return split: prod.split)
  have "sends (simulate_query s) (ExplainDDL d (SQL s))"
    by (rule sends_explain) (simp add: simulate_query_def simulateStrategyForAST_def TypeDDL)
  then show ?thesis
    by (rule sends_bind [where g = "\<lambda>r. case r of
            Inl e \<Rightarrow> (\<lambda>m. (st\<lparr>step_strategy := StrategyExplainDDL, Error := e\<rparr>, m))
          | Inr x \<Rightarrow> (\<lambda>m. case collectDDLTableStats d sanitize (AST s) m of (y, m') \<Rightarrow>
              (st\<lparr>step_strategy := StrategyExplainDDL, DDLPlan := Some x, TableStats := fst y, StatsError := snd y\<rparr>, m'))"])
      (auto simp: dispatchSimulateStep_def TypeDDL stats intro: sends_return split: sum.split prod.split)
next
  case TypeDML
  show ?thesis
  proof (cases "CanWriteData (class_of (AST s))")
    case True
    have "sends (simulate_query s) (Explain d (SQL s))"
      by (rule sends_explain) (simp add: simulate_query_def simulateStrategyForAST_def TypeDML True)
    then show ?thesis
      by (rule sends_bind [where g = "\<lambda>r m. (case r of
            Inl e \<Rightarrow> st\<lparr>step_strategy := StrategyExplain, Error := e\<rparr>
          | Inr x \<Rightarrow> st\<lparr>step_strategy := StrategyExplain, step_plan := Some x\<rparr>, m)"])
        (auto simp: dispatchSimulateStep_def TypeDML True intro: sends_return split: sum.split prod.split)
  next
    case False
    have "sends (simulate_query s) (ExplainAnalyze d (SQL s))"
      by (rule sends_explain) (simp add: simulate_query_def simulateStrategyForAST_def TypeDML False)
    then show ?thesis
      by (rule sends_bind [where g = "\<lambda>r m. (case r of
            Inl e \<Rightarrow> st\<lparr>step_strategy := StrategyExplainAnalyze, Error := e\<rparr>
          | Inr x \<Rightarrow> st\<lparr>step_strategy := StrategyExplainAnalyze, step_plan := Some x\<rparr>, m)"])
        (auto simp: dispatchSimulateStep_def TypeDML False intro: sends_return split: sum.split prod.split)
  qed
qed (rule sends_return, simp add: dispatchSimulateStep_def)+

lemma sends_mono: "sends Q f \<Longrightarrow> (\<And>q. Q q \<Longrightarrow> R q) \<Longrightarrow> sends R f"
  unfolding sends_def by meson

lemma sends_loop: "set ss \<subseteq> set all \<Longrightarrow> sends (\<lambda>q. \<exists>s \<in> set all. simulate_query s q) (simulate_loop d sanitize i ss)"
proof (induction ss arbitrary: i)
  case Nil
  show ?case by (rule sends_return) simp
next
  case (Cons s ss)
  then have "s \<in> set all" and IH: "sends (\<lambda>q. \<exists>s \<in> set all. simulate_query s q) (simulate_loop d sanitize (Suc i) ss)" by simp_all
  have head: "sends (\<lambda>q. \<exists>s \<in> set all. simulate_query s q) (dispatchSimulateStep d sanitize (AST s) (SQL s) (new_step i s))"
    by (rule sends_mono [OF sends_dispatch]) (use \<open>s \<in> set all\<close> in blast)
  have pair: "sends (\<lambda>q. \<exists>s \<in> set all. simulate_query s q)
      (\<lambda>m. case simulate_loop d sanitize (Suc i) ss m of (x, m') \<Rightarrow> (st # x, m'))" for st
    by (rule sends_bind [OF IH, where g = "\<lambda>x m. (st # x, m)"]) (auto intro: sends_return)
  show ?case
    by (rule sends_bind [OF head, where g = "\<lambda>st m. case simulate_loop d sanitize (Suc i) ss m of (x, m') \<Rightarrow> (st # x, m')"])
      (auto simp: pair)
qed

lemma sends_Simulate:
  assumes "parse sql = Inr ss" shows "sends (\<lambda>q. \<exists>s \<in> set ss. simulate_query s q) (Simulate d sanitize parse sql)"
proof -
  have pair: "sends (\<lambda>q. \<exists>s \<in> set ss. simulate_query s q)
      (\<lambda>m. case simulate_loop d sanitize 0 ss m of (x, m') \<Rightarrow> (h x, m'))" for h :: "_ \<Rightarrow> string + simulate_step list"
    by (rule sends_bind [OF sends_loop [OF subset_refl, where d = d and sanitize = sanitize and i = 0 and all = ss], where g = "\<lambda>x m. (h x, m)"])
      (auto intro: sends_return)
  show ?thesis
  proof (cases "ss = []")
    case True
    show ?thesis by (rule sends_return) (simp add: Simulate_def assms True)
  next
    case False
    show ?thesis
      by (rule sends_bind [OF sends_connect [where d = d], where g = "case_sum (\<lambda>e m. (Inl e, m))
          (\<lambda>_ m. case simulate_loop d sanitize 0 ss m of (x, m') \<Rightarrow> (Inr x, m'))"])
        (auto simp: Simulate_def assms False pair intro: sends_return split: sum.split prod.split)
  qed
qed

text \<open>A simulation of statements that the safety check admits runs none of them bare: every statement it sends
  with \<open>Query\<close> is one of them behind an \<open>EXPLAIN\<close>, it is no \<open>EXPLAIN\<close> itself, a schema change goes out as
  \<open>EXPLAIN (DDL, SHAPE)\<close>, a data write as plain \<open>EXPLAIN\<close>, and only what the parser says does not write
  data as \<open>EXPLAIN ANALYZE\<close>, which executes it; every step has a strategy.\<close>

theorem Simulate_never_bare:
  assumes "parse sql = Inr ss" "CheckParsed ModeReadOnly OpSimulate ss = None"
    and "Simulate d sanitize parse sql m = (r, m')"
  shows "(\<exists>es. log m' = log m @ es \<and> (\<forall>q. Query q \<in> set es \<longrightarrow> (\<exists>s \<in> set ss. \<not> is_explain (AST s)
      \<and> (type_of (AST s) = TypeDDL \<and> q = ''EXPLAIN (DDL, SHAPE) '' @ SQL s
         \<or> type_of (AST s) = TypeDML \<and> CanWriteData (class_of (AST s)) \<and> q = ''EXPLAIN '' @ SQL s
         \<or> type_of (AST s) = TypeDML \<and> \<not> CanWriteData (class_of (AST s)) \<and> q = ''EXPLAIN ANALYZE '' @ SQL s))))
    \<and> (\<forall>sts. r = Inr sts \<longrightarrow> (\<forall>st \<in> set sts. step_strategy st \<noteq> NoStrategy))"
proof -
  have adm: "\<not> is_explain (AST s) \<and> (type_of (AST s) = TypeDDL \<or> type_of (AST s) = TypeDML)" if "s \<in> set ss" for s
    using assms(2) that unfolding gate.check_iff by (auto simp: classifySimulate_None)
  have q: "simulate_query s q \<longleftrightarrow> type_of (AST s) = TypeDDL \<and> q = ''EXPLAIN (DDL, SHAPE) '' @ SQL s
      \<or> type_of (AST s) = TypeDML \<and> CanWriteData (class_of (AST s)) \<and> q = ''EXPLAIN '' @ SQL s
      \<or> type_of (AST s) = TypeDML \<and> \<not> CanWriteData (class_of (AST s)) \<and> q = ''EXPLAIN ANALYZE '' @ SQL s" for s q
    by (simp add: simulate_query_def simulateStrategyForAST_def split: statement_type.split)
  obtain es where es: "log m' = log m @ es" "\<And>q. Query q \<in> set es \<Longrightarrow> \<exists>s \<in> set ss. simulate_query s q"
    using sends_Simulate [where parse = parse and sql = sql, OF assms(1), unfolded sends_def, rule_format, of d sanitize m] assms(3) by auto
  have strat: "step_strategy st \<noteq> NoStrategy" if r: "r = Inr sts" and st: "st \<in> set sts" for st sts
  proof -
    from assms(1,3) r obtain m1 m2 where run: "simulate_loop d sanitize 0 ss m1 = (sts, m2)"
      by (auto simp: Simulate_def split: sum.splits if_splits prod.splits)
    from st obtain k where k: "k < length sts" "st = sts ! k" by (auto simp: in_set_conv_nth)
    with simulate_loop_shape [OF run] obtain m3 m4 where kss: "k < length ss" and
      step: "dispatchSimulateStep d sanitize (AST (ss ! k)) (SQL (ss ! k)) (new_step (0 + k) (ss ! k)) m3 = (st, m4)" by auto
    from dispatch_shape [OF step] adm [of "ss ! k"] kss show ?thesis
      by (auto simp: simulateStrategyForAST_def split: if_splits)
  qed
  show ?thesis
  proof (intro conjI exI [of _ es] allI impI ballI)
    show "log m' = log m @ es" by (rule es(1))
  next
    fix qy assume "Query qy \<in> set es"
    from es(2) [OF this] obtain s where s: "s \<in> set ss" "simulate_query s qy" by blast
    show "\<exists>s \<in> set ss. \<not> is_explain (AST s)
      \<and> (type_of (AST s) = TypeDDL \<and> qy = ''EXPLAIN (DDL, SHAPE) '' @ SQL s
         \<or> type_of (AST s) = TypeDML \<and> CanWriteData (class_of (AST s)) \<and> qy = ''EXPLAIN '' @ SQL s
         \<or> type_of (AST s) = TypeDML \<and> \<not> CanWriteData (class_of (AST s)) \<and> qy = ''EXPLAIN ANALYZE '' @ SQL s)"
      by (rule bexI [OF conjI s(1)]) (use adm [OF s(1)] s(2) in \<open>simp_all only: q not_False_eq_True\<close>)
  next
    fix sts st assume "r = Inr sts" "st \<in> set sts"
    then show "step_strategy st \<noteq> NoStrategy" by (rule strat)
  qed
qed

abbreviation sample_parse :: "string \<Rightarrow> string + parsed list" where
  "sample_parse s \<equiv> Inr [sample_drop, sample_show]"

abbreviation idle_manager :: manager where
  "idle_manager \<equiv> NewManager ''dsn'' []"

lemmas run_defs = io_defs NewManager_def three_rows_def Simulate_def dispatchSimulateStep_def new_step_def
  ExplainDDL_def runExplainDDL_def ExplainAnalyze_def runExplainAnalyze_def run_explain_def with_conn_def
  connect_def in_tx_def explain_query_def sample_drop_def sample_show_def sample_class_def
  Execute_def runExecute_def execute_query_def txOptionsForMode_def

lemma sample_simulation:
  "\<exists>sts m'. Simulate three_rows concat sample_parse sql idle_manager = (Inr sts, m') \<and> length sts = 2
     \<and> map step_strategy sts = [StrategyExplainDDL, StrategyExplainAnalyze] \<and> Query ''EXPLAIN ANALYZE SHOW TABLES'' \<in> set (log m')"
  by (simp add: run_defs Let_def)

theorem Simulate_steps_witness:
  "\<exists>sts m'. Simulate three_rows concat sample_parse ''s'' idle_manager = (Inr sts, m')
     \<and> StatementIndex (sts ! 1) = 1 \<and> step_tag (sts ! 1) = ''SHOW TABLES'' \<and> DDLPlan (sts ! 1) = None"
proof -
  obtain sts m' where run: "Simulate three_rows concat sample_parse ''s'' idle_manager = (Inr sts, m')" "length sts = 2"
    using sample_simulation by blast
  from Simulate_steps [OF run(1)] obtain ss where ss: "ss = [sample_drop, sample_show]" "length sts = length ss"
    and all: "\<forall>k < length ss. StatementIndex (sts ! k) = k \<and> step_tag (sts ! k) = tag_of (AST (ss ! k))
      \<and> (simulateStrategyForAST (AST (ss ! k)) = Some StrategyExplainAnalyze \<longrightarrow> DDLPlan (sts ! k) = None)"
    by (elim exE conjE) (rule that, auto)
  have "simulateStrategyForAST (AST (ss ! 1)) = Some StrategyExplainAnalyze" "tag_of (AST (ss ! 1)) = ''SHOW TABLES''"
    by (simp_all add: ss(1) sample_show_def sample_class_def simulateStrategyForAST_def)
  with all [rule_format, of 1] run(1) show ?thesis
    by (intro exI [of _ sts] exI [of _ m'] conjI) (simp_all add: ss(1))
qed

theorem Simulate_never_bare_witness:
  "\<exists>sts m' es. Simulate three_rows concat sample_parse ''s'' idle_manager = (Inr sts, m')
     \<and> log m' = log idle_manager @ es \<and> Query ''EXPLAIN ANALYZE SHOW TABLES'' \<in> set es
     \<and> (\<forall>q. Query q \<in> set es \<longrightarrow> (\<exists>s \<in> {sample_drop, sample_show}. \<not> is_explain (AST s)))
     \<and> (\<forall>st \<in> set sts. step_strategy st \<noteq> NoStrategy)"
proof -
  obtain sts m' where run: "Simulate three_rows concat sample_parse ''s'' idle_manager = (Inr sts, m')"
    "Query ''EXPLAIN ANALYZE SHOW TABLES'' \<in> set (log m')"
    using sample_simulation by blast
  have "CheckParsed ModeReadOnly OpSimulate [sample_drop, sample_show] = None" by code_simp
  note all = Simulate_never_bare [OF refl this run(1)]
  from all [THEN conjunct1] obtain es where es: "log m' = log idle_manager @ es" and
    q: "\<forall>q. Query q \<in> set es \<longrightarrow> (\<exists>s \<in> set [sample_drop, sample_show]. \<not> is_explain (AST s))"
    by (elim exE conjE) (rule that, assumption, fast)
  have "log idle_manager = []" by (simp add: NewManager_def)
  with es run(2) have "Query ''EXPLAIN ANALYZE SHOW TABLES'' \<in> set es" by simp
  with es q run(1) all [THEN conjunct2, rule_format, OF refl] show ?thesis
    by (intro exI [of _ sts] exI [of _ m'] exI [of _ es] conjI) simp_all
qed



text \<open>C14: \<open>AlterTenantCapability\<close> is DML which the parser marks neither as writing data nor as modifying the
  schema (so the comments of \<open>classifyReadOnly\<close>, which reject it for explain and execute on that ground).
  The simulate rule has no such guard: the statement is admitted under \<open>read_only\<close> and goes to the server
  behind \<open>EXPLAIN ANALYZE\<close>, which executes what it explains, whenever the connection works that far.\<close>

theorem simulate_runs_tenant_admin:
  assumes "AST s = Plain c AlterTenantCapability" "StatementType c = TypeDML" "\<not> CanWriteData c" "parse sql = Inr [s]"
    and "drv_connect d [Connect] = None" "drv_begin d [Connect, BeginTx ReadOnly] = None" "\<And>l. drv_exec d l = None"
  shows "CheckParsed ModeReadOnly OpSimulate [s] = None
    \<and> CheckParsed ModeReadOnly OpExplain [s] \<noteq> None \<and> CheckParsed ModeReadOnly OpExecute [s] \<noteq> None
    \<and> Query (''EXPLAIN ANALYZE '' @ SQL s) \<in> set (log (snd (Simulate d sanitize parse sql (NewManager name []))))"
proof -
  have "CheckParsed ModeReadOnly OpSimulate [s] = None" "CheckParsed ModeReadOnly OpExplain [s] \<noteq> None"
    "CheckParsed ModeReadOnly OpExecute [s] \<noteq> None"
    unfolding gate.check_iff
    by (auto simp: assms classify_None routed_op_def is_explain_def cluster_level_def isTenantMgmtDMLStmt_def)
  moreover have "Query (''EXPLAIN ANALYZE '' @ SQL s) \<in> set (log (snd (Simulate d sanitize parse sql (NewManager name []))))"
    using assms
    by (auto simp: io_defs NewManager_def Simulate_def dispatchSimulateStep_def ExplainAnalyze_def runExplainAnalyze_def
        run_explain_def with_conn_def connect_def in_tx_def explain_query_def Let_def
        split: sum.split prod.split option.split)
  ultimately show ?thesis by blast
qed

theorem simulate_runs_tenant_admin_witness:
  "Query ''EXPLAIN ANALYZE ALTER VIRTUAL CLUSTER x GRANT CAPABILITY can_admin_split''
    \<in> set (log (snd (Simulate three_rows concat
         (\<lambda>q. Inr [\<lparr>AST = Plain (sample_class ''ALTER VIRTUAL CLUSTER CAPABILITY'' TypeDML False False) AlterTenantCapability,
                   SQL = ''ALTER VIRTUAL CLUSTER x GRANT CAPABILITY can_admin_split''\<rparr>]) ''q'' (NewManager ''d'' []))))"
  using simulate_runs_tenant_admin [where s = "\<lparr>AST = Plain (sample_class ''ALTER VIRTUAL CLUSTER CAPABILITY'' TypeDML False False)
      AlterTenantCapability, SQL = ''ALTER VIRTUAL CLUSTER x GRANT CAPABILITY can_admin_split''\<rparr>"
      and parse = "\<lambda>q. Inr [\<lparr>AST = Plain (sample_class ''ALTER VIRTUAL CLUSTER CAPABILITY'' TypeDML False False) AlterTenantCapability,
                   SQL = ''ALTER VIRTUAL CLUSTER x GRANT CAPABILITY can_admin_split''\<rparr>]"
      and c = "sample_class ''ALTER VIRTUAL CLUSTER CAPABILITY'' TypeDML False False" and sql = "''q''" and d = three_rows
      and sanitize = concat and name = "''d''"]
  by (simp add: three_rows_def sample_class_def del: append.simps) simp

end
