(* ===== verification/Mcp_Connected.thy ===== *)
theory Mcp_Connected
  imports Mcp_Tools Simulate
begin

text \<open>
  The connected MCP tools, \<open>explain_sql\<close>, \<open>simulate_sql\<close> and \<open>execute_sql\<close> of \<open>internal/mcp/tools\<close>. A call
  gives its result and everything it sent to the cluster. An error of the driver is known to the manager by
  its text; what \<open>errors.As\<close> finds in it may depend on all that was sent before it.
\<close>

section \<open>The environment\<close>

record 'e cluster_env =
  Tools :: "'e tool_env"
  Url :: url_api
  Driver :: driver
  Sanitize :: "string list \<Rightarrow> string"
  OverflowInt :: "rat \<Rightarrow> int"
  ClusterApi :: "wire list \<Rightarrow> string error_api"
  PrintStatement :: "statement \<Rightarrow> string"
  MarshalExplain :: "explain_any_result \<Rightarrow> string + string"
  MarshalSimulate :: "simulate_step list \<Rightarrow> string + string"
  MarshalExecute :: "execute_result \<Rightarrow> string + string"

abbreviation ParseSQL :: "'e cluster_env \<Rightarrow> string \<Rightarrow> 'e + parsed list" where
  "ParseSQL ce \<equiv> Parse (Front (Tools ce))"

abbreviation MarshalEnv :: "'e cluster_env \<Rightarrow> envelope \<Rightarrow> string + string" where
  "MarshalEnv ce \<equiv> MarshalEnvelope (Tools ce)"

type_synonym call_result = "(tool_result \<times> wire list) outcome"

text \<open>A call that ends before the manager is made.\<close>

definition no_contact :: "tool_result \<Rightarrow> call_result" where
  "no_contact r = Ret (r, [])"

definition reject :: "'e cluster_env \<Rightarrow> envelope \<Rightarrow> violation \<Rightarrow> string \<Rightarrow> StripResult \<Rightarrow> call_result" where
  "reject ce env v originalSQL strip =
     obind (translateErrorPositions (env\<lparr>eerrors := eerrors env @ [Safety.Envelope v]\<rparr>) (length (eerrors env)) originalSQL strip)
       (\<lambda>env. no_contact (envelopeResult (MarshalEnv ce) env))"

definition cluster_failure ::
    "'e cluster_env \<Rightarrow> envelope \<Rightarrow> error_entry \<Rightarrow> string \<Rightarrow> StripResult \<Rightarrow> wire list \<Rightarrow> call_result" where
  "cluster_failure ce env entry originalSQL strip ws =
     obind (translateErrorPositions (env\<lparr>eerrors := eerrors env @ [entry]\<rparr>) (length (eerrors env)) originalSQL strip)
       (\<lambda>env. Ret (envelopeResult (MarshalEnv ce) env, ws))"

text \<open>A call on a new manager, and the deferred \<open>Close\<close>.\<close>

definition on_manager :: "'e cluster_env \<Rightarrow> string \<Rightarrow> int \<Rightarrow> 'a io \<Rightarrow> (string + 'a) \<times> wire list \<times> wire list" where
  "on_manager ce merged timeout f =
     (case f (NewManager merged [WithStatementTimeout timeout]) of
        (r, m) \<Rightarrow> (r, manager.log m, manager.log (snd (Close (Driver ce) m))))"

definition encoded_result :: "'e cluster_env \<Rightarrow> envelope \<Rightarrow> string + string \<Rightarrow> tool_result" where
  "encoded_result ce env encoded =
     (case encoded of
        Inl e \<Rightarrow> ToolError (''encode result: '' @ e)
      | Inr d \<Rightarrow> envelopeResult (MarshalEnv ce) (env\<lparr>edata := Some d\<rparr>))"

section \<open>The handlers\<close>

text \<open>The parameters the three tools share, in the order they are read.\<close>

definition connected_params :: "'e cluster_env \<Rightarrow> string \<Rightarrow> request \<Rightarrow> string + string \<times> string \<times> string \<times> mode \<times> int" where
  "connected_params ce defaultTargetVersion req =
     (case extractRequiredString req ''sql'' of Inl e \<Rightarrow> Inl e | Inr sql \<Rightarrow>
     (case extractRequiredString req ''dsn'' of Inl e \<Rightarrow> Inl e | Inr name \<Rightarrow>
     (case resolveTargetVersion req defaultTargetVersion of Inl e \<Rightarrow> Inl e | Inr target \<Rightarrow>
     (case resolveSafetyMode req of Inl e \<Rightarrow> Inl e | Inr mo \<Rightarrow>
     (case resolveStatementTimeout (OverflowInt ce) req of Inl e \<Rightarrow> Inl e | Inr timeout \<Rightarrow>
        Inr (sql, name, target, mo, timeout))))))"

text \<open>
  \<open>ExplainSQLHandler\<close> and \<open>SimulateSQLHandler\<close> differ in the operation checked, the method called and
  what a success adds to the envelope.
\<close>

definition planning_tool ::
    "'e cluster_env \<Rightarrow> string \<Rightarrow> string \<Rightarrow> request \<Rightarrow> operation \<Rightarrow> (string \<Rightarrow> 'a io) \<Rightarrow> ('a \<Rightarrow> envelope \<Rightarrow> tool_result) \<Rightarrow> call_result" where
  "planning_tool ce parserVersion defaultTargetVersion req op run finish =
     (case connected_params ce defaultTargetVersion req of
        Inl e \<Rightarrow> no_contact (ToolError e)
      | Inr (originalSQL, name, target, mo, timeout) \<Rightarrow>
     (case preprocessSQL (connectedEnvelope parserVersion target) originalSQL of
        (env, strip) \<Rightarrow>
     (case Check (ParseSQL ce) mo op (Stripped strip) of
        Inl perr \<Rightarrow>
          obind (parse_failure (Tools ce) env perr originalSQL strip) (\<lambda>env. no_contact (envelopeResult (MarshalEnv ce) env))
      | Inr (Some v) \<Rightarrow> reject ce env v originalSQL strip
      | Inr None \<Rightarrow>
          (case mergeDSNWithTLS (MarshalEnv ce) (Url ce) req env name of
             Inl r \<Rightarrow> no_contact r
           | Inr merged \<Rightarrow>
               (case on_manager ce merged timeout (run (Stripped strip)) of
                  (Inl e, sent, ws) \<Rightarrow>
                    cluster_failure ce env (FromClusterError (ClusterApi ce sent) e (Stripped strip)) originalSQL strip ws
                | (Inr out, sent, ws) \<Rightarrow> Ret (finish out (env\<lparr>econnection := ConnectionConnected\<rparr>), ws))))))"

definition ExplainSQLHandler :: "'e cluster_env \<Rightarrow> string \<Rightarrow> string \<Rightarrow> request \<Rightarrow> call_result" where
  "ExplainSQLHandler ce pv dflt req =
     planning_tool ce pv dflt req OpExplain (ExplainAny (Driver ce) (parse_text (Front (Tools ce))))
       (\<lambda>out env. encoded_result ce env (MarshalExplain ce out))"

definition step_failure_entry :: "string \<times> nat list \<times> nat list \<Rightarrow> error_entry" where
  "step_failure_entry f =
     (case f of (msg, planFails, statsFails) \<Rightarrow>
        (plain_error ''simulate_step_failure'' SevError msg)
          \<lparr>category := ''simulate'',
           econtext := (if length planFails > 0 then [(''plan_failed_steps'', CInts (map int planFails))] else [])
             @ (if length statsFails > 0 then [(''stats_failed_steps'', CInts (map int statsFails))] else [])\<rparr>)"

definition SimulateSQLHandler :: "'e cluster_env \<Rightarrow> string \<Rightarrow> string \<Rightarrow> request \<Rightarrow> call_result" where
  "SimulateSQLHandler ce pv dflt req =
     planning_tool ce pv dflt req OpSimulate (Simulate (Driver ce) (Sanitize ce) (parse_text (Front (Tools ce))))
       (\<lambda>sts env. case MarshalSimulate ce sts of
          Inl e \<Rightarrow> ToolError (''encode result: '' @ e)
        | Inr d \<Rightarrow>
            (let env = env\<lparr>edata := Some d\<rparr> in
             case StepFailureSummary sts of
               None \<Rightarrow> envelopeResult (MarshalEnv ce) env
             | Some f \<Rightarrow> envelopeResult (MarshalEnv ce) (env\<lparr>eerrors := eerrors env @ [step_failure_entry f]\<rparr>)))"

definition defaultExecuteMaxRows :: int where
  "defaultExecuteMaxRows = 1000"

definition omit_position :: "error_entry \<Rightarrow> error_entry" where
  "omit_position e =
     e\<lparr>position := None, econtext := econtext e @ [(''position_omitted_reason'', CStr ''limit_injection_rewrote_sql'')]\<rparr>"

text \<open>What is sent: the stripped statement, or its rewriting with a limit.\<close>

definition rewrite_sql :: "'e cluster_env \<Rightarrow> mode \<Rightarrow> int \<Rightarrow> parsed list \<Rightarrow> string \<Rightarrow> string \<times> bool" where
  "rewrite_sql ce mo maxRows stmts sql =
     (if mo = ModeReadOnly \<and> maxRows > 0
      then (case MaybeInjectLimitParsed (PrintStatement ce) stmts maxRows of
              Some (rw, _) \<Rightarrow> (rw, True)
            | None \<Rightarrow> (sql, False))
      else (sql, False))"

definition ExecuteSQLHandler :: "'e cluster_env \<Rightarrow> string \<Rightarrow> string \<Rightarrow> request \<Rightarrow> call_result" where
  "ExecuteSQLHandler ce parserVersion defaultTargetVersion req =
     (case connected_params ce defaultTargetVersion req of
        Inl e \<Rightarrow> no_contact (ToolError e)
      | Inr (originalSQL, name, target, mo, timeout) \<Rightarrow>
     (case resolveMaxRows (OverflowInt ce) req defaultExecuteMaxRows of
        Inl e \<Rightarrow> no_contact (ToolError e)
      | Inr maxRows \<Rightarrow>
     (case preprocessSQL (connectedEnvelope parserVersion target) originalSQL of
        (env, strip) \<Rightarrow>
     (case ParseSQL ce (Stripped strip) of
        Inl perr \<Rightarrow>
          obind (parse_failure (Tools ce) env perr originalSQL strip) (\<lambda>env. no_contact (envelopeResult (MarshalEnv ce) env))
      | Inr stmts \<Rightarrow>
          obind (Inspect stmts target None) (\<lambda>warns.
          (let env = env\<lparr>eerrors := eerrors env @ warns\<rparr> in
           case CheckParsed mo OpExecute stmts of
             Some v \<Rightarrow> reject ce env v originalSQL strip
           | None \<Rightarrow>
               (case rewrite_sql ce mo maxRows stmts (Stripped strip) of
                  (rewritten, injected) \<Rightarrow>
               (case mergeDSNWithTLS (MarshalEnv ce) (Url ce) req env name of
                  Inl r \<Rightarrow> no_contact r
                | Inr merged \<Rightarrow>
                    (case on_manager ce merged timeout
                            (Execute (Driver ce) rewritten \<lparr>opt_mode = mo, MaxRows = maxRows\<rparr>) of
                       (Inl e, sent, ws) \<Rightarrow>
                         (let entry = FromClusterError (ClusterApi ce sent) e rewritten in
                          cluster_failure ce env (if injected then omit_position entry else entry) originalSQL strip ws)
                     | (Inr out, sent, ws) \<Rightarrow>
                         (let out = (if injected then out\<lparr>LimitInjected := Some (nat maxRows)\<rparr> else out) in
                          Ret (encoded_result ce (env\<lparr>econnection := ConnectionConnected\<rparr>) (MarshalExecute ce out), ws)))))))))))"

section \<open>What the calls send\<close>

lemma parse_text_Inr: "parse_text fe sql = Inr stmts \<longleftrightarrow> Parse fe sql = Inr stmts"
  by (cases "Parse fe sql") (simp_all add: parse_text_def)

lemma translate_strip:
  "translateErrorPositions (env\<lparr>eerrors := eerrors env @ es\<rparr>) (length (eerrors env)) sql (StripShellPromptsWithMap sql) =
     Ret (env\<lparr>eerrors := eerrors env @ map (relocate sql) es\<rparr>)"
  by (simp add: translateErrorPositions_strip)

lemma relocate_violation: "relocate sql (Safety.Envelope v) = Safety.Envelope v"
  by (simp add: Safety.Envelope_def)

lemma reject_eq:
  "reject ce env v sql (StripShellPromptsWithMap sql) =
     Ret (envelopeResult (MarshalEnv ce) (env\<lparr>eerrors := eerrors env @ [Safety.Envelope v]\<rparr>), [])"
  by (simp add: reject_def translate_strip relocate_violation no_contact_def)

lemma cluster_failure_eq:
  "cluster_failure ce env e sql (StripShellPromptsWithMap sql) ws =
     Ret (envelopeResult (MarshalEnv ce) (env\<lparr>eerrors := eerrors env @ [relocate sql e]\<rparr>), ws)"
  by (simp add: cluster_failure_def translate_strip)

text \<open>The envelope every connected call starts from.\<close>

abbreviation connected_start :: "string \<Rightarrow> string \<Rightarrow> string \<Rightarrow> envelope" where
  "connected_start \<equiv> start_envelope TierConnected"

lemma preprocess_connected:
  "preprocessSQL (connectedEnvelope pv target) sql = (connected_start pv target sql, StripShellPromptsWithMap sql)"
  by (simp add: preprocessSQL_eq connectedEnvelope_def start_envelope_def)

definition planning_result ::
    "'e cluster_env \<Rightarrow> envelope \<Rightarrow> string \<Rightarrow> ('a \<Rightarrow> envelope \<Rightarrow> tool_result) \<Rightarrow> (string + 'a) \<times> wire list \<times> wire list \<Rightarrow> tool_result \<times> wire list" where
  "planning_result ce env sql finish run =
     (case run of
        (Inl e, sent, ws) \<Rightarrow> (envelopeResult (MarshalEnv ce) (env\<lparr>eerrors := eerrors env @
          [relocate sql (FromClusterError (ClusterApi ce sent) e (StripShellPrompts sql))]\<rparr>), ws)
      | (Inr out, sent, ws) \<Rightarrow> (finish out (env\<lparr>econnection := ConnectionConnected\<rparr>), ws))"

lemma planning_tool_eq:
  assumes "connected_params ce dflt req = Inr (sql, name, target, mo, timeout)"
  shows "planning_tool ce pv dflt req op run finish =
    (let env = connected_start pv target sql in
     case ParseSQL ce (StripShellPrompts sql) of
       Inl perr \<Rightarrow> Ret (envelopeResult (MarshalEnv ce)
         (env\<lparr>eerrors := eerrors env @ [relocate sql (parse_error_of (Tools ce) perr (StripShellPrompts sql))]\<rparr>), [])
     | Inr stmts \<Rightarrow>
         (case CheckParsed mo op stmts of
            Some v \<Rightarrow> Ret (envelopeResult (MarshalEnv ce) (env\<lparr>eerrors := eerrors env @ [Safety.Envelope v]\<rparr>), [])
          | None \<Rightarrow>
              (case mergeDSNWithTLS (MarshalEnv ce) (Url ce) req env name of
                 Inl r \<Rightarrow> Ret (r, [])
               | Inr merged \<Rightarrow> Ret (planning_result ce env sql finish (on_manager ce merged timeout (run (StripShellPrompts sql)))))))"
  unfolding planning_tool_def assms preprocess_connected
  by (simp add: Check_def parse_failure_eq no_contact_def reject_eq cluster_failure_eq
      planning_result_def Let_def StripShellPrompts_def [symmetric] split: sum.split option.split prod.split)

lemma Close_sends: "\<exists>es. manager.log (snd (Close d m)) = manager.log m @ es \<and> set es \<subseteq> {CloseConn}"
  by (auto simp: Close_def Let_def)

lemma on_manager_sends:
  assumes "sends Q f" "on_manager ce merged timeout f = (r, sent, ws)" "Query q \<in> set ws"
  shows "Q q"
proof -
  let ?m = "NewManager merged [WithStatementTimeout timeout]"
  obtain r' m where f: "f ?m = (r', m)" by fastforce
  from assms(1) obtain es where es: "manager.log m = manager.log ?m @ es" "\<forall>q. Query q \<in> set es \<longrightarrow> Q q"
    unfolding sends_def by (metis f snd_conv)
  have "manager.log ?m = []" by (simp add: NewManager_def WithStatementTimeout_def)
  moreover obtain cs where "manager.log (snd (Close (Driver ce) m)) = manager.log m @ cs" "set cs \<subseteq> {CloseConn}" using Close_sends by blast
  ultimately show ?thesis using assms(2,3) es f by (auto simp: on_manager_def)
qed

lemma planning_tool_sends:
  assumes "planning_tool ce pv dflt req op run finish = Ret (r, ws)" "Query q \<in> set ws"
  obtains sql name target mo timeout stmts merged where
    "connected_params ce dflt req = Inr (sql, name, target, mo, timeout)"
    "ParseSQL ce (StripShellPrompts sql) = Inr stmts" "CheckParsed mo op stmts = None"
    "ws = snd (snd (on_manager ce merged timeout (run (StripShellPrompts sql))))"
proof -
  obtain sql name target mo timeout where p: "connected_params ce dflt req = Inr (sql, name, target, mo, timeout)"
    using assms by (cases "connected_params ce dflt req") (auto simp: planning_tool_def no_contact_def)
  show thesis
  proof (rule that [OF p])
    from assms show "ParseSQL ce (StripShellPrompts sql) = Inr (projr (ParseSQL ce (StripShellPrompts sql)))"
      by (cases "ParseSQL ce (StripShellPrompts sql)") (auto simp: planning_tool_eq [OF p] Let_def)
    then obtain stmts where s: "ParseSQL ce (StripShellPrompts sql) = Inr stmts" by blast
    show "CheckParsed mo op (projr (ParseSQL ce (StripShellPrompts sql))) = None"
      using assms s by (auto simp: planning_tool_eq [OF p] Let_def split: option.splits)
    then obtain merged where "mergeDSNWithTLS (MarshalEnv ce) (Url ce) req (connected_start pv target sql) name = Inr merged"
      using assms s by (auto simp: planning_tool_eq [OF p] Let_def split: sum.splits)
    with \<open>CheckParsed mo op _ = None\<close> show "ws = snd (snd (on_manager ce
        (projr (mergeDSNWithTLS (MarshalEnv ce) (Url ce) req (connected_start pv target sql) name)) timeout (run (StripShellPrompts sql))))"
      using assms s by (auto simp: planning_tool_eq [OF p] Let_def planning_result_def split: sum.splits prod.splits)
  qed
qed

lemma sends_ExplainAny:
  assumes "Q (''EXPLAIN '' @ sql)" "Q (''EXPLAIN (DDL, SHAPE) '' @ sql)"
  shows "sends Q (ExplainAny d parse sql)"
proof -
  have "sends Q (and_then f (\<lambda>x. ret (h x)))" if "sends Q f" for f :: "'x io" and h :: "'x \<Rightarrow> explain_any_result"
    using that by (rule sends_then) (rule sends_exec)
  note plan = this [OF sends_explain(1)] and ddl = this [OF sends_explain(3)]
  show ?thesis
    using plan [OF assms(1)] ddl [OF assms(2)]
    by (auto simp: ExplainAny_def [abs_def] sends_exec split: sum.split list.split statement_type.split)
qed

lemma sends_Execute: "sends (\<lambda>q. q = sql) (Execute d sql opts)"
proof -
  have "sends (\<lambda>q. q = sql) (execute_query d sql cap)" for cap
    by (rule sends_event [of _ "Query sql"]) (auto simp: execute_query_def Let_def split: sum.split prod.split option.split)
  then show ?thesis
    unfolding Execute_def runExecute_def by (auto intro!: sends_rules split: sum.split)
qed

text \<open>What \<open>Execute\<close> sends around its one query.\<close>

definition execute_prelude :: "access \<Rightarrow> mode \<Rightarrow> string \<Rightarrow> wire list" where
  "execute_prelude a mo to = [BeginTx a, Exec to] @ (if mo = ModeSafeWrite then [Exec safe_updates_statement] else [])"

lemma execute_query_log: "manager.log (snd (execute_query d sql cap m)) = manager.log m @ [Query sql]"
  by (auto simp: execute_query_def Let_def split: sum.split prod.split option.split)

lemma runExecute_log:
  assumes "txOptionsForMode (opt_mode opts) = Inr a"
  shows "\<exists>es. manager.log (snd (runExecute d sql opts m)) = manager.log m @ es
    \<and> ((\<forall>q. Query q \<notin> set es) \<or> (\<exists>tl. es = execute_prelude a (opt_mode opts) (timeout_statement m) @ Query sql # tl \<and> (\<forall>q. Query q \<notin> set tl)))"
proof -
  have tail: "\<exists>tl. manager.log (snd (and_then (execute_query d sql cap) (\<lambda>out. and_then (wrap w (commit d)) (\<lambda>_. ret out)) m))
      = manager.log m @ Query sql # tl \<and> (\<forall>q. Query q \<notin> set tl)" for cap w m
    using execute_query_log [of d sql cap m]
    by (auto simp: and_then_def wrap_def commit_def ret_def Let_def done_or_def split: prod.split sum.split option.split)
  let ?k = "and_then (execute_query d sql (MaxRows opts)) (\<lambda>out. and_then (wrap ''commit txn: '' (commit d)) (\<lambda>_. ret out))"
  have rb: "\<exists>es. manager.log (rollback m) = manager.log m @ es \<and> (\<forall>q. Query q \<notin> set es)" for m by (auto simp: rollback_def)
  have body: "\<exists>es. manager.log (snd (and_then (set_timeout d) (\<lambda>_. and_then (if opt_mode opts = ModeSafeWrite
         then wrap ''set sql_safe_updates: '' (exec d safe_updates_statement) else ret ()) (\<lambda>_. ?k)) m)) = manager.log m @ es
      \<and> ((\<forall>q. Query q \<notin> set es) \<or> (\<exists>tl. BeginTx a # es = execute_prelude a (opt_mode opts) (timeout_statement m) @ Query sql # tl
           \<and> (\<forall>q. Query q \<notin> set tl)))" for m
  proof -
    let ?m1 = "send (Exec (timeout_statement m)) m"
    let ?m2 = "if opt_mode opts = ModeSafeWrite then send (Exec safe_updates_statement) ?m1 else ?m1"
    obtain tl where tl: "manager.log (snd (?k ?m2)) = manager.log ?m2 @ Query sql # tl" "\<forall>q. Query q \<notin> set tl" using tail by blast
    have "snd (and_then (set_timeout d) (\<lambda>_. and_then (if opt_mode opts = ModeSafeWrite
         then wrap ''set sql_safe_updates: '' (exec d safe_updates_statement) else ret ()) (\<lambda>_. ?k)) m) \<in> {?m1, ?m2, snd (?k ?m2)}"
      by (auto simp: and_then_def [of "set_timeout d"] set_timeout_def wrap_def exec_def Let_def done_or_def ret_def
          and_then_def [of "\<lambda>m. _ m"] and_then_def [of "ret ()"] split: sum.split prod.split option.split)
    then show ?thesis using tl by (auto simp: execute_prelude_def)
  qed
  obtain f where f: "runExecute d sql opts = in_tx d a ''begin txn: '' f"
    "\<And>m. \<exists>es. manager.log (snd (f m)) = manager.log m @ es
      \<and> ((\<forall>q. Query q \<notin> set es) \<or> (\<exists>tl. BeginTx a # es = execute_prelude a (opt_mode opts) (timeout_statement m) @ Query sql # tl
           \<and> (\<forall>q. Query q \<notin> set tl)))"
    using body by (rule that [rotated]) (simp add: runExecute_def assms)
  let ?m = "(send (BeginTx a) m)\<lparr>tx_open := True\<rparr>"
  show ?thesis
  proof (cases "drv_begin d (manager.log (send (BeginTx a) m))")
    case (Some e)
    then show ?thesis by (simp add: f(1) in_tx_def Let_def)
  next
    case None
    obtain es where es: "manager.log (snd (f ?m)) = manager.log ?m @ es"
      "(\<forall>q. Query q \<notin> set es) \<or> (\<exists>tl. BeginTx a # es = execute_prelude a (opt_mode opts) (timeout_statement m) @ Query sql # tl
           \<and> (\<forall>q. Query q \<notin> set tl))" using f(2) [of ?m] by auto
    obtain rs where rs: "manager.log (rollback (snd (f ?m))) = manager.log (snd (f ?m)) @ rs" "\<forall>q. Query q \<notin> set rs" using rb by blast
    have "snd (runExecute d sql opts m) = rollback (snd (f ?m))"
      using None by (simp add: f(1) in_tx_def Let_def split: prod.split)
    then have log: "manager.log (snd (runExecute d sql opts m)) = manager.log m @ (BeginTx a # es) @ rs" by (simp add: rs(1) es(1))
    from es(2) show ?thesis
    proof (elim disjE exE conjE)
      assume "\<forall>q. Query q \<notin> set es"
      with rs(2) log show ?thesis by (intro exI [of _ "(BeginTx a # es) @ rs"]) auto
    next
      fix tl assume "BeginTx a # es = execute_prelude a (opt_mode opts) (timeout_statement m) @ Query sql # tl" "\<forall>q. Query q \<notin> set tl"
      with rs(2) log show ?thesis
        by (intro exI [of _ "(BeginTx a # es) @ rs"] conjI disjI2 exI [of _ "tl @ rs"]) auto
    qed
  qed
qed

lemma Execute_log:
  assumes a: "txOptionsForMode (opt_mode opts) = Inr a" and "\<not> conn m" "manager.log m = []"
    and q: "Query q \<in> set (manager.log (snd (Execute d sql opts m)))"
  shows "\<exists>tl. manager.log (snd (Execute d sql opts m)) = Connect # execute_prelude a (opt_mode opts) (timeout_statement m) @ Query sql # tl
    \<and> (\<forall>q. Query q \<notin> set tl)"
proof -
  let ?m = "(send Connect m)\<lparr>conn := True\<rparr>"
  have conn: "drv_connect d [Connect] = None"
    using q assms(2,3) by (cases "drv_connect d [Connect]") (simp_all add: Execute_def with_conn_def connect_def Let_def)
  obtain es where es: "manager.log (snd (runExecute d sql opts ?m)) = [Connect] @ es"
    "(\<forall>q. Query q \<notin> set es) \<or> (\<exists>tl. es = execute_prelude a (opt_mode opts) (timeout_statement m) @ Query sql # tl \<and> (\<forall>q. Query q \<notin> set tl))"
    using runExecute_log [OF a, of d sql ?m] assms(3) by auto
  have "snd (Execute d sql opts m) \<in> {snd (runExecute d sql opts ?m), (send CloseConn (snd (runExecute d sql opts ?m)))\<lparr>conn := False\<rparr>}"
    using conn assms(2,3) by (simp add: Execute_def with_conn_def connect_def Let_def split: prod.split sum.split)
  then obtain cs where "manager.log (snd (Execute d sql opts m)) = Connect # es @ cs" "\<forall>q. Query q \<notin> set cs" using es(1) by auto
  with es(2) q show ?thesis by auto
qed

definition execute_answer ::
    "'e cluster_env \<Rightarrow> envelope \<Rightarrow> string \<Rightarrow> int \<Rightarrow> string \<times> bool \<Rightarrow> (string + execute_result) \<times> wire list \<times> wire list
      \<Rightarrow> tool_result \<times> wire list" where
  "execute_answer ce env sql maxRows rw run =
     (case run of
        (Inl e, sent, ws) \<Rightarrow>
          (let entry = FromClusterError (ClusterApi ce sent) e (fst rw) in
           (envelopeResult (MarshalEnv ce) (env\<lparr>eerrors := eerrors env @
              [relocate sql (if snd rw then omit_position entry else entry)]\<rparr>), ws))
      | (Inr out, sent, ws) \<Rightarrow>
          (encoded_result ce (env\<lparr>econnection := ConnectionConnected\<rparr>)
             (MarshalExecute ce (if snd rw then out\<lparr>LimitInjected := Some (nat maxRows)\<rparr> else out)), ws))"

lemma ExecuteSQLHandler_eq:
  assumes "connected_params ce dflt req = Inr (sql, name, target, mo, timeout)"
    "resolveMaxRows (OverflowInt ce) req defaultExecuteMaxRows = Inr maxRows"
  shows "ExecuteSQLHandler ce pv dflt req =
    (let env = connected_start pv target sql in
     case ParseSQL ce (StripShellPrompts sql) of
       Inl perr \<Rightarrow> Ret (envelopeResult (MarshalEnv ce)
         (env\<lparr>eerrors := eerrors env @ [relocate sql (parse_error_of (Tools ce) perr (StripShellPrompts sql))]\<rparr>), [])
     | Inr stmts \<Rightarrow> obind (Inspect stmts target None) (\<lambda>warns.
         let env = env\<lparr>eerrors := eerrors env @ warns\<rparr> in
         case CheckParsed mo OpExecute stmts of
            Some v \<Rightarrow> Ret (envelopeResult (MarshalEnv ce) (env\<lparr>eerrors := eerrors env @ [Safety.Envelope v]\<rparr>), [])
          | None \<Rightarrow>
              (case mergeDSNWithTLS (MarshalEnv ce) (Url ce) req env name of
                 Inl r \<Rightarrow> Ret (r, [])
               | Inr merged \<Rightarrow>
                   (let rw = rewrite_sql ce mo maxRows stmts (StripShellPrompts sql) in
                    Ret (execute_answer ce env sql maxRows rw
                      (on_manager ce merged timeout (Execute (Driver ce) (fst rw) \<lparr>opt_mode = mo, MaxRows = maxRows\<rparr>)))))))"
proof (cases "ParseSQL ce (StripShellPrompts sql)")
  case (Inl perr)
  then show ?thesis
    unfolding ExecuteSQLHandler_def assms preprocess_connected
    by (simp add: assms preprocess_connected parse_failure_eq no_contact_def Let_def StripShellPrompts_def [symmetric])
next
  case (Inr stmts)
  obtain warns where ws: "Inspect stmts target None = Ret warns" using Inspect_returns by blast
  obtain rewritten injected where rw: "rewrite_sql ce mo maxRows stmts (StripShellPrompts sql) = (rewritten, injected)" by fastforce
  show ?thesis
    unfolding ExecuteSQLHandler_def assms preprocess_connected
    by (simp add: assms preprocess_connected Inr ws rw no_contact_def reject_eq cluster_failure_eq
        execute_answer_def Let_def StripShellPrompts_def [symmetric] split: sum.split option.split prod.split)
qed

section \<open>Properties\<close>

lemma fresh_manager: "\<not> conn (NewManager n [WithStatementTimeout t])" "manager.log (NewManager n [WithStatementTimeout t]) = []"
  by (simp_all add: NewManager_def WithStatementTimeout_def)

lemma rewrite_sql_cases:
  "fst (rewrite_sql ce mo n stmts sql) = sql \<or> mo = ModeReadOnly \<and> n > 0
     \<and> (\<exists>s'. MaybeInjectLimitParsed (PrintStatement ce) stmts n = Some (fst (rewrite_sql ce mo n stmts sql), s'))"
  by (auto simp: rewrite_sql_def split: option.split)

lemma admitted_mode: "CheckParsed mo op stmts = None \<Longrightarrow> \<exists>a. txOptionsForMode mo = Inr a"
  by (cases mo; cases stmts) (auto simp: CheckParsed_def txOptionsForMode_def)

text \<open>C4: Whatever \<open>execute_sql\<close> sends as a query, the safety mode of the request admitted: it is the request's SQL
  without its prompts, or, in mode \<open>read_only\<close> only, its one \<open>SELECT\<close> with the automatic limit. It is the only
  query of the call and runs right after the transaction was begun, with the access of the mode, the
  request's timeout and, in \<open>safe_write\<close>, \<open>sql_safe_updates\<close>.\<close>

theorem execute_sql_sends:
  assumes "ExecuteSQLHandler ce pv dflt req = Ret (r, ws)" "Query q \<in> set ws"
  shows "\<exists>sql name target mo timeout maxRows stmts a m tl.
    connected_params ce dflt req = Inr (sql, name, target, mo, timeout)
    \<and> resolveMaxRows (OverflowInt ce) req defaultExecuteMaxRows = Inr maxRows
    \<and> ParseSQL ce (StripShellPrompts sql) = Inr stmts \<and> CheckParsed mo OpExecute stmts = None
    \<and> (q = StripShellPrompts sql
       \<or> mo = ModeReadOnly \<and> maxRows > 0 \<and> (\<exists>s'. MaybeInjectLimitParsed (PrintStatement ce) stmts maxRows = Some (q, s')))
    \<and> txOptionsForMode mo = Inr a
    \<and> ws = [Connect, BeginTx a, Exec (timeout_statement (NewManager m [WithStatementTimeout timeout]))]
        @ (if mo = ModeSafeWrite then [Exec safe_updates_statement] else []) @ Query q # tl
    \<and> (\<forall>p. Query p \<notin> set tl)"
proof -
  obtain sql name target mo timeout where p: "connected_params ce dflt req = Inr (sql, name, target, mo, timeout)"
    using assms by (cases "connected_params ce dflt req") (auto simp: ExecuteSQLHandler_def no_contact_def)
  obtain maxRows where mr: "resolveMaxRows (OverflowInt ce) req defaultExecuteMaxRows = Inr maxRows"
    using assms by (cases "resolveMaxRows (OverflowInt ce) req defaultExecuteMaxRows") (auto simp: ExecuteSQLHandler_def p no_contact_def)
  note eq = ExecuteSQLHandler_eq [OF p mr, of pv]
  obtain stmts where s: "ParseSQL ce (StripShellPrompts sql) = Inr stmts"
    using assms by (cases "ParseSQL ce (StripShellPrompts sql)") (auto simp: eq Let_def)
  obtain warns where w: "Inspect stmts target None = Ret warns" using Inspect_returns by blast
  have c: "CheckParsed mo OpExecute stmts = None" using assms by (auto simp: eq s w Let_def split: option.splits)
  let ?rw = "rewrite_sql ce mo maxRows stmts (StripShellPrompts sql)"
  let ?f = "Execute (Driver ce) (fst ?rw) \<lparr>opt_mode = mo, MaxRows = maxRows\<rparr>"
  obtain env merged where m: "Ret (execute_answer ce env sql maxRows ?rw (on_manager ce merged timeout ?f)) = Ret (r, ws)"
    using assms by (auto simp: eq s w c Let_def split: sum.splits)
  let ?m = "NewManager merged [WithStatementTimeout timeout]"
  have ws: "ws = manager.log (snd (Close (Driver ce) (snd (?f ?m))))"
    using m by (auto simp: execute_answer_def on_manager_def Let_def split: sum.splits prod.splits)
  obtain cs where cs: "ws = manager.log (snd (?f ?m)) @ cs" "set cs \<subseteq> {CloseConn}" using Close_sends ws by metis
  obtain a where a: "txOptionsForMode mo = Inr a" using admitted_mode [OF c] by blast
  have q: "Query q \<in> set (manager.log (snd (?f ?m)))" using assms(2) cs by auto
  have "txOptionsForMode (opt_mode \<lparr>opt_mode = mo, MaxRows = maxRows\<rparr>) = Inr a" using a by simp
  from Execute_log [OF this fresh_manager q] obtain tl where tl: "manager.log (snd (?f ?m)) = Connect # execute_prelude a mo (timeout_statement ?m) @ Query (fst ?rw) # tl"
    "\<forall>q. Query q \<notin> set tl" by auto
  have qrw: "q = fst ?rw" using assms(2) cs tl by (auto simp: execute_prelude_def split: if_splits)
  have "ws = [Connect, BeginTx a, Exec (timeout_statement ?m)]
        @ (if mo = ModeSafeWrite then [Exec safe_updates_statement] else []) @ Query q # (tl @ cs)"
    using cs(1) tl(1) qrw by (simp add: execute_prelude_def)
  moreover have "\<forall>p. Query p \<notin> set (tl @ cs)" using tl(2) cs(2) by auto
  moreover have "q = StripShellPrompts sql \<or> mo = ModeReadOnly \<and> maxRows > 0 \<and> (\<exists>s'. MaybeInjectLimitParsed (PrintStatement ce) stmts maxRows = Some (q, s'))"
    using rewrite_sql_cases [of ce mo maxRows stmts "StripShellPrompts sql"] unfolding qrw .
  ultimately show ?thesis
    by (intro exI [of _ sql] exI [of _ name] exI [of _ target] exI [of _ mo] exI [of _ timeout] exI [of _ maxRows] exI [of _ stmts]
        exI [of _ a] exI [of _ merged] exI [of _ "tl @ cs"] conjI p mr s c a)
qed


lemma planning_tool_rejects:
  assumes "connected_params ce dflt req = Inr (sql, name, target, mo, timeout)" "ParseSQL ce (StripShellPrompts sql) = Inr stmts"
    "CheckParsed mo op stmts = Some v"
  shows "planning_tool ce pv dflt req op run finish = Ret (envelopeResult (MarshalEnv ce)
    ((connected_start pv target sql)\<lparr>eerrors := eerrors (connected_start pv target sql) @ [Safety.Envelope v]\<rparr>), [])"
  by (simp add: planning_tool_eq [OF assms(1)] assms(2,3) Let_def)

text \<open>C6: A batch the safety mode does not admit ends the call before anything is sent: the envelope is disconnected,
  has no data, and its last error is the violation, behind the warnings gathered so far.\<close>

theorem rejected_before_contact:
  assumes p: "connected_params ce dflt req = Inr (sql, name, target, mo, timeout)" and s: "ParseSQL ce (StripShellPrompts sql) = Inr stmts"
    and v: "CheckParsed mo op stmts = Some v"
    and h: "(op, h) \<in> {(OpExplain, ExplainSQLHandler), (OpSimulate, SimulateSQLHandler), (OpExecute, ExecuteSQLHandler)}"
    and m: "op = OpExecute \<Longrightarrow> resolveMaxRows (OverflowInt ce) req defaultExecuteMaxRows = Inr maxRows"
  shows "\<exists>env warns. h ce pv dflt req = Ret (envelopeResult (MarshalEnv ce) env, [])
    \<and> econnection env = ConnectionDisconnected \<and> edata env = None
    \<and> eerrors env = eerrors (connected_start pv target sql) @ warns @ [Safety.Envelope v]
    \<and> (if op = OpExecute then Inspect stmts target None = Ret warns else warns = [])"
proof -
  let ?start = "connected_start pv target sql"
  obtain warns where w: "Inspect stmts target None = Ret warns" using Inspect_returns by blast
  show ?thesis
  proof (cases "op = OpExecute")
    case True
    then have "h ce pv dflt req = Ret (envelopeResult (MarshalEnv ce) (?start\<lparr>eerrors := eerrors ?start @ warns @ [Safety.Envelope v]\<rparr>), [])"
      using h v by (auto simp: ExecuteSQLHandler_eq [OF p m [OF True]] s w Let_def)
    with True w show ?thesis by (intro exI [of _ "?start\<lparr>eerrors := eerrors ?start @ warns @ [Safety.Envelope v]\<rparr>"] exI [of _ warns]) simp
  next
    case False
    then have "h ce pv dflt req = Ret (envelopeResult (MarshalEnv ce) (?start\<lparr>eerrors := eerrors ?start @ [Safety.Envelope v]\<rparr>), [])"
      using h v by (auto simp: ExplainSQLHandler_def SimulateSQLHandler_def planning_tool_rejects [OF p s])
    with False show ?thesis by (intro exI [of _ "?start\<lparr>eerrors := eerrors ?start @ [Safety.Envelope v]\<rparr>"] exI [of _ "[]"]) simp
  qed
qed

section \<open>A sample cluster\<close>

definition sample_cluster :: "parsed list \<Rightarrow> unit cluster_env" where
  "sample_cluster stmts = \<lparr>Tools = sample_tools\<lparr>Front := sample_front\<lparr>Parse := \<lambda>_. Inr stmts\<rparr>\<rparr>, Url = sample_url,
     Driver = three_rows, Sanitize = concat, OverflowInt = \<lambda>_. 0,
     ClusterApi = \<lambda>_. \<lparr>GetPGCode = \<lambda>_. [], GetSeverity = \<lambda>_. [], FlattenDetail = \<lambda>_. [], error_string = id, as_pg_error = \<lambda>_. None\<rparr>,
     PrintStatement = \<lambda>_. [], MarshalExplain = \<lambda>_. Inr [], MarshalSimulate = \<lambda>_. Inr [], MarshalExecute = \<lambda>_. Inr []\<rparr>"

abbreviation sample_call :: request where
  "sample_call \<equiv> [''sql'' \<mapsto> JStr ''SHOW TABLES'', ''dsn'' \<mapsto> JStr ''d'']"

lemma sample_call_params:
  "connected_params (sample_cluster stmts) [] sample_call = Inr (''SHOW TABLES'', ''d'', [], ModeReadOnly, DefaultStatementTimeout)"
  "resolveMaxRows (OverflowInt (sample_cluster stmts)) sample_call defaultExecuteMaxRows = Inr 1000"
proof -
  have trim: "trim_space ''SHOW TABLES'' = ''SHOW TABLES''" "trim_space ''d'' = ''d''" by code_simp+
  show "connected_params (sample_cluster stmts) [] sample_call = Inr (''SHOW TABLES'', ''d'', [], ModeReadOnly, DefaultStatementTimeout)"
    by (simp add: connected_params_def extractRequiredString_def trim resolveTargetVersion_def resolveSafetyMode_def
        resolveStatementTimeout_def DefaultMode_def)
  show "resolveMaxRows (OverflowInt (sample_cluster stmts)) sample_call defaultExecuteMaxRows = Inr 1000"
    by (simp add: resolveMaxRows_def defaultExecuteMaxRows_def)
qed

lemma sample_call_parse: "ParseSQL (sample_cluster stmts) s = Inr stmts"
  by (simp add: sample_cluster_def sample_front_def)

theorem rejected_before_contact_witness:
  "\<exists>env v. ExecuteSQLHandler (sample_cluster [sample_drop]) ''v'' [] sample_call = Ret (envelopeResult (MarshalEnv (sample_cluster [sample_drop])) env, [])
    \<and> last (eerrors env) = Safety.Envelope v"
proof -
  have "CheckParsed ModeReadOnly OpExecute [sample_drop] \<noteq> None" by code_simp
  then obtain v where v: "CheckParsed ModeReadOnly OpExecute [sample_drop] = Some v" by auto
  have "\<exists>env warns. ExecuteSQLHandler (sample_cluster [sample_drop]) ''v'' [] sample_call = Ret (envelopeResult (MarshalEnv (sample_cluster [sample_drop])) env, [])
    \<and> econnection env = ConnectionDisconnected \<and> edata env = None
    \<and> eerrors env = eerrors (connected_start ''v'' [] ''SHOW TABLES'') @ warns @ [Safety.Envelope v]
    \<and> (if OpExecute = OpExecute then Inspect [sample_drop] [] None = Ret warns else warns = [])"
    by (rule rejected_before_contact [OF sample_call_params(1) sample_call_parse v _ sample_call_params(2)]) simp
  then show ?thesis by (elim exE conjE) (rule exI, rule exI, rule conjI, assumption, simp)
qed


lemma sample_strip_show: "StripShellPrompts ''SHOW TABLES'' = ''SHOW TABLES''"
  by code_simp

lemma sample_dsn: "mergeDSNWithTLS marshal url sample_call env ''d'' = Inr ''d''"
  by (simp add: mergeDSNWithTLS_def resolveTLSParams_def extractOptionalString_def MergeTLSParams_def IsZero_def)

lemma sample_admitted: "CheckParsed ModeReadOnly OpExecute [sample_show] = None" "CheckParsed ModeReadOnly OpExplain [sample_show] = None"
  by code_simp+

theorem execute_sql_sends_witness:
  "\<exists>r ws. ExecuteSQLHandler (sample_cluster [sample_show]) ''v'' [] sample_call = Ret (r, ws)
    \<and> (\<exists>m tl. ws = [Connect, BeginTx ReadOnly, Exec (timeout_statement (NewManager m [WithStatementTimeout DefaultStatementTimeout])),
         Query ''SHOW TABLES''] @ tl)"
proof -
  let ?ce = "sample_cluster [sample_show]"
  let ?run = "on_manager ?ce ''d'' DefaultStatementTimeout (Execute (Driver ?ce) ''SHOW TABLES'' \<lparr>opt_mode = ModeReadOnly, MaxRows = 1000\<rparr>)"
  obtain warns where w: "Inspect [sample_show] [] None = Ret warns" using Inspect_returns by blast
  have rw: "rewrite_sql ?ce ModeReadOnly 1000 [sample_show] ''SHOW TABLES'' = (''SHOW TABLES'', False)"
    by (simp add: rewrite_sql_def MaybeInjectLimitParsed_def sample_show_def)
  have "\<exists>env. ExecuteSQLHandler ?ce ''v'' [] sample_call = Ret (execute_answer ?ce env ''SHOW TABLES'' 1000 (''SHOW TABLES'', False) ?run)"
    unfolding ExecuteSQLHandler_eq [OF sample_call_params] sample_call_parse
    by (simp add: Let_def w sample_admitted sample_dsn sample_strip_show rw) (rule exI, rule refl)
  then obtain env where h: "ExecuteSQLHandler ?ce ''v'' [] sample_call
    = Ret (execute_answer ?ce env ''SHOW TABLES'' 1000 (''SHOW TABLES'', False) ?run)" by blast
  obtain r ws where rws: "execute_answer ?ce env ''SHOW TABLES'' 1000 (''SHOW TABLES'', False) ?run = (r, ws)" by fastforce
  have "Query ''SHOW TABLES'' \<in> set (snd (snd ?run))"
    by (simp add: on_manager_def sample_cluster_def run_defs WithStatementTimeout_def Close_def Let_def buildColumnMeta_def split: prod.split)
  then have q: "Query ''SHOW TABLES'' \<in> set ws"
    using rws by (auto simp: execute_answer_def Let_def split: prod.splits sum.splits)
  from execute_sql_sends [OF h [unfolded rws] q] h rws show ?thesis
    unfolding sample_call_params by (auto simp: txOptionsForMode_def)
qed


end
