(* ===== verification/Introspect.thy ===== *)
theory Introspect
  imports Conn Catalog
begin

text \<open>
  \<open>internal/conn/introspect.go\<close>: listing the tables of the connected database and describing one of them. The
  two catalog queries take arguments, which the driver gets beside the text; a lookup fails in one of
  three ways that the callers tell apart, \<open>ErrTableNotFound\<close>, \<open>*AmbiguousTableError\<close> and anything else.
\<close>

section \<open>The wire\<close>

datatype query_arg = ArgText string | ArgList "string list"

text \<open>A query of two text columns answers with rows that scan or fail and the error that ended them, if any;
  \<open>QueryRow\<close> on \<open>SHOW CREATE TABLE\<close> with the statement, or an error, marked when its code is 42P01.\<close>

record introspect_driver =
  base :: driver
  int_query :: "wire list \<Rightarrow> query_arg list \<Rightarrow> string + (string + string \<times> string) list \<times> string option"
  int_row :: "wire list \<Rightarrow> (bool \<times> string) + string"

definition systemSchemas :: "string list" where
  "systemSchemas = [''pg_catalog'', ''crdb_internal'', ''information_schema'', ''system'']"

definition raw_lines :: "string list \<Rightarrow> string" where
  "raw_lines ls = concat (map (\<lambda>l. newline # l) ls)"

definition base_table :: string where
  "base_table = [CHR 0x27] @ ''BASE TABLE'' @ [CHR 0x27]"

fun scan_pairs :: "string \<Rightarrow> (string + string \<times> string) list \<Rightarrow> string + (string \<times> string) list" where
  "scan_pairs what [] = Inr []"
| "scan_pairs what (Inl e # rs) = Inl (what @ e)"
| "scan_pairs what (Inr p # rs) = (case scan_pairs what rs of Inl e \<Rightarrow> Inl e | Inr ps \<Rightarrow> Inr (p # ps))"

text \<open>\<open>Query\<close>, the scan loop and \<open>rows.Err\<close>; \<open>what\<close>, \<open>scan\<close> and \<open>read\<close> are the prefixes of their errors.\<close>

definition pair_query ::
    "introspect_driver \<Rightarrow> string \<Rightarrow> string \<Rightarrow> string \<Rightarrow> string \<Rightarrow> query_arg list \<Rightarrow> (string \<times> string) list io" where
  "pair_query d what scan read q args m =
     (let m' = send (Query q) m in
      case int_query d (log m') args of
        Inl e \<Rightarrow> (Inl (what @ e), m')
      | Inr (rows, tail_err) \<Rightarrow>
          (case scan_pairs scan rows of
             Inl e \<Rightarrow> (Inl e, m')
           | Inr ps \<Rightarrow> (case tail_err of Some e \<Rightarrow> (Inl (read @ e), m') | None \<Rightarrow> (Inr ps, m'))))"

section \<open>Listing\<close>

definition list_select :: string where
  "list_select = raw_lines [''SELECT table_schema, table_name'', ''FROM   information_schema.tables'',
     ''WHERE  table_catalog = current_database()'']"

definition list_query :: "bool \<Rightarrow> string \<times> query_arg list" where
  "list_query includeSystem =
     (if includeSystem then (list_select @ '' ORDER BY table_schema, table_name'', [])
      else (list_select @ '' AND table_type = '' @ base_table @ '' AND table_schema <> ALL($1)''
              @ '' ORDER BY table_schema, table_name'', [ArgList systemSchemas]))"

definition runListTables :: "introspect_driver \<Rightarrow> bool \<Rightarrow> (string \<times> string) list io" where
  "runListTables d includeSystem =
     pair_query d ''list tables: '' ''scan list-tables row: '' ''read list-tables rows: ''
       (fst (list_query includeSystem)) (snd (list_query includeSystem))"

definition ListTablesFromCluster :: "introspect_driver \<Rightarrow> bool \<Rightarrow> (string \<times> string) list io" where
  "ListTablesFromCluster d includeSystem = with_conn (base d) (runListTables d includeSystem)"

section \<open>Describing\<close>

datatype lookup_error = TableNotFound string | AmbiguousTable string "string list" | LookupFailed string

fun lookup_message :: "lookup_error \<Rightarrow> string" where
  "lookup_message (TableNotFound what) = ''table not found: '' @ what"
| "lookup_message (AmbiguousTable name schemas) =
     ''table '' @ quote name @ '' exists in multiple schemas: '' @ join_with '', '' schemas"
| "lookup_message (LookupFailed e) = e"

type_synonym 'a lookup_io = "manager \<Rightarrow> (lookup_error + 'a) \<times> manager"

definition failing :: "'a io \<Rightarrow> 'a lookup_io" where
  "failing f m = (case f m of (Inl e, m') \<Rightarrow> (Inl (LookupFailed e), m') | (Inr x, m') \<Rightarrow> (Inr x, m'))"

definition look_then :: "'a lookup_io \<Rightarrow> ('a \<Rightarrow> 'b lookup_io) \<Rightarrow> 'b lookup_io" where
  "look_then f g m = (case f m of (Inl e, m') \<Rightarrow> (Inl e, m') | (Inr x, m') \<Rightarrow> g x m')"

definition splitTableName :: "string \<Rightarrow> string + string \<times> string" where
  "splitTableName arg =
     (let name = trim_space arg in
      if name = [] then Inl ''table name must not be empty''
      else
        (case split_on CHR ''.'' name of
           [t] \<Rightarrow> Inr ([], t)
         | [s, t] \<Rightarrow>
             if s = [] \<or> t = []
             then Inl (''invalid qualified table name '' @ quote name @ '': schema and table must both be non-empty'')
             else Inr (s, t)
         | _ \<Rightarrow> Inl (''invalid table name '' @ quote name @ '': only '' @ quote ''table'' @ '' or '' @ quote ''schema.table''
                  @ '' are accepted (database is fixed by the DSN)'')))"

definition resolve_select :: string where
  "resolve_select = raw_lines [''SELECT table_schema, table_name'', ''FROM   information_schema.tables'',
     ''WHERE  table_catalog       = current_database()'', ''  AND  table_type          = '' @ base_table,
     ''  AND  lower(table_name)   = lower($1)'']"

definition resolve_query :: "string \<Rightarrow> string \<Rightarrow> string \<times> query_arg list" where
  "resolve_query schemaIn tableIn =
     (if schemaIn = []
      then (resolve_select @ '' AND table_schema <> ALL($2) ORDER BY table_schema'', [ArgText tableIn, ArgList systemSchemas])
      else (resolve_select @ '' AND lower(table_schema) = lower($2)'', [ArgText tableIn, ArgText schemaIn]))"

definition pick_match :: "string \<Rightarrow> string \<Rightarrow> (string \<times> string) list \<Rightarrow> lookup_error + string \<times> string" where
  "pick_match schemaIn tableIn matches =
     (case matches of
        [] \<Rightarrow> Inl (TableNotFound (if schemaIn \<noteq> [] then schemaIn @ ''.'' @ tableIn else quote tableIn))
      | [p] \<Rightarrow> Inr p
      | _ \<Rightarrow> Inl (AmbiguousTable tableIn (map fst matches)))"

definition resolveTable :: "introspect_driver \<Rightarrow> string \<Rightarrow> string \<Rightarrow> (string \<times> string) lookup_io" where
  "resolveTable d schemaIn tableIn =
     look_then (failing (pair_query d ''resolve table: '' ''scan table-resolution row: '' ''read table-resolution rows: ''
         (fst (resolve_query schemaIn tableIn)) (snd (resolve_query schemaIn tableIn))))
       (\<lambda>matches m. (pick_match schemaIn tableIn matches, m))"

definition fetchCreateStatement ::
    "introspect_driver \<Rightarrow> (string list \<Rightarrow> string) \<Rightarrow> string \<Rightarrow> string \<Rightarrow> string lookup_io" where
  "fetchCreateStatement d sanitize schema table m =
     (let qualified = sanitize [schema, table]; m' = send (QueryRow (''SHOW CREATE TABLE '' @ qualified)) m in
      case int_row d (log m') of
        Inl (undefined_table, e) \<Rightarrow>
          (Inl (if undefined_table then TableNotFound (schema @ ''.'' @ table)
                else LookupFailed (''SHOW CREATE TABLE '' @ qualified @ '': '' @ e)), m')
      | Inr stmt \<Rightarrow> (Inr stmt, m'))"

definition table_of_statement ::
    "(string \<Rightarrow> string + parsed list) \<Rightarrow> file_system \<Rightarrow> string \<Rightarrow> string \<Rightarrow> string \<Rightarrow> lookup_error + ctable" where
  "table_of_statement parse fs schema table createStmt =
     (case Load parse fs [\<lparr>src_path = [], src_sql = createStmt, src_label = schema @ ''.'' @ table\<rparr>] of
        Inl e \<Rightarrow> Inl (LookupFailed (''parse SHOW CREATE output: '' @ e))
      | Inr cat \<Rightarrow>
          (case Table cat table of
             Some tbl \<Rightarrow> Inr tbl
           | None \<Rightarrow> Inl (LookupFailed (''SHOW CREATE TABLE '' @ quote schema @ ''.'' @ quote table
                       @ '' produced no recognized table definition''))))"

definition runDescribeTable ::
    "introspect_driver \<Rightarrow> (string list \<Rightarrow> string) \<Rightarrow> (string \<Rightarrow> string + parsed list) \<Rightarrow> file_system \<Rightarrow> string \<Rightarrow> ctable lookup_io" where
  "runDescribeTable d sanitize parse fs tableName =
     (case splitTableName tableName of
        Inl e \<Rightarrow> (\<lambda>m. (Inl (LookupFailed e), m))
      | Inr (schemaIn, tableIn) \<Rightarrow>
          look_then (resolveTable d schemaIn tableIn) (\<lambda>(schema, table).
          look_then (fetchCreateStatement d sanitize schema table) (\<lambda>createStmt m.
            (table_of_statement parse fs schema table createStmt, m))))"

definition DescribeTableFromCluster ::
    "introspect_driver \<Rightarrow> (string list \<Rightarrow> string) \<Rightarrow> (string \<Rightarrow> string + parsed list) \<Rightarrow> file_system \<Rightarrow> string \<Rightarrow> ctable lookup_io" where
  "DescribeTableFromCluster d sanitize parse fs tableName m =
     (case connect (base d) m of
        (Inl e, m1) \<Rightarrow> (Inl (LookupFailed e), m1)
      | (Inr _, m1) \<Rightarrow>
          (case runDescribeTable d sanitize parse fs tableName m1 of
             (Inl (LookupFailed e), m2) \<Rightarrow> (Inl (LookupFailed e), (send CloseConn m2)\<lparr>conn := False\<rparr>)
           | (r, m2) \<Rightarrow> (r, m2)))"

section \<open>What is sent\<close>

text \<open>A row of a table resolution, as some reply of the cluster gave it, alone.\<close>

definition resolved :: "introspect_driver \<Rightarrow> string \<times> string \<Rightarrow> bool" where
  "resolved d p \<longleftrightarrow> (\<exists>l args. int_query d l args = Inr ([Inr p], None))"

lemma scan_pairs_map [simp]: "scan_pairs what (map Inr ps) = Inr ps"
  by (induction ps) simp_all

lemma scan_pairs_Inr: "scan_pairs what rows = Inr ps \<longleftrightarrow> rows = map Inr ps"
proof
  show "scan_pairs what rows = Inr ps \<Longrightarrow> rows = map Inr ps"
    by (induction what rows arbitrary: ps rule: scan_pairs.induct) (auto split: sum.splits)
qed simp

lemma pair_query_log: "log (snd (pair_query d a b c q args m)) = log m @ [Query q]" "conn (snd (pair_query d a b c q args m)) = conn m"
  by (auto simp: pair_query_def Let_def send_def split: sum.split prod.split option.split)

lemma pair_query_Inr:
  "fst (pair_query d a b c q args m) = Inr ps \<longleftrightarrow> int_query d (log m @ [Query q]) args = Inr (map Inr ps, None)"
  by (auto simp: pair_query_def Let_def send_def scan_pairs_Inr split: sum.split prod.split option.split)

lemma resolveTable_log:
  "log (snd (resolveTable d s t m)) = log m @ [Query (fst (resolve_query s t))]" "conn (snd (resolveTable d s t m)) = conn m"
  using pair_query_log [of d "''resolve table: ''" "''scan table-resolution row: ''" "''read table-resolution rows: ''"]
  by (auto simp: resolveTable_def look_then_def failing_def split: prod.split sum.split) (metis snd_conv)+

lemma resolveTable_Inr: "fst (resolveTable d s t m) = Inr p \<Longrightarrow> resolved d p"
proof -
  assume r: "fst (resolveTable d s t m) = Inr p"
  let ?q = "pair_query d ''resolve table: '' ''scan table-resolution row: '' ''read table-resolution rows: ''
    (fst (resolve_query s t)) (snd (resolve_query s t)) m"
  obtain ps where ps: "fst ?q = Inr ps" "pick_match s t ps = Inr p"
    using r by (auto simp: resolveTable_def look_then_def failing_def split: prod.splits sum.splits)
  then have "ps = [p]" by (auto simp: pick_match_def split: list.splits)
  with ps(1) show "resolved d p" unfolding pair_query_Inr resolved_def by auto
qed


definition lookup_wire :: "introspect_driver \<Rightarrow> (string list \<Rightarrow> string) \<Rightarrow> wire \<Rightarrow> bool" where
  "lookup_wire d sanitize w \<longleftrightarrow> w = Connect \<or> w = CloseConn
     \<or> w = Query (fst (resolve_query [] [])) \<or> w = Query (fst (resolve_query ''s'' []))
     \<or> (\<exists>schema table. resolved d (schema, table) \<and> w = QueryRow (''SHOW CREATE TABLE '' @ sanitize [schema, table]))"

lemma resolve_query_wire: "lookup_wire d sanitize (Query (fst (resolve_query s t)))"
  by (auto simp: lookup_wire_def resolve_query_def)

lemma runDescribeTable_log:
  "\<exists>es. log (snd (runDescribeTable d sanitize parse fs name m)) = log m @ es \<and> (\<forall>w \<in> set es. lookup_wire d sanitize w)
    \<and> conn (snd (runDescribeTable d sanitize parse fs name m)) = conn m"
proof (cases "splitTableName name")
  case (Inr st)
  obtain s t where st: "st = (s, t)" by fastforce
  obtain r m1 where res: "resolveTable d s t m = (r, m1)" by fastforce
  note m1 = resolveTable_log [of d s t m, unfolded res snd_conv]
  show ?thesis
  proof (cases r)
    case (Inl e)
    with m1 st Inr res resolve_query_wire show ?thesis
      by (intro exI [of _ "[Query (fst (resolve_query s t))]"]) (simp add: runDescribeTable_def look_then_def)
  next
    case r: (Inr p)
    obtain schema table where p: "p = (schema, table)" by fastforce
    have res': "resolved d (schema, table)" using resolveTable_Inr [of d s t m] res r p by simp
    let ?show = "QueryRow (''SHOW CREATE TABLE '' @ sanitize [schema, table])"
    have "snd (runDescribeTable d sanitize parse fs name m) = send ?show m1"
      using st Inr res r p
      by (simp add: runDescribeTable_def look_then_def fetchCreateStatement_def Let_def split: sum.split prod.split)
    moreover have "lookup_wire d sanitize ?show" using res' by (auto simp: lookup_wire_def)
    ultimately show ?thesis using m1 resolve_query_wire
      by (intro exI [of _ "[Query (fst (resolve_query s t)), ?show]"]) (simp add: send_def)
  qed
qed (simp add: runDescribeTable_def)

lemma DescribeTable_run:
  "\<exists>es. log (snd (DescribeTableFromCluster d sanitize parse fs name m)) = log m @ es \<and> (\<forall>w \<in> set es. lookup_wire d sanitize w)
    \<and> (conn (snd (DescribeTableFromCluster d sanitize parse fs name m))
        \<longleftrightarrow> (case fst (DescribeTableFromCluster d sanitize parse fs name m) of Inl (LookupFailed _) \<Rightarrow> False | _ \<Rightarrow> True))"
proof -
  obtain c m1 where c: "connect (base d) m = (c, m1)" by fastforce
  have m1: "\<exists>es. log m1 = log m @ es \<and> (\<forall>w \<in> set es. lookup_wire d sanitize w)" "conn m1 \<longleftrightarrow> (\<exists>u. c = Inr u)"
    using c by (auto simp: connect_def Let_def send_def lookup_wire_def split: if_splits option.splits)
  then obtain es1 where es1: "log m1 = log m @ es1" "\<forall>w \<in> set es1. lookup_wire d sanitize w" by blast
  show ?thesis
  proof (cases c)
    case (Inl e)
    with es1 m1(2) c show ?thesis by (intro exI [of _ es1]) (simp add: DescribeTableFromCluster_def)
  next
    case (Inr u)
    obtain r m2 where run: "runDescribeTable d sanitize parse fs name m1 = (r, m2)" by fastforce
    from runDescribeTable_log [of d sanitize parse fs name m1, unfolded run snd_conv]
    obtain es2 where es2: "log m2 = log m1 @ es2" "\<forall>w \<in> set es2. lookup_wire d sanitize w" "conn m2 = conn m1" by blast
    consider e where "r = Inl (LookupFailed e)" | "\<forall>e. r \<noteq> Inl (LookupFailed e)" by blast
    then show ?thesis
    proof cases
      case 1
      have "lookup_wire d sanitize CloseConn" by (simp add: lookup_wire_def)
      with 1 Inr c run es1 es2 show ?thesis
        by (intro exI [of _ "es1 @ es2 @ [CloseConn]"]) (auto simp: DescribeTableFromCluster_def send_def)
    next
      case 2
      then have "DescribeTableFromCluster d sanitize parse fs name m = (r, m2)"
        using Inr c run by (auto simp: DescribeTableFromCluster_def split: sum.split lookup_error.split)
      with 2 Inr es1 es2 m1(2) show ?thesis
        by (intro exI [of _ "es1 @ es2"]) (auto split: sum.split lookup_error.split)
    qed
  qed
qed

lemma DescribeTable_log:
  "\<exists>es. log (snd (DescribeTableFromCluster d sanitize parse fs name m)) = log m @ es \<and> (\<forall>w \<in> set es. lookup_wire d sanitize w)"
  using DescribeTable_run [of d sanitize parse fs name m] by blast

text \<open>A description sends nothing of what the user typed: its catalog queries are one of two fixed texts, and the
  only names put into \<open>SHOW CREATE TABLE\<close>, quoted, are a schema and a table that the cluster returned. It
  leaves the connection closed exactly when it fails in another way than not finding the table or finding
  more than one.\<close>

theorem DescribeTable_sends:
  "\<exists>es. log (snd (DescribeTableFromCluster d sanitize parse fs name m)) = log m @ es \<and> (\<forall>w \<in> set es. lookup_wire d sanitize w)
    \<and> (conn (snd (DescribeTableFromCluster d sanitize parse fs name m))
        \<longleftrightarrow> (case fst (DescribeTableFromCluster d sanitize parse fs name m) of Inl (LookupFailed _) \<Rightarrow> False | _ \<Rightarrow> True))"
  using DescribeTable_run [of d sanitize parse fs name m] by blast

section \<open>What is found\<close>

text \<open>
  What the two queries ask of \<open>information_schema.tables\<close>: \<open>ts\<close> are the schema and name of every base table
  of the database, by schema; SQL's \<open>lower\<close> is that of the ASCII names.
\<close>

definition named_table :: "string \<Rightarrow> string \<Rightarrow> (string \<times> string) list \<Rightarrow> (string \<times> string) list" where
  "named_table s t ts = filter (\<lambda>(schema, name). equal_fold name t
     \<and> (if s = [] then schema \<notin> set systemSchemas else equal_fold schema s)) ts"

definition answers :: "introspect_driver \<Rightarrow> (string \<times> string) list \<Rightarrow> bool" where
  "answers d ts \<longleftrightarrow> (\<forall>l s t. int_query d (l @ [Query (fst (resolve_query s t))]) (snd (resolve_query s t))
     = Inr (map Inr (named_table s t ts), None))"

lemma resolveTable_answers:
  "answers d ts \<Longrightarrow> fst (resolveTable d s t m) = pick_match s t (named_table s t ts)"
proof -
  assume a: "answers d ts"
  let ?q = "pair_query d ''resolve table: '' ''scan table-resolution row: '' ''read table-resolution rows: ''
    (fst (resolve_query s t)) (snd (resolve_query s t)) m"
  have "fst ?q = Inr (named_table s t ts)" unfolding pair_query_Inr using a by (simp add: answers_def)
  then obtain m' where "?q = (Inr (named_table s t ts), m')" by (metis prod.collapse)
  then show "fst (resolveTable d s t m) = pick_match s t (named_table s t ts)"
    by (simp add: resolveTable_def look_then_def failing_def)
qed

text \<open>A name of one or two non-empty parts without blanks around it.\<close>

lemma split_plain:
  assumes "trim_space t = t" "t \<noteq> []" "CHR ''.'' \<notin> set t"
  shows "splitTableName t = Inr ([], t)"
  using assms by (simp add: splitTableName_def split_on_no_sep)

lemma split_qualified:
  assumes "trim_space (s @ ''.'' @ t) = s @ ''.'' @ t" "s \<noteq> []" "t \<noteq> []" "CHR ''.'' \<notin> set s" "CHR ''.'' \<notin> set t"
  shows "splitTableName (s @ ''.'' @ t) = Inr (s, t)"
  using assms by (simp add: splitTableName_def split_on_no_sep split_on_append)

text \<open>A database may hold two tables whose names differ only in case in one schema. Neither can be described:
  both the bare and the qualified name are reported as ambiguous, with the one schema listed twice, though the
  report asks for a qualified name.\<close>

theorem same_fold_tables_never_described:
  assumes "answers d ts" "connect (base d) m = (Inr (), m1)" "splitTableName name = Inr (s, t)"
    and "named_table s t ts = pre @ (schema, a) # mid @ (schema, b) # post"
  shows "\<exists>ss m'. DescribeTableFromCluster d sanitize parse fs name m = (Inl (AmbiguousTable t ss), m')
    \<and> length (filter (\<lambda>x. x = schema) ss) \<ge> 2"
proof -
  have "fst (resolveTable d s t m1) = Inl (AmbiguousTable t (map fst (named_table s t ts)))"
    unfolding resolveTable_answers [OF assms(1)] pick_match_def assms(4) by (cases pre) (auto split: list.split)
  then obtain m2 where "resolveTable d s t m1 = (Inl (AmbiguousTable t (map fst (named_table s t ts))), m2)" by (metis prod.collapse)
  then have "DescribeTableFromCluster d sanitize parse fs name m = (Inl (AmbiguousTable t (map fst (named_table s t ts))), m2)"
    using assms(2,3) by (simp add: DescribeTableFromCluster_def runDescribeTable_def look_then_def)
  then show ?thesis unfolding assms(4) by (intro exI conjI, assumption) simp
qed


text \<open>\<open>SHOW CREATE TABLE\<close> answers for every listed table with one \<open>CREATE TABLE\<close> statement of that name.\<close>

definition shows_create ::
    "introspect_driver \<Rightarrow> (string list \<Rightarrow> string) \<Rightarrow> (string \<Rightarrow> string + parsed list) \<Rightarrow> (string \<times> string \<Rightarrow> table_def list)
      \<Rightarrow> (string \<times> string) list \<Rightarrow> bool" where
  "shows_create d sanitize parse defs ts \<longleftrightarrow> (\<forall>l schema table. (schema, table) \<in> set ts \<longrightarrow> table \<noteq> [] \<and>
     (\<exists>stmt p c tn loc. int_row d (l @ [QueryRow (''SHOW CREATE TABLE '' @ sanitize [schema, table])]) = Inr stmt \<and> stmt \<noteq> []
        \<and> parse stmt = Inr [p] \<and> AST p = Plain c (CreateTable tn (defs (schema, table)) loc False) \<and> table_name.Table tn = table))"

lemma table_of_create:
  assumes "stmt \<noteq> []" "parse stmt = Inr [p]" "AST p = Plain c (CreateTable tn defs loc False)" "table_name.Table tn = table" "table \<noteq> []"
  shows "table_of_statement parse fs schema table stmt = Inr (extractTable table defs)"
proof -
  have name: "tbl_name (extractTable table defs) = table" by (simp add: extractTable_def Let_def)
  have "Load parse fs [\<lparr>src_path = [], src_sql = stmt, src_label = schema @ ''.'' @ table\<rparr>] = Inr (put_table
      (label \<lparr>src_path = [], src_sql = stmt, src_label = schema @ ''.'' @ table\<rparr>) (extractTable table defs) empty_catalog)"
    using assms by (simp add: Load_def load_source_def readSource_def load_stmt_def)
  then show ?thesis by (simp add: table_of_statement_def Table_put [OF catalog_ok_empty] name)
qed

text \<open>C20: On a cluster that answers as documented a description finds exactly the table the name picks, whatever its
  case: with no such base table it is not found, with one the answer is what its \<open>CREATE TABLE\<close> declares, and with
  more the answer names the schemas to choose from.\<close>

theorem DescribeTable_finds:
  assumes "answers d ts" "shows_create d sanitize parse defs ts" "connect (base d) m = (Inr (), m1)" "splitTableName name = Inr (s, t)"
  shows "fst (DescribeTableFromCluster d sanitize parse fs name m) =
    (case named_table s t ts of
       [] \<Rightarrow> Inl (TableNotFound (if s \<noteq> [] then s @ ''.'' @ t else quote t))
     | [(schema, table)] \<Rightarrow> Inr (extractTable table (defs (schema, table)))
     | ps \<Rightarrow> Inl (AmbiguousTable t (map fst ps)))"
proof -
  obtain r m2 where res: "resolveTable d s t m1 = (r, m2)" by fastforce
  then have r: "r = pick_match s t (named_table s t ts)" using resolveTable_answers [OF assms(1), of s t m1] by simp
  note desc = DescribeTableFromCluster_def runDescribeTable_def look_then_def
  consider "named_table s t ts = []" | schema table where "named_table s t ts = [(schema, table)]"
    | p q ps where "named_table s t ts = p # q # ps"
    by (metis list.exhaust prod.exhaust)
  then show ?thesis
  proof cases
    case 2
    then have "(schema, table) \<in> set (named_table s t ts)" by simp
    then have "(schema, table) \<in> set ts" unfolding named_table_def by simp
    with assms(2) obtain stmt p c tn loc where row: "int_row d (log m2 @ [QueryRow (''SHOW CREATE TABLE '' @ sanitize [schema, table])]) = Inr stmt"
      and create: "stmt \<noteq> []" "parse stmt = Inr [p]" "AST p = Plain c (CreateTable tn (defs (schema, table)) loc False)"
        "table_name.Table tn = table" "table \<noteq> []"
      unfolding shows_create_def by blast
    have "runDescribeTable d sanitize parse fs name m1 =
        (Inr (extractTable table (defs (schema, table))), send (QueryRow (''SHOW CREATE TABLE '' @ sanitize [schema, table])) m2)"
      using assms(4) res r 2 row table_of_create [where parse = parse, OF create]
      by (simp add: runDescribeTable_def look_then_def pick_match_def fetchCreateStatement_def send_def)
    with 2 assms(3) show ?thesis by (simp add: DescribeTableFromCluster_def)
  qed (use assms(3,4) res r in \<open>simp_all add: desc pick_match_def split: prod.split\<close>)
qed

section \<open>A sample database\<close>

definition sample_tables :: "(string \<times> string) list" where
  "sample_tables = [(''app'', ''Users''), (''app'', ''users''), (''public'', ''Orders'')]"

definition sample_defs :: "string \<times> string \<Rightarrow> table_def list" where
  "sample_defs p = [OtherTableDef]"

definition sample_create :: "string \<Rightarrow> string + parsed list" where
  "sample_create stmt = Inr [\<lparr>AST = Plain \<lparr>StatementTag = ''CREATE TABLE'', StatementType = TypeDDL, CanWriteData = False, CanModifySchema = True\<rparr>
     (CreateTable \<lparr>Schema = [], Table = tl stmt, name_string = tl stmt\<rparr> [OtherTableDef] None False), SQL = stmt\<rparr>]"

text \<open>The database answers \<open>SHOW CREATE TABLE\<close> with a letter and the name; names are quoted by a bar.\<close>

definition sample_database :: introspect_driver where
  "sample_database = \<lparr>base = \<lparr>drv_connect = \<lambda>_. None, drv_begin = \<lambda>_. None, drv_exec = \<lambda>_. None,
     drv_text = \<lambda>_. Inl [], drv_query = \<lambda>_. Inl [], drv_stats = \<lambda>_. NoRows, drv_info = \<lambda>_. Inl [], drv_commit = \<lambda>_. None, drv_close = \<lambda>_. None\<rparr>,
     int_query = \<lambda>l args. (case args of
         [ArgText t, ArgText s] \<Rightarrow> Inr (map Inr (named_table s t sample_tables), None)
       | [ArgText t, _] \<Rightarrow> Inr (map Inr (named_table [] t sample_tables), None)
       | _ \<Rightarrow> Inr ([], None)),
     int_row = \<lambda>l. (case last l of QueryRow q \<Rightarrow> Inr (CHR ''c'' # last (split_on CHR ''|'' q)) | _ \<Rightarrow> Inl (False, []))\<rparr>"

definition sample_sanitize :: "string list \<Rightarrow> string" where
  "sample_sanitize parts = concat (map (\<lambda>p. CHR ''|'' # p) parts)"

lemma sample_database_answers: "answers sample_database sample_tables"
  by (simp add: answers_def sample_database_def resolve_query_def)

lemma sample_database_shows: "shows_create sample_database sample_sanitize sample_create sample_defs sample_tables"
proof -
  have "last (split_on CHR ''|'' (''SHOW CREATE TABLE '' @ sample_sanitize [s, t])) = t \<and> t \<noteq> []" if "(s, t) \<in> set sample_tables" for s t
    using that by (auto simp: sample_tables_def sample_sanitize_def)
  then show ?thesis
    by (auto simp: shows_create_def sample_database_def sample_create_def sample_defs_def simp del: append_Cons)
qed

definition no_files :: file_system where
  "no_files = \<lparr>os_Stat = \<lambda>_. Inl ''no file'', os_ReadFile = \<lambda>_. Inl ''no file''\<rparr>"

lemma sample_connect: "\<exists>m1. connect (base sample_database) (NewManager ''d'' []) = (Inr (), m1)"
  by (simp add: connect_def NewManager_def sample_database_def Let_def)

theorem DescribeTable_finds_witness:
  "\<exists>x. fst (DescribeTableFromCluster sample_database sample_sanitize sample_create no_files ''ORDERS'' (NewManager ''d'' [])) = Inr x
    \<and> tbl_name x = ''Orders''"
proof -
  obtain m1 where m1: "connect (base sample_database) (NewManager ''d'' []) = (Inr (), m1)" using sample_connect by blast
  have s: "splitTableName ''ORDERS'' = Inr ([], ''ORDERS'')" by code_simp
  have n: "named_table [] ''ORDERS'' sample_tables = [(''public'', ''Orders'')]" by code_simp
  from DescribeTable_finds [OF sample_database_answers sample_database_shows m1 s, of no_files]
  show ?thesis unfolding n by (simp add: extractTable_def Let_def)
qed

theorem same_fold_tables_never_described_witness:
  "\<exists>ss m'. DescribeTableFromCluster sample_database sample_sanitize sample_create no_files ''app.users'' (NewManager ''d'' [])
    = (Inl (AmbiguousTable ''users'' ss), m') \<and> length (filter (\<lambda>x. x = ''app'') ss) \<ge> 2"
proof -
  obtain m1 where m1: "connect (base sample_database) (NewManager ''d'' []) = (Inr (), m1)" using sample_connect by blast
  have s: "splitTableName ''app.users'' = Inr (''app'', ''users'')" by code_simp
  have n: "named_table ''app'' ''users'' sample_tables = [] @ (''app'', ''Users'') # [] @ (''app'', ''users'') # []" by code_simp
  show ?thesis by (rule same_fold_tables_never_described [OF sample_database_answers m1 s n])
qed

end
