(* ===== verification/Mcp_Catalog.thy ===== *)
theory Mcp_Catalog
  imports Mcp_Connected Introspect
begin

text \<open>
  The catalog tools of \<open>internal/mcp/tools/catalog.go\<close>, \<open>list_tables\<close> and \<open>describe_table\<close>: each reads inline
  schemas or a live cluster, and exactly one of the two.
\<close>

section \<open>The environment\<close>

record 'e catalog_env =
  Cluster :: "'e cluster_env"
  Database :: introspect_driver
  MarshalNames :: "string list \<Rightarrow> string + string"
  MarshalRefs :: "(string \<times> string) list \<Rightarrow> string + string"
  MarshalTable :: "ctable \<Rightarrow> string + string"

abbreviation tool_env_of :: "'e catalog_env \<Rightarrow> 'e tool_env" where
  "tool_env_of ke \<equiv> Tools (Cluster ke)"

abbreviation answer :: "'e catalog_env \<Rightarrow> envelope \<Rightarrow> tool_result" where
  "answer ke env \<equiv> envelopeResult (MarshalEnv (Cluster ke)) env"

text \<open>A call on a new manager with the default timeout, and the deferred \<open>Close\<close>.\<close>

definition on_new_manager :: "driver \<Rightarrow> string \<Rightarrow> (manager \<Rightarrow> 'r \<times> manager) \<Rightarrow> 'r \<times> wire list \<times> wire list" where
  "on_new_manager d merged f =
     (case f (NewManager merged []) of (r, m) \<Rightarrow> (r, manager.log m, manager.log (snd (Close d m))))"

section \<open>Errors\<close>

definition tableNotFoundError :: "string \<Rightarrow> string list \<Rightarrow> error_entry" where
  "tableNotFoundError name available =
     (plain_error ''42P01'' SevError (''table '' @ quote name @ '' not found''))
       \<lparr>category := CategoryForCode ''42P01'',
        econtext := (if length available > 0 then [(''available_tables'', CStrs available)] else [])\<rparr>"

definition ambiguousTableEnvelopeError :: "string \<Rightarrow> string list \<Rightarrow> error_entry" where
  "ambiguousTableEnvelopeError name schemas =
     (plain_error ''42P09'' SevError (lookup_message (AmbiguousTable name schemas)))
       \<lparr>category := CategoryForCode ''42P09'', econtext := [(''schemas'', CStrs schemas)]\<rparr>"

section \<open>Inline schemas\<close>

text \<open>The catalog of the schemas with the envelope that has its warnings, or the result that ends the call.\<close>

definition load_inline :: "'e catalog_env \<Rightarrow> string \<Rightarrow> schema_source list \<Rightarrow> tool_result + catalog \<times> envelope" where
  "load_inline ke parserVersion srcs =
     (let te = tool_env_of ke; env = schemaFileEnvelope parserVersion [] in
      case Load (parse_text (Front te)) (Files te) srcs of
        Inl e \<Rightarrow> Inl (answer ke (env\<lparr>eerrors := [schemaLoadEnvelopeError te e]\<rparr>))
      | Inr cat \<Rightarrow> Inr (cat, schemawarn_Append env (Some cat)))"

definition listTablesFromSchemas :: "'e catalog_env \<Rightarrow> string \<Rightarrow> schema_source list \<Rightarrow> call_result" where
  "listTablesFromSchemas ke parserVersion srcs =
     no_contact
       (case load_inline ke parserVersion srcs of
          Inl r \<Rightarrow> r
        | Inr (cat, env) \<Rightarrow> encoded_result (Cluster ke) env (MarshalNames ke (TableNames cat)))"

definition describeTableFromSchemas :: "'e catalog_env \<Rightarrow> string \<Rightarrow> schema_source list \<Rightarrow> string \<Rightarrow> call_result" where
  "describeTableFromSchemas ke parserVersion srcs tableName =
     no_contact
       (case load_inline ke parserVersion srcs of
          Inl r \<Rightarrow> r
        | Inr (cat, env) \<Rightarrow>
            (case Catalog.Table cat tableName of
               None \<Rightarrow> answer ke (env\<lparr>eerrors := eerrors env @ [tableNotFoundError tableName (TableNames cat)]\<rparr>)
             | Some tbl \<Rightarrow> encoded_result (Cluster ke) env (MarshalTable ke tbl)))"

section \<open>A live cluster\<close>

definition listTablesLive :: "'e catalog_env \<Rightarrow> string \<Rightarrow> request \<Rightarrow> string \<Rightarrow> bool \<Rightarrow> call_result" where
  "listTablesLive ke parserVersion req name includeSystem =
     (let ce = Cluster ke; env = connectedEnvelope parserVersion [] in
      case mergeDSNWithTLS (MarshalEnv ce) (Url ce) req env name of
        Inl r \<Rightarrow> no_contact r
      | Inr merged \<Rightarrow>
          (case on_new_manager (base (Database ke)) merged (ListTablesFromCluster (Database ke) includeSystem) of
             (Inl e, sent, ws) \<Rightarrow> Ret (answer ke (env\<lparr>eerrors := [FromClusterError (ClusterApi ce sent) e []]\<rparr>), ws)
           | (Inr refs, sent, ws) \<Rightarrow>
               Ret (encoded_result ce (env\<lparr>econnection := ConnectionConnected\<rparr>) (MarshalRefs ke refs), ws)))"

definition lookup_errors :: "'e catalog_env \<Rightarrow> string \<Rightarrow> wire list \<Rightarrow> lookup_error \<Rightarrow> error_entry" where
  "lookup_errors ke tableName sent e =
     (case e of
        TableNotFound _ \<Rightarrow> tableNotFoundError tableName []
      | AmbiguousTable name schemas \<Rightarrow> ambiguousTableEnvelopeError name schemas
      | LookupFailed msg \<Rightarrow> FromClusterError (ClusterApi (Cluster ke) sent) msg [])"

definition describeTableLive :: "'e catalog_env \<Rightarrow> string \<Rightarrow> request \<Rightarrow> string \<Rightarrow> string \<Rightarrow> call_result" where
  "describeTableLive ke parserVersion req name tableName =
     (let ce = Cluster ke; te = Tools ce; env = connectedEnvelope parserVersion [] in
      case mergeDSNWithTLS (MarshalEnv ce) (Url ce) req env name of
        Inl r \<Rightarrow> no_contact r
      | Inr merged \<Rightarrow>
          (case on_new_manager (base (Database ke)) merged
                  (DescribeTableFromCluster (Database ke) (Sanitize ce) (parse_text (Front te)) (Files te) tableName) of
             (Inl e, sent, ws) \<Rightarrow> Ret (answer ke (env\<lparr>eerrors := [lookup_errors ke tableName sent e]\<rparr>), ws)
           | (Inr tbl, sent, ws) \<Rightarrow>
               Ret (encoded_result ce (env\<lparr>econnection := ConnectionConnected\<rparr>) (MarshalTable ke tbl), ws)))"

section \<open>The handlers\<close>

definition catalog_source :: "request \<Rightarrow> string + schema_source list \<times> string" where
  "catalog_source req =
     (case extractSchemas req False of Inl e \<Rightarrow> Inl e | Inr srcs \<Rightarrow>
     (case extractOptionalString req ''dsn'' of Inl e \<Rightarrow> Inl e | Inr name \<Rightarrow>
     (case requireExactlyOneSource srcs name of Some e \<Rightarrow> Inl e | None \<Rightarrow> Inr (srcs, name))))"

definition ListTablesHandler :: "'e catalog_env \<Rightarrow> string \<Rightarrow> request \<Rightarrow> call_result" where
  "ListTablesHandler ke parserVersion req =
     (case catalog_source req of
        Inl e \<Rightarrow> no_contact (ToolError e)
      | Inr (srcs, name) \<Rightarrow>
          if name \<noteq> []
          then (case extractOptionalBool req ''include_system'' of
                  Inl e \<Rightarrow> no_contact (ToolError e)
                | Inr includeSystem \<Rightarrow> listTablesLive ke parserVersion req name includeSystem)
          else listTablesFromSchemas ke parserVersion srcs)"

definition DescribeTableHandler :: "'e catalog_env \<Rightarrow> string \<Rightarrow> request \<Rightarrow> call_result" where
  "DescribeTableHandler ke parserVersion req =
     (case extractRequiredString req ''table'' of
        Inl e \<Rightarrow> no_contact (ToolError e)
      | Inr tableName \<Rightarrow>
     (case catalog_source req of
        Inl e \<Rightarrow> no_contact (ToolError e)
      | Inr (srcs, name) \<Rightarrow>
          if name \<noteq> [] then describeTableLive ke parserVersion req name tableName
          else describeTableFromSchemas ke parserVersion srcs tableName))"

section \<open>Properties\<close>

lemma catalog_source_Inr:
  "catalog_source req = Inr (srcs, name) \<Longrightarrow> (srcs = []) \<noteq> (name = [])"
  by (auto simp: catalog_source_def requireExactlyOneSource_def split: sum.splits if_splits)

lemma Close_log: "\<exists>es. manager.log (snd (Close d m)) = manager.log m @ es \<and> set es \<subseteq> {CloseConn}"
  by (auto simp: Close_def Let_def send_def)

lemma ListTables_log:
  "\<exists>es. manager.log (snd (ListTablesFromCluster d sys m)) = manager.log m @ es
    \<and> set es \<subseteq> {Connect, CloseConn, Query (fst (list_query sys))}"
proof -
  obtain c m1 where c: "connect (base d) m = (c, m1)" by fastforce
  have m1: "\<exists>es. manager.log m1 = manager.log m @ es \<and> set es \<subseteq> {Connect}"
    using c by (auto simp: connect_def Let_def send_def split: if_splits option.splits)
  obtain r m2 where run: "runListTables d sys m1 = (r, m2)" by fastforce
  have "manager.log m2 = manager.log m1 @ [Query (fst (list_query sys))]"
    using pair_query_log(1) [of d "''list tables: ''" "''scan list-tables row: ''" "''read list-tables rows: ''"] run
    unfolding runListTables_def by (metis snd_conv)
  with m1 c run show ?thesis
    by (cases c; cases r) (auto simp: ListTablesFromCluster_def with_conn_def send_def)
qed

text \<open>What the catalog tools may send.\<close>

definition catalog_wire :: "introspect_driver \<Rightarrow> (string list \<Rightarrow> string) \<Rightarrow> wire \<Rightarrow> bool" where
  "catalog_wire d sanitize w \<longleftrightarrow> lookup_wire d sanitize w \<or> (\<exists>sys. w = Query (fst (list_query sys)))"

lemma catalog_wire_simps [simp]:
  "catalog_wire d sanitize Connect" "catalog_wire d sanitize CloseConn" "catalog_wire d sanitize (Query (fst (list_query sys)))"
  by (auto simp: catalog_wire_def lookup_wire_def)

lemma on_new_manager_wires:
  assumes "\<And>m. \<exists>es. manager.log (snd (f m)) = manager.log m @ es \<and> (\<forall>w \<in> set es. P w)" "P CloseConn"
    and "on_new_manager d merged f = (r, sent, ws)" "w \<in> set ws"
  shows "P w"
proof -
  obtain es where es: "manager.log (snd (f (NewManager merged []))) = manager.log (NewManager merged []) @ es" "\<forall>w \<in> set es. P w"
    using assms(1) by blast
  obtain cs where cs: "manager.log (snd (Close d (snd (f (NewManager merged []))))) = manager.log (snd (f (NewManager merged []))) @ cs"
    "set cs \<subseteq> {CloseConn}" using Close_log by blast
  have "ws = es @ cs" using assms(3) es(1) cs(1) by (auto simp: on_new_manager_def NewManager_def split: prod.splits)
  with assms(2,4) es(2) cs(2) show "P w" by auto
qed


text \<open>C21: A catalog tool reaches the cluster only when the call has a \<open>dsn\<close> and no inline schemas, and then sends only the fixed
  catalog queries and \<open>SHOW CREATE TABLE\<close> of a table that the cluster itself named.\<close>

theorem catalog_tools_contact:
  assumes "ListTablesHandler ke pv req = Ret (r, ws) \<or> DescribeTableHandler ke pv req = Ret (r, ws)" "w \<in> set ws"
  shows "\<exists>name. extractSchemas req False = Inr [] \<and> extractOptionalString req ''dsn'' = Inr name \<and> name \<noteq> []
    \<and> catalog_wire (Database ke) (Sanitize (Cluster ke)) w"
proof -
  have src: "extractSchemas req False = Inr [] \<and> extractOptionalString req ''dsn'' = Inr name"
    if "catalog_source req = Inr (srcs, name)" "name \<noteq> []" for srcs name
    using that by (auto simp: catalog_source_def requireExactlyOneSource_def split: sum.splits if_splits)
  let ?P = "catalog_wire (Database ke) (Sanitize (Cluster ke))"
  have list: "?P w" if run: "on_new_manager (base (Database ke)) merged (ListTablesFromCluster (Database ke) sys) = (x, sent, ws)" for merged sys x sent
  proof (rule on_new_manager_wires [OF _ _ run assms(2)])
    show "\<exists>es. manager.log (snd (ListTablesFromCluster (Database ke) sys m)) = manager.log m @ es \<and> (\<forall>w \<in> set es. ?P w)" for m
    proof -
      obtain es where "manager.log (snd (ListTablesFromCluster (Database ke) sys m)) = manager.log m @ es"
        "set es \<subseteq> {Connect, CloseConn, Query (fst (list_query sys))}" using ListTables_log by blast
      then show ?thesis by (intro exI [of _ es] conjI) auto
    qed
  qed simp
  have desc: "?P w" if run: "on_new_manager (base (Database ke)) merged (DescribeTableFromCluster (Database ke) (Sanitize (Cluster ke)) parse fs name) = (x, sent, ws)"
    for merged parse fs name x sent
  proof (rule on_new_manager_wires [OF _ _ run assms(2)])
    show "\<exists>es. manager.log (snd (DescribeTableFromCluster (Database ke) (Sanitize (Cluster ke)) parse fs name m)) = manager.log m @ es
        \<and> (\<forall>w \<in> set es. ?P w)" for m
      using DescribeTable_log [of "Database ke" "Sanitize (Cluster ke)" parse fs name m] by (auto simp: catalog_wire_def)
  qed simp
  from assms(1) show ?thesis
  proof
    assume h: "ListTablesHandler ke pv req = Ret (r, ws)"
    then obtain srcs name sys merged x sent where s: "catalog_source req = Inr (srcs, name)" "name \<noteq> []"
      and run: "on_new_manager (base (Database ke)) merged (ListTablesFromCluster (Database ke) sys) = (x, sent, ws)"
      using assms(2) by (auto simp: ListTablesHandler_def listTablesLive_def listTablesFromSchemas_def no_contact_def Let_def
          split: sum.splits prod.splits if_splits)
    from src [OF s] s(2) list [OF run] show ?thesis by blast
  next
    assume h: "DescribeTableHandler ke pv req = Ret (r, ws)"
    then obtain srcs name t merged x sent where s: "catalog_source req = Inr (srcs, name)" "name \<noteq> []"
      and run: "on_new_manager (base (Database ke)) merged (DescribeTableFromCluster (Database ke) (Sanitize (Cluster ke))
          (parse_text (Front (tool_env_of ke))) (Files (tool_env_of ke)) t) = (x, sent, ws)"
      using assms(2) by (auto simp: DescribeTableHandler_def describeTableLive_def describeTableFromSchemas_def no_contact_def Let_def
          split: sum.splits prod.splits if_splits)
    from src [OF s] s(2) desc [OF run] show ?thesis by blast
  qed
qed

text \<open>From inline schemas \<open>describe_table\<close> answers with the last \<open>CREATE TABLE\<close> of that name, whatever its case, and
  without one with error 42P01 and the tables there are; nothing is sent.\<close>

theorem describe_inline:
  assumes "extractRequiredString req ''table'' = Inr tableName" "catalog_source req = Inr (srcs, [])"
    and "Load (parse_text (Front (tool_env_of ke))) (Files (tool_env_of ke)) srcs = Inr cat"
  shows "DescribeTableHandler ke pv req =
    (let env = schemawarn_Append (schemaFileEnvelope pv []) (Some cat);
         tables = concat (map (schema_tables (parse_text (Front (tool_env_of ke))) (Files (tool_env_of ke))) srcs)
     in Ret (case find (\<lambda>t. equal_fold tableName (tbl_name t)) (rev tables) of
               Some tbl \<Rightarrow> encoded_result (Cluster ke) env (MarshalTable ke tbl)
             | None \<Rightarrow> answer ke (env\<lparr>eerrors := eerrors env @ [tableNotFoundError tableName (TableNames cat)]\<rparr>), []))"
proof -
  have "Catalog.Table cat tableName = find (\<lambda>t. equal_fold tableName (tbl_name t))
      (rev (concat (map (schema_tables (parse_text (Front (tool_env_of ke))) (Files (tool_env_of ke))) srcs)))"
    using Load_lookup [OF assms(3)] by blast
  then show ?thesis
    by (simp add: DescribeTableHandler_def assms describeTableFromSchemas_def load_inline_def no_contact_def Let_def)
qed


section \<open>Samples\<close>

definition sample_catalog_env :: "unit catalog_env" where
  "sample_catalog_env = \<lparr>Cluster = sample_cluster [Catalog.sample_create ''Users'' [], Catalog.sample_create ''users'' [OtherTableDef]],
     Database = sample_database, MarshalNames = \<lambda>_. Inr [], MarshalRefs = \<lambda>_. Inr [], MarshalTable = \<lambda>t. Inr (tbl_name t)\<rparr>"

theorem catalog_tools_contact_witness:
  "\<exists>r ws. ListTablesHandler sample_catalog_env ''v'' [''dsn'' \<mapsto> JStr ''d''] = Ret (r, ws) \<and> Connect \<in> set ws
    \<and> extractSchemas [''dsn'' \<mapsto> JStr ''d''] False = Inr []"
proof -
  let ?req = "[''dsn'' \<mapsto> JStr ''d''] :: request"
  have t: "trim_space ''d'' = ''d''" by code_simp
  have merge: "mergeDSNWithTLS marshal url ?req env ''d'' = Inr ''d''" for marshal url env
    by (simp add: mergeDSNWithTLS_def resolveTLSParams_def extractOptionalString_def MergeTLSParams_def IsZero_def)
  have "catalog_source ?req = Inr ([], ''d'')"
    by (simp add: catalog_source_def extractSchemas_def extractOptionalString_def t requireExactlyOneSource_def)
  moreover have "\<exists>x sent ws. on_new_manager (base sample_database) ''d'' (ListTablesFromCluster sample_database False) = (x, sent, ws) \<and> Connect \<in> set ws"
    by (simp add: on_new_manager_def ListTablesFromCluster_def with_conn_def connect_def NewManager_def sample_database_def send_def Let_def
        runListTables_def pair_query_def Close_def list_query_def)
  ultimately obtain x sent ws where "catalog_source ?req = Inr ([], ''d'')" "Connect \<in> set ws"
    "on_new_manager (base sample_database) ''d'' (ListTablesFromCluster sample_database False) = (x, sent, ws)" by blast
  then obtain r where h: "ListTablesHandler sample_catalog_env ''v'' ?req = Ret (r, ws)" "Connect \<in> set ws"
    by (cases x) (auto simp: ListTablesHandler_def extractOptionalBool_def listTablesLive_def merge sample_catalog_env_def Let_def split: sum.splits prod.splits)
  from catalog_tools_contact [OF disjI1, OF h] h show ?thesis by blast
qed

theorem describe_inline_witness:
  "\<exists>env. DescribeTableHandler sample_catalog_env ''v'' [''table'' \<mapsto> JStr ''USERS'', ''schemas'' \<mapsto> JArr [JObj [(''sql'', JStr ''C'')]]]
    = Ret (encoded_result (Cluster sample_catalog_env) env (Inr ''users''), [])"
proof -
  let ?req = "[''table'' \<mapsto> JStr ''USERS'', ''schemas'' \<mapsto> JArr [JObj [(''sql'', JStr ''C'')]]] :: request"
  let ?src = "\<lparr>src_path = [], src_sql = ''C'', src_label = []\<rparr>"
  have t: "trim_space ''C'' = ''C''" "trim_space ''USERS'' = ''USERS''" by code_simp+
  have table: "extractRequiredString ?req ''table'' = Inr ''USERS''" by (simp add: extractRequiredString_def t)
  have src: "catalog_source ?req = Inr ([?src], [])"
    by (simp add: catalog_source_def extractSchemas_def extractOptionalString_def schema_item_def t requireExactlyOneSource_def)
  have parse: "parse_text (Front (tool_env_of sample_catalog_env)) s
    = Inr [Catalog.sample_create ''Users'' [], Catalog.sample_create ''users'' [OtherTableDef]]" for s
    by (simp add: parse_text_Inr sample_catalog_env_def sample_call_parse)
  obtain cat where cat: "Load (parse_text (Front (tool_env_of sample_catalog_env))) (Files (tool_env_of sample_catalog_env)) [?src] = Inr cat"
    by (cases "foldl (load_stmt (label ?src)) (empty_catalog, []) [Catalog.sample_create ''Users'' [], Catalog.sample_create ''users'' [OtherTableDef]]")
      (auto simp: Load_def load_source_def readSource_def parse)
  have "find (\<lambda>t. equal_fold ''USERS'' (tbl_name t)) (rev (concat (map (schema_tables (parse_text (Front (tool_env_of sample_catalog_env)))
      (Files (tool_env_of sample_catalog_env))) [?src]))) = Some (extractTable ''users'' [OtherTableDef])"
    by (simp add: schema_tables_def readSource_def parse) code_simp
  moreover have "MarshalTable sample_catalog_env (extractTable ''users'' [OtherTableDef]) = Inr ''users''"
    by (simp add: sample_catalog_env_def extractTable_def Let_def)
  ultimately show ?thesis using describe_inline [OF table src cat] by (auto simp: Let_def)
qed

end
