(* ===== verification/Summarize.thy ===== *)
theory Summarize
  imports Risk
begin

text \<open>
  Package \<open>internal/summarize\<close>: what a statement does, read off its syntax tree. The three collectors of
  \<open>walk.go\<close> and \<open>columns.go\<close> are visitors: a \<open>Pre\<close> hook and a \<open>Post\<close> hook over the ordered tree of nodes
  the parser's walker presents. The sets in which they remember lower-cased names are \<^typ>\<open>string set\<close>.
\<close>

section \<open>The parser's side\<close>

text \<open>\<open>tree.WalkStmt\<close> on a statement and on an embedded \<open>*tree.Select\<close>, \<open>AsStringWithFlags\<close> with
  \<open>FmtSimple\<close>, the parser, and what the risk rules use.\<close>

record 'e summarize_api =
  WalkStmt :: "statement \<Rightarrow> visit"
  WalkSelect :: "select \<Rightarrow> visit"
  AsString :: "expr \<Rightarrow> string"
  NamesString :: "string list \<Rightarrow> string"
  ParseStatement :: "string \<Rightarrow> 'e + parsed list"
  RiskName :: "string \<Rightarrow> string"

section \<open>Names seen once\<close>

text \<open>The body the collectors and \<open>mergeColumns\<close> share: a name is kept unless its lower-cased form was seen.\<close>

type_synonym names_seen = "string set \<times> string list"

definition add_once :: "string \<Rightarrow> names_seen \<Rightarrow> names_seen" where
  "add_once name s =
     (case s of (seen, ordered) \<Rightarrow>
        if to_lower name \<in> seen then (seen, ordered)
        else (insert (to_lower name) seen, ordered @ [name]))"

definition mergeColumns :: "string list \<Rightarrow> string list \<Rightarrow> string list" where
  "mergeColumns refs extras = snd (fold add_once extras (fold add_once refs ({}, [])))"

section \<open>Tables\<close>

definition withClause :: "statement \<Rightarrow> statement cte list" where
  "withClause stmt =
     (case stmt of
        SelectStmt _ s \<Rightarrow> sel_with s
      | Insert _ w _ _ _ _ _ \<Rightarrow> w
      | Update _ w _ _ _ _ _ _ \<Rightarrow> w
      | Delete _ w _ _ _ _ _ \<Rightarrow> w
      | _ \<Rightarrow> [])"

record table_collector =
  tc_names :: names_seen
  tc_scope :: "string set"

definition newTableCollector :: table_collector where
  "newTableCollector = \<lparr>tc_names = ({}, []), tc_scope = {}\<rparr>"

definition bindCTEs :: "statement \<Rightarrow> table_collector \<Rightarrow> table_collector" where
  "bindCTEs stmt v =
     fold (\<lambda>c v. if cte_alias c = [] then v else v\<lparr>tc_scope := insert (to_lower (cte_alias c)) (tc_scope v)\<rparr>)
       (withClause stmt) v"

definition table_add :: "string \<Rightarrow> table_collector \<Rightarrow> table_collector" where
  "table_add name v =
     (if name = [] then v
      else if to_lower name \<in> tc_scope v then v
      else v\<lparr>tc_names := add_once name (tc_names v)\<rparr>)"

definition table_pre :: "visited \<Rightarrow> table_collector \<Rightarrow> bool \<times> table_collector" where
  "table_pre n v =
     (case n of
        VisitExpr _ \<Rightarrow> (True, v)
      | VisitStatement s \<Rightarrow> (True, bindCTEs s v)
      | VisitTable t \<Rightarrow>
          (case t of
             AliasedTableExpr _ alias _ \<Rightarrow>
               (True, if alias \<noteq> [] then v\<lparr>tc_scope := insert (to_lower alias) (tc_scope v)\<rparr> else v)
           | TableName tn \<Rightarrow> (False, table_add (Table tn) v)
           | TableRef \<Rightarrow> (False, v)
           | _ \<Rightarrow> (True, v)))"

definition collectTables :: "'e summarize_api \<Rightarrow> statement \<Rightarrow> string list" where
  "collectTables api stmt =
     snd (tc_names (run_visitor table_pre (\<lambda>n v. v) (WalkStmt api stmt) (bindCTEs stmt newTableCollector)))"

section \<open>Joins\<close>

record join =
  join_type :: string
  join_left :: string
  join_right :: string
  join_condition :: string

fun tableNameOf :: "table_expr \<Rightarrow> string" where
  "tableNameOf (AliasedTableExpr e alias _) = (if alias \<noteq> [] then alias else tableNameOf e)"
| "tableNameOf (TableName tn) = Table tn"
| "tableNameOf (ParenTableExpr e) = tableNameOf e"
| "tableNameOf _ = []"

fun joinCondString :: "'e summarize_api \<Rightarrow> expr join_cond \<Rightarrow> string" where
  "joinCondString api NoCond = []"
| "joinCondString api NaturalJoinCond = ''NATURAL''"
| "joinCondString api (OnJoinCond e) = AsString api e"
| "joinCondString api (UsingJoinCond cols) = ''USING ('' @ NamesString api cols @ '')''"

definition joinFrom :: "'e summarize_api \<Rightarrow> string \<Rightarrow> table_expr \<Rightarrow> table_expr \<Rightarrow> expr join_cond \<Rightarrow> join" where
  "joinFrom api jt l r cond =
     (let jt = (if jt = [] then ''INNER'' else jt);
          jt = (if cond = NaturalJoinCond then (if jt = ''INNER'' then ''NATURAL'' else ''NATURAL '' @ jt) else jt)
      in \<lparr>join_type = jt, join_left = tableNameOf l, join_right = tableNameOf r, join_condition = joinCondString api cond\<rparr>)"

definition join_post :: "'e summarize_api \<Rightarrow> visited \<Rightarrow> join list \<Rightarrow> join list" where
  "join_post api n js =
     (case n of VisitTable (JoinTableExpr jt l r cond) \<Rightarrow> js @ [joinFrom api jt l r cond] | _ \<Rightarrow> js)"

definition collectJoins :: "'e summarize_api \<Rightarrow> visit \<Rightarrow> join list" where
  "collectJoins api v = run_visitor (\<lambda>n js. (True, js)) (join_post api) v []"

section \<open>Columns\<close>

definition refFromUnresolved :: "bool \<Rightarrow> string list \<Rightarrow> string \<times> string" where
  "refFromUnresolved star parts =
     (if star \<or> length parts = 0 then ([], [])
      else (if length parts \<ge> 2 then parts ! 1 else [], parts ! 0))"

definition refFromColumnItem :: "string \<Rightarrow> string list \<Rightarrow> string \<times> string" where
  "refFromColumnItem name tableParts = (if length tableParts \<ge> 1 then tableParts ! 0 else [], name)"

definition rendered_ref :: "string \<times> string \<Rightarrow> string" where
  "rendered_ref ref = (case ref of (qualifier, name) \<Rightarrow> if qualifier \<noteq> [] then qualifier @ ''.'' @ name else name)"

definition ref_add :: "string \<times> string \<Rightarrow> names_seen \<Rightarrow> names_seen" where
  "ref_add ref v = (if snd ref = [] then v else add_once (rendered_ref ref) v)"

definition ref_pre :: "visited \<Rightarrow> names_seen \<Rightarrow> bool \<times> names_seen" where
  "ref_pre n v =
     (case n of
        VisitExpr e \<Rightarrow>
          (case e of
             UnresolvedName star parts \<Rightarrow> if star then (False, v) else (False, ref_add (refFromUnresolved star parts) v)
           | ColumnItem name tableParts \<Rightarrow> (False, ref_add (refFromColumnItem name tableParts) v)
           | UnqualifiedStar \<Rightarrow> (False, v)
           | AllColumnsSelector \<Rightarrow> (False, v)
           | _ \<Rightarrow> (True, v))
      | _ \<Rightarrow> (True, v))"

definition addOnConflictNameLists :: "expr on_conflict \<Rightarrow> names_seen \<Rightarrow> names_seen" where
  "addOnConflictNameLists oc v =
     fold (\<lambda>e. fold (\<lambda>n. ref_add ([], n)) (ue_names e)) (oc_exprs oc)
       (fold (\<lambda>n. ref_add ([], n)) (oc_columns oc) v)"

definition collectReferences :: "'e summarize_api \<Rightarrow> statement \<Rightarrow> string list" where
  "collectReferences api stmt =
     (let v = run_visitor ref_pre (\<lambda>n v. v) (WalkStmt api stmt) ({}, []) in
      snd (case stmt of
             Insert _ _ _ _ _ (Some oc) _ \<Rightarrow> addOnConflictNameLists oc v
           | _ \<Rightarrow> v))"

fun isStarExpr :: "expr \<Rightarrow> bool" where
  "isStarExpr UnqualifiedStar = True"
| "isStarExpr AllColumnsSelector = True"
| "isStarExpr (UnresolvedName star _) = star"
| "isStarExpr _ = False"

fun selectStatementHasStar :: "select_statement \<Rightarrow> bool" where
  "selectStatementHasStar (SelectClause exprs _ _ _ _) = list_ex (\<lambda>e. isStarExpr (se_expr e)) exprs"
| "selectStatementHasStar (UnionClause (Select _ l _ _ _) (Select _ r _ _ _)) =
     (selectStatementHasStar l \<or> selectStatementHasStar r)"
| "selectStatementHasStar _ = False"

definition hasProjectionStar :: "statement \<Rightarrow> bool" where
  "hasProjectionStar stmt =
     (case stmt of
        SelectStmt _ s \<Rightarrow> selectStatementHasStar (sel_stmt s)
      | Insert _ _ _ _ (Some rows) _ _ \<Rightarrow> selectStatementHasStar (sel_stmt rows)
      | _ \<Rightarrow> False)"

section \<open>One statement\<close>

datatype summary_op = OpSelect | OpInsert | OpUpsert | OpUpdate | OpDelete | OpOther

record summary =
  Operation :: summary_op
  summary_tag :: string
  Tables :: "string list"
  Predicates :: "string list"
  Joins :: "join list"
  AffectedColumns :: "string list"
  ReferencedColumns :: "string list"
  SelectStar :: bool
  RiskLevel :: risk_severity
  summary_position :: position

definition selectWhere :: "select \<Rightarrow> expr option" where
  "selectWhere sel = (case sel_stmt sel of SelectClause _ _ wh _ _ \<Rightarrow> wh | _ \<Rightarrow> None)"

fun walkConjuncts :: "(expr \<Rightarrow> string) \<Rightarrow> expr \<Rightarrow> string list \<Rightarrow> string list" where
  "walkConjuncts pr (AndExpr l r) out = walkConjuncts pr r (walkConjuncts pr l out)"
| "walkConjuncts pr e out = out @ [pr e]"

definition wherePredicates :: "(expr \<Rightarrow> string) \<Rightarrow> expr option \<Rightarrow> string list" where
  "wherePredicates pr w = (case w of None \<Rightarrow> [] | Some e \<Rightarrow> walkConjuncts pr e [])"

definition updateTargets :: "expr update_expr list \<Rightarrow> string list" where
  "updateTargets es = concat (map ue_names es)"

definition insertAffectedColumns :: "string list \<Rightarrow> expr on_conflict option \<Rightarrow> string list" where
  "insertAffectedColumns cols oc =
     (case oc of
        None \<Rightarrow> cols
      | Some c \<Rightarrow> if DoNothing c then cols else mergeColumns cols (updateTargets (oc_exprs c)))"

text \<open>The fields the type switch sets: operation, predicates, joins, affected columns.\<close>

definition statement_parts :: "'e summarize_api \<Rightarrow> statement \<Rightarrow> summary_op \<times> string list \<times> join list \<times> string list" where
  "statement_parts api stmt =
     (case stmt of
        SelectStmt _ s \<Rightarrow> (OpSelect, wherePredicates (AsString api) (selectWhere s), collectJoins api (WalkStmt api stmt), [])
      | Insert _ _ _ cols rows oc _ \<Rightarrow>
          (case (case rows of None \<Rightarrow> ([], [])
                 | Some s \<Rightarrow> (wherePredicates (AsString api) (selectWhere s), collectJoins api (WalkSelect api s))) of
             (preds, js) \<Rightarrow>
               (if (case oc of None \<Rightarrow> False | Some c \<Rightarrow> IsUpsertAlias c) then OpUpsert else OpInsert,
                preds, js, insertAffectedColumns cols oc))
      | Update _ _ _ _ es wh _ _ \<Rightarrow>
          (OpUpdate, wherePredicates (AsString api) wh, collectJoins api (WalkStmt api stmt), updateTargets es)
      | Delete _ _ _ _ wh _ _ \<Rightarrow> (OpDelete, wherePredicates (AsString api) wh, collectJoins api (WalkStmt api stmt), [])
      | _ \<Rightarrow> (OpOther, [], [], []))"

definition summarizeStatement :: "'e summarize_api \<Rightarrow> statement \<Rightarrow> risk_severity \<Rightarrow> position \<Rightarrow> summary" where
  "summarizeStatement api stmt level pos =
     (case statement_parts api stmt of (oper, preds, js, affected) \<Rightarrow>
        \<lparr>Operation = oper, summary_tag = tag_of stmt, Tables = collectTables api stmt, Predicates = preds, Joins = js,
         AffectedColumns = affected, ReferencedColumns = mergeColumns (collectReferences api stmt) affected,
         SelectStar = hasProjectionStar stmt, RiskLevel = level, summary_position = pos\<rparr>)"

section \<open>A batch\<close>

fun severityRank :: "risk_severity \<Rightarrow> nat" where
  "severityRank SeverityCritical = 5"
| "severityRank SeverityHigh = 4"
| "severityRank SeverityMedium = 3"
| "severityRank SeverityLow = 2"
| "severityRank SeverityInfo = 1"

definition highest_severity :: "finding list \<Rightarrow> risk_severity" where
  "highest_severity findings =
     fold (\<lambda>f h. if severityRank (Severity f) > severityRank h then Severity f else h) findings SeverityInfo"

definition riskLevelFor :: "'e summarize_api \<Rightarrow> string \<Rightarrow> risk_severity outcome" where
  "riskLevelFor api stmtSQL =
     obind (Analyze (ParseStatement api) (RiskName api) stmtSQL) (\<lambda>r.
       Ret (case r of Inl _ \<Rightarrow> SeverityInfo | Inr findings \<Rightarrow> highest_severity findings))"

text \<open>
  \<open>positionFromSQL\<close> of \<open>summarize.go\<close>, which is not the one of the risk package: where the text of a
  statement is not found it still moves on, and the slice of the next call panics past the end of the input.
\<close>

definition summary_positionFromSQL :: "string \<Rightarrow> string \<Rightarrow> nat \<Rightarrow> (position \<times> nat) outcome" where
  "summary_positionFromSQL fullSQL stmtSQL offset =
     (if offset > length fullSQL then Panic ''slice bounds out of range''
      else
        (case str_index (drop offset fullSQL) stmtSQL of
           None \<Rightarrow> Ret (\<lparr>line = 0, column = 0, byte_offset = int offset\<rparr>, offset + length stmtSQL)
         | Some idx \<Rightarrow>
             (let byteOff = offset + idx; before = take byteOff fullSQL in
              Ret (\<lparr>line = int (count_byte before newline) + 1,
                    column = (case str_last_index before [newline] of
                       None \<Rightarrow> int byteOff + 1 | Some lastNL \<Rightarrow> int byteOff - int lastNL),
                    byte_offset = int byteOff\<rparr>,
                   byteOff + length stmtSQL))))"

fun Parsed_from :: "'e summarize_api \<Rightarrow> string \<Rightarrow> nat \<Rightarrow> parsed list \<Rightarrow> summary list outcome" where
  "Parsed_from api sql offset [] = Ret []"
| "Parsed_from api sql offset (s # ss) =
     obind (summary_positionFromSQL sql (SQL s) offset) (\<lambda>(pos, offset).
     obind (riskLevelFor api (SQL s)) (\<lambda>level.
     obind (Parsed_from api sql offset ss) (\<lambda>rest.
       Ret (summarizeStatement api (AST s) level pos # rest))))"

definition Parsed :: "'e summarize_api \<Rightarrow> parsed list \<Rightarrow> string \<Rightarrow> summary list outcome" where
  "Parsed api stmts sql = Parsed_from api sql 0 stmts"

definition Summarize :: "'e summarize_api \<Rightarrow> string \<Rightarrow> ('e + summary list) outcome" where
  "Summarize api sql =
     (case ParseStatement api sql of
        Inl e \<Rightarrow> Ret (Inl e)
      | Inr stmts \<Rightarrow> obind (Parsed api stmts sql) (\<lambda>ss. Ret (Inr ss)))"

section \<open>Names seen once, as a set\<close>

text \<open>The invariant of the pair: what was seen is what was kept, lower-cased, and nothing twice.\<close>

definition names_ok :: "names_seen \<Rightarrow> bool" where
  "names_ok s \<longleftrightarrow> fst s = set (map to_lower (snd s)) \<and> distinct (map to_lower (snd s))"

lemma names_ok_start [simp]: "names_ok ({}, [])"
  by (simp add: names_ok_def)

lemma add_once_ok: "names_ok s \<Longrightarrow> names_ok (add_once name s)"
  by (auto simp: names_ok_def add_once_def split: prod.split)

lemma add_once_seen: "fst (add_once name s) = insert (to_lower name) (fst s)"
  by (auto simp: add_once_def split: prod.split)

lemma fold_add_once:
  "names_ok s \<Longrightarrow> names_ok (fold add_once xs s) \<and> fst (fold add_once xs s) = fst s \<union> to_lower ` set xs"
  by (induction xs arbitrary: s) (auto simp: add_once_ok add_once_seen)

text \<open>A run from nothing over a list.\<close>

lemma once_keys: "set (map to_lower (snd (fold add_once xs ({}, [])))) = to_lower ` set xs"
  and once_distinct: "distinct (map to_lower (snd (fold add_once xs ({}, []))))"
proof -
  have "names_ok (fold add_once xs ({}, []))" "fst (fold add_once xs ({}, [])) = to_lower ` set xs"
    using fold_add_once [OF names_ok_start, of xs] by simp_all
  then show "set (map to_lower (snd (fold add_once xs ({}, [])))) = to_lower ` set xs"
    "distinct (map to_lower (snd (fold add_once xs ({}, []))))" unfolding names_ok_def by metis+
qed

lemma fold_add_once_set: "set (snd (fold add_once xs s)) \<subseteq> set (snd s) \<union> set xs"
proof (induction xs arbitrary: s)
  case (Cons x xs)
  have "set (snd (add_once x s)) \<subseteq> insert x (set (snd s))" by (auto simp: add_once_def split: prod.splits if_splits)
  with Cons [of "add_once x s"] show ?case by auto
qed simp

lemma mergeColumns_spec:
  "distinct (map to_lower (mergeColumns refs extras))"
  "set (map to_lower (mergeColumns refs extras)) = to_lower ` (set refs \<union> set extras)"
  "set (mergeColumns refs extras) \<subseteq> set refs \<union> set extras"
proof -
  have *: "mergeColumns refs extras = snd (fold add_once (refs @ extras) ({}, []))" by (simp add: mergeColumns_def)
  show "distinct (map to_lower (mergeColumns refs extras))" unfolding * by (rule once_distinct)
  show "set (map to_lower (mergeColumns refs extras)) = to_lower ` (set refs \<union> set extras)"
    unfolding * once_keys set_append ..
  show "set (mergeColumns refs extras) \<subseteq> set refs \<union> set extras"
    using fold_add_once_set [of "refs @ extras" "({}, [])"] unfolding * by simp
qed

section \<open>Tables, declaratively\<close>

text \<open>The nodes the table collector reaches, the names a node declares and the names it mentions.\<close>

definition below_table :: "visited \<Rightarrow> bool" where
  "below_table n = (case n of VisitTable (TableName _) \<Rightarrow> False | VisitTable TableRef \<Rightarrow> False | _ \<Rightarrow> True)"

definition declared :: "visited \<Rightarrow> string set" where
  "declared n =
     (case n of
        VisitStatement s \<Rightarrow> to_lower ` (cte_alias ` set (withClause s) - {[]})
      | VisitTable (AliasedTableExpr _ alias _) \<Rightarrow> {to_lower alias} - {[]}
      | _ \<Rightarrow> {})"

definition table_names :: "visited list \<Rightarrow> string list" where
  "table_names ns = filter (\<lambda>t. t \<noteq> []) (List.map_filter (\<lambda>n. case n of VisitTable (TableName tn) \<Rightarrow> Some (Table tn) | _ \<Rightarrow> None) ns)"

fun undeclared :: "string set \<Rightarrow> visited list \<Rightarrow> string list" where
  "undeclared scope [] = []"
| "undeclared scope (n # ns) =
     filter (\<lambda>t. to_lower t \<notin> scope) (table_names [n]) @ undeclared (scope \<union> declared n) ns"

lemma bindCTEs_eq: "bindCTEs s v = v\<lparr>tc_scope := tc_scope v \<union> declared (VisitStatement s)\<rparr>"
proof -
  have "fold (\<lambda>c v. if cte_alias c = [] then v else v\<lparr>tc_scope := insert (to_lower (cte_alias c)) (tc_scope v)\<rparr>) cs v
    = v\<lparr>tc_scope := tc_scope v \<union> to_lower ` (cte_alias ` set cs - {[]})\<rparr>" for cs :: "statement cte list"
    by (induction cs arbitrary: v) (auto simp: insert_Diff_if intro!: arg_cong [where f = "\<lambda>s. v\<lparr>tc_scope := s\<rparr>" for v])
  then show ?thesis by (simp add: bindCTEs_def declared_def)
qed

lemma table_pre_eq:
  "table_pre n v = (below_table n,
     \<lparr>tc_names = fold add_once (filter (\<lambda>t. to_lower t \<notin> tc_scope v) (table_names [n])) (tc_names v),
      tc_scope = tc_scope v \<union> declared n\<rparr>)"
proof (cases n)
  case (VisitStatement s)
  then show ?thesis by (simp add: table_pre_def below_table_def bindCTEs_eq table_names_def List.map_filter_simps)
next
  case (VisitTable t)
  then show ?thesis
    by (cases t; cases v) (auto simp: table_pre_def below_table_def declared_def table_names_def List.map_filter_simps table_add_def)
next
  case (VisitExpr e)
  then show ?thesis by (simp add: table_pre_def below_table_def declared_def table_names_def List.map_filter_simps)
qed

lemma collect_undeclared:
  "tc_names (fold (\<lambda>n v. snd (table_pre n v)) ns v) = fold add_once (undeclared (tc_scope v) ns) (tc_names v)"
  by (induction ns arbitrary: v) (simp_all add: table_pre_eq)

lemma collectTables_eq:
  "collectTables api stmt = snd (fold add_once
     (undeclared (declared (VisitStatement stmt)) (reached below_table (WalkStmt api stmt))) ({}, []))"
proof -
  have "run_visitor table_pre (\<lambda>n v. v) w v = fold (\<lambda>n v. snd (table_pre n v)) (reached below_table w) v" for w v
    by (rule run_visitor_fold) (simp add: table_pre_eq)
  then show ?thesis by (simp add: collectTables_def collect_undeclared bindCTEs_eq newTableCollector_def)
qed

lemma undeclared_subset: "set (undeclared scope ns) \<subseteq> set (table_names ns)"
proof (induction ns arbitrary: scope)
  case (Cons n ns)
  then show ?case by (auto simp: table_names_def List.map_filter_simps split: option.splits)
qed simp

lemma undeclared_complete:
  "t \<in> set (table_names ns) \<Longrightarrow> to_lower t \<notin> scope \<union> (\<Union>n \<in> set ns. declared n) \<Longrightarrow> t \<in> set (undeclared scope ns)"
proof (induction ns arbitrary: scope)
  case (Cons n ns)
  have "t \<in> set (table_names [n]) \<or> t \<in> set (table_names ns)"
    using Cons.prems(1) by (auto simp: table_names_def List.map_filter_simps split: option.splits)
  then show ?case using Cons.IH [of "scope \<union> declared n"] Cons.prems(2) by auto
qed (simp add: table_names_def List.map_filter_simps)


section \<open>Columns, declaratively\<close>

definition below_ref :: "visited \<Rightarrow> bool" where
  "below_ref n = (case n of VisitExpr (UnresolvedName _ _) \<Rightarrow> False | VisitExpr (ColumnItem _ _) \<Rightarrow> False
     | VisitExpr UnqualifiedStar \<Rightarrow> False | VisitExpr AllColumnsSelector \<Rightarrow> False | _ \<Rightarrow> True)"

definition named :: "string \<times> string \<Rightarrow> string list" where
  "named ref = (if snd ref = [] then [] else [rendered_ref ref])"

definition references :: "visited \<Rightarrow> string list" where
  "references n =
     (case n of
        VisitExpr (UnresolvedName star parts) \<Rightarrow> if star then [] else named (refFromUnresolved star parts)
      | VisitExpr (ColumnItem name parts) \<Rightarrow> named (refFromColumnItem name parts)
      | _ \<Rightarrow> [])"

definition conflict_names :: "statement \<Rightarrow> string list" where
  "conflict_names stmt =
     (case stmt of
        Insert _ _ _ _ _ (Some oc) _ \<Rightarrow> filter (\<lambda>n. n \<noteq> []) (oc_columns oc @ concat (map ue_names (oc_exprs oc)))
      | _ \<Rightarrow> [])"

lemma ref_add_eq: "ref_add ref v = fold add_once (named ref) v"
  by (simp add: ref_add_def named_def)

lemma ref_pre_eq: "ref_pre n v = (below_ref n, fold add_once (references n) v)"
proof (cases n)
  case (VisitExpr e)
  then show ?thesis by (cases e) (simp_all add: ref_pre_def below_ref_def references_def ref_add_eq)
qed (simp_all add: ref_pre_def below_ref_def references_def)

lemma add_names: "fold (\<lambda>n. ref_add ([], n)) ns v = fold add_once (filter (\<lambda>n. n \<noteq> []) ns) v"
  by (induction ns arbitrary: v) (simp_all add: ref_add_def rendered_ref_def)

lemma addOnConflictNameLists_eq:
  "addOnConflictNameLists oc v =
     fold add_once (filter (\<lambda>n. n \<noteq> []) (oc_columns oc @ concat (map ue_names (oc_exprs oc)))) v"
proof -
  have "fold (\<lambda>e. fold (\<lambda>n. ref_add ([], n)) (ue_names e)) es v
    = fold add_once (filter (\<lambda>n. n \<noteq> []) (concat (map ue_names es))) v" for es :: "expr update_expr list" and v
    by (induction es arbitrary: v) (simp_all add: add_names)
  then show ?thesis by (simp add: addOnConflictNameLists_def add_names)
qed

lemma collectReferences_eq:
  "collectReferences api stmt = snd (fold add_once
     (concat (map references (reached below_ref (WalkStmt api stmt))) @ conflict_names stmt) ({}, []))"
proof -
  have "run_visitor ref_pre (\<lambda>n v. v) w v = fold (\<lambda>n. fold add_once (references n)) (reached below_ref w) v" for w v
    by (rule run_visitor_fold) (rule ref_pre_eq)
  moreover have "fold (\<lambda>n. fold add_once (references n)) ns v = fold add_once (concat (map references ns)) v" for ns v
    by (induction ns arbitrary: v) simp_all
  ultimately show ?thesis
    by (simp add: collectReferences_def conflict_names_def Let_def addOnConflictNameLists_eq split: statement.split option.split)
qed

lemma collectReferences_keys:
  "set (map to_lower (collectReferences api stmt)) =
     to_lower ` ((\<Union>n \<in> set (reached below_ref (WalkStmt api stmt)). set (references n)) \<union> set (conflict_names stmt))"
  unfolding collectReferences_eq once_keys by (simp add: image_Un)

section \<open>Predicates, joins and severities\<close>

fun conjuncts :: "expr \<Rightarrow> expr list" where
  "conjuncts (AndExpr l r) = conjuncts l @ conjuncts r"
| "conjuncts e = [e]"

lemma walkConjuncts_eq: "walkConjuncts pr e out = out @ map pr (conjuncts e)"
  by (induction pr e out rule: walkConjuncts.induct) simp_all

text \<open>Under any reading of the expressions in which \<open>AND\<close> is a conjunction the predicates say what the clause says.\<close>

lemma conjuncts_eval:
  assumes "\<And>a b. holds (AndExpr a b) \<longleftrightarrow> holds a \<and> holds b"
  shows "(\<forall>c \<in> set (conjuncts e). holds c) \<longleftrightarrow> holds e"
  by (induction e rule: conjuncts.induct) (auto simp: assms)

lemma conjuncts_no_and: "AndExpr a b \<notin> set (conjuncts e)"
  by (induction e rule: conjuncts.induct) auto

fun post_order :: "visit \<Rightarrow> visited list" where
  "post_order (Visit n ns) = concat (map post_order ns) @ [n]"

lemma run_visitor_post: "run_visitor (\<lambda>n s. (True, s)) post v s = fold post (post_order v) s"
proof (induction v arbitrary: s)
  case (Visit n ns)
  have "fold (run_visitor (\<lambda>n s. (True, s)) post) ms t = fold post (concat (map post_order ms)) t" if "set ms \<subseteq> set ns" for ms t
    using that by (induction ms arbitrary: t) (auto simp: Visit.IH)
  from this [of ns] show ?case by simp
qed

lemma collectJoins_eq:
  "collectJoins api v = List.map_filter
     (\<lambda>n. case n of VisitTable (JoinTableExpr jt l r cond) \<Rightarrow> Some (joinFrom api jt l r cond) | _ \<Rightarrow> None) (post_order v)"
proof -
  have "fold (join_post api) ns js = js @ List.map_filter
      (\<lambda>n. case n of VisitTable (JoinTableExpr jt l r cond) \<Rightarrow> Some (joinFrom api jt l r cond) | _ \<Rightarrow> None) ns" for ns js
  proof (induction ns arbitrary: js)
    case (Cons n ns)
    then show ?case by (cases n; simp add: join_post_def List.map_filter_simps split: table_expr.split)
  qed (simp add: List.map_filter_simps)
  then show ?thesis by (simp add: collectJoins_def run_visitor_post)
qed

lemma highest_severity_from:
  "(\<forall>f \<in> set fs. severityRank (Severity f) \<le> severityRank
      (fold (\<lambda>f h. if severityRank (Severity f) > severityRank h then Severity f else h) fs h))
   \<and> severityRank h \<le> severityRank (fold (\<lambda>f h. if severityRank (Severity f) > severityRank h then Severity f else h) fs h)
   \<and> fold (\<lambda>f h. if severityRank (Severity f) > severityRank h then Severity f else h) fs h \<in> insert h (Severity ` set fs)"
proof (induction fs arbitrary: h)
  case (Cons f fs)
  from Cons [of "if severityRank (Severity f) > severityRank h then Severity f else h"] show ?case
    by (cases "severityRank (Severity f) > severityRank h") auto
qed simp

lemma highest_severity_peak:
  "f \<in> set fs \<Longrightarrow> severityRank (Severity f) \<le> severityRank (highest_severity fs)"
  "highest_severity fs \<in> insert SeverityInfo (Severity ` set fs)"
  using highest_severity_from [of fs SeverityInfo] by (auto simp: highest_severity_def)

lemma summary_position_located:
  assumes "k \<le> length sql" "str_index (drop k sql) (SQL s) \<noteq> None"
  shows "\<exists>pos. summary_positionFromSQL sql (SQL s) k = Ret (pos, snd (stmt_span sql k (SQL s))) \<and> starts_at sql s pos"
proof -
  obtain pos k' where p: "Risk.positionFromSQL sql (SQL s) k = (pos, k')" by fastforce
  have "summary_positionFromSQL sql (SQL s) k = Ret (pos, k')"
    using assms p by (auto simp: summary_positionFromSQL_def positionFromSQL_def Let_def)
  with positionFromSQL_located [OF assms p] show ?thesis by blast
qed

lemma riskLevelFor_returns:
  obtains level where "riskLevelFor api sql = Ret level"
  by (auto simp: riskLevelFor_def Analyze_def DefaultRules_registry)

text \<open>A statement whose text is not in the input takes the next one past its end.\<close>

lemma missing_text_panics:
  assumes "str_index sql (SQL s) = None" "length (SQL s) > length sql"
  shows "\<exists>e. Parsed api [s, t] sql = Panic e"
proof -
  obtain level where "riskLevelFor api (SQL s) = Ret level" by (rule riskLevelFor_returns)
  with assms show ?thesis by (simp add: Parsed_def summary_positionFromSQL_def)
qed


section \<open>Properties\<close>

lemma Parsed_run:
  assumes "located sql 0 stmts"
  shows "\<exists>ss. Parsed api stmts sql = Ret ss \<and> list_all2 (\<lambda>st s.
      starts_at sql st (summary_position s)
      \<and> s = summarizeStatement api (AST st) (RiskLevel s) (summary_position s)
      \<and> riskLevelFor api (SQL st) = Ret (RiskLevel s)) stmts ss"
proof -
  have fields: "RiskLevel (summarizeStatement api a l p) = l" "summary_position (summarizeStatement api a l p) = p" for a l p
    by (simp_all add: summarizeStatement_def split: prod.split)
  have "located sql k stmts \<Longrightarrow> \<exists>ss. Parsed_from api sql k stmts = Ret ss \<and> list_all2 (\<lambda>st s.
      starts_at sql st (summary_position s)
      \<and> s = summarizeStatement api (AST st) (RiskLevel s) (summary_position s)
      \<and> riskLevelFor api (SQL st) = Ret (RiskLevel s)) stmts ss" for k
  proof (induction stmts arbitrary: k)
    case (Cons st stmts)
    then obtain pos where pos: "summary_positionFromSQL sql (SQL st) k = Ret (pos, snd (stmt_span sql k (SQL st)))" "starts_at sql st pos"
      using summary_position_located [of k sql st] by auto
    obtain level where level: "riskLevelFor api (SQL st) = Ret level" by (rule riskLevelFor_returns)
    from Cons obtain ss where "Parsed_from api sql (snd (stmt_span sql k (SQL st))) stmts = Ret ss" "list_all2 (\<lambda>st s.
      starts_at sql st (summary_position s)
      \<and> s = summarizeStatement api (AST st) (RiskLevel s) (summary_position s)
      \<and> riskLevelFor api (SQL st) = Ret (RiskLevel s)) stmts ss" by fastforce
    with pos level show ?case by (simp add: fields)
  qed simp
  from this [OF assms] show ?thesis unfolding Parsed_def .
qed

text \<open>A batch whose statements lie in the input gives one summary per statement, in order, and never panics: each
  is that of its own syntax tree, points at the text of its own statement, and carries the highest severity
  that the risk rules report for that text alone, with info as the baseline.\<close>

theorem Parsed_summaries:
  assumes "located sql 0 stmts"
  shows "\<exists>ss. Parsed api stmts sql = Ret ss \<and> list_all2 (\<lambda>st s.
      starts_at sql st (summary_position s)
      \<and> s = summarizeStatement api (AST st) (RiskLevel s) (summary_position s)
      \<and> (case Analyze (ParseStatement api) (RiskName api) (SQL st) of
           Ret (Inr fs) \<Rightarrow> (\<forall>f \<in> set fs. severityRank (Severity f) \<le> severityRank (RiskLevel s))
             \<and> RiskLevel s \<in> insert SeverityInfo (Severity ` set fs)
         | _ \<Rightarrow> RiskLevel s = SeverityInfo)) stmts ss"
proof -
  from Parsed_run [OF assms] obtain ss where ss: "Parsed api stmts sql = Ret ss" "list_all2 (\<lambda>st s.
      starts_at sql st (summary_position s)
      \<and> s = summarizeStatement api (AST st) (RiskLevel s) (summary_position s)
      \<and> riskLevelFor api (SQL st) = Ret (RiskLevel s)) stmts ss" by blast
  have level: "case Analyze (ParseStatement api) (RiskName api) q of
           Ret (Inr fs) \<Rightarrow> (\<forall>f \<in> set fs. severityRank (Severity f) \<le> severityRank l) \<and> l \<in> insert SeverityInfo (Severity ` set fs)
         | _ \<Rightarrow> l = SeverityInfo" if "riskLevelFor api q = Ret l" for q l
    using that by (auto simp: riskLevelFor_def dest: highest_severity_peak(1) split: outcome.split sum.split)
      (use highest_severity_peak(2) in blast)
  show ?thesis by (rule exI [of _ ss], rule conjI, rule ss(1)) (rule list_all2_mono [OF ss(2)], use level in blast)
qed

definition sample_api :: "unit summarize_api" where
  "sample_api = \<lparr>WalkStmt = \<lambda>s. Visit (VisitStatement s) [], WalkSelect = \<lambda>s. Visit (VisitTable OtherTableExpr) [],
     AsString = \<lambda>_. [], NamesString = concat, ParseStatement = \<lambda>_. Inr sample_batch, RiskName = id\<rparr>"

theorem Parsed_summaries_witness:
  "\<exists>a b. Parsed sample_api sample_batch ''DROP DATABASE d; DELETE FROM t LIMIT 1'' = Ret [a, b]
     \<and> starts_at ''DROP DATABASE d; DELETE FROM t LIMIT 1'' (sample_batch ! 1) (summary_position b)"
proof -
  have l: "located ''DROP DATABASE d; DELETE FROM t LIMIT 1'' 0 sample_batch" by code_simp
  from Parsed_summaries [OF l, of sample_api] obtain ss where ss: "Parsed sample_api sample_batch ''DROP DATABASE d; DELETE FROM t LIMIT 1'' = Ret ss"
    "list_all2 (\<lambda>st s. starts_at ''DROP DATABASE d; DELETE FROM t LIMIT 1'' st (summary_position s)) sample_batch ss"
    by (elim exE conjE) (erule that, erule list_all2_mono, blast)
  then have "length ss = 2" by (auto dest!: list_all2_lengthD simp: sample_batch_def)
  then obtain a b where "ss = [a, b]" by (auto simp: numeral_2_eq_2 length_Suc_conv)
  with ss list_all2_nthD2 [OF ss(2), of 1] show ?thesis by auto
qed

text \<open>C38: The columns of a summary: no column twice, whatever its case, and exactly the names the walker meets as column
  references, those an \<open>ON CONFLICT\<close> clause lists, and every column the statement writes.\<close>

theorem summary_columns:
  "let s = summarizeStatement api stmt level pos in
     distinct (map to_lower (ReferencedColumns s))
     \<and> to_lower ` set (ReferencedColumns s) = to_lower ` ((\<Union>n \<in> set (reached below_ref (WalkStmt api stmt)). set (references n))
         \<union> set (conflict_names stmt) \<union> set (AffectedColumns s))
     \<and> set (ReferencedColumns s) \<subseteq> (\<Union>n \<in> set (reached below_ref (WalkStmt api stmt)). set (references n))
         \<union> set (conflict_names stmt) \<union> set (AffectedColumns s)"
proof -
  obtain oper preds js affected where parts: "statement_parts api stmt = (oper, preds, js, affected)" by (cases "statement_parts api stmt") auto
  let ?refs = "collectReferences api stmt"
  have "set ?refs \<subseteq> (\<Union>n \<in> set (reached below_ref (WalkStmt api stmt)). set (references n)) \<union> set (conflict_names stmt)"
    using fold_add_once_set [of "concat (map references (reached below_ref (WalkStmt api stmt))) @ conflict_names stmt" "({}, [])"]
    unfolding collectReferences_eq by simp
  then have sub: "set ?refs \<union> set affected \<subseteq> (\<Union>n \<in> set (reached below_ref (WalkStmt api stmt)). set (references n))
      \<union> set (conflict_names stmt) \<union> set affected" by (rule Un_mono) (rule subset_refl)
  have fields: "ReferencedColumns (summarizeStatement api stmt level pos) = mergeColumns ?refs affected"
    "AffectedColumns (summarizeStatement api stmt level pos) = affected"
    by (simp_all add: summarizeStatement_def parts)
  have keys: "to_lower ` set ?refs = to_lower ` ((\<Union>n \<in> set (reached below_ref (WalkStmt api stmt)). set (references n)) \<union> set (conflict_names stmt))"
    using collectReferences_keys [of api stmt] unfolding set_map .
  show ?thesis unfolding Let_def fields
  proof (intro conjI)
    show "distinct (map to_lower (mergeColumns ?refs affected))" by (rule mergeColumns_spec(1))
    show "to_lower ` set (mergeColumns ?refs affected) = to_lower ` ((\<Union>n \<in> set (reached below_ref (WalkStmt api stmt)). set (references n))
        \<union> set (conflict_names stmt) \<union> set affected)"
      using mergeColumns_spec(2) [of ?refs affected] unfolding set_map image_Un keys .
    show "set (mergeColumns ?refs affected) \<subseteq> (\<Union>n \<in> set (reached below_ref (WalkStmt api stmt)). set (references n))
        \<union> set (conflict_names stmt) \<union> set affected"
      by (rule subset_trans [OF mergeColumns_spec(3) sub])
  qed
qed

text \<open>The tables of a summary: no table twice, only tables that the walker meets, none that the statement's own
  \<open>WITH\<close> declares, and every table that no \<open>WITH\<close> clause or alias met on the walk is called.\<close>

theorem summary_tables:
  "let ns = reached below_table (WalkStmt api stmt); ts = collectTables api stmt in
     distinct (map to_lower ts) \<and> set ts \<subseteq> set (table_names ns)
     \<and> to_lower ` set ts \<inter> declared (VisitStatement stmt) = {}
     \<and> to_lower ` set (table_names ns) - (declared (VisitStatement stmt) \<union> (\<Union>n \<in> set ns. declared n)) \<subseteq> to_lower ` set ts"
proof -
  let ?ns = "reached below_table (WalkStmt api stmt)" let ?d = "declared (VisitStatement stmt)"
  have sub: "set (collectTables api stmt) \<subseteq> set (undeclared ?d ?ns)"
    using fold_add_once_set [of "undeclared ?d ?ns" "({}, [])"] by (simp add: collectTables_eq)
  have keys: "to_lower ` set (collectTables api stmt) = to_lower ` set (undeclared ?d ?ns)"
    using once_keys [of "undeclared ?d ?ns"] by (simp add: collectTables_eq)
  have scope: "to_lower t \<notin> sc" if "t \<in> set (undeclared sc ns)" for t sc ns
    using that by (induction ns arbitrary: sc) auto
  have "set (collectTables api stmt) \<subseteq> set (table_names ?ns)" using sub undeclared_subset by blast
  moreover have "to_lower ` set (collectTables api stmt) \<inter> ?d = {}" using keys scope by auto
  moreover have "to_lower ` set (table_names ?ns) - (?d \<union> (\<Union>n \<in> set ?ns. declared n)) \<subseteq> to_lower ` set (collectTables api stmt)"
    unfolding keys using undeclared_complete [of _ ?ns ?d] by blast
  ultimately show ?thesis unfolding Let_def collectTables_eq using once_distinct by blast
qed

text \<open>
  An alias counts as declared when the table behind it is met, so a table whose alias is its own name, as
  in \<open>SELECT * FROM users AS users\<close>, is not among the tables of the statement.
\<close>

lemma self_alias_hides_table:
  assumes "WalkStmt api stmt = Visit (VisitStatement stmt) [Visit (VisitTable (AliasedTableExpr (TableName tn) (Table tn) cols))
      [Visit (VisitTable (TableName tn)) []]]" "withClause stmt = []"
  shows "collectTables api stmt = []"
  unfolding collectTables_eq assms(1)
  by (auto simp: below_table_def declared_def assms(2) table_names_def List.map_filter_simps)

end
