(* ===== verification/Mcp_Server.thy ===== *)
theory Mcp_Server
  imports Mcp_Catalog Summarize Route
begin

text \<open>
  The MCP server of \<open>internal/mcp/server.go\<close> with the routing of \<open>routing.go\<close>: which tools there are, and which calls
  go to a sibling with another parser. The transport, the registry of the \<open>mcp-go\<close> library and the siblings
  are outside; a router answers a forwarded call with a result or with a Go error.
\<close>

section \<open>\<open>summarize_sql\<close>\<close>

definition SummarizeSQLHandler ::
    "'e tool_env \<Rightarrow> 'e summarize_api \<Rightarrow> (summary list \<Rightarrow> string + string) \<Rightarrow> string \<Rightarrow> string \<Rightarrow> request \<Rightarrow> tool_result outcome" where
  "SummarizeSQLHandler te api marshal pv dflt req = parser_tool te pv dflt req (\<lambda>env stmts sql.
     obind (Parsed api stmts sql) (\<lambda>summaries.
     Ret (case marshal summaries of
            Inl e \<Rightarrow> ToolError (''encode summaries: '' @ e)
          | Inr d \<Rightarrow> envelopeResult (MarshalEnvelope te) (env\<lparr>edata := Some d\<rparr>))))"

section \<open>Routing\<close>

text \<open>A call is the tool's name and its arguments. An answer is a Go error or a result with what was sent to a cluster.\<close>

type_synonym tool_call = "string \<times> request"

type_synonym tool_answer = "(string + tool_result \<times> wire list) outcome"

type_synonym router = "quarter \<Rightarrow> tool_call \<Rightarrow> tool_answer"

type_synonym handler = "tool_call \<Rightarrow> tool_answer"

definition local_handler :: "(request \<Rightarrow> call_result) \<Rightarrow> handler" where
  "local_handler h c = obind (h (snd c)) (\<lambda>r. Ret (Inr r))"

definition withRouting :: "handler \<Rightarrow> string \<Rightarrow> quarter \<Rightarrow> router \<Rightarrow> handler" where
  "withRouting h defaultTargetVersion built router c =
     (case resolveTargetVersion (snd c) defaultTargetVersion of
        Inl e \<Rightarrow> Ret (Inr (ToolError e, []))
      | Inr target \<Rightarrow>
          (case routeTarget built target of
             Some want \<Rightarrow> router want c
           | None \<Rightarrow> h c))"

definition NoopRouter :: router where
  "NoopRouter want c = Ret (Inr (ToolError
     (''per-call target_version routing is not enabled in this MCP server; cannot serve '' @ BackendName want), []))"

text \<open>What the pool answers with when no sibling of the quarter is installed.\<close>

definition missingBackendResult :: "host \<Rightarrow> quarter \<Rightarrow> tool_result" where
  "missingBackendResult h want =
     ToolError (''target_version requires the '' @ BackendName want
       @ '' backend, which is not installed alongside this binary or in $PATH.'' @ [newline]
       @ (case Built h of
            Some b \<Rightarrow> ''This MCP server is '' @ BackendName b @ ''.'' @ [newline]
          | None \<Rightarrow> ''This MCP server's quarter is unknown.'' @ [newline])
       @ (let backends = Discover h in
          if length backends = 0 then ''No backends discovered.'' @ [newline]
          else ''Available backends:'' @ [newline] @ concat (map backend_line backends))
       @ ''Install the '' @ Tag want @ '' backend from the GitHub release, or omit target_version to use the bundled parser.'')"

section \<open>Starting a sibling\<close>

text \<open>
  The client library: the error of starting the process, of the handshake (with whether its deadline passed)
  and of closing it. The events are what happened to the child process.
\<close>

record client_api =
  NewStdioMCPClient :: "string \<Rightarrow> string option"
  InitializeClient :: "string \<Rightarrow> (bool \<times> string) option"
  CloseClient :: "string \<Rightarrow> string option"

datatype child_event = ChildStarted string | ChildClosed string

definition spawnAndInit :: "client_api \<Rightarrow> quarter \<Rightarrow> string \<Rightarrow> string \<Rightarrow> (go_error + string) \<times> child_event list" where
  "spawnAndInit api want path initTimeout =
     (case NewStdioMCPClient api path of
        Some e \<Rightarrow> (Inl (Err (''spawn '' @ path @ '': '' @ e)), [])
      | None \<Rightarrow>
          (case InitializeClient api path of
             None \<Rightarrow> (Inr path, [ChildStarted path])
           | Some (deadlineExceeded, e) \<Rightarrow>
               (let wrapped = (if deadlineExceeded
                       then Err (''initialize '' @ BackendName want @ '' ('' @ path @ ''): exceeded init timeout '' @ initTimeout @ '': '' @ e)
                       else Err (''initialize '' @ BackendName want @ '' ('' @ path @ ''): '' @ e));
                    failure = (case CloseClient api path of
                        Some ce \<Rightarrow> Joined wrapped (Err (''close after failed init: '' @ ce))
                      | None \<Rightarrow> wrapped)
                in (Inl failure, [ChildStarted path, ChildClosed path]))))"

text \<open>A child that was started is handed out or closed, never both and never neither.\<close>

lemma spawnAndInit_no_leak:
  "spawnAndInit api want path t = (r, evs) \<Longrightarrow>
     (\<exists>e. r = Inl e \<and> (evs = [] \<or> evs = [ChildStarted path, ChildClosed path])) \<or> r = Inr path \<and> evs = [ChildStarted path]"
  by (auto simp: spawnAndInit_def Let_def split: option.splits)

section \<open>The server\<close>

record 'e server_env =
  Catalogs :: "'e catalog_env"
  Summaries :: "'e summarize_api"
  MarshalSummaries :: "summary list \<Rightarrow> string + string"
  MarshalPing :: "string \<Rightarrow> string + string"
  Host :: host

record server_options =
  opt_router :: router
  builtOverride :: quarter

definition WithRouter :: "router \<Rightarrow> server_options \<Rightarrow> server_options" where
  "WithRouter r opts = opts\<lparr>opt_router := r\<rparr>"

definition WithBuiltQuarter :: "quarter \<Rightarrow> server_options \<Rightarrow> server_options" where
  "WithBuiltQuarter q opts = opts\<lparr>builtOverride := q\<rparr>"

definition server_config :: "(server_options \<Rightarrow> server_options) list \<Rightarrow> server_options" where
  "server_config opts = fold (\<lambda>opt cfg. opt cfg) opts \<lparr>opt_router = NoopRouter, builtOverride = zero_quarter\<rparr>"

definition server_built :: "host \<Rightarrow> server_options \<Rightarrow> quarter" where
  "server_built h cfg =
     (if \<not> IsZero (builtOverride cfg) then builtOverride cfg
      else (case Built h of None \<Rightarrow> zero_quarter | Some q \<Rightarrow> q))"

definition pingHandler :: "(string \<Rightarrow> string + string) \<Rightarrow> string \<Rightarrow> request \<Rightarrow> call_result" where
  "pingHandler marshal parserVersion req =
     no_contact (case marshal parserVersion of
                   Inl e \<Rightarrow> ToolError (''encode ping result: '' @ e)
                 | Inr body \<Rightarrow> ToolText body)"

text \<open>A parser-only handler sends nothing.\<close>

definition offline :: "(request \<Rightarrow> tool_result outcome) \<Rightarrow> request \<Rightarrow> call_result" where
  "offline h req = obind (h req) no_contact"

text \<open>The handlers that \<open>NewServer\<close> wraps, by the name of their tool, and those it does not.\<close>

definition versioned_tools :: "'e server_env \<Rightarrow> string \<Rightarrow> string \<Rightarrow> (string \<times> (request \<Rightarrow> call_result)) list" where
  "versioned_tools se pv dflt =
     (let ce = Cluster (Catalogs se); te = Tools ce in
      [(''parse_sql'', offline (ParseSQLHandler te pv dflt)),
       (''validate_sql'', offline (ValidateSQLHandler te pv dflt)),
       (''format_sql'', offline (FormatSQLHandler te pv dflt)),
       (''detect_risky_sql'', offline (DetectRiskySQLHandler te pv dflt)),
       (''summarize_sql'', offline (SummarizeSQLHandler te (Summaries se) (MarshalSummaries se) pv dflt)),
       (''explain_sql'', ExplainSQLHandler ce pv dflt),
       (''simulate_sql'', SimulateSQLHandler ce pv dflt),
       (''execute_sql'', ExecuteSQLHandler ce pv dflt)])"

definition unversioned_tools :: "'e server_env \<Rightarrow> string \<Rightarrow> (string \<times> (request \<Rightarrow> call_result)) list" where
  "unversioned_tools se pv =
     [(''ping'', pingHandler (MarshalPing se) pv),
      (''list_tables'', ListTablesHandler (Catalogs se) pv),
      (''describe_table'', DescribeTableHandler (Catalogs se) pv)]"

definition NewServer ::
    "'e server_env \<Rightarrow> string \<Rightarrow> string \<Rightarrow> (server_options \<Rightarrow> server_options) list \<Rightarrow> (string \<times> handler) list" where
  "NewServer se parserVersion defaultTargetVersion opts =
     (let cfg = server_config opts; built = server_built (Host se) cfg in
      map (\<lambda>(n, h). (n, local_handler h)) (unversioned_tools se parserVersion)
      @ map (\<lambda>(n, h). (n, withRouting (local_handler h) defaultTargetVersion built (opt_router cfg)))
          (versioned_tools se parserVersion defaultTargetVersion))"

section \<open>Which parser answers\<close>

lemma routeTarget_eq:
  "routeTarget built target = (if target = [] \<or> IsZero built then None
     else case ParseFromTarget target of Some want \<Rightarrow> if want = built then None else Some want | None \<Rightarrow> None)"
  by (auto simp: routeTarget_def split: option.split)

text \<open>Every wrapped handler reads the target version itself and rejects what the wrapper rejects.\<close>

lemma parser_tool_rejects:
  "resolveTargetVersion req dflt = Inl e \<Longrightarrow> \<exists>e'. parser_tool te pv dflt req body = Ret (ToolError e')"
  by (cases "extractSQL req") (simp_all add: parser_tool_def)

lemma connected_params_rejects:
  "resolveTargetVersion req dflt = Inl e \<Longrightarrow> \<exists>e'. connected_params ce dflt req = Inl e'"
  by (cases "extractRequiredString req ''sql''"; cases "extractRequiredString req ''dsn''") (simp_all add: connected_params_def)

lemma versioned_rejects:
  assumes "(n, h) \<in> set (versioned_tools se pv dflt)" "resolveTargetVersion req dflt = Inl e"
  shows "\<exists>e'. h req = Ret (ToolError e', [])"
proof -
  have plan: "\<exists>e'. planning_tool ce pv dflt req op run finish = Ret (ToolError e', [])" for ce :: "'a cluster_env" and op run and finish :: "'x \<Rightarrow> envelope \<Rightarrow> tool_result"
    using connected_params_rejects [OF assms(2), of ce] by (auto simp: planning_tool_def no_contact_def)
  have val: "\<exists>e'. ValidateSQLHandler te pv dflt req = Ret (ToolError e')" for te :: "'a tool_env"
    by (cases "extractSQL req") (simp_all add: ValidateSQLHandler_def assms(2))
  have exe: "\<exists>e'. ExecuteSQLHandler ce pv dflt req = Ret (ToolError e', [])" for ce :: "'a cluster_env"
    using connected_params_rejects [OF assms(2), of ce] by (auto simp: ExecuteSQLHandler_def no_contact_def)
  have off: "\<exists>e'. offline g req = Ret (ToolError e', [])" if "\<exists>e'. g req = Ret (ToolError e')" for g
    using that by (auto simp: offline_def no_contact_def)
  have parsers: "\<exists>e'. ParseSQLHandler te pv dflt req = Ret (ToolError e')" "\<exists>e'. FormatSQLHandler te pv dflt req = Ret (ToolError e')"
    "\<exists>e'. DetectRiskySQLHandler te pv dflt req = Ret (ToolError e')" "\<exists>e'. SummarizeSQLHandler te api mar pv dflt req = Ret (ToolError e')"
    for te :: "'a tool_env" and api :: "'a summarize_api" and mar
    unfolding ParseSQLHandler_def FormatSQLHandler_def DetectRiskySQLHandler_def SummarizeSQLHandler_def
    by (rule parser_tool_rejects [OF assms(2)])+
  have plans: "\<exists>e'. ExplainSQLHandler ce pv dflt req = Ret (ToolError e', [])" "\<exists>e'. SimulateSQLHandler ce pv dflt req = Ret (ToolError e', [])"
    for ce :: "'a cluster_env"
    unfolding ExplainSQLHandler_def SimulateSQLHandler_def by (rule plan)+
  have offs: "\<exists>e'. offline (ParseSQLHandler te pv dflt) req = Ret (ToolError e', [])" "\<exists>e'. offline (FormatSQLHandler te pv dflt) req = Ret (ToolError e', [])"
    "\<exists>e'. offline (DetectRiskySQLHandler te pv dflt) req = Ret (ToolError e', [])" "\<exists>e'. offline (SummarizeSQLHandler te api mar pv dflt) req = Ret (ToolError e', [])"
    "\<exists>e'. offline (ValidateSQLHandler te pv dflt) req = Ret (ToolError e', [])" for te :: "'a tool_env" and api :: "'a summarize_api" and mar
    by (rule off, rule parsers)+ (rule off, rule val)
  from assms(1) show ?thesis unfolding versioned_tools_def Let_def list.set insert_iff empty_iff prod.inject simp_thms
    by (elim disjE conjE) (hypsubst, rule offs exe plans)+
qed



section \<open>Every call returns\<close>

fun returns :: "'a outcome \<Rightarrow> bool" where
  "returns (Ret _) = True"
| "returns (Panic _) = False"

lemma returns_iff: "returns x \<longleftrightarrow> (\<exists>r. x = Ret r)"
  by (cases x) simp_all

lemma returns_obind: "returns x \<Longrightarrow> (\<And>r. returns (f r)) \<Longrightarrow> returns (obind x f)"
  by (cases x) simp_all

lemma returns_parts: "returns (Inspect stmts target None)" "returns (AnalyzeParsed name stmts sql)"
  using Inspect_returns AnalyzeParsed_returns by (auto simp: returns_iff)

lemma planning_tool_returns: "returns (planning_tool ce pv dflt req op run finish)"
proof (cases "connected_params ce dflt req")
  case (Inr p)
  obtain sql name target mo timeout where "p = (sql, name, target, mo, timeout)" by (metis prod_cases5)
  with Inr show ?thesis
    by (simp add: planning_tool_eq Let_def split: sum.split option.split)
qed (simp add: planning_tool_def no_contact_def)

lemma ExecuteSQLHandler_returns: "returns (ExecuteSQLHandler ce pv dflt req)"
proof (cases "connected_params ce dflt req")
  case (Inr p)
  obtain sql name target mo timeout where p: "p = (sql, name, target, mo, timeout)" by (metis prod_cases5)
  show ?thesis
  proof (cases "resolveMaxRows (OverflowInt ce) req defaultExecuteMaxRows")
    case (Inl e)
    with Inr p show ?thesis by (simp add: ExecuteSQLHandler_def no_contact_def)
  next
    case rows: (Inr maxRows)
    show ?thesis
    proof (cases "ParseSQL ce (StripShellPrompts sql)")
      case (Inl perr)
      with Inr p rows show ?thesis by (simp add: ExecuteSQLHandler_eq Let_def)
    next
      case stmts: (Inr stmts)
      obtain ws where "Inspect stmts target None = Ret ws" using Inspect_returns by blast
      with Inr p rows stmts show ?thesis
        by (simp add: ExecuteSQLHandler_eq Let_def split: sum.split option.split)
    qed
  qed
qed (simp add: ExecuteSQLHandler_def no_contact_def)

lemma offline_returns: "returns (h req) \<Longrightarrow> returns (offline h req)"
  by (cases "h req") (simp_all add: offline_def no_contact_def)

lemma parser_tool_returns:
  assumes "\<And>env stmts sql. Parse (Front te) sql = Inr stmts \<Longrightarrow> returns (body env stmts sql)"
  shows "returns (parser_tool te pv dflt req body)"
proof (cases "isl (extractSQL req) \<or> isl (resolveTargetVersion req dflt)")
  case True
  then show ?thesis by (auto simp: parser_tool_def split: sum.splits)
next
  case False
  then obtain sql target where p: "extractSQL req = Inr sql" "resolveTargetVersion req dflt = Inr target"
    by (cases "extractSQL req"; cases "resolveTargetVersion req dflt") auto
  show ?thesis
    by (simp add: parser_tool_eq [OF p] Let_def split: sum.split) (blast intro: returns_obind returns_parts assms)
qed

lemma SummarizeSQLHandler_returns:
  assumes "locating (Front te)"
  shows "returns (SummarizeSQLHandler te api marshal pv dflt req)"
  unfolding SummarizeSQLHandler_def
proof (rule parser_tool_returns)
  fix env sql and stmts :: "parsed list"
  assume "Parse (Front te) sql = Inr stmts"
  with assms have "located sql 0 stmts" by (simp add: locating_def)
  then have "returns (Parsed api stmts sql)" using Parsed_run [of sql stmts api] by (auto simp: returns_iff)
  then show "returns (obind (Parsed api stmts sql) (\<lambda>summaries. Ret (case marshal summaries of
      Inl e \<Rightarrow> ToolError (''encode summaries: '' @ e) | Inr d \<Rightarrow> envelopeResult (MarshalEnvelope te) (env\<lparr>edata := Some d\<rparr>))))"
    by (rule returns_obind) simp
qed

lemma ValidateSQLHandler_returns:
  assumes "locating (Front te)"
  shows "returns (ValidateSQLHandler te pv dflt req)"
proof (cases "isl (extractSQL req) \<or> isl (resolveTargetVersion req dflt) \<or> isl (extractSchemas req False)")
  case True
  then show ?thesis by (auto simp: ValidateSQLHandler_def split: sum.splits)
next
  case False
  then obtain sql target srcs where ok: "extractSQL req = Inr sql" "resolveTargetVersion req dflt = Inr target"
    "extractSchemas req False = Inr srcs" by (cases "extractSQL req"; cases "resolveTargetVersion req dflt"; cases "extractSchemas req False") auto
  show ?thesis
  proof (cases "Parse (Front te) (StripShellPrompts sql)")
    case (Inr stmts)
    obtain ws where ws: "Inspect stmts target None = Ret ws" using Inspect_returns by blast
    have "located (StripShellPrompts sql) 0 stmts" using assms Inr by (simp add: locating_def)
    then have "returns (Run (Front te) stmts (StripShellPrompts sql) cat)" for cat
      using Run_returns by (auto simp: returns_iff)
    then have "returns (obind (Run (Front te) stmts (StripShellPrompts sql) cat) (\<lambda>r. Ret (f r)))" for cat and f :: "_ \<Rightarrow> tool_result"
      by (rule returns_obind) simp
    with Inr ws show ?thesis by (simp add: ValidateSQLHandler_eq [OF ok] Let_def split: sum.split prod.split)
  qed (simp add: ValidateSQLHandler_eq [OF ok] Let_def)
qed

lemma parser_handlers_return:
  "returns (ParseSQLHandler te pv dflt req)" "returns (FormatSQLHandler te pv dflt req)"
  "returns (DetectRiskySQLHandler te pv dflt req)"
  unfolding ParseSQLHandler_def FormatSQLHandler_def DetectRiskySQLHandler_def
  by (rule parser_tool_returns, simp, rule parser_tool_returns, simp split: sum.split,
      rule parser_tool_returns, rule returns_obind [OF returns_parts(2)], simp)

lemma catalog_handlers_return: "returns (ListTablesHandler ke pv req)" "returns (DescribeTableHandler ke pv req)"
  by (simp_all add: ListTablesHandler_def DescribeTableHandler_def listTablesLive_def describeTableLive_def
      listTablesFromSchemas_def describeTableFromSchemas_def no_contact_def Let_def split: sum.split prod.split)

lemma pingHandler_returns: "returns (pingHandler mar pv req)"
  by (simp add: pingHandler_def no_contact_def Let_def split: sum.split)

lemma handlers_return:
  assumes "locating (Front (tool_env_of (Catalogs se)))"
    and "(n, g) \<in> set (unversioned_tools se pv) \<union> set (versioned_tools se pv dflt)"
  shows "returns (g req)"
proof -
  note offline = parser_handlers_return [THEN offline_returns] SummarizeSQLHandler_returns [OF assms(1), THEN offline_returns]
    ValidateSQLHandler_returns [OF assms(1), THEN offline_returns]
  from assms(2) show ?thesis
    unfolding unversioned_tools_def versioned_tools_def Let_def ExplainSQLHandler_def SimulateSQLHandler_def
      Un_iff list.set insert_iff empty_iff prod.inject simp_thms
    by (elim disjE conjE)
      (hypsubst, rule offline catalog_handlers_return planning_tool_returns ExecuteSQLHandler_returns pingHandler_returns)+
qed

text \<open>C10: Every call of every tool of the server returns: no text, no arguments and no behaviour of the cluster makes a
  handler panic, as long as the router and the parser return, and the parser's statements are substrings
  of the text in order.\<close>

theorem server_returns:
  assumes "locating (Front (tool_env_of (Catalogs se)))" "(n, h) \<in> set (NewServer se pv dflt opts)"
    and "\<And>want c. \<exists>r. opt_router (server_config opts) want c = Ret r"
  shows "\<exists>r. h c = Ret r"
proof -
  have local: "returns (local_handler g c)" if "(n, g) \<in> set (unversioned_tools se pv) \<union> set (versioned_tools se pv dflt)" for g
    unfolding local_handler_def by (rule returns_obind [OF handlers_return [OF assms(1) that]]) simp
  have routed: "returns (opt_router (server_config opts) want c)" for want using assms(3) by (simp add: returns_iff)
  from assms(2) consider g where "(n, g) \<in> set (unversioned_tools se pv)" "h = local_handler g"
    | g built where "(n, g) \<in> set (versioned_tools se pv dflt)" "h = withRouting (local_handler g) dflt built (opt_router (server_config opts))"
    unfolding NewServer_def Let_def by auto
  then have "returns (h c)"
    by cases (use local routed in \<open>simp_all add: withRouting_def split: sum.split option.split\<close>)
  then show ?thesis by (simp add: returns_iff)
qed

definition sample_summaries :: "unit summarize_api" where
  "sample_summaries = Summarize.sample_api"

definition sample_host :: host where
  "sample_host = \<lparr>os_Executable = None, on_windows = False, builtQuarterStamp = ''v262'', build_info = None, path_list = [],
     os_ReadDir = \<lambda>_. None, os_Stat = \<lambda>_. None, fp_Abs = \<lambda>_. None, fp_Base = id, fp_Dir = id, fp_Join = (@), syscall_Exec = \<lambda>_ _. None\<rparr>"

definition sample_server :: "unit server_env" where
  "sample_server = \<lparr>Catalogs = sample_catalog_env, Summaries = sample_summaries, MarshalSummaries = \<lambda>_. Inr [], MarshalPing = Inr, Host = sample_host\<rparr>"


definition quiet_server :: "unit server_env" where
  "quiet_server = sample_server\<lparr>Catalogs := sample_catalog_env\<lparr>Cluster := sample_cluster []\<rparr>\<rparr>"

theorem server_returns_witness:
  "\<exists>h r. (''execute_sql'', h) \<in> set (NewServer quiet_server ''v'' [] []) \<and> h (''execute_sql'', sample_call) = Ret r"
proof -
  obtain h where h: "(''execute_sql'', h) \<in> set (NewServer quiet_server ''v'' [] [])"
    by (auto simp: NewServer_def versioned_tools_def Let_def)
  have "locating (Front (tool_env_of (Catalogs quiet_server)))"
    by (simp add: locating_def quiet_server_def sample_cluster_def)
  from server_returns [OF this h] h show ?thesis
    by (auto simp: server_config_def NoopRouter_def)
qed

end
