(* ===== verification/Config.thy ===== *)
theory Config
  imports Go_Prelude
begin

text \<open>
  \<open>internal/config/config.go\<close>: finding, loading and checking \<open>crdb-sql.yaml\<close>, and the expansion of its globs.
  The file system, the strict YAML decoder, \<open>path/filepath\<close> and the glob library are a record of functions.
\<close>

section \<open>The file\<close>

record sql_pair =
  Schema :: "string list"
  Queries :: "string list"

record config_file =
  Version :: int
  SQLPairs :: "sql_pair list"
  BaseDir :: string

text \<open>A failed \<open>os.Stat\<close> says whether the error is \<open>os.ErrNotExist\<close>; a decoded file has no \<open>BaseDir\<close> yet.\<close>

record config_api =
  cfg_Stat :: "string \<Rightarrow> (bool \<times> string) + int"
  cfg_ReadFile :: "string \<Rightarrow> string + string"
  cfg_Decode :: "string \<Rightarrow> string + int \<times> sql_pair list"
  cfg_Dir :: "string \<Rightarrow> string"
  cfg_IsAbs :: "string \<Rightarrow> bool"
  cfg_Join :: "string \<Rightarrow> string \<Rightarrow> string"
  cfg_Glob :: "string \<Rightarrow> string + string list"

definition SupportedVersion :: int where
  "SupportedVersion = 1"

definition DefaultFilenames :: "string list" where
  "DefaultFilenames = [''crdb-sql.yaml'', ''crdb-sql.yml'']"

definition MaxConfigFileSize :: int where
  "MaxConfigFileSize = 1048576"

definition Load_config :: "config_api \<Rightarrow> string \<Rightarrow> string + config_file" where
  "Load_config api path =
     (case cfg_Stat api path of
        Inl (_, e) \<Rightarrow> Inl (''stat config file '' @ path @ '': '' @ e)
      | Inr bytes \<Rightarrow>
          if bytes > MaxConfigFileSize
          then Inl (''config file '' @ path @ '' is too large ('' @ itoa bytes @ '' bytes, max '' @ itoa MaxConfigFileSize @ '')'')
          else
            (case cfg_ReadFile api path of
               Inl e \<Rightarrow> Inl (''read config file '' @ path @ '': '' @ e)
             | Inr data \<Rightarrow>
                 (case cfg_Decode api data of
                    Inl e \<Rightarrow> Inl (''parse config file '' @ path @ '': '' @ e)
                  | Inr (v, pairs) \<Rightarrow>
                      if v \<noteq> SupportedVersion
                      then Inl (''config file '' @ path @ '': unsupported version '' @ itoa v
                             @ '' (this build supports version '' @ itoa SupportedVersion @ '')'')
                      else Inr \<lparr>Version = v, SQLPairs = pairs, BaseDir = cfg_Dir api path\<rparr>)))"

text \<open>The loop of \<open>Discover\<close>; a result without file and error is \<open>nil, nil\<close>.\<close>

fun discover_loop :: "config_api \<Rightarrow> string \<Rightarrow> string list \<Rightarrow> string + config_file option" where
  "discover_loop api cwd [] = Inr None"
| "discover_loop api cwd (name # names) =
     (let path = cfg_Join api cwd name in
      case cfg_Stat api path of
        Inr _ \<Rightarrow> map_sum id Some (Load_config api path)
      | Inl (not_exist, e) \<Rightarrow>
          if \<not> not_exist then Inl (''stat candidate config '' @ path @ '': '' @ e)
          else discover_loop api cwd names)"

definition Discover_config :: "config_api \<Rightarrow> string \<Rightarrow> string + config_file option" where
  "Discover_config api cwd = discover_loop api cwd DefaultFilenames"

section \<open>Globs\<close>

text \<open>The inner loop appends the matches not seen before to the list; \<open>seen\<close> is its set of elements.\<close>

definition add_match :: "string \<Rightarrow> string list \<Rightarrow> string list" where
  "add_match m out = (if m \<in> set out then out else out @ [m])"

fun glob_loop :: "config_api \<Rightarrow> string \<Rightarrow> string list \<Rightarrow> string list \<Rightarrow> string + string list" where
  "glob_loop api baseDir [] out = Inr out"
| "glob_loop api baseDir (pat # pats) out =
     (let full = (if cfg_IsAbs api pat then pat else cfg_Join api baseDir pat) in
      case cfg_Glob api full of
        Inl e \<Rightarrow> Inl (''expand glob '' @ quote pat @ '': '' @ e)
      | Inr matches \<Rightarrow> glob_loop api baseDir pats (fold add_match matches out))"

definition expandGlobs :: "config_api \<Rightarrow> string \<Rightarrow> string list \<Rightarrow> string + string list" where
  "expandGlobs api baseDir patterns =
     (if length patterns = 0 then Inr []
      else (case glob_loop api baseDir patterns [] of Inl e \<Rightarrow> Inl e | Inr out \<Rightarrow> Inr (sort out)))"

definition ExpandSchema :: "config_api \<Rightarrow> sql_pair \<Rightarrow> string \<Rightarrow> string + string list" where
  "ExpandSchema api p baseDir = expandGlobs api baseDir (Schema p)"

definition ExpandQueries :: "config_api \<Rightarrow> sql_pair \<Rightarrow> string \<Rightarrow> string + string list" where
  "ExpandQueries api p baseDir = expandGlobs api baseDir (Queries p)"

section \<open>What the expansion lists\<close>

lemma add_matches: "set (fold add_match ms out) = set out \<union> set ms \<and> (distinct out \<longrightarrow> distinct (fold add_match ms out))"
proof (induction ms arbitrary: out)
  case (Cons m ms)
  from Cons.IH [of "add_match m out"] show ?case by (auto simp: add_match_def)
qed simp

definition matches :: "config_api \<Rightarrow> string \<Rightarrow> string \<Rightarrow> string set" where
  "matches api baseDir pat =
     (case cfg_Glob api (if cfg_IsAbs api pat then pat else cfg_Join api baseDir pat) of Inl _ \<Rightarrow> {} | Inr ms \<Rightarrow> set ms)"

lemma glob_loop_spec:
  "glob_loop api baseDir pats out = Inr out' \<Longrightarrow> distinct out \<Longrightarrow>
     distinct out' \<and> set out' = set out \<union> (\<Union>p \<in> set pats. matches api baseDir p)"
proof (induction pats arbitrary: out)
  case (Cons p pats)
  let ?full = "if cfg_IsAbs api p then p else cfg_Join api baseDir p"
  from Cons.prems(1) obtain ms where ms: "cfg_Glob api ?full = Inr ms" "glob_loop api baseDir pats (fold add_match ms out) = Inr out'"
    by (cases "cfg_Glob api ?full") (simp_all add: Let_def)
  from Cons.IH [OF ms(2)] Cons.prems(2) add_matches [of ms out] ms(1) show ?case by (auto simp: matches_def)
qed simp

text \<open>
  The expansion of a list of patterns is the sorted list of the paths that some pattern matches, each once;
  it depends neither on the order of the patterns nor on their overlap.
\<close>

lemma expandGlobs_lists:
  assumes "expandGlobs api baseDir pats = Inr paths"
  shows "paths = sorted_list_of_set (\<Union>p \<in> set pats. matches api baseDir p)"
proof -
  obtain out where out: "glob_loop api baseDir pats [] = Inr out" "paths = sort out"
    using assms by (cases pats) (auto simp: expandGlobs_def split: sum.splits)
  from glob_loop_spec [OF out(1)] have "distinct out" "set out = (\<Union>p \<in> set pats. matches api baseDir p)" by simp_all
  then show ?thesis using out(2) by (metis sorted_list_of_set_sort_remdups distinct_remdups_id)
qed

lemma expandGlobs_same:
  assumes "expandGlobs api baseDir pats = Inr paths" "expandGlobs api baseDir pats' = Inr paths'" "set pats = set pats'"
  shows "paths = paths'"
  using expandGlobs_lists [OF assms(1)] expandGlobs_lists [OF assms(2)] by (simp add: assms(3))

text \<open>A loaded file has the supported version and at most the maximal size; its directory is its path's.\<close>

lemma Load_config_ok:
  "Load_config api path = Inr f \<Longrightarrow> Version f = SupportedVersion \<and> BaseDir f = cfg_Dir api path
     \<and> (\<exists>bytes \<le> MaxConfigFileSize. cfg_Stat api path = Inr bytes)"
  by (auto simp: Load_config_def not_less split: sum.splits prod.splits if_splits)

text \<open>Discovery loads the first candidate that is there and never looks past an error other than absence.\<close>

lemma discover_loop_Some:
  "discover_loop api cwd names = Inr (Some f) \<Longrightarrow>
     \<exists>pre name post. names = pre @ name # post \<and> Load_config api (cfg_Join api cwd name) = Inr f
       \<and> (\<forall>n \<in> set pre. \<exists>e. cfg_Stat api (cfg_Join api cwd n) = Inl (True, e))"
proof (induction names)
  case (Cons n ns)
  show ?case
  proof (cases "cfg_Stat api (cfg_Join api cwd n)")
    case (Inr b)
    with Cons.prems show ?thesis
      by (intro exI [of _ "[]"] exI [of _ n] exI [of _ ns]) (cases "Load_config api (cfg_Join api cwd n)", auto)
  next
    case (Inl e)
    with Cons obtain pre name post m where "ns = pre @ name # post" "Load_config api (cfg_Join api cwd name) = Inr f"
      "\<forall>n \<in> set pre. \<exists>e. cfg_Stat api (cfg_Join api cwd n) = Inl (True, e)" "e = (True, m)"
      by (cases e) (auto split: if_splits)
    with Inl show ?thesis by (intro exI [of _ "n # pre"] exI [of _ name] exI [of _ post]) auto
  qed
qed simp

end
