(* ===== verification/Cli.thy ===== *)
theory Cli
  imports Mcp_Tools Tls Config
begin

text \<open>
  What every subcommand of \<open>cmd\<close> shares: the flags and what \<open>root.go\<close> makes of them, the parser version,
  the input (\<open>internal/sqlinput/reader.go\<close>), the envelope, the error renderings and the exit of
  \<open>crdb-sql/main.go\<close>. A subcommand gives what it wrote to stdout and the error it returned, if any. The
  environment adds the writer, stdin, the build info and the process environment to the one of the tools;
  cobra has checked the number of arguments before a subcommand runs.
\<close>

section \<open>The process\<close>

record module_dep =
  dep_path :: string
  dep_replace :: "string option"
  dep_version :: string

record 'e cli_env =
  CliTools :: "'e tool_env"
  Stdout :: writer
  Stdin :: "(string + string) option"
  DepInfo :: "module_dep list option"
  BinaryVersion :: string
  CfgApi :: config_api
  CliUrl :: url_api
  Getwd :: "string + string"
  EnvDSN :: string

type_synonym run = "string \<times> go_error option"

text \<open>\<open>Error()\<close> of what a command can fail with.\<close>

fun error_text :: "go_error \<Rightarrow> string" where
  "error_text EPIPE = ''broken pipe''"
| "error_text (Err s) = s"
| "error_text ErrRendered = ''output: error already rendered as envelope''"
| "error_text (Joined a b) = error_text a @ [newline] @ error_text b"

definition main_exit :: "run \<Rightarrow> string \<times> string \<times> nat" where
  "main_exit r =
     (case r of
        (out, None) \<Rightarrow> (out, [], 0)
      | (out, Some e) \<Rightarrow>
          (out, if errors_is e ErrRendered then [] else ''Error: '' @ error_text e @ [newline], 1))"

section \<open>Flags\<close>

record root_flags =
  flag_output :: string
  flag_dsn :: string
  flag_config :: string
  flag_target :: string
  flag_tls :: tls_params

record root_state =
  outputFormat :: format
  root_dsn :: string
  cfg :: "config_file option"
  targetVersion :: string

definition loadConfig :: "'e cli_env \<Rightarrow> string \<Rightarrow> string + config_file option" where
  "loadConfig ce path =
     (if path \<noteq> [] then map_sum id Some (Load_config (CfgApi ce) path)
      else
        (case Getwd ce of
           Inl e \<Rightarrow> Inl (''get working directory: '' @ e)
         | Inr cwd \<Rightarrow> Discover_config (CfgApi ce) cwd))"

definition PersistentPreRun :: "'e cli_env \<Rightarrow> root_flags \<Rightarrow> string + root_state" where
  "PersistentPreRun ce fl =
     (case ParseFormat (flag_output fl) of Inl e \<Rightarrow> Inl e | Inr f \<Rightarrow>
     (let d = (if flag_dsn fl \<noteq> [] then flag_dsn fl else EnvDSN ce) in
     (case (if IsZero (flag_tls fl) then Inr d else MergeTLSParams (CliUrl ce) d (flag_tls fl)) of Inl e \<Rightarrow> Inl e | Inr merged \<Rightarrow>
     (case loadConfig ce (flag_config fl) of Inl e \<Rightarrow> Inl e | Inr c \<Rightarrow>
     (if flag_target fl = [] then Inr \<lparr>outputFormat = f, root_dsn = merged, cfg = c, targetVersion = []\<rparr>
      else
        (case ValidateTargetVersion (flag_target fl) of
           Inl e \<Rightarrow> Inl (''--target-version: '' @ e)
         | Inr canonical \<Rightarrow> Inr \<lparr>outputFormat = f, root_dsn = merged, cfg = c, targetVersion = canonical\<rparr>))))))"

section \<open>The envelope\<close>

definition devVersion :: string where
  "devVersion = ''dev''"

definition moduleParserPath :: string where
  "moduleParserPath = ''github.com/cockroachdb/cockroachdb-parser''"

text \<open>The version the first dependency on the parser gives, if it has one that is usable.\<close>

fun dep_usable :: "module_dep list \<Rightarrow> string option" where
  "dep_usable [] = None"
| "dep_usable (d # ds) =
     (if dep_path d \<noteq> moduleParserPath then dep_usable ds
      else
        (case dep_replace d of
           Some v \<Rightarrow> if v \<noteq> [] then Some v else if dep_version d \<noteq> [] then Some (dep_version d) else None
         | None \<Rightarrow> if dep_version d \<noteq> [] then Some (dep_version d) else None))"

definition parserVersionFrom :: "module_dep list \<Rightarrow> string \<Rightarrow> string + string" where
  "parserVersionFrom deps binVersion =
     (case dep_usable deps of
        Some v \<Rightarrow> Inr v
      | None \<Rightarrow>
          if binVersion = devVersion then Inr ''unknown''
          else Inl (''parser module '' @ quote moduleParserPath
                 @ '' missing from build info; blank import may have been dropped''))"

definition parserVersion :: "module_dep list option \<Rightarrow> string \<Rightarrow> string + string" where
  "parserVersion info binVersion =
     (case info of
        None \<Rightarrow> if binVersion = devVersion then Inr ''unknown'' else Inl ''build info unavailable''
      | Some deps \<Rightarrow> parserVersionFrom deps binVersion)"

text \<open>The envelope, with the error that ends the command if the parser version is unknown.\<close>

definition newEnvelope :: "'e cli_env \<Rightarrow> root_state \<Rightarrow> tier \<Rightarrow> envelope \<times> string option" where
  "newEnvelope ce st t =
     (let env = \<lparr>etier = t, parser_version = [], target_version = [], econnection = ConnectionDisconnected, eerrors = [], edata = None\<rparr> in
      case parserVersion (DepInfo ce) (BinaryVersion ce) of
        Inl e \<Rightarrow> (env, Some e)
      | Inr parserVer \<Rightarrow>
          (let env = env\<lparr>parser_version := parserVer\<rparr> in
           if targetVersion st = [] then (env, None)
           else
             (let env = env\<lparr>target_version := targetVersion st\<rparr> in
              case VersionMismatchWarning parserVer (targetVersion st) of
                Some warning \<Rightarrow> (env\<lparr>eerrors := eerrors env @ [warning]\<rparr>, None)
              | None \<Rightarrow> (env, None))))"

section \<open>The input\<close>

definition ReadSQL :: "'e cli_env \<Rightarrow> string \<Rightarrow> string list \<Rightarrow> string + string" where
  "ReadSQL ce expr args =
     (if expr \<noteq> [] then
        (if length args > 0 then Inl ''cannot use -e flag and file argument together'' else Inr expr)
      else
        (case args of
           f # _ \<Rightarrow>
             (case os_ReadFile (Files (CliTools ce)) f of
                Inl e \<Rightarrow> Inl (''read SQL file: '' @ e)
              | Inr sql \<Rightarrow>
                  if trim_space sql = [] then Inl (''no SQL input provided; file '' @ quote f @ '' is empty'') else Inr sql)
         | [] \<Rightarrow>
             (case Stdin ce of
                None \<Rightarrow> Inl ''no SQL input provided; use -e, pass a file, or pipe to stdin''
              | Some (Inl e) \<Rightarrow> Inl (''read stdin: '' @ e)
              | Some (Inr sql) \<Rightarrow>
                  if trim_space sql = [] then Inl ''no SQL input provided; use -e, pass a file, or pipe to stdin'' else Inr sql)))"

section \<open>Rendering\<close>

text \<open>The writes of a text function, up to the first that fails.\<close>

fun write_all :: "writer \<Rightarrow> string list \<Rightarrow> string \<Rightarrow> string \<times> go_error option" where
  "write_all w [] out = (out, None)"
| "write_all w (s # ss) out =
     (case w s out of
        (out', Some e) \<Rightarrow> (out', Some e)
      | (out', None) \<Rightarrow> write_all w ss out')"

definition render :: "'e cli_env \<Rightarrow> root_state \<Rightarrow> envelope \<Rightarrow> string list \<Rightarrow> run" where
  "render ce st env lines =
     Render (MarshalEnvelope (CliTools ce)) (Stdout ce) (outputFormat st) (write_all (Stdout ce) lines) env []"

definition renderErrorEntry :: "'e cli_env \<Rightarrow> root_state \<Rightarrow> envelope \<Rightarrow> string \<Rightarrow> error_entry \<Rightarrow> run" where
  "renderErrorEntry ce st env failure entry =
     map_prod id Some (RenderErrorEntry (MarshalEnvelope (CliTools ce)) (Stdout ce) (outputFormat st) env (Err failure) entry [])"

definition renderError :: "'e cli_env \<Rightarrow> root_state \<Rightarrow> envelope \<Rightarrow> string \<Rightarrow> run" where
  "renderError ce st env failure =
     map_prod id Some (RenderError error_text (MarshalEnvelope (CliTools ce)) (Stdout ce) (outputFormat st) env (Err failure) [])"

text \<open>A rendering that reports a failure: \<open>ErrRendered\<close> unless the rendering itself failed.\<close>

definition rendered_failure :: "run \<Rightarrow> run" where
  "rendered_failure r = (case r of (out, Some e) \<Rightarrow> (out, Some e) | (out, None) \<Rightarrow> (out, Some ErrRendered))"

text \<open>\<open>int(s.Confidence*100+0.5)\<close> of a confidence in hundredths is that number.\<close>

definition writeSuggestions :: "suggestion list \<Rightarrow> string list" where
  "writeSuggestions suggs =
     map (\<lambda>s. ''  did you mean: '' @ replacement s @ '' ('' @ itoa_nat (confidence_pct s) @ ''% confidence)'' @ [newline]) suggs"

definition writeDiagErrors :: "error_entry list \<Rightarrow> string list" where
  "writeDiagErrors errs =
     concat (map (\<lambda>e.
       (case position e of
          Some p \<Rightarrow> itoa (line p) @ '':'' @ itoa (column p) @ '': '' @ message e @ '' ['' @ code e @ '']'' @ [newline]
        | None \<Rightarrow> message e @ '' ['' @ code e @ '']'' @ [newline]) # writeSuggestions (suggestions e)) errs)"

definition renderDiagErrors :: "'e cli_env \<Rightarrow> root_state \<Rightarrow> envelope \<Rightarrow> error_entry list \<Rightarrow> run" where
  "renderDiagErrors ce st env errs =
     rendered_failure (render ce st (env\<lparr>eerrors := eerrors env @ errs, edata := None\<rparr>) (writeDiagErrors errs))"

definition renderParseError :: "'e cli_env \<Rightarrow> root_state \<Rightarrow> envelope \<Rightarrow> 'e \<Rightarrow> string \<Rightarrow> run" where
  "renderParseError ce st env perr sql = renderDiagErrors ce st env [parse_error_of (CliTools ce) perr sql]"

definition renderParseErrorTranslated ::
    "'e cli_env \<Rightarrow> root_state \<Rightarrow> envelope \<Rightarrow> 'e \<Rightarrow> string \<Rightarrow> string \<Rightarrow> StripResult \<Rightarrow> run outcome" where
  "renderParseErrorTranslated ce st env perr sql originalSQL strip =
     (if \<not> StripResult.Removed strip then Ret (renderParseError ce st env perr sql)
      else
        obind (adjust_entry originalSQL strip (parse_error_of (CliTools ce) perr sql)) (\<lambda>e.
        Ret (renderDiagErrors ce st env [e])))"

definition renderSchemaLoadError :: "'e cli_env \<Rightarrow> root_state \<Rightarrow> envelope \<Rightarrow> string \<Rightarrow> run" where
  "renderSchemaLoadError ce st env e =
     rendered_failure (render ce st
       (env\<lparr>eerrors := eerrors env @ [schemaLoadEnvelopeError (CliTools ce) e], edata := None\<rparr>) [e @ [newline]])"

text \<open>A payload and the text of a success; a payload that does not marshal is an internal error.\<close>

definition render_data :: "'e cli_env \<Rightarrow> root_state \<Rightarrow> envelope \<Rightarrow> string + string \<Rightarrow> string list \<Rightarrow> run" where
  "render_data ce st env encoded lines =
     (case encoded of
        Inl e \<Rightarrow> renderError ce st env e
      | Inr d \<Rightarrow> render ce st (env\<lparr>edata := Some d\<rparr>) lines)"

text \<open>From \<open>newEnvelope\<close> to the SQL read; \<open>check\<close> is what \<open>format\<close> checks in between, \<open>early\<close> makes the result of a
  command that ends here.\<close>

definition with_input ::
    "'e cli_env \<Rightarrow> root_state \<Rightarrow> tier \<Rightarrow> string option \<Rightarrow> string \<Rightarrow> string list \<Rightarrow> (run \<Rightarrow> 'r outcome) \<Rightarrow>
     (envelope \<Rightarrow> string \<Rightarrow> 'r outcome) \<Rightarrow> 'r outcome" where
  "with_input ce st t check expr args early body =
     (case newEnvelope ce st t of
        (env, Some e) \<Rightarrow> early (renderError ce st env e)
      | (env, None) \<Rightarrow>
     (case check of
        Some e \<Rightarrow> early (renderError ce st env e)
      | None \<Rightarrow>
     (case ReadSQL ce expr args of
        Inl e \<Rightarrow> early (renderError ce st env e)
      | Inr sql \<Rightarrow> body env sql)))"

section \<open>Advisory entries\<close>

definition advisory :: "error_entry \<Rightarrow> bool" where
  "advisory e \<longleftrightarrow> severity e = SevWarning"

text \<open>A front end that never reports an error as a warning.\<close>

definition grave :: "'e error_api \<Rightarrow> bool" where
  "grave api \<longleftrightarrow> (\<forall>e. GetSeverity api e \<noteq> ''WARNING'')
     \<and> (\<forall>e p. as_pg_error api e = Some p \<longrightarrow> pe_severity_unlocalized p \<noteq> ''WARNING'' \<and> pe_severity p \<noteq> ''WARNING'')"

lemma severity_of_warning: "severity_of s = SevWarning \<longleftrightarrow> s = ''WARNING''"
  by (simp add: severity_of_def)

lemma advisory_plain [simp]: "advisory (plain_error c v m) \<longleftrightarrow> v = SevWarning"
  by (simp add: advisory_def)

lemma advisory_update [simp]:
  "advisory (e\<lparr>position := pos\<rparr>) = advisory e" "advisory (e\<lparr>econtext := cx\<rparr>) = advisory e"
  "advisory (e\<lparr>category := ct\<rparr>) = advisory e" "advisory (e\<lparr>suggestions := ss\<rparr>) = advisory e"
  by (simp_all add: advisory_def)

lemma advisory_relocate [simp]: "advisory (relocate sql e) = advisory e"
  by (simp add: advisory_def)

lemma parse_error_grave: "grave (ErrorApi (Front te)) \<Longrightarrow> \<not> advisory (parse_error_of te perr sql)"
  by (auto simp: grave_def advisory_def FromParseError_def Let_def severity_of_warning)

lemma cluster_error_grave: "grave api \<Longrightarrow> \<not> advisory (FromClusterError api e sql)"
  by (auto simp: grave_def FromClusterError_def Let_def severity_of_warning advisory_def split: option.split)

lemma type_error_grave: "grave api \<Longrightarrow> \<not> advisory (FromTypeError api e t sql)"
  by (auto simp: grave_def FromTypeError_def Let_def severity_of_warning advisory_def)

lemma violation_grave [simp]: "\<not> advisory (Safety.Envelope v)"
  by (simp add: advisory_def Safety.Envelope_def)

lemma schema_error_grave [simp]: "\<not> advisory (schemaLoadEnvelopeError te e)"
  by (simp add: schemaLoadEnvelopeError_def Let_def)

lemma mismatch_advisory: "VersionMismatchWarning p t = Some w \<Longrightarrow> advisory w"
  by (auto simp: VersionMismatchWarning_def split: option.splits if_splits)

lemma preprocess_advisory: "e \<in> set (preprocess_warning sql) \<Longrightarrow> advisory e"
  by (auto simp: preprocess_warning_def split: if_splits)

lemma capability_advisory [simp]: "advisory (CapabilityRequiredError c m h)"
  by (simp add: CapabilityRequiredError_def)

lemma Inspect_advisory: "Inspect stmts target None = Ret ws \<Longrightarrow> e \<in> set ws \<Longrightarrow> advisory e"
proof -
  obtain r where r: "DefaultRegistry = Ret r" using DefaultRegistry_ok by auto
  have "advisory e" if "e \<in> set (feature_warnings r target t)" for t
  proof -
    from that obtain f where "e = buildWarning f target"
      unfolding feature_warnings_def by (cases "Lookup r t"; cases "parseMajorMinor target") (simp_all split: if_split_asm)
    then show ?thesis by (simp add: buildWarning_def)
  qed
  moreover assume "Inspect stmts target None = Ret ws" "e \<in> set ws"
  ultimately show ?thesis
    using Inspect_Ret(1) [OF r [unfolded DefaultRegistry_def], of stmts target]
      Inspect_Ret(2) [OF r [unfolded DefaultRegistry_def] r, of stmts target] by auto
qed

lemma schemawarn_advisory: "list_all advisory (eerrors env) \<Longrightarrow> list_all advisory (eerrors (schemawarn_Append env cat))"
  by (auto simp: schemawarn_Append_def list_all_iff split: option.split)

text \<open>The semantic checks report no warnings.\<close>

lemma reports_severity:
  "reports mk seen errs ns \<Longrightarrow> (\<And>n pos. severity (mk n pos) = SevError) \<Longrightarrow> e \<in> set errs \<Longrightarrow> severity e = SevError"
  by (auto simp: reports_def list_all2_conv_all_nth in_set_conv_nth)

lemma Run_grave:
  assumes "grave (ErrorApi fe)" "located sql 0 stmts"
  shows "\<exists>res errs. Run fe stmts sql cat = Ret (res, errs) \<and> (\<forall>e \<in> set errs. \<not> advisory e)"
proof -
  obtain fnst where f: "CheckFunctionNames (WalkFuncs fe) (FunDefs fe) stmts sql = Ret (fn_errs fnst)"
    "func_inv (FunDefs fe) (\<Union>p \<in> set stmts. set (func_refs (func_events (WalkFuncs fe) p))) fnst"
    using CheckFunctionNames_run [OF assms(2)] by blast
  have fs: "\<forall>e \<in> set (fn_errs fnst). \<not> advisory e"
    using f(2) by (auto simp: func_inv_def advisory_def unknown_function_error_def Let_def dest!: reports_severity)
  have ts: "\<forall>e \<in> set (CheckExprTypes fe stmts sql). \<not> advisory e"
    using type_error_grave [OF assms(1)] by (auto simp: CheckExprTypes_eq type_errors_def split: option.splits)
  show ?thesis
  proof (cases cat)
    case None
    with f fs ts show ?thesis by (auto simp: Run_def Let_def)
  next
    case (Some c)
    obtain st where t: "CheckTableNames (WalkTables fe) stmts sql (Some c) = Ret (ck_errs st)"
      "table_inv c (\<Union>p \<in> set stmts. set (table_refs (events (WalkTables fe) p))) st"
      using CheckTableNames_run [OF assms(2)] by blast
    obtain cst :: col_state where n: "CheckColumnNames stmts sql (Some c) = Ret (cs_errs cst)"
      "list_all2 justified (cs_errs cst) (rev (cs_seen cst))"
      using CheckColumnNames_run [OF assms(2)] by blast
    have "\<forall>e \<in> set (ck_errs st). \<not> advisory e"
      using t(2) by (auto simp: table_inv_def advisory_def unknown_table_error_def Let_def dest!: reports_severity)
    moreover have "\<forall>e \<in> set (cs_errs cst). \<not> advisory e"
      using n(2) by (auto simp: justified_def advisory_def list_all2_conv_all_nth in_set_conv_nth)
    ultimately show ?thesis using f(1) fs ts t(1) n(1) Some by (auto simp: Run_def Let_def)
  qed
qed

section \<open>One document\<close>

text \<open>A process in JSON mode whose writes succeed and whose envelopes marshal.\<close>

definition json_process :: "'e cli_env \<Rightarrow> root_state \<Rightarrow> bool" where
  "json_process ce st \<longleftrightarrow> outputFormat st = FormatJSON \<and> (\<forall>env. \<exists>doc. MarshalEnvelope (CliTools ce) env = Inr doc)
     \<and> (\<forall>s out. Stdout ce s out = (out @ s, None))"

text \<open>
  A run that printed one envelope, and failed with \<open>ErrRendered\<close> exactly when the envelope has an entry that
  is no warning.
\<close>

definition document :: "'e cli_env \<Rightarrow> run \<Rightarrow> bool" where
  "document ce r \<longleftrightarrow> (\<exists>env doc. MarshalEnvelope (CliTools ce) env = Inr doc
     \<and> r = (doc @ [newline], if list_all advisory (eerrors env) then None else Some ErrRendered))"

text \<open>A command that returns, with such a run.\<close>

fun settles :: "'e cli_env \<Rightarrow> run outcome \<Rightarrow> bool" where
  "settles ce (Ret r) \<longleftrightarrow> document ce r"
| "settles ce (Panic _) \<longleftrightarrow> False"

lemma json_marshals:
  assumes "json_process ce st"
  obtains doc where "MarshalEnvelope (CliTools ce) env = Inr doc"
  using assms unfolding json_process_def by blast

lemma render_json:
  assumes "json_process ce st"
  obtains doc where "MarshalEnvelope (CliTools ce) env = Inr doc" "render ce st env ls = (doc @ [newline], None)"
proof -
  from assms obtain doc where d: "MarshalEnvelope (CliTools ce) env = Inr doc" by (rule json_marshals)
  with assms that show thesis by (simp add: render_def Render_def json_process_def)
qed

lemma document_render: "json_process ce st \<Longrightarrow> list_all advisory (eerrors env) \<Longrightarrow> document ce (render ce st env ls)"
  by (erule render_json [of ce st env ls]) (auto simp: document_def)

lemma document_failure:
  "json_process ce st \<Longrightarrow> \<not> list_all advisory (eerrors env) \<Longrightarrow> document ce (rendered_failure (render ce st env ls))"
  by (erule render_json [of ce st env ls]) (auto simp: document_def rendered_failure_def)

lemma document_entry:
  assumes "json_process ce st" "\<not> advisory e"
  shows "document ce (renderErrorEntry ce st env msg e)"
proof -
  let ?env = "env\<lparr>eerrors := eerrors env @ [e], edata := None\<rparr>"
  from assms(1) obtain doc where d: "MarshalEnvelope (CliTools ce) ?env = Inr doc" by (rule json_marshals)
  with assms show ?thesis
    unfolding document_def by (intro exI [of _ ?env] exI [of _ doc]) (simp add: renderErrorEntry_def RenderErrorEntry_def Render_def json_process_def Let_def)
qed

lemma document_error: "json_process ce st \<Longrightarrow> document ce (renderError ce st env msg)"
  using document_entry [of ce st "plain_error ''internal_error'' SevError msg" env msg]
  by (simp add: renderError_def renderErrorEntry_def RenderError_def)

lemma document_data:
  "json_process ce st \<Longrightarrow> list_all advisory (eerrors env) \<Longrightarrow> document ce (render_data ce st env encoded ls)"
  by (auto simp: render_data_def document_error document_render split: sum.split)

lemma document_diag:
  "json_process ce st \<Longrightarrow> e \<in> set errs \<Longrightarrow> \<not> advisory e \<Longrightarrow> document ce (renderDiagErrors ce st env errs)"
  unfolding renderDiagErrors_def by (rule document_failure) (auto simp: list_all_iff)

lemma document_schema_error: "json_process ce st \<Longrightarrow> document ce (renderSchemaLoadError ce st env e)"
  unfolding renderSchemaLoadError_def by (rule document_failure) simp_all

lemma newEnvelope_advisory: "newEnvelope ce st t = (env, e) \<Longrightarrow> list_all advisory (eerrors env)"
  by (auto simp: newEnvelope_def Let_def mismatch_advisory split: sum.splits if_splits option.splits)

text \<open>Without an error it is the envelope that the tools start from.\<close>

lemma newEnvelope_tier:
  "newEnvelope ce st t = (env, None) \<longleftrightarrow>
     (\<exists>pv. parserVersion (DepInfo ce) (BinaryVersion ce) = Inr pv \<and> env = tier_envelope t pv (targetVersion st))"
  by (auto simp: newEnvelope_def tier_envelope_def stampTargetVersion_def Let_def split: sum.splits option.splits if_splits)

lemma preprocess_advisory_list:
  "list_all advisory (eerrors env) \<Longrightarrow> list_all advisory (eerrors env @ preprocess_warning sql)"
  using preprocess_advisory by (auto simp: list_all_iff)

lemma with_input_cases:
  assumes "\<And>env e. list_all advisory (eerrors env) \<Longrightarrow> P (early (renderError ce st env e))"
    and "\<And>env sql. newEnvelope ce st t = (env, None) \<Longrightarrow> list_all advisory (eerrors env) \<Longrightarrow> ReadSQL ce expr args = Inr sql \<Longrightarrow> P (body env sql)"
  shows "P (with_input ce st t check expr args early body)"
  unfolding with_input_def
  by (cases "newEnvelope ce st t") (auto simp: newEnvelope_advisory intro!: assms split: option.split sum.split)

lemma renderParseErrorTranslated_document:
  assumes "json_process ce st" "grave (ErrorApi (Front (CliTools ce)))"
  shows "settles ce (renderParseErrorTranslated ce st env perr (StripShellPrompts sql) sql (StripShellPromptsWithMap sql))"
proof -
  have "document ce (renderDiagErrors ce st env [relocate sql (parse_error_of (CliTools ce) perr (StripShellPrompts sql))])"
    using parse_error_grave [OF assms(2)] by (intro document_diag [OF assms(1), of _ "[_]", OF list.set_intros(1)]) simp
  then show ?thesis
    by (cases "StripResult.Removed (StripShellPromptsWithMap sql)")
      (simp_all add: renderParseErrorTranslated_def renderParseError_def adjust_entry_strip relocate_id)
qed

section \<open>A sample process\<close>

definition sample_config_api :: config_api where
  "sample_config_api = \<lparr>cfg_Stat = \<lambda>_. Inl (True, []), cfg_ReadFile = \<lambda>_. Inl [], cfg_Decode = \<lambda>_. Inl [], cfg_Dir = id,
     cfg_IsAbs = \<lambda>_. True, cfg_Join = (@), cfg_Glob = \<lambda>_. Inr []\<rparr>"

definition sample_process :: "'e tool_env \<Rightarrow> 'e cli_env" where
  "sample_process te = \<lparr>CliTools = te, Stdout = \<lambda>s out. (out @ s, None), Stdin = Some (Inr []), DepInfo = None, BinaryVersion = devVersion,
     CfgApi = sample_config_api, CliUrl = sample_url, Getwd = Inr [], EnvDSN = ''d''\<rparr>"

definition sample_state :: root_state where
  "sample_state = \<lparr>outputFormat = FormatJSON, root_dsn = ''d'', cfg = None, targetVersion = []\<rparr>"

lemma sample_process_json: "marshals te \<Longrightarrow> json_process (sample_process te) sample_state"
  by (simp add: json_process_def sample_process_def sample_state_def marshals_def)

end
