(* ===== verification/Highlight.thy ===== *)
theory Highlight
  imports Diag_Position
begin

text \<open>
  \<open>internal/sqlformat/highlight.go\<close>: the ANSI colours of formatted SQL. The scanner and the token numbers of
  the parser are a record of functions, and so are the Unicode tables beyond ASCII; a slice with bounds out
  of range panics.
\<close>

section \<open>The highlighter\<close>

record token =
  tok_id :: int
  tok_start :: int
  tok_end :: int

record lexer_api =
  InspectTokens :: "string \<Rightarrow> token list"
  tok_ERROR :: int
  string_tokens :: "int list"
  number_tokens :: "int list"
  firstKeywordTokenID :: int
  rune_is_letter :: "string \<Rightarrow> bool"
  rune_is_upper :: "string \<Rightarrow> bool"

definition escape :: char where
  "escape = CHR 0x1B"

definition ansiReset :: string where
  "ansiReset = escape # ''[0m''"

definition ansiKeyword :: string where
  "ansiKeyword = escape # ''[1;36m''"

definition ansiStringLit :: string where
  "ansiStringLit = escape # ''[32m''"

definition ansiNumberLit :: string where
  "ansiNumberLit = escape # ''[35m''"

text \<open>\<open>unicode.IsLetter\<close> and \<open>unicode.IsUpper\<close> of a decoded rune, given by its bytes.\<close>

definition letter_rune :: "lexer_api \<Rightarrow> string \<Rightarrow> bool" where
  "letter_rune lx r = (case r of [c] \<Rightarrow> is_alpha c | _ \<Rightarrow> rune_is_letter lx r)"

definition upper_rune :: "lexer_api \<Rightarrow> string \<Rightarrow> bool" where
  "upper_rune lx r = (case r of [c] \<Rightarrow> is_upper c | _ \<Rightarrow> rune_is_upper lx r)"

fun upper_letters :: "lexer_api \<Rightarrow> string list \<Rightarrow> bool \<Rightarrow> bool" where
  "upper_letters lx [] hasLetter = hasLetter"
| "upper_letters lx (r # rs) hasLetter =
     (if \<not> letter_rune lx r then upper_letters lx rs hasLetter
      else if \<not> upper_rune lx r then False
      else upper_letters lx rs True)"

definition isAllUpperLetters :: "lexer_api \<Rightarrow> string \<Rightarrow> bool" where
  "isAllUpperLetters lx s = (if s = [] then False else upper_letters lx (runes s) False)"

definition colorFor :: "lexer_api \<Rightarrow> int \<Rightarrow> string \<Rightarrow> string" where
  "colorFor lx i s =
     (if i \<in> set (string_tokens lx) then ansiStringLit
      else if i \<in> set (number_tokens lx) then ansiNumberLit
      else if i \<ge> firstKeywordTokenID lx \<and> isAllUpperLetters lx s then ansiKeyword
      else [])"

definition slice :: "string \<Rightarrow> int \<Rightarrow> int \<Rightarrow> string outcome" where
  "slice s a b =
     (if 0 \<le> a \<and> a \<le> b \<and> b \<le> int (length s) then Ret (take (nat b - nat a) (drop (nat a) s))
      else Panic ''slice bounds out of range'')"

text \<open>The second loop; the result is the text written and the end of the last token.\<close>

fun highlight_loop :: "lexer_api \<Rightarrow> string \<Rightarrow> token list \<Rightarrow> int \<Rightarrow> string \<Rightarrow> (string \<times> int) outcome" where
  "highlight_loop lx formatted [] lastEnd buf = Ret (buf, lastEnd)"
| "highlight_loop lx formatted (tok # toks) lastEnd buf =
     (if tok_id tok = 0 then Ret (buf, lastEnd)
      else
        obind (if tok_start tok > lastEnd then slice formatted lastEnd (tok_start tok) else Ret []) (\<lambda>gap.
        obind (slice formatted (tok_start tok) (tok_end tok)) (\<lambda>word.
        (let color = colorFor lx (tok_id tok) word in
         highlight_loop lx formatted toks (tok_end tok)
           (buf @ gap @ (if color \<noteq> [] then color @ word @ ansiReset else word))))))"

definition Highlight :: "lexer_api \<Rightarrow> string \<Rightarrow> string outcome" where
  "Highlight lx formatted =
     (if formatted = [] then Ret formatted
      else
        (let tokens = InspectTokens lx formatted in
         if list_ex (\<lambda>t. tok_id t = tok_ERROR lx \<or> tok_id t < 0) tokens then Ret formatted
         else
           obind (highlight_loop lx formatted tokens 0 []) (\<lambda>(buf, lastEnd).
           if lastEnd < int (length formatted)
           then obind (slice formatted lastEnd (int (length formatted))) (\<lambda>rest. Ret (buf @ rest))
           else Ret buf)))"

section \<open>Colours only\<close>

text \<open>The visible text: what a terminal shows of a text without escape characters of its own.\<close>

definition sgr_codes :: "string list" where
  "sgr_codes = [ansiReset, ansiKeyword, ansiStringLit, ansiNumberLit]"

fun visible_skip :: "bool \<Rightarrow> string \<Rightarrow> string" where
  "visible_skip _ [] = []"
| "visible_skip True (c # s) = visible_skip (c \<noteq> CHR ''m'') s"
| "visible_skip False (c # s) = (if c = escape then visible_skip True s else c # visible_skip False s)"

definition visible :: "string \<Rightarrow> string" where
  "visible s = visible_skip False s"

lemma visible_plain: "escape \<notin> set s \<Longrightarrow> visible (s @ t) = s @ visible t"
  by (induction s) (auto simp: visible_def)

lemma visible_code: "sgr \<in> set sgr_codes \<Longrightarrow> visible (sgr @ t) = visible t"
  by (auto simp: visible_def sgr_codes_def ansiReset_def ansiKeyword_def ansiStringLit_def ansiNumberLit_def escape_def)

lemma colorFor_code: "colorFor lx i s = [] \<or> colorFor lx i s \<in> set sgr_codes"
  by (simp add: colorFor_def sgr_codes_def)

text \<open>What \<open>scanner.Inspect\<close> promises: tokens in order, without overlap, within the text, up to the end token.\<close>

fun tokens_from :: "int \<Rightarrow> int \<Rightarrow> token list \<Rightarrow> bool" where
  "tokens_from n p [] \<longleftrightarrow> True"
| "tokens_from n p (t # ts) \<longleftrightarrow> tok_id t = 0 \<or> p \<le> tok_start t \<and> tok_start t \<le> tok_end t \<and> tok_end t \<le> n \<and> tokens_from n (tok_end t) ts"

lemma slice_Ret: "0 \<le> a \<Longrightarrow> a \<le> b \<Longrightarrow> b \<le> int (length s) \<Longrightarrow> slice s a b = Ret (take (nat b - nat a) (drop (nat a) s))"
  by (simp add: slice_def)

lemma slice_join:
  assumes "0 \<le> a" "a \<le> b" "b \<le> int (length s)"
  shows "take (nat a) s @ take (nat b - nat a) (drop (nat a) s) = take (nat b) s"
proof -
  have "nat b = nat a + (nat b - nat a)" using assms by simp
  then show ?thesis by (metis take_add)
qed

lemma set_slice: "set (take n (drop k s)) \<subseteq> set s"
  by (meson order_trans set_drop_subset set_take_subset)

lemma wrap_visible:
  assumes "escape \<notin> set word"
  shows "visible ((if colorFor lx i word \<noteq> [] then colorFor lx i word @ word @ ansiReset else word) @ rest) = word @ visible rest"
  using assms colorFor_code [of lx i word]
  by (auto simp: visible_plain visible_code) (simp_all add: visible_code sgr_codes_def)

lemma highlight_loop_visible:
  fixes lx
  assumes "escape \<notin> set s" "tokens_from (int (length s)) p toks" "0 \<le> p" "p \<le> int (length s)"
    and buf: "\<And>rest. visible (buf @ rest) = take (nat p) s @ visible rest"
  shows "\<exists>out e. highlight_loop lx s toks p buf = Ret (out, e) \<and> 0 \<le> e \<and> e \<le> int (length s)
    \<and> (\<forall>rest. visible (out @ rest) = take (nat e) s @ visible rest)"
  using assms(2-)
proof (induction toks arbitrary: p buf)
  case (Cons t ts)
  show ?case
  proof (cases "tok_id t = 0")
    case False
    let ?a = "tok_start t" and ?b = "tok_end t"
    from False Cons.prems have b: "p \<le> ?a" "?a \<le> ?b" "?b \<le> int (length s)" "tokens_from (int (length s)) ?b ts" by simp_all
    let ?gap = "take (nat ?a - nat p) (drop (nat p) s)" and ?word = "take (nat ?b - nat ?a) (drop (nat ?a) s)"
    have gap: "(if ?a > p then slice s p ?a else Ret []) = Ret ?gap"
      using b Cons.prems by (auto simp: slice_Ret)
    have word: "slice s ?a ?b = Ret ?word" using b Cons.prems by (simp add: slice_Ret)
    let ?wrapped = "if colorFor lx (tok_id t) ?word \<noteq> [] then colorFor lx (tok_id t) ?word @ ?word @ ansiReset else ?word"
    have esc: "escape \<notin> set ?gap" "escape \<notin> set ?word"
      by (rule contra_subsetD [OF set_slice assms(1)])+
    have joined: "take (nat p) s @ ?gap = take (nat ?a) s" "take (nat ?a) s @ ?word = take (nat ?b) s"
      using b Cons.prems(2) by (simp_all add: slice_join)
    have "visible ((buf @ ?gap @ ?wrapped) @ rest) = take (nat ?b) s @ visible rest" for rest
    proof -
      have "visible ((buf @ ?gap @ ?wrapped) @ rest) = take (nat p) s @ ?gap @ ?word @ visible rest"
        by (simp only: append_assoc Cons.prems(4) visible_plain [OF esc(1)] wrap_visible [OF esc(2)])
      also have "\<dots> = take (nat ?b) s @ visible rest"
        by (simp only: append_assoc [symmetric] joined)
      finally show ?thesis .
    qed
    from Cons.IH [OF b(4) _ b(3) this] b Cons.prems(2) False gap word show ?thesis
      by (simp add: Let_def)
  qed (use Cons.prems in auto)
qed auto

text \<open>C40: Colouring changes only the look: on a text without escape characters the coloured text shows exactly the
  text that was given, for every scanner that keeps its promise, and it never panics.
\<close>

theorem Highlight_visible:
  assumes "escape \<notin> set formatted" "tokens_from (int (length formatted)) 0 (InspectTokens lx formatted)"
  shows "\<exists>out. Highlight lx formatted = Ret out \<and> visible out = formatted"
proof -
  have plain: "visible formatted = formatted" using visible_plain [OF assms(1), of "[]"] by (simp add: visible_def)
  show ?thesis
  proof (cases "formatted = [] \<or> list_ex (\<lambda>t. tok_id t = tok_ERROR lx \<or> tok_id t < 0) (InspectTokens lx formatted)")
    case True
    then show ?thesis using plain by (auto simp: Highlight_def Let_def)
  next
    case False
    obtain out e where loop: "highlight_loop lx formatted (InspectTokens lx formatted) 0 [] = Ret (out, e)" "0 \<le> e"
      "e \<le> int (length formatted)" "\<And>rest. visible (out @ rest) = take (nat e) formatted @ visible rest"
      using highlight_loop_visible [OF assms order_refl, of "[]" lx] by (force simp: visible_def)
    let ?rest = "drop (nat e) formatted"
    have "escape \<notin> set ?rest" by (rule contra_subsetD [OF set_drop_subset assms(1)])
    then have "visible ?rest = ?rest" using visible_plain [of ?rest "[]"] by (simp add: visible_def)
    then have "visible (out @ ?rest) = formatted" by (simp add: loop(4))
    moreover have "visible out = take (nat e) formatted" using loop(4) [of "[]"] by (simp add: visible_def)
    ultimately show ?thesis
      using False loop(1-3) by (cases "e < int (length formatted)") (auto simp: Highlight_def Let_def slice_Ret)
  qed
qed

definition sample_lexer :: lexer_api where
  "sample_lexer = \<lparr>InspectTokens = \<lambda>_. [\<lparr>tok_id = 300, tok_start = 0, tok_end = 6\<rparr>, \<lparr>tok_id = 7, tok_start = 7, tok_end = 8\<rparr>,
       \<lparr>tok_id = 0, tok_start = 8, tok_end = 8\<rparr>],
     tok_ERROR = 99, string_tokens = [5], number_tokens = [7], firstKeywordTokenID = 100,
     rune_is_letter = \<lambda>_. False, rune_is_upper = \<lambda>_. False\<rparr>"

theorem Highlight_visible_witness:
  "Highlight sample_lexer ''SELECT 1'' = Ret (ansiKeyword @ ''SELECT'' @ ansiReset @ '' '' @ ansiNumberLit @ ''1'' @ ansiReset)
    \<and> visible (ansiKeyword @ ''SELECT'' @ ansiReset @ '' '' @ ansiNumberLit @ ''1'' @ ansiReset) = ''SELECT 1''"
proof -
  have h: "Highlight sample_lexer ''SELECT 1'' = Ret (ansiKeyword @ ''SELECT'' @ ansiReset @ '' '' @ ansiNumberLit @ ''1'' @ ansiReset)"
    by code_simp
  have "escape \<notin> set ''SELECT 1''" by (simp add: escape_def)
  moreover have "tokens_from (int (length ''SELECT 1'')) 0 (InspectTokens sample_lexer ''SELECT 1'')" by (simp add: sample_lexer_def)
  ultimately show ?thesis using Highlight_visible [of "''SELECT 1''" sample_lexer] h by (metis outcome.inject(2))
qed

end
