(* ===== verification/Cli_Parsers.thy ===== *)
theory Cli_Parsers
  imports Cli Highlight Summarize
begin

text \<open>
  The subcommands that only need the parser: \<open>parse\<close>, \<open>format\<close>, \<open>risk\<close> and \<open>summarize\<close> of \<open>cmd\<close>. They differ in
  what they do with the statements; \<open>parse\<close> and \<open>format\<close> trim the input first. A flushed tab writer writes an
  unknown number of pieces, which are an argument.
\<close>

section \<open>The environment\<close>

record 'e parsers_env =
  Process :: "'e cli_env"
  Lexer :: lexer_api
  StdoutIsTerminal :: bool
  SummaryApi :: "'e summarize_api"
  MarshalSummary :: "summary list \<Rightarrow> string + string"
  TabFlush :: "string \<Rightarrow> string list"

abbreviation tools :: "'e parsers_env \<Rightarrow> 'e tool_env" where
  "tools pe \<equiv> CliTools (Process pe)"

text \<open>\<open>preprocessSQL\<close>, the parser and \<open>version.Inspect\<close>; \<open>body\<close> gets the envelope, the statements and the stripped text.\<close>

definition parse_input ::
    "'e cli_env \<Rightarrow> root_state \<Rightarrow> envelope \<Rightarrow> string \<Rightarrow> (envelope \<Rightarrow> parsed list \<Rightarrow> string \<Rightarrow> run outcome) \<Rightarrow> run outcome" where
  "parse_input ce st env originalSQL body =
     (case preprocessSQL env originalSQL of
        (env, strip) \<Rightarrow>
     (case Parse (Front (CliTools ce)) (Stripped strip) of
        Inl perr \<Rightarrow> renderParseErrorTranslated ce st env perr (Stripped strip) originalSQL strip
      | Inr stmts \<Rightarrow>
          obind (Inspect stmts (targetVersion st) None) (\<lambda>ws. body (env\<lparr>eerrors := eerrors env @ ws\<rparr>) stmts (Stripped strip))))"

section \<open>\<open>parse\<close>\<close>

fun class_text :: "classified_type \<Rightarrow> string" where
  "class_text ClassDDL = ''DDL''"
| "class_text ClassDML = ''DML''"
| "class_text ClassDCL = ''DCL''"
| "class_text ClassTCL = ''TCL''"
| "class_text ClassUNKNOWN = ''UNKNOWN''"

definition tab :: char where
  "tab = CHR 0x09"

definition parse_line :: "classified \<Rightarrow> string" where
  "parse_line s = class_text (cls_type s) @ [tab] @ cls_tag s @ [tab] @ cls_sql s @ [tab] @ cls_normalized s @ [newline]"

definition ParseCmd :: "'e parsers_env \<Rightarrow> root_state \<Rightarrow> string \<Rightarrow> string list \<Rightarrow> run outcome" where
  "ParseCmd pe st expr args =
     with_input (Process pe) st TierZeroConfig None expr args Ret (\<lambda>env sql.
     parse_input (Process pe) st env (trim_space sql) (\<lambda>env parsed _.
     (let stmts = ClassifyParsed (HideConstants (tools pe)) parsed in
      Ret (render_data (Process pe) st env (MarshalData (tools pe) (ClassifiedData stmts)) (map parse_line stmts)))))"

section \<open>\<open>format\<close>\<close>

datatype colorMode = ColorAuto | ColorAlways | ColorNever

definition parseColorMode :: "string \<Rightarrow> string + colorMode" where
  "parseColorMode s =
     (if s = ''auto'' then Inr ColorAuto
      else if s = ''always'' then Inr ColorAlways
      else if s = ''never'' then Inr ColorNever
      else Inl (''invalid --color '' @ quote s @ '': valid choices are '' @ quote ''auto'' @ '', '' @ quote ''always''
             @ '', '' @ quote ''never''))"

definition useColor :: "bool \<Rightarrow> colorMode \<Rightarrow> bool" where
  "useColor terminal m \<longleftrightarrow> m = ColorAlways \<or> m = ColorAuto \<and> terminal"

definition FormatCmd :: "'e parsers_env \<Rightarrow> root_state \<Rightarrow> string \<Rightarrow> string \<Rightarrow> string list \<Rightarrow> run outcome" where
  "FormatCmd pe st colorFlag expr args =
     with_input (Process pe) st TierZeroConfig (case parseColorMode colorFlag of Inl e \<Rightarrow> Some e | Inr _ \<Rightarrow> None) expr args Ret (\<lambda>env sql.
     parse_input (Process pe) st env (trim_space sql) (\<lambda>env parsed _.
     (case FormatParsed (Pretty (tools pe)) parsed of
        Inl e \<Rightarrow> Ret (renderError (Process pe) st env e)
      | Inr formatted \<Rightarrow>
          obind (if (case parseColorMode colorFlag of Inl _ \<Rightarrow> False | Inr m \<Rightarrow> useColor (StdoutIsTerminal pe) m)
                 then Highlight (Lexer pe) formatted else Ret formatted) (\<lambda>textOut.
          Ret (render_data (Process pe) st env (MarshalData (tools pe) (FormattedData formatted)) [textOut @ [newline]])))))"

section \<open>\<open>risk\<close>\<close>

fun risk_text :: "risk_severity \<Rightarrow> string" where
  "risk_text SeverityCritical = ''critical''"
| "risk_text SeverityHigh = ''high''"
| "risk_text SeverityMedium = ''medium''"
| "risk_text SeverityLow = ''low''"
| "risk_text SeverityInfo = ''info''"

text \<open>\<open>strings.ToUpper\<close> on ASCII.\<close>

definition to_upper :: "string \<Rightarrow> string" where
  "to_upper s = map (\<lambda>c. if is_lower c then char_of (byte_of c - 32) else c) s"

definition risk_lines :: "finding \<Rightarrow> string list" where
  "risk_lines f =
     [to_upper (risk_text (Severity f)) @ [tab] @ ReasonCode f @ [tab] @ Message f @ [newline],
      ''  hint: '' @ FixHint f @ [newline]]"

definition RiskCmd :: "'e parsers_env \<Rightarrow> root_state \<Rightarrow> string \<Rightarrow> string list \<Rightarrow> run outcome" where
  "RiskCmd pe st expr args =
     with_input (Process pe) st TierZeroConfig None expr args Ret (\<lambda>env sql.
     parse_input (Process pe) st env sql (\<lambda>env parsed stripped.
     obind (AnalyzeParsed (ShowName (tools pe)) parsed stripped) (\<lambda>findings.
     Ret (render_data (Process pe) st env (MarshalData (tools pe) (FindingsData findings)) (concat (map risk_lines findings))))))"

section \<open>\<open>summarize\<close>\<close>

definition joinOrNone :: "string list \<Rightarrow> string" where
  "joinOrNone items = (if length items = 0 then ''(none)'' else join_with '', '' items)"

definition join_text :: "join \<Rightarrow> string" where
  "join_text j =
     (let left = (if join_left j = [] then ''?'' else join_left j);
          right = (if join_right j = [] then ''?'' else join_right j);
          sides = join_type j @ '' '' @ left @ '' '' @ right
      in if join_condition j = [] then sides else sides @ '' ON '' @ join_condition j)"

definition joinSummaryStrings :: "join list \<Rightarrow> string" where
  "joinSummaryStrings js = (if length js = 0 then ''(none)'' else join_with ''; '' (map join_text js))"

fun op_text :: "summary_op \<Rightarrow> string" where
  "op_text OpSelect = ''SELECT''"
| "op_text OpInsert = ''INSERT''"
| "op_text OpUpsert = ''UPSERT''"
| "op_text OpUpdate = ''UPDATE''"
| "op_text OpDelete = ''DELETE''"
| "op_text OpOther = ''OTHER''"

definition bool_text :: "bool \<Rightarrow> string" where
  "bool_text b = (if b then ''true'' else ''false'')"

definition summary_rows :: "summary \<Rightarrow> (string \<times> string) list" where
  "summary_rows s =
     [(''operation'', op_text (Operation s)), (''tag'', summary_tag s), (''tables'', joinOrNone (Tables s)),
      (''joins'', joinSummaryStrings (Joins s)), (''predicates'', joinOrNone (Predicates s)),
      (''affected_columns'', joinOrNone (AffectedColumns s)), (''referenced_columns'', joinOrNone (ReferencedColumns s)),
      (''select_star'', bool_text (SelectStar s)), (''risk'', risk_text (RiskLevel s))]"

definition renderSummaryText :: "(string \<Rightarrow> string list) \<Rightarrow> summary \<Rightarrow> string list" where
  "renderSummaryText flush s = flush (concat (map (\<lambda>(l, v). l @ '':'' @ [tab] @ v @ [newline]) (summary_rows s)))"

fun summaries_lines :: "(string \<Rightarrow> string list) \<Rightarrow> nat \<Rightarrow> summary list \<Rightarrow> string list" where
  "summaries_lines flush i [] = []"
| "summaries_lines flush i (s # ss) = (if i > 0 then [[newline]] else []) @ renderSummaryText flush s @ summaries_lines flush (Suc i) ss"

definition renderSummariesText :: "(string \<Rightarrow> string list) \<Rightarrow> summary list \<Rightarrow> string list" where
  "renderSummariesText flush ss = summaries_lines flush 0 ss"

definition SummarizeCmd :: "'e parsers_env \<Rightarrow> root_state \<Rightarrow> string \<Rightarrow> string list \<Rightarrow> run outcome" where
  "SummarizeCmd pe st expr args =
     with_input (Process pe) st TierZeroConfig None expr args Ret (\<lambda>env sql.
     parse_input (Process pe) st env sql (\<lambda>env parsed stripped.
     obind (Parsed (SummaryApi pe) parsed stripped) (\<lambda>summaries.
     Ret (render_data (Process pe) st env (MarshalSummary pe summaries) (renderSummariesText (TabFlush pe) summaries)))))"

section \<open>One document each\<close>

lemma parse_input_eq:
  "parse_input ce st env sql body =
     (let env = env\<lparr>eerrors := eerrors env @ preprocess_warning sql\<rparr> in
      case Parse (Front (CliTools ce)) (StripShellPrompts sql) of
        Inl perr \<Rightarrow> renderParseErrorTranslated ce st env perr (StripShellPrompts sql) sql (StripShellPromptsWithMap sql)
      | Inr stmts \<Rightarrow> obind (Inspect stmts (targetVersion st) None)
          (\<lambda>ws. body (env\<lparr>eerrors := eerrors env @ ws\<rparr>) stmts (StripShellPrompts sql)))"
  unfolding parse_input_def preprocessSQL_eq prod.case StripShellPrompts_def [symmetric] Let_def ..

lemma parse_input_document:
  assumes json: "json_process ce st" and grave: "grave (ErrorApi (Front (CliTools ce)))" and env: "list_all advisory (eerrors env)"
    and body: "\<And>env stmts. Parse (Front (CliTools ce)) (StripShellPrompts sql) = Inr stmts \<Longrightarrow> list_all advisory (eerrors env) \<Longrightarrow>
      settles ce (body env stmts (StripShellPrompts sql))"
  shows "settles ce (parse_input ce st env sql body)"
proof (cases "Parse (Front (CliTools ce)) (StripShellPrompts sql)")
  case (Inl perr)
  with renderParseErrorTranslated_document [OF json grave] show ?thesis by (simp add: parse_input_eq Let_def)
next
  case (Inr stmts)
  obtain ws where ws: "Inspect stmts (targetVersion st) None = Ret ws" using Inspect_returns by blast
  let ?env = "env\<lparr>eerrors := (eerrors env @ preprocess_warning sql) @ ws\<rparr>"
  have "list_all advisory (eerrors ?env)"
    using preprocess_advisory_list [OF env, of sql] Inspect_advisory [OF ws] by (auto simp: list_all_iff)
  from body [OF Inr this] show ?thesis by (simp add: parse_input_eq Let_def Inr ws)
qed

text \<open>A scanner whose tokens are in order; the colouring then returns.\<close>

definition in_order :: "lexer_api \<Rightarrow> bool" where
  "in_order lx \<longleftrightarrow> (\<forall>s. tokens_from (int (length s)) 0 (InspectTokens lx s))"

lemma highlight_loop_returns:
  "tokens_from (int (length s)) p toks \<Longrightarrow> 0 \<le> p \<Longrightarrow> p \<le> int (length s) \<Longrightarrow>
     \<exists>out e. highlight_loop lx s toks p acc = Ret (out, e) \<and> 0 \<le> e \<and> e \<le> int (length s)"
proof (induction toks arbitrary: p acc)
  case (Cons t ts)
  show ?case
  proof (cases "tok_id t = 0")
    case False
    with Cons.prems have b: "p \<le> tok_start t" "tok_start t \<le> tok_end t" "tok_end t \<le> int (length s)" by simp_all
    then obtain gap where "(if tok_start t > p then slice s p (tok_start t) else Ret []) = Ret gap"
      using Cons.prems(2) by (cases "tok_start t > p") (simp_all add: slice_Ret)
    moreover obtain word where "slice s (tok_start t) (tok_end t) = Ret word"
      using b Cons.prems(2) by (simp add: slice_Ret)
    ultimately show ?thesis using False Cons.prems Cons.IH [of "tok_end t"] by (simp add: Let_def)
  qed (use Cons.prems in auto)
qed auto

lemma Highlight_returns: "in_order lx \<Longrightarrow> \<exists>out. Highlight lx s = Ret out"
  using highlight_loop_returns [of s 0 "InspectTokens lx s" lx "[]"]
  by (auto simp: Highlight_def Let_def in_order_def slice_Ret)

lemma parser_commands_document:
  assumes json: "json_process (Process pe) st" and grave: "grave (ErrorApi (Front (tools pe)))" and loc: "locating (Front (tools pe))"
    and lexer: "in_order (Lexer pe)"
  shows "settles (Process pe) (ParseCmd pe st expr args)"
    and "settles (Process pe) (FormatCmd pe st colorFlag expr args)"
    and "settles (Process pe) (RiskCmd pe st expr args)"
    and "settles (Process pe) (SummarizeCmd pe st expr args)"
proof -
  note input = parse_input_document [OF json grave] and early = document_error [OF json]
  show "settles (Process pe) (ParseCmd pe st expr args)"
    unfolding ParseCmd_def
    by (rule with_input_cases, simp add: early) (rule input, assumption, simp add: Let_def document_data [OF json])
  show "settles (Process pe) (FormatCmd pe st colorFlag expr args)"
    unfolding FormatCmd_def
  proof (rule with_input_cases, simp add: early, rule input, assumption)
    fix env :: envelope and stmts
    assume env: "list_all advisory (eerrors env)"
    show "settles (Process pe) (case FormatParsed (Pretty (tools pe)) stmts of
        Inl e \<Rightarrow> Ret (renderError (Process pe) st env e)
      | Inr formatted \<Rightarrow>
          obind (if (case parseColorMode colorFlag of Inl _ \<Rightarrow> False | Inr m \<Rightarrow> useColor (StdoutIsTerminal pe) m)
                 then Highlight (Lexer pe) formatted else Ret formatted) (\<lambda>textOut.
          Ret (render_data (Process pe) st env (MarshalData (tools pe) (FormattedData formatted)) [textOut @ [newline]])))"
    proof (cases "FormatParsed (Pretty (tools pe)) stmts")
      case (Inr formatted)
      obtain out where "Highlight (Lexer pe) formatted = Ret out" using Highlight_returns [OF lexer] by blast
      with Inr document_data [OF json env] show ?thesis by simp
    qed (simp add: early)
  qed
  show "settles (Process pe) (RiskCmd pe st expr args)"
    unfolding RiskCmd_def
  proof (rule with_input_cases, simp add: early, rule input, assumption)
    fix env :: envelope and stmts and sql
    assume env: "list_all advisory (eerrors env)"
    obtain fs where "AnalyzeParsed (ShowName (tools pe)) stmts (StripShellPrompts sql) = Ret fs" using AnalyzeParsed_returns by blast
    with document_data [OF json env]
    show "settles (Process pe) (obind (AnalyzeParsed (ShowName (tools pe)) stmts (StripShellPrompts sql)) (\<lambda>findings.
        Ret (render_data (Process pe) st env (MarshalData (tools pe) (FindingsData findings)) (concat (map risk_lines findings)))))" by simp
  qed
  show "settles (Process pe) (SummarizeCmd pe st expr args)"
    unfolding SummarizeCmd_def
  proof (rule with_input_cases, simp add: early, rule input, assumption)
    fix env :: envelope and stmts and sql
    assume env: "list_all advisory (eerrors env)" and "Parse (Front (tools pe)) (StripShellPrompts sql) = Inr stmts"
    then have "located (StripShellPrompts sql) 0 stmts" using loc by (simp add: locating_def)
    then obtain ss where "Parsed (SummaryApi pe) stmts (StripShellPrompts sql) = Ret ss" using Parsed_run by blast
    with document_data [OF json env]
    show "settles (Process pe) (obind (Parsed (SummaryApi pe) stmts (StripShellPrompts sql)) (\<lambda>summaries.
        Ret (render_data (Process pe) st env (MarshalSummary pe summaries) (renderSummariesText (TabFlush pe) summaries))))" by simp
  qed
qed

end
