(* ===== verification/Cli_Connected.thy ===== *)
theory Cli_Connected
  imports Cli Mcp_Connected
begin

text \<open>
  The subcommands that need a cluster: \<open>exec\<close>, \<open>explain\<close>, \<open>simulate\<close> and \<open>ping\<close> of \<open>cmd\<close>. A command gives its run and
  everything it sent. The parser and the encoders of data are those of the process; the driver, what
  \<open>errors.As\<close> finds in its errors and the encoders of results are those of the cluster.
\<close>

section \<open>The environment\<close>

record 'e connected_env =
  Proc :: "'e cli_env"
  Server :: "'e cluster_env"
  MarshalInfo :: "string \<times> string \<Rightarrow> string + string"
  FlushTable :: "string \<Rightarrow> string list"
  FormatCell :: "string \<Rightarrow> string"

abbreviation cli_tools :: "'e connected_env \<Rightarrow> 'e tool_env" where
  "cli_tools xe \<equiv> CliTools (Proc xe)"

type_synonym connected_run = "(run \<times> wire list) outcome"

definition unsent :: "run \<Rightarrow> connected_run" where
  "unsent r = Ret (r, [])"

definition no_dsn :: string where
  "no_dsn = ''no connection string: pass --dsn or set CRDB_DSN''"

text \<open>\<open>RenderErrorEntry\<close> with the entry's position moved back to the paste.\<close>

definition translated_entry ::
    "'e connected_env \<Rightarrow> root_state \<Rightarrow> envelope \<Rightarrow> string \<Rightarrow> error_entry \<Rightarrow> string \<Rightarrow> StripResult \<Rightarrow> wire list \<Rightarrow> connected_run" where
  "translated_entry xe st env failure e originalSQL strip ws =
     obind (if StripResult.Removed strip then adjust_entry originalSQL strip e else Ret e) (\<lambda>e.
     Ret (renderErrorEntry (Proc xe) st env failure e, ws))"

definition safety_rejection ::
    "'e connected_env \<Rightarrow> root_state \<Rightarrow> envelope \<Rightarrow> violation \<Rightarrow> string \<Rightarrow> StripResult \<Rightarrow> connected_run" where
  "safety_rejection xe st env v originalSQL strip =
     translated_entry xe st env (''safety violation: '' @ Reason v) (Safety.Envelope v) originalSQL strip []"

text \<open>From \<open>newEnvelope\<close> to the parsed mode; \<open>body\<close> gets the envelope, the trimmed text, its strip result and the mode.\<close>

definition connected_input ::
    "'e connected_env \<Rightarrow> root_state \<Rightarrow> string \<Rightarrow> string list \<Rightarrow> string \<Rightarrow>
     (envelope \<Rightarrow> string \<Rightarrow> StripResult \<Rightarrow> mode \<Rightarrow> connected_run) \<Rightarrow> connected_run" where
  "connected_input xe st expr args modeFlag body =
     with_input (Proc xe) st TierConnected None expr args unsent (\<lambda>env sql.
     (case preprocessSQL env (trim_space sql) of
        (env, strip) \<Rightarrow>
          if root_dsn st = [] then unsent (renderError (Proc xe) st env no_dsn)
          else
            (case ParseMode modeFlag of
               Inl e \<Rightarrow> unsent (renderError (Proc xe) st env e)
             | Inr mo \<Rightarrow> body env (trim_space sql) strip mo)))"

section \<open>\<open>explain\<close> and \<open>simulate\<close>\<close>

text \<open>The steps the two share, up to the call of the manager and its failure.\<close>

definition planning_cmd ::
    "'e connected_env \<Rightarrow> root_state \<Rightarrow> string \<Rightarrow> string list \<Rightarrow> string \<Rightarrow> int \<Rightarrow> operation \<Rightarrow> (string \<Rightarrow> 'a io) \<Rightarrow>
     ('a \<Rightarrow> envelope \<Rightarrow> run outcome) \<Rightarrow> connected_run" where
  "planning_cmd xe st expr args modeFlag timeout op ask finish =
     connected_input xe st expr args modeFlag (\<lambda>env originalSQL strip mo.
     (case Check (Parse (Front (cli_tools xe))) mo op (Stripped strip) of
        Inl perr \<Rightarrow>
          translated_entry xe st env (error_string (ErrorApi (Front (cli_tools xe))) perr)
            (parse_error_of (cli_tools xe) perr (Stripped strip)) originalSQL strip []
      | Inr (Some v) \<Rightarrow> safety_rejection xe st env v originalSQL strip
      | Inr None \<Rightarrow>
          (case on_manager (Server xe) (root_dsn st) timeout (ask (Stripped strip)) of
             (Inl e, sent, ws) \<Rightarrow>
               translated_entry xe st env e (FromClusterError (ClusterApi (Server xe) sent) e (Stripped strip)) originalSQL strip ws
           | (Inr out, sent, ws) \<Rightarrow>
               obind (finish out (env\<lparr>econnection := ConnectionConnected\<rparr>)) (\<lambda>r. Ret (r, ws)))))"

fun strategy_text :: "strategy \<Rightarrow> string" where
  "strategy_text StrategyExplainAnalyze = ''explain_analyze''"
| "strategy_text StrategyExplain = ''explain''"
| "strategy_text StrategyExplainDDL = ''explain_ddl''"
| "strategy_text NoStrategy = []"

text \<open>The lines of an explanation, or the error of an unknown strategy; a missing plan is a nil dereference.\<close>

definition renderExplainAny :: "explain_any_result \<Rightarrow> (string + string list) outcome" where
  "renderExplainAny r =
     (case any_strategy r of
        StrategyExplain \<Rightarrow>
          (case any_plan r of
             None \<Rightarrow> Panic ''nil pointer dereference''
           | Some p \<Rightarrow> Ret (Inr (map (\<lambda>row. row @ [newline]) (RawRows p))))
      | StrategyExplainDDL \<Rightarrow>
          (case any_ddl_plan r of
             None \<Rightarrow> Panic ''nil pointer dereference''
           | Some p \<Rightarrow> Ret (Inr [RawText p]))
      | strat \<Rightarrow> Ret (Inl (''explain: unknown strategy '' @ quote (strategy_text strat))))"

definition ExplainCmd ::
    "'e connected_env \<Rightarrow> root_state \<Rightarrow> string \<Rightarrow> string list \<Rightarrow> string \<Rightarrow> int \<Rightarrow> connected_run" where
  "ExplainCmd xe st expr args modeFlag timeout =
     planning_cmd xe st expr args modeFlag timeout OpExplain
       (ExplainAny (Driver (Server xe)) (parse_text (Front (cli_tools xe))))
       (\<lambda>out env. case MarshalExplain (Server xe) out of
          Inl e \<Rightarrow> Ret (renderError (Proc xe) st env e)
        | Inr d \<Rightarrow>
            (let env = env\<lparr>edata := Some d\<rparr> in
             if outputFormat st \<noteq> FormatText then Ret (render (Proc xe) st env [])
             else
               obind (renderExplainAny out) (\<lambda>ls.
               Ret (case ls of
                      Inl e \<Rightarrow> ([], suppressEPIPE (Some (Err e)))
                    | Inr lines \<Rightarrow> render (Proc xe) st env lines))))"

definition stat_line :: "table_stat \<Rightarrow> string" where
  "stat_line ts =
     (if CollectedAt ts = []
      then ''-- table stats: '' @ ts_schema ts @ ''.'' @ ts_table ts @ '' row_count=unavailable'' @ [newline]
      else ''-- table stats: '' @ ts_schema ts @ ''.'' @ ts_table ts @ '' row_count='' @ itoa (RowCount ts)
             @ '' (collected '' @ CollectedAt ts @ '')'' @ [newline])"

definition step_lines :: "simulate_step \<Rightarrow> string list" where
  "step_lines s =
     (''-- step '' @ itoa_nat (StatementIndex s) @ '': '' @ step_tag s @ '' ('' @ strategy_text (step_strategy s) @ '')'' @ [newline])
     # (if Error s \<noteq> [] then [''error: '' @ Error s @ [newline]]
        else if step_strategy s = StrategyExplainDDL
        then (case DDLPlan s of
                None \<Rightarrow> []
              | Some p \<Rightarrow> RawText p # (if has_suffix (RawText p) [newline] then [] else [[newline]]))
             @ map stat_line (TableStats s)
             @ (if StatsError s \<noteq> [] then [''-- table stats error: '' @ StatsError s @ [newline]] else [])
        else (case step_plan s of None \<Rightarrow> [] | Some p \<Rightarrow> map (\<lambda>row. row @ [newline]) (RawRows p)))"

fun simulate_lines :: "nat \<Rightarrow> simulate_step list \<Rightarrow> string list" where
  "simulate_lines i [] = []"
| "simulate_lines i (s # ss) = (if i > 0 then [[newline]] else []) @ step_lines s @ simulate_lines (Suc i) ss"

definition renderSimulateText :: "simulate_step list \<Rightarrow> string list" where
  "renderSimulateText ss = simulate_lines 0 ss"

definition simulateStepWarning :: "simulate_step list \<Rightarrow> error_entry option" where
  "simulateStepWarning ss = map_option step_failure_entry (StepFailureSummary ss)"

definition SimulateCmd ::
    "'e connected_env \<Rightarrow> root_state \<Rightarrow> string \<Rightarrow> string list \<Rightarrow> string \<Rightarrow> int \<Rightarrow> connected_run" where
  "SimulateCmd xe st expr args modeFlag timeout =
     planning_cmd xe st expr args modeFlag timeout OpSimulate
       (Simulate (Driver (Server xe)) (Sanitize (Server xe)) (parse_text (Front (cli_tools xe))))
       (\<lambda>sts env. case MarshalSimulate (Server xe) sts of
          Inl e \<Rightarrow> Ret (renderError (Proc xe) st env e)
        | Inr d \<Rightarrow>
            (let env = env\<lparr>edata := Some d\<rparr> in
             case simulateStepWarning sts of
               Some entry \<Rightarrow> Ret (rendered_failure (render (Proc xe) st (env\<lparr>eerrors := eerrors env @ [entry]\<rparr>) (renderSimulateText sts)))
             | None \<Rightarrow> Ret (render (Proc xe) st env (renderSimulateText sts))))"

section \<open>\<open>exec\<close>\<close>

definition defaultExecMaxRows :: int where
  "defaultExecMaxRows = 1000"

definition writeLimitInjectedFooter :: "nat option \<Rightarrow> string list" where
  "writeLimitInjectedFooter limit =
     (case limit of None \<Rightarrow> [] | Some n \<Rightarrow> [''(LIMIT '' @ itoa_nat n @ '' injected)'' @ [newline]])"

definition joinCells :: "string list \<Rightarrow> string" where
  "joinCells cells = join_with [CHR 0x09] cells"

definition renderExecText :: "(string \<Rightarrow> string list) \<Rightarrow> (string \<Rightarrow> string) \<Rightarrow> execute_result \<Rightarrow> string list" where
  "renderExecText flush cell res =
     (if length (Columns res) = 0 then (CommandTag res @ [newline]) # writeLimitInjectedFooter (LimitInjected res)
      else
        flush (concat (map (\<lambda>cells. joinCells cells @ [newline]) (map fst (Columns res) # map (map cell) (Rows res))))
        @ [(if Truncated res then ''('' @ itoa_nat (RowsReturned res) @ '' rows, truncated)''
            else ''('' @ itoa_nat (RowsReturned res) @ '' rows)'') @ [newline]]
        @ writeLimitInjectedFooter (LimitInjected res))"

definition ExecCmd ::
    "'e connected_env \<Rightarrow> root_state \<Rightarrow> string \<Rightarrow> string list \<Rightarrow> string \<Rightarrow> int \<Rightarrow> int \<Rightarrow> connected_run" where
  "ExecCmd xe st expr args modeFlag timeout maxRows =
     connected_input xe st expr args modeFlag (\<lambda>env originalSQL strip mo.
     (case Parse (Front (cli_tools xe)) (Stripped strip) of
        Inl perr \<Rightarrow>
          obind (renderParseErrorTranslated (Proc xe) st env perr (Stripped strip) originalSQL strip) unsent
      | Inr parsed \<Rightarrow>
          obind (Inspect parsed (targetVersion st) None) (\<lambda>ws.
          (let env = env\<lparr>eerrors := eerrors env @ ws\<rparr> in
           case CheckParsed mo OpExecute parsed of
             Some v \<Rightarrow> safety_rejection xe st env v originalSQL strip
           | None \<Rightarrow>
               (case rewrite_sql (Server xe) mo maxRows parsed (Stripped strip) of
                  (rewritten, injected) \<Rightarrow>
               (case on_manager (Server xe) (root_dsn st) timeout
                       (Execute (Driver (Server xe)) rewritten \<lparr>opt_mode = mo, MaxRows = maxRows\<rparr>) of
                  (Inl e, sent, ws) \<Rightarrow>
                    (let clusterErr = FromClusterError (ClusterApi (Server xe) sent) e rewritten in
                     if injected then Ret (renderErrorEntry (Proc xe) st env e (omit_position clusterErr), ws)
                     else translated_entry xe st env e clusterErr originalSQL strip ws)
                | (Inr result, sent, ws) \<Rightarrow>
                    (let result = (if injected then result\<lparr>LimitInjected := Some (nat maxRows)\<rparr> else result) in
                     Ret (render_data (Proc xe) st (env\<lparr>econnection := ConnectionConnected\<rparr>) (MarshalExecute (Server xe) result)
                            (renderExecText (FlushTable xe) (FormatCell xe) result), ws)))))))) "

section \<open>\<open>ping\<close>\<close>

definition PingCmd :: "'e connected_env \<Rightarrow> root_state \<Rightarrow> connected_run" where
  "PingCmd xe st =
     (case newEnvelope (Proc xe) st TierConnected of
        (env, Some e) \<Rightarrow> unsent (renderError (Proc xe) st env e)
      | (env, None) \<Rightarrow>
          if root_dsn st = [] then unsent (renderError (Proc xe) st env no_dsn)
          else
            (case Ping (Driver (Server xe)) (NewManager (root_dsn st) []) of
               (r, m) \<Rightarrow>
                 (let ws = manager.log (snd (Close (Driver (Server xe)) m)) in
                  case r of
                    Inl e \<Rightarrow>
                      Ret (renderErrorEntry (Proc xe) st env e (FromClusterError (ClusterApi (Server xe) (manager.log m)) e []), ws)
                  | Inr (clusterID, ver) \<Rightarrow>
                      Ret (render_data (Proc xe) st (env\<lparr>econnection := ConnectionConnected\<rparr>) (MarshalInfo xe (clusterID, ver))
                             [''cluster_id: '' @ clusterID @ [newline] @ ''version: '' @ ver @ [newline]
                              @ ''connection_status: connected'' @ [newline]], ws))))"

section \<open>One document each\<close>

fun settles_sent :: "'e cli_env \<Rightarrow> connected_run \<Rightarrow> bool" where
  "settles_sent ce (Ret (r, ws)) \<longleftrightarrow> document ce r"
| "settles_sent ce (Panic _) \<longleftrightarrow> False"

lemma settles_unsent [simp]: "settles_sent ce (unsent r) = document ce r"
  by (simp add: unsent_def)

lemma settles_then_unsent: "settles ce r \<Longrightarrow> settles_sent ce (obind r unsent)"
  by (cases r) simp_all

lemma translated_entry_eq:
  "translated_entry xe st env failure e sql (StripShellPromptsWithMap sql) ws =
     Ret (renderErrorEntry (Proc xe) st env failure (relocate sql e), ws)"
  by (simp add: translated_entry_def adjust_entry_strip relocate_def)

lemma connected_input_document:
  assumes json: "json_process (Proc xe) st"
    and body: "\<And>env sql mo. list_all advisory (eerrors env) \<Longrightarrow> settles_sent (Proc xe) (body env sql (StripShellPromptsWithMap sql) mo)"
  shows "settles_sent (Proc xe) (connected_input xe st expr args modeFlag body)"
  unfolding connected_input_def
proof (rule with_input_cases)
  fix env :: envelope and sql
  assume "list_all advisory (eerrors env)"
  then have "list_all advisory (eerrors (env\<lparr>eerrors := eerrors env @ preprocess_warning (trim_space sql)\<rparr>))"
    using preprocess_advisory_list [of env "trim_space sql"] by (cases env) simp
  from body [OF this] show "settles_sent (Proc xe) (case preprocessSQL env (trim_space sql) of
        (env, strip) \<Rightarrow>
          if root_dsn st = [] then unsent (renderError (Proc xe) st env no_dsn)
          else
            (case ParseMode modeFlag of
               Inl e \<Rightarrow> unsent (renderError (Proc xe) st env e)
             | Inr mo \<Rightarrow> body env (trim_space sql) strip mo))"
    by (simp add: preprocessSQL_eq unsent_def document_error [OF json] split: sum.split)
qed (simp add: unsent_def document_error [OF json])

lemma planning_cmd_document:
  assumes json: "json_process (Proc xe) st" and grave: "grave (ErrorApi (Front (cli_tools xe)))" "\<And>ws. grave (ClusterApi (Server xe) ws)"
    and finish: "\<And>out env. list_all advisory (eerrors env) \<Longrightarrow> settles (Proc xe) (finish out env)"
  shows "settles_sent (Proc xe) (planning_cmd xe st expr args modeFlag timeout op ask finish)"
  unfolding planning_cmd_def
proof (rule connected_input_document [OF json])
  fix env :: envelope and sql mo
  assume env: "list_all advisory (eerrors env)"
  let ?s = "StripShellPrompts sql"
  have entry: "document (Proc xe) (renderErrorEntry (Proc xe) st env f (relocate sql e))" if "\<not> advisory e" for f e
    using document_entry [OF json, of "relocate sql e"] that by simp
  obtain r sent ws where run: "on_manager (Server xe) (root_dsn st) timeout (ask ?s) = (r, sent, ws)" by (metis prod_cases3)
  have success: "settles_sent (Proc xe) (obind (finish out (env\<lparr>econnection := ConnectionConnected\<rparr>)) (\<lambda>r. Ret (r, ws)))" for out
    using finish [of "env\<lparr>econnection := ConnectionConnected\<rparr>" out] env
    by (cases "finish out (env\<lparr>econnection := ConnectionConnected\<rparr>)") simp_all
  show "settles_sent (Proc xe) (case Check (Parse (Front (cli_tools xe))) mo op (Stripped (StripShellPromptsWithMap sql)) of
        Inl perr \<Rightarrow>
          translated_entry xe st env (error_string (ErrorApi (Front (cli_tools xe))) perr)
            (parse_error_of (cli_tools xe) perr (Stripped (StripShellPromptsWithMap sql))) sql (StripShellPromptsWithMap sql) []
      | Inr (Some v) \<Rightarrow> safety_rejection xe st env v sql (StripShellPromptsWithMap sql)
      | Inr None \<Rightarrow>
          (case on_manager (Server xe) (root_dsn st) timeout (ask (Stripped (StripShellPromptsWithMap sql))) of
             (Inl e, sent, ws) \<Rightarrow>
               translated_entry xe st env e (FromClusterError (ClusterApi (Server xe) sent) e (Stripped (StripShellPromptsWithMap sql)))
                 sql (StripShellPromptsWithMap sql) ws
           | (Inr out, sent, ws) \<Rightarrow>
               obind (finish out (env\<lparr>econnection := ConnectionConnected\<rparr>)) (\<lambda>r. Ret (r, ws))))"
    using success
    by (auto simp: StripShellPrompts_def [symmetric] run translated_entry_eq safety_rejection_def
        parse_error_grave [OF grave(1)] cluster_error_grave [OF grave(2)] split: sum.split option.split intro!: entry)
qed

text \<open>\<open>ExplainAny\<close> fills the plan of the strategy it names.\<close>

lemma ExplainAny_plan:
  "ExplainAny d parse sql m = (Inr out, m') \<Longrightarrow>
     any_strategy out = StrategyExplain \<and> any_plan out \<noteq> None \<or> any_strategy out = StrategyExplainDDL \<and> any_ddl_plan out \<noteq> None"
  by (auto simp: ExplainAny_def and_then_def ret_def err_def split: sum.splits list.splits statement_type.splits prod.splits)

lemma connected_commands_document:
  assumes json: "json_process (Proc xe) st" and grave: "grave (ErrorApi (Front (cli_tools xe)))" "\<And>ws. grave (ClusterApi (Server xe) ws)"
  shows "settles_sent (Proc xe) (ExplainCmd xe st expr args modeFlag timeout)"
    and "settles_sent (Proc xe) (SimulateCmd xe st expr args modeFlag timeout)"
    and "settles_sent (Proc xe) (ExecCmd xe st expr args modeFlag timeout maxRows)"
    and "settles_sent (Proc xe) (PingCmd xe st)"
proof -
  have fmt: "outputFormat st \<noteq> FormatText" using json by (simp add: json_process_def)
  show "settles_sent (Proc xe) (ExplainCmd xe st expr args modeFlag timeout)"
    unfolding ExplainCmd_def
    by (rule planning_cmd_document [OF json grave]) (simp add: fmt document_error [OF json] document_render [OF json] split: sum.split)
  show "settles_sent (Proc xe) (SimulateCmd xe st expr args modeFlag timeout)"
    unfolding SimulateCmd_def
    by (rule planning_cmd_document [OF json grave])
      (auto simp: document_error [OF json] simulateStepWarning_def step_failure_entry_def Let_def split: sum.split option.split prod.split
        intro!: document_render [OF json] document_failure [OF json])
  show "settles_sent (Proc xe) (ExecCmd xe st expr args modeFlag timeout maxRows)"
    unfolding ExecCmd_def
  proof (rule connected_input_document [OF json])
    fix env :: envelope and sql mo
    assume env: "list_all advisory (eerrors env)"
    let ?s = "StripShellPrompts sql" and ?strip = "StripShellPromptsWithMap sql"
    have entry: "document (Proc xe) (renderErrorEntry (Proc xe) st env f (relocate sql e))" if "\<not> advisory e" for f e env
      using document_entry [OF json, of "relocate sql e"] that by simp
    have omitted: "document (Proc xe) (renderErrorEntry (Proc xe) st env f (omit_position e))" if "\<not> advisory e" for f e env
      using that by (intro document_entry [OF json]) (simp add: omit_position_def)
    show "settles_sent (Proc xe) (case Parse (Front (cli_tools xe)) (Stripped ?strip) of
        Inl perr \<Rightarrow> obind (renderParseErrorTranslated (Proc xe) st env perr (Stripped ?strip) sql ?strip) unsent
      | Inr parsed \<Rightarrow>
          obind (Inspect parsed (targetVersion st) None) (\<lambda>ws.
          (let env = env\<lparr>eerrors := eerrors env @ ws\<rparr> in
           case CheckParsed mo OpExecute parsed of
             Some v \<Rightarrow> safety_rejection xe st env v sql ?strip
           | None \<Rightarrow>
               (case rewrite_sql (Server xe) mo maxRows parsed (Stripped ?strip) of
                  (rewritten, injected) \<Rightarrow>
               (case on_manager (Server xe) (root_dsn st) timeout
                       (Execute (Driver (Server xe)) rewritten \<lparr>opt_mode = mo, MaxRows = maxRows\<rparr>) of
                  (Inl e, sent, ws) \<Rightarrow>
                    (let clusterErr = FromClusterError (ClusterApi (Server xe) sent) e rewritten in
                     if injected then Ret (renderErrorEntry (Proc xe) st env e (omit_position clusterErr), ws)
                     else translated_entry xe st env e clusterErr sql ?strip ws)
                | (Inr result, sent, ws) \<Rightarrow>
                    (let result = (if injected then result\<lparr>LimitInjected := Some (nat maxRows)\<rparr> else result) in
                     Ret (render_data (Proc xe) st (env\<lparr>econnection := ConnectionConnected\<rparr>) (MarshalExecute (Server xe) result)
                            (renderExecText (FlushTable xe) (FormatCell xe) result), ws)))))))"
    proof (cases "Parse (Front (cli_tools xe)) ?s")
      case (Inl perr)
      from settles_then_unsent [OF renderParseErrorTranslated_document [OF json grave(1)]] Inl show ?thesis
        by (simp add: StripShellPrompts_def [symmetric])
    next
      case (Inr stmts)
      obtain ws where ws: "Inspect stmts (targetVersion st) None = Ret ws" using Inspect_returns by blast
      have env': "list_all advisory (eerrors env @ ws)" using env Inspect_advisory [OF ws] by (auto simp: list_all_iff)
      obtain rw inj where rw: "rewrite_sql (Server xe) mo maxRows stmts ?s = (rw, inj)" by fastforce
      obtain r sent es where run: "on_manager (Server xe) (root_dsn st) timeout
          (Execute (Driver (Server xe)) rw \<lparr>opt_mode = mo, MaxRows = maxRows\<rparr>) = (r, sent, es)" by (metis prod_cases3)
      show ?thesis
        using env' by (cases r) (auto simp: Inr ws rw run Let_def StripShellPrompts_def [symmetric] translated_entry_eq safety_rejection_def
            cluster_error_grave [OF grave(2)] split: option.split intro!: entry omitted document_data [OF json])
    qed
  qed
  show "settles_sent (Proc xe) (PingCmd xe st)"
    using newEnvelope_advisory [of "Proc xe" st TierConnected]
    by (auto simp: PingCmd_def unsent_def Let_def document_error [OF json] cluster_error_grave [OF grave(2)]
        intro!: document_data [OF json] document_entry [OF json] split: prod.split option.split sum.split)
qed

end
