(* ===== verification/Cli_Agreement.thy ===== *)
theory Cli_Agreement
  imports Cli_Parsers Cli_Connected
begin

text \<open>
  The command line and the MCP tools are written twice over the same packages. In JSON mode they agree: with the
  same statement, mode, timeout, row cap and connection string, a subcommand sends to the cluster what the
  tool of its name sends and prints the envelope the tool answers with.
\<close>

definition agrees :: "call_result \<Rightarrow> connected_run \<Rightarrow> bool" where
  "agrees t c \<longleftrightarrow> (\<exists>r ws out. t = Ret (r, ws) \<and> c = Ret (out, ws)
     \<and> (case r of ToolText body \<Rightarrow> fst out = body @ [newline] | ToolError _ \<Rightarrow> True))"

text \<open>A run that printed an envelope.\<close>

definition prints :: "'e cli_env \<Rightarrow> envelope \<Rightarrow> run \<Rightarrow> bool" where
  "prints ce env r \<longleftrightarrow> (\<exists>doc. MarshalEnvelope (CliTools ce) env = Inr doc \<and> fst r = doc @ [newline])"

lemma prints_agrees: "prints ce env r \<Longrightarrow> agrees (Ret (envelopeResult (MarshalEnvelope (CliTools ce)) env, ws)) (Ret (r, ws))"
  by (auto simp: prints_def agrees_def envelopeResult_def)

lemma prints_render: "json_process ce st \<Longrightarrow> prints ce env (render ce st env ls)"
  by (erule render_json [of ce st env ls]) (simp add: prints_def)

lemma prints_failure: "json_process ce st \<Longrightarrow> prints ce env (rendered_failure (render ce st env ls))"
  by (erule render_json [of ce st env ls]) (simp add: prints_def rendered_failure_def)

lemma prints_entry:
  assumes "json_process ce st" "edata env = None"
  shows "prints ce (env\<lparr>eerrors := eerrors env @ [e]\<rparr>) (renderErrorEntry ce st env f e)"
proof -
  let ?env = "env\<lparr>eerrors := eerrors env @ [e]\<rparr>"
  have same: "env\<lparr>eerrors := eerrors env @ [e], edata := None\<rparr> = ?env" using assms(2) by (cases env) simp
  from assms(1) obtain doc where "MarshalEnvelope (CliTools ce) ?env = Inr doc" by (rule json_marshals)
  with assms(1) same show ?thesis
    by (simp add: prints_def renderErrorEntry_def RenderErrorEntry_def Render_def json_process_def Let_def)
qed

lemma data_agrees:
  assumes "json_process ce st"
  shows "agrees (Ret (case encoded of Inl e \<Rightarrow> ToolError (msg e)
      | Inr d \<Rightarrow> envelopeResult (MarshalEnvelope (CliTools ce)) (env\<lparr>edata := Some d\<rparr>), ws)) (Ret (render_data ce st env encoded ls, ws))"
proof (cases encoded)
  case (Inr d)
  with prints_agrees [OF prints_render [OF assms, of "env\<lparr>edata := Some d\<rparr>" ls], of ws] show ?thesis by (simp add: render_data_def)
qed (simp add: agrees_def)

section \<open>The connected commands\<close>

lemma connected_input_run:
  assumes "parserVersion (DepInfo (Proc xe)) (BinaryVersion (Proc xe)) = Inr pv" "ReadSQL (Proc xe) expr args = Inr raw"
    "root_dsn st \<noteq> []" "ParseMode modeFlag = Inr mo"
  shows "connected_input xe st expr args modeFlag body =
    body (connected_start pv (targetVersion st) (trim_space raw)) (trim_space raw) (StripShellPromptsWithMap (trim_space raw)) mo"
proof -
  have "newEnvelope (Proc xe) st TierConnected = (tier_envelope TierConnected pv (targetVersion st), None)"
    using assms(1) by (simp add: newEnvelope_tier)
  then show ?thesis
    by (simp add: connected_input_def with_input_def assms(2-4) preprocessSQL_eq start_envelope_def)
qed

text \<open>One invocation, by the flags of a command and by the arguments of a tool call.\<close>

definition same_invocation ::
    "'e connected_env \<Rightarrow> root_state \<Rightarrow> string \<Rightarrow> string list \<Rightarrow> string \<Rightarrow> int \<Rightarrow> string \<Rightarrow> string \<Rightarrow> request \<Rightarrow> bool" where
  "same_invocation xe st expr args modeFlag timeout pv dflt req \<longleftrightarrow>
     CliTools (Proc xe) = Tools (Server xe) \<and> parserVersion (DepInfo (Proc xe)) (BinaryVersion (Proc xe)) = Inr pv \<and> root_dsn st \<noteq> []
     \<and> (\<exists>raw name mo. ReadSQL (Proc xe) expr args = Inr raw \<and> ParseMode modeFlag = Inr mo
          \<and> connected_params (Server xe) dflt req = Inr (trim_space raw, name, targetVersion st, mo, timeout)
          \<and> (\<forall>env. mergeDSNWithTLS (MarshalEnv (Server xe)) (Url (Server xe)) req env name = Inr (root_dsn st)))"

lemma planning_agrees:
  assumes json: "json_process (Proc xe) st" and same: "same_invocation xe st expr args modeFlag timeout pv dflt req"
    and finish: "\<And>out env ws. edata env = None \<Longrightarrow> agrees (Ret (finish_tool out env, ws)) (obind (finish out env) (\<lambda>r. Ret (r, ws)))"
  shows "agrees (planning_tool (Server xe) pv dflt req op ask finish_tool) (planning_cmd xe st expr args modeFlag timeout op ask finish)"
proof -
  from same obtain raw name mo where
    eq: "CliTools (Proc xe) = Tools (Server xe)" "parserVersion (DepInfo (Proc xe)) (BinaryVersion (Proc xe)) = Inr pv" "root_dsn st \<noteq> []"
      "ReadSQL (Proc xe) expr args = Inr raw" "ParseMode modeFlag = Inr mo"
      "connected_params (Server xe) dflt req = Inr (trim_space raw, name, targetVersion st, mo, timeout)"
      "\<And>env. mergeDSNWithTLS (MarshalEnv (Server xe)) (Url (Server xe)) req env name = Inr (root_dsn st)"
    unfolding same_invocation_def by blast
  let ?sql = "trim_space raw"
  let ?s = "StripShellPrompts ?sql" and ?env = "connected_start pv (targetVersion st) ?sql"
  have entry: "agrees (Ret (envelopeResult (MarshalEnv (Server xe)) (?env\<lparr>eerrors := eerrors ?env @ [e]\<rparr>), ws))
      (Ret (renderErrorEntry (Proc xe) st ?env f e, ws))" for e f ws
    using prints_agrees [OF prints_entry [OF json, of ?env e f], of ws] by (simp add: eq(1))
  obtain r sent ws where run: "on_manager (Server xe) (root_dsn st) timeout (ask ?s) = (r, sent, ws)" by (metis prod_cases3)
  have tool: "planning_tool (Server xe) pv dflt req op ask finish_tool =
    (case ParseSQL (Server xe) ?s of
       Inl perr \<Rightarrow> Ret (envelopeResult (MarshalEnv (Server xe))
         (?env\<lparr>eerrors := eerrors ?env @ [relocate ?sql (parse_error_of (Tools (Server xe)) perr ?s)]\<rparr>), [])
     | Inr stmts \<Rightarrow>
         (case CheckParsed mo op stmts of
            Some v \<Rightarrow> Ret (envelopeResult (MarshalEnv (Server xe)) (?env\<lparr>eerrors := eerrors ?env @ [Safety.Envelope v]\<rparr>), [])
          | None \<Rightarrow> Ret (planning_result (Server xe) ?env ?sql finish_tool (r, sent, ws))))"
    unfolding planning_tool_eq [OF eq(6)] eq(7) run Let_def sum.case ..
  show ?thesis
  proof (cases "ParseSQL (Server xe) ?s")
    case (Inl perr)
    with entry show ?thesis
      unfolding tool by (simp add: planning_cmd_def connected_input_run [OF eq(2,4,3,5)] Check_def eq(1)
          StripShellPrompts_def [symmetric] translated_entry_eq)
  next
    case (Inr stmts)
    show ?thesis
    proof (cases "CheckParsed mo op stmts")
      case (Some v)
      with Inr entry show ?thesis
        unfolding tool by (simp add: planning_cmd_def connected_input_run [OF eq(2,4,3,5)] Check_def eq(1)
            StripShellPrompts_def [symmetric] safety_rejection_def translated_entry_eq relocate_violation)
    next
      case None
      show ?thesis
      proof (cases r)
        case (Inl e)
        with Inr None entry run show ?thesis
          unfolding tool by (simp add: planning_cmd_def connected_input_run [OF eq(2,4,3,5)] Check_def eq(1)
              StripShellPrompts_def [symmetric] translated_entry_eq planning_result_def)
      next
        case out: (Inr out)
        with Inr None run finish [of "?env\<lparr>econnection := ConnectionConnected\<rparr>" out ws] show ?thesis
          unfolding tool by (simp add: planning_cmd_def connected_input_run [OF eq(2,4,3,5)] Check_def eq(1)
              StripShellPrompts_def [symmetric] planning_result_def)
      qed
    qed
  qed
qed

lemma explain_agrees:
  assumes "json_process (Proc xe) st" "same_invocation xe st expr args modeFlag timeout pv dflt req"
  shows "agrees (ExplainSQLHandler (Server xe) pv dflt req) (ExplainCmd xe st expr args modeFlag timeout)"
proof -
  have tools: "CliTools (Proc xe) = Tools (Server xe)" using assms(2) by (simp add: same_invocation_def)
  have fmt: "outputFormat st \<noteq> FormatText" using assms(1) by (simp add: json_process_def)
  show ?thesis
    unfolding ExplainSQLHandler_def ExplainCmd_def tools
  proof (rule planning_agrees [OF assms])
    fix out env ws
    show "agrees (Ret (encoded_result (Server xe) env (MarshalExplain (Server xe) out), ws))
      (obind (case MarshalExplain (Server xe) out of
          Inl e \<Rightarrow> Ret (renderError (Proc xe) st env e)
        | Inr d \<Rightarrow>
            (let env = env\<lparr>edata := Some d\<rparr> in
             if outputFormat st \<noteq> FormatText then Ret (render (Proc xe) st env [])
             else
               obind (renderExplainAny out) (\<lambda>ls.
               Ret (case ls of
                      Inl e \<Rightarrow> ([], suppressEPIPE (Some (Err e)))
                    | Inr lines \<Rightarrow> render (Proc xe) st env lines)))) (\<lambda>r. Ret (r, ws)))"
    proof (cases "MarshalExplain (Server xe) out")
      case (Inr d)
      with prints_agrees [OF prints_render [OF assms(1), of "env\<lparr>edata := Some d\<rparr>" "[]"], of ws] fmt show ?thesis
        by (simp add: encoded_result_def tools)
    qed (simp add: encoded_result_def agrees_def)
  qed
qed

lemma simulate_agrees:
  assumes "json_process (Proc xe) st" "same_invocation xe st expr args modeFlag timeout pv dflt req"
  shows "agrees (SimulateSQLHandler (Server xe) pv dflt req) (SimulateCmd xe st expr args modeFlag timeout)"
proof -
  have tools: "CliTools (Proc xe) = Tools (Server xe)" using assms(2) by (simp add: same_invocation_def)
  show ?thesis
    unfolding SimulateSQLHandler_def SimulateCmd_def tools
  proof (rule planning_agrees [OF assms])
    fix sts env ws
    show "agrees (Ret (case MarshalSimulate (Server xe) sts of
          Inl e \<Rightarrow> ToolError (''encode result: '' @ e)
        | Inr d \<Rightarrow>
            (let env = env\<lparr>edata := Some d\<rparr> in
             case StepFailureSummary sts of
               None \<Rightarrow> envelopeResult (MarshalEnv (Server xe)) env
             | Some f \<Rightarrow> envelopeResult (MarshalEnv (Server xe)) (env\<lparr>eerrors := eerrors env @ [step_failure_entry f]\<rparr>)), ws))
      (obind (case MarshalSimulate (Server xe) sts of
          Inl e \<Rightarrow> Ret (renderError (Proc xe) st env e)
        | Inr d \<Rightarrow>
            (let env = env\<lparr>edata := Some d\<rparr> in
             case simulateStepWarning sts of
               Some entry \<Rightarrow> Ret (rendered_failure (render (Proc xe) st (env\<lparr>eerrors := eerrors env @ [entry]\<rparr>) (renderSimulateText sts)))
             | None \<Rightarrow> Ret (render (Proc xe) st env (renderSimulateText sts)))) (\<lambda>r. Ret (r, ws)))"
      using prints_agrees [OF prints_render [OF assms(1)]] prints_agrees [OF prints_failure [OF assms(1)]]
      by (cases "MarshalSimulate (Server xe) sts"; cases "StepFailureSummary sts")
        (simp_all add: agrees_def tools Let_def simulateStepWarning_def)
  qed
qed

lemma exec_agrees:
  assumes json: "json_process (Proc xe) st" and same: "same_invocation xe st expr args modeFlag timeout pv dflt req"
    and rows: "resolveMaxRows (OverflowInt (Server xe)) req defaultExecuteMaxRows = Inr maxRows"
  shows "agrees (ExecuteSQLHandler (Server xe) pv dflt req) (ExecCmd xe st expr args modeFlag timeout maxRows)"
proof -
  from same obtain raw name mo where
    eq: "CliTools (Proc xe) = Tools (Server xe)" "parserVersion (DepInfo (Proc xe)) (BinaryVersion (Proc xe)) = Inr pv" "root_dsn st \<noteq> []"
      "ReadSQL (Proc xe) expr args = Inr raw" "ParseMode modeFlag = Inr mo"
      "connected_params (Server xe) dflt req = Inr (trim_space raw, name, targetVersion st, mo, timeout)"
      "\<And>env. mergeDSNWithTLS (MarshalEnv (Server xe)) (Url (Server xe)) req env name = Inr (root_dsn st)"
    unfolding same_invocation_def by blast
  let ?sql = "trim_space raw"
  let ?s = "StripShellPrompts ?sql" and ?strip = "StripShellPromptsWithMap ?sql"
  let ?start = "connected_start pv (targetVersion st) ?sql"
  have entry: "agrees (Ret (envelopeResult (MarshalEnv (Server xe)) (env\<lparr>eerrors := eerrors env @ [e]\<rparr>), ws))
      (Ret (renderErrorEntry (Proc xe) st env f e, ws))" if "edata env = None" for e f ws env
    using prints_agrees [OF prints_entry [OF json that, of e f], of ws] by (simp add: eq(1))
  show ?thesis
  proof (cases "ParseSQL (Server xe) ?s")
    case (Inl perr)
    let ?e = "relocate ?sql (parse_error_of (Tools (Server xe)) perr ?s)"
    have same_env: "?start\<lparr>eerrors := eerrors ?start @ [?e], edata := None\<rparr> = ?start\<lparr>eerrors := eerrors ?start @ [?e]\<rparr>"
      using start_envelope_sel(1) [of TierConnected pv "targetVersion st" ?sql] by (cases ?start) simp
    have "renderParseErrorTranslated (Proc xe) st ?start perr ?s ?sql ?strip = Ret (renderDiagErrors (Proc xe) st ?start [?e])"
      by (cases "StripResult.Removed ?strip")
        (simp_all add: renderParseErrorTranslated_def renderParseError_def adjust_entry_strip relocate_id eq(1))
    with Inl prints_agrees [OF prints_failure [OF json, of "?start\<lparr>eerrors := eerrors ?start @ [?e]\<rparr>" "writeDiagErrors [?e]"], of "[]"]
    show ?thesis
      by (simp add: ExecuteSQLHandler_eq [OF eq(6) rows] ExecCmd_def connected_input_run [OF eq(2,4,3,5)] eq(1)
          StripShellPrompts_def [symmetric] unsent_def renderDiagErrors_def same_env Let_def)
  next
    case (Inr stmts)
    obtain warns where warns: "Inspect stmts (targetVersion st) None = Ret warns" using Inspect_returns by blast
    let ?env = "?start\<lparr>eerrors := eerrors ?start @ warns\<rparr>"
    have none: "edata ?env = None" by simp
    obtain rw inj where rw: "rewrite_sql (Server xe) mo maxRows stmts ?s = (rw, inj)" by fastforce
    obtain r sent ws where run: "on_manager (Server xe) (root_dsn st) timeout
        (Execute (Driver (Server xe)) rw \<lparr>opt_mode = mo, MaxRows = maxRows\<rparr>) = (r, sent, ws)" by (metis prod_cases3)
    have tool: "ExecuteSQLHandler (Server xe) pv dflt req =
      (case CheckParsed mo OpExecute stmts of
         Some v \<Rightarrow> Ret (envelopeResult (MarshalEnv (Server xe)) (?env\<lparr>eerrors := eerrors ?env @ [Safety.Envelope v]\<rparr>), [])
       | None \<Rightarrow> Ret (execute_answer (Server xe) ?env ?sql maxRows (rw, inj) (r, sent, ws)))"
      by (cases "CheckParsed mo OpExecute stmts") (simp_all add: ExecuteSQLHandler_eq [OF eq(6) rows] Inr warns eq(7) rw run Let_def)
    show ?thesis
    proof (cases "CheckParsed mo OpExecute stmts")
      case (Some v)
      with Inr entry [OF none] show ?thesis
        unfolding tool by (simp add: ExecCmd_def connected_input_run [OF eq(2,4,3,5)] eq(1) warns
            StripShellPrompts_def [symmetric] safety_rejection_def translated_entry_eq relocate_violation)
    next
      case None
      show ?thesis
      proof (cases r)
        case (Inl e)
        let ?e = "FromClusterError (ClusterApi (Server xe) sent) e rw"
        have "relocate ?sql (omit_position ?e) = omit_position ?e" by (simp add: omit_position_def)
        with Inl None Inr entry [OF none] show ?thesis
          unfolding tool by (cases inj) (simp_all add: ExecCmd_def connected_input_run [OF eq(2,4,3,5)] eq(1) warns
              StripShellPrompts_def [symmetric] translated_entry_eq rw run execute_answer_def Let_def)
      next
        case out: (Inr out)
        let ?out = "if inj then out\<lparr>LimitInjected := Some (nat maxRows)\<rparr> else out"
        from data_agrees [OF json, where encoded = "MarshalExecute (Server xe) ?out" and msg = "\<lambda>e. ''encode result: '' @ e"
            and env = "?env\<lparr>econnection := ConnectionConnected\<rparr>" and ws = ws and ls = "renderExecText (FlushTable xe) (FormatCell xe) ?out",
            unfolded eq(1)] None Inr
        show ?thesis
          unfolding tool by (cases inj) (simp_all add: ExecCmd_def connected_input_run [OF eq(2,4,3,5)] eq(1) warns out
              StripShellPrompts_def [symmetric] rw run execute_answer_def encoded_result_def Let_def)
      qed
    qed
  qed
qed

section \<open>The parser command\<close>

lemma parse_agrees:
  assumes json: "json_process (Process pe) st" and pv: "parserVersion (DepInfo (Process pe)) (BinaryVersion (Process pe)) = Inr pv"
    and raw: "ReadSQL (Process pe) expr args = Inr raw" and sql: "extractSQL req = Inr (trim_space raw)"
    and target: "resolveTargetVersion req dflt = Inr (targetVersion st)"
  shows "agrees (obind (ParseSQLHandler (tools pe) pv dflt req) no_contact) (obind (ParseCmd pe st expr args) unsent)"
proof -
  let ?sql = "trim_space raw"
  let ?s = "StripShellPrompts ?sql" and ?strip = "StripShellPromptsWithMap ?sql"
  let ?start = "start_envelope TierZeroConfig pv (targetVersion st) ?sql"
  have n: "newEnvelope (Process pe) st TierZeroConfig = (tier_envelope TierZeroConfig pv (targetVersion st), None)"
    using pv by (simp add: newEnvelope_tier)
  have cmd: "ParseCmd pe st expr args =
      (case Parse (Front (tools pe)) ?s of
        Inl perr \<Rightarrow> renderParseErrorTranslated (Process pe) st ?start perr ?s ?sql ?strip
      | Inr stmts \<Rightarrow> obind (Inspect stmts (targetVersion st) None) (\<lambda>ws.
          (let cs = ClassifyParsed (HideConstants (tools pe)) stmts in
           Ret (render_data (Process pe) st (?start\<lparr>eerrors := eerrors ?start @ ws\<rparr>) (MarshalData (tools pe) (ClassifiedData cs)) (map parse_line cs)))))"
    unfolding ParseCmd_def with_input_def n prod.case option.case raw sum.case parse_input_eq start_envelope_def Let_def ..
  show ?thesis
  proof (cases "Parse (Front (tools pe)) ?s")
    case (Inl perr)
    let ?e = "relocate ?sql (parse_error_of (tools pe) perr ?s)"
    have same_env: "?start\<lparr>eerrors := eerrors ?start @ [?e], edata := None\<rparr> = ?start\<lparr>eerrors := eerrors ?start @ [?e]\<rparr>"
      using start_envelope_sel(1) [of TierZeroConfig pv "targetVersion st" ?sql] by (cases ?start) simp
    have "renderParseErrorTranslated (Process pe) st ?start perr ?s ?sql ?strip = Ret (renderDiagErrors (Process pe) st ?start [?e])"
      by (cases "StripResult.Removed ?strip")
        (simp_all add: renderParseErrorTranslated_def renderParseError_def adjust_entry_strip relocate_id)
    with Inl prints_agrees [OF prints_failure [OF json, of "?start\<lparr>eerrors := eerrors ?start @ [?e]\<rparr>" "writeDiagErrors [?e]"], of "[]"]
    show ?thesis
      by (simp add: cmd ParseSQLHandler_def parser_tool_eq [OF sql target] unsent_def no_contact_def renderDiagErrors_def same_env Let_def)
  next
    case (Inr stmts)
    obtain warns where warns: "Inspect stmts (targetVersion st) None = Ret warns" using Inspect_returns by blast
    let ?cs = "ClassifyParsed (HideConstants (tools pe)) stmts" and ?env = "?start\<lparr>eerrors := eerrors ?start @ warns\<rparr>"
    from data_agrees [OF json, where encoded = "MarshalData (tools pe) (ClassifiedData ?cs)" and msg = "\<lambda>e. ''encode '' @ ''statements'' @ '': '' @ e"
        and env = ?env and ws = "[]" and ls = "map parse_line ?cs"] Inr
    show ?thesis
      by (simp add: cmd warns ParseSQLHandler_def parser_tool_eq [OF sql target] unsent_def no_contact_def data_result_def Let_def)
  qed
qed

section \<open>The agreement\<close>

lemma connected_params_parts:
  "connected_params ce dflt req = Inr (sql, name, target, mo, timeout) \<Longrightarrow>
     extractSQL req = Inr sql \<and> resolveTargetVersion req dflt = Inr target"
  by (auto simp: connected_params_def extractSQL_def split: sum.splits)


definition sample_connected :: "parsed list \<Rightarrow> unit connected_env" where
  "sample_connected stmts = \<lparr>Proc = sample_process (Tools (sample_cluster stmts)), Server = sample_cluster stmts, MarshalInfo = \<lambda>_. Inr [],
     FlushTable = \<lambda>s. [s], FormatCell = id\<rparr>"

definition sample_parsers :: "'e cli_env \<Rightarrow> 'e summarize_api \<Rightarrow> 'e parsers_env" where
  "sample_parsers ce api = \<lparr>Process = ce, Lexer = sample_lexer\<lparr>InspectTokens := \<lambda>_. []\<rparr>, StdoutIsTerminal = False, SummaryApi = api,
     MarshalSummary = \<lambda>_. Inr [], TabFlush = \<lambda>s. [s]\<rparr>"


end
