(* ===== verification/Cli_Validate.thy ===== *)
theory Cli_Validate
  imports Cli
begin

text \<open>
  \<open>cmd/validate.go\<close>: one input, or every query file of a \<open>crdb-sql.yaml\<close> against the schemas of its pair. The
  single-input path is the CLI's twin of the MCP tool \<open>validate_sql\<close>.
\<close>

section \<open>One input\<close>

definition renderValidateFailure ::
    "'e cli_env \<Rightarrow> root_state \<Rightarrow> envelope \<Rightarrow> error_entry list \<Rightarrow> checks \<Rightarrow> run" where
  "renderValidateFailure ce st env errs cs =
     (let env = env\<lparr>eerrors := eerrors env @ errs\<rparr> in
      case MarshalData (CliTools ce) (ValidateData \<lparr>Valid = False, Checks = cs\<rparr>) of
        Inl e \<Rightarrow> renderError ce st env e
      | Inr d \<Rightarrow> rendered_failure (render ce st (env\<lparr>edata := Some d\<rparr>) (writeDiagErrors errs)))"

definition valid_lines :: "checks \<Rightarrow> string list" where
  "valid_lines cs =
     (''Valid.'' @ [newline])
     # (if NameResolution cs = CheckSkipped then [''note: name resolution skipped (pass --schema to enable)'' @ [newline]] else [])"

text \<open>The catalog of \<open>--schema\<close> with the envelope so far, or the rendering that ends the command.\<close>

definition load_schema_files ::
    "'e cli_env \<Rightarrow> root_state \<Rightarrow> string list \<Rightarrow> envelope \<Rightarrow> run + catalog option \<times> envelope" where
  "load_schema_files ce st schemaFiles env =
     (if length schemaFiles = 0
      then Inr (None, env\<lparr>eerrors := eerrors env @ [CapabilityRequiredError CapabilityNameResolution
             ''name resolution skipped: --schema not provided'' ''pass --schema FILE to enable table name resolution'']\<rparr>)
      else
        (case LoadFiles (parse_text (Front (CliTools ce))) (Files (CliTools ce)) schemaFiles of
           Inl e \<Rightarrow> Inl (renderSchemaLoadError ce st env e)
         | Inr cat \<Rightarrow> Inr (Some cat, schemawarn_Append env (Some cat))))"

text \<open>From \<open>semcheck.Run\<close> on.\<close>

definition semantic_result_cmd ::
    "'e cli_env \<Rightarrow> root_state \<Rightarrow> envelope \<Rightarrow> parsed list \<Rightarrow> string \<Rightarrow> StripResult \<Rightarrow> catalog option \<Rightarrow> run outcome" where
  "semantic_result_cmd ce st env stmts originalSQL strip cat =
     obind (Run (Front (CliTools ce)) stmts (Stripped strip) cat) (\<lambda>(semRes, semErrs).
     (let cs = ran_checks semRes in
      if length semErrs > 0
      then obind (if StripResult.Removed strip then adjust_entries originalSQL strip semErrs else Ret semErrs) (\<lambda>es.
           Ret (renderValidateFailure ce st env es cs))
      else Ret (render_data ce st env (MarshalData (CliTools ce) (ValidateData \<lparr>Valid = True, Checks = cs\<rparr>)) (valid_lines cs))))"

definition validate_input ::
    "'e cli_env \<Rightarrow> root_state \<Rightarrow> string list \<Rightarrow> envelope \<Rightarrow> string \<Rightarrow> run outcome" where
  "validate_input ce st schemaFiles env originalSQL =
     (case preprocessSQL env originalSQL of
        (env, strip) \<Rightarrow>
     (case Parse (Front (CliTools ce)) (Stripped strip) of
        Inl perr \<Rightarrow>
          (let e = parse_error_of (CliTools ce) perr (Stripped strip) in
           obind (if StripResult.Removed strip then adjust_entry originalSQL strip e else Ret e) (\<lambda>e.
           Ret (renderValidateFailure ce st env [e] parse_failed_checks)))
      | Inr stmts \<Rightarrow>
          obind (Inspect stmts (targetVersion st) None) (\<lambda>ws.
          (case load_schema_files ce st schemaFiles (env\<lparr>eerrors := eerrors env @ ws\<rparr>) of
             Inl r \<Rightarrow> Ret r
           | Inr (cat, env) \<Rightarrow> semantic_result_cmd ce st env stmts originalSQL strip cat))))"

section \<open>A project\<close>

record file_result =
  File :: string
  FileValid :: bool
  ErrorCount :: nat

text \<open>Adding a key to a copy of a context map; \<open>file\<close> replaces an entry of that name.\<close>

definition tagFile :: "error_entry \<Rightarrow> string \<Rightarrow> error_entry" where
  "tagFile e path = e\<lparr>econtext := filter (\<lambda>kv. fst kv \<noteq> ''file'') (econtext e) @ [(''file'', CStr path)]\<rparr>"

definition countErrors :: "error_entry list \<Rightarrow> nat" where
  "countErrors errs = length (filter (\<lambda>e. severity e = SevError) errs)"

definition validateQueryFile :: "'e cli_env \<Rightarrow> string \<Rightarrow> catalog option \<Rightarrow> string \<Rightarrow> (error_entry list \<times> bool) outcome" where
  "validateQueryFile ce path cat target =
     (case os_ReadFile (Files (CliTools ce)) path of
        Inl e \<Rightarrow>
          Ret ([(plain_error ''io_error'' SevError (''read query file: '' @ e))\<lparr>econtext := [(''file'', CStr path)]\<rparr>], False)
      | Inr data \<Rightarrow>
          (let sql = trim_space data in
           if sql = [] then Ret ([], True)
           else
             (case Parse (Front (CliTools ce)) sql of
                Inl perr \<Rightarrow> Ret ([tagFile (parse_error_of (CliTools ce) perr sql) path], False)
              | Inr stmts \<Rightarrow>
                  obind (Run (Front (CliTools ce)) stmts sql cat) (\<lambda>(_, semErrs).
                  obind (Inspect stmts target None) (\<lambda>versionWarns.
                  if length semErrs = 0 \<and> length versionWarns = 0 then Ret ([], True)
                  else Ret (map (\<lambda>e. tagFile e path) semErrs @ map (\<lambda>e. tagFile e path) versionWarns, length semErrs = 0))))))"

fun validate_queries ::
    "'e cli_env \<Rightarrow> string \<Rightarrow> catalog option \<Rightarrow> string list \<Rightarrow> file_result list \<times> bool \<times> envelope \<Rightarrow>
     (file_result list \<times> bool \<times> envelope) outcome" where
  "validate_queries ce target cat [] s = Ret s"
| "validate_queries ce target cat (qp # qps) (results, anyError, env) =
     obind (validateQueryFile ce qp cat target) (\<lambda>(fileErrs, ok).
     validate_queries ce target cat qps
       (results @ [\<lparr>File = qp, FileValid = ok, ErrorCount = countErrors fileErrs\<rparr>],
        if \<not> ok then True else anyError, env\<lparr>eerrors := eerrors env @ fileErrs\<rparr>))"

text \<open>The loop over the pairs: a failed expansion or schema load ends the command.\<close>

fun validate_pairs ::
    "'e cli_env \<Rightarrow> root_state \<Rightarrow> string \<Rightarrow> sql_pair list \<Rightarrow> file_result list \<times> bool \<times> envelope \<Rightarrow>
     (run + file_result list \<times> bool \<times> envelope) outcome" where
  "validate_pairs ce st baseDir [] s = Ret (Inr s)"
| "validate_pairs ce st baseDir (p # ps) (results, anyError, env) =
     (case ExpandSchema (CfgApi ce) p baseDir of
        Inl e \<Rightarrow> Ret (Inl (renderError ce st env e))
      | Inr schemaPaths \<Rightarrow>
     (case ExpandQueries (CfgApi ce) p baseDir of
        Inl e \<Rightarrow> Ret (Inl (renderError ce st env e))
      | Inr queryPaths \<Rightarrow>
     (case (if length schemaPaths > 0
            then map_sum id Some (LoadFiles (parse_text (Front (CliTools ce))) (Files (CliTools ce)) schemaPaths)
            else Inr None) of
        Inl e \<Rightarrow> Ret (Inl (renderSchemaLoadError ce st env e))
      | Inr cat \<Rightarrow>
          obind (validate_queries ce (targetVersion st) cat queryPaths (results, anyError, schemawarn_Append env cat)) (\<lambda>s.
          validate_pairs ce st baseDir ps s))))"

text \<open>The text rendering. An entry belongs to the file its context names.\<close>

definition entry_file :: "error_entry \<Rightarrow> string option" where
  "entry_file e = (case map_of (econtext e) ''file'' of Some (CStr p) \<Rightarrow> Some p | _ \<Rightarrow> None)"

fun severity_text :: "severity \<Rightarrow> string" where
  "severity_text SevError = ''ERROR''"
| "severity_text SevWarning = ''WARNING''"
| "severity_text SevNotice = ''NOTICE''"
| "severity_text SevFatal = ''FATAL''"
| "severity_text SevPanic = ''PANIC''"
| "severity_text (SevOther s) = s"

definition file_error_line :: "string \<Rightarrow> error_entry \<Rightarrow> string" where
  "file_error_line f e =
     (case position e of
        Some p \<Rightarrow> f @ '':'' @ itoa (line p) @ '':'' @ itoa (column p) @ '': '' @ message e @ '' ['' @ code e @ '']'' @ [newline]
      | None \<Rightarrow> f @ '': '' @ message e @ '' ['' @ code e @ '']'' @ [newline])"

definition renderConfigText :: "file_result list \<Rightarrow> error_entry list \<Rightarrow> string list" where
  "renderConfigText results errs =
     map (\<lambda>e. ''['' @ severity_text (severity e) @ ''] '' @ message e @ [newline])
       (filter (\<lambda>e. map_of (econtext e) ''file'' = None) errs)
     @ concat (map (\<lambda>fr.
         if FileValid fr then [File fr @ '': valid'' @ [newline]]
         else concat (map (\<lambda>e. file_error_line (File fr) e # writeSuggestions (suggestions e))
           (filter (\<lambda>e. entry_file e = Some (File fr)) errs))) results)"

definition runValidateConfig ::
    "'e cli_env \<Rightarrow> (file_result list \<Rightarrow> string + string) \<Rightarrow> root_state \<Rightarrow> config_file \<Rightarrow> run outcome" where
  "runValidateConfig ce marshalFiles st c =
     (case newEnvelope ce st TierSchemaFile of
        (env, Some e) \<Rightarrow> Ret (renderError ce st env e)
      | (env, None) \<Rightarrow>
          obind (validate_pairs ce st (BaseDir c) (SQLPairs c) ([], False, env)) (\<lambda>s.
          Ret (case s of
                 Inl r \<Rightarrow> r
               | Inr (results, queryAnyError, env) \<Rightarrow>
                   (case marshalFiles results of
                      Inl e \<Rightarrow> renderError ce st env e
                    | Inr d \<Rightarrow>
                        (let r = render ce st (env\<lparr>edata := Some d\<rparr>) (renderConfigText results (eerrors env)) in
                         if queryAnyError then rendered_failure r else r)))))"

section \<open>The command\<close>

definition ValidateCmd ::
    "'e cli_env \<Rightarrow> (file_result list \<Rightarrow> string + string) \<Rightarrow> root_state \<Rightarrow> string list \<Rightarrow> string \<Rightarrow> string list \<Rightarrow> run outcome" where
  "ValidateCmd ce marshalFiles st schemaFiles expr args =
     (case cfg st of
        Some c \<Rightarrow>
          if expr = [] \<and> length args = 0 \<and> length schemaFiles = 0 then runValidateConfig ce marshalFiles st c
          else with_input ce st (if length schemaFiles > 0 then TierSchemaFile else TierZeroConfig) None expr args Ret
                 (\<lambda>env sql. validate_input ce st schemaFiles env (trim_space sql))
      | None \<Rightarrow>
          with_input ce st (if length schemaFiles > 0 then TierSchemaFile else TierZeroConfig) None expr args Ret
            (\<lambda>env sql. validate_input ce st schemaFiles env (trim_space sql)))"

section \<open>One document\<close>

lemma validate_failure_document:
  "json_process ce st \<Longrightarrow> e \<in> set errs \<Longrightarrow> \<not> advisory e \<Longrightarrow> document ce (renderValidateFailure ce st env errs cs)"
  by (auto simp: renderValidateFailure_def Let_def list_all_iff document_error intro!: document_failure split: sum.split)

lemma validate_input_document:
  assumes json: "json_process ce st" and grave: "grave (ErrorApi (Front (CliTools ce)))" and loc: "locating (Front (CliTools ce))"
    and env: "list_all advisory (eerrors env)"
  shows "settles ce (validate_input ce st schemaFiles env sql)"
proof -
  let ?strip = "StripShellPromptsWithMap sql" and ?s = "StripShellPrompts sql"
  let ?env = "env\<lparr>eerrors := eerrors env @ preprocess_warning sql\<rparr>"
  have run_eq: "validate_input ce st schemaFiles env sql =
     (case Parse (Front (CliTools ce)) ?s of
        Inl perr \<Rightarrow> Ret (renderValidateFailure ce st ?env [relocate sql (parse_error_of (CliTools ce) perr ?s)] parse_failed_checks)
      | Inr stmts \<Rightarrow> obind (Inspect stmts (targetVersion st) None) (\<lambda>ws.
          (case load_schema_files ce st schemaFiles (?env\<lparr>eerrors := eerrors ?env @ ws\<rparr>) of
             Inl r \<Rightarrow> Ret r
           | Inr (cat, env) \<Rightarrow> semantic_result_cmd ce st env stmts sql ?strip cat)))"
    unfolding validate_input_def preprocessSQL_eq prod.case StripShellPrompts_def [symmetric] Let_def
    by (rule sum.case_cong [OF refl]) (simp_all add: adjust_entry_strip relocate_def)
  have adjusts: "(if StripResult.Removed ?strip then adjust_entries sql ?strip es else Ret es) = Ret (map (relocate sql) es)" for es
    by (auto simp: adjust_entries_strip relocate_id)
  show ?thesis
  proof (cases "Parse (Front (CliTools ce)) ?s")
    case (Inl perr)
    then show ?thesis
      using validate_failure_document [OF json, of "relocate sql (parse_error_of (CliTools ce) perr ?s)"] parse_error_grave [OF grave]
      by (simp add: run_eq)
  next
    case (Inr stmts)
    obtain ws where ws: "Inspect stmts (targetVersion st) None = Ret ws" using Inspect_returns by blast
    let ?env' = "?env\<lparr>eerrors := eerrors ?env @ ws\<rparr>"
    have env': "list_all advisory (eerrors ?env')"
      using preprocess_advisory_list [OF env, of sql] Inspect_advisory [OF ws] by (auto simp: list_all_iff)
    show ?thesis
    proof (cases "load_schema_files ce st schemaFiles ?env'")
      case load: (Inl r)
      then have "document ce r"
        by (auto simp: load_schema_files_def document_schema_error [OF json] split: if_splits sum.splits)
      with load Inr ws show ?thesis by (simp add: run_eq)
    next
      case load: (Inr loaded)
      obtain cat env2 where ce: "loaded = (cat, env2)" by fastforce
      with load env' have env2: "list_all advisory (eerrors env2)"
        by (auto simp: load_schema_files_def intro!: schemawarn_advisory split: if_splits sum.splits)
      have "located ?s 0 stmts" using loc Inr by (simp add: locating_def)
      from Run_grave [OF grave this] obtain res errs where run: "Run (Front (CliTools ce)) stmts ?s cat = Ret (res, errs)"
        "\<forall>e \<in> set errs. \<not> advisory e" by blast
      have "settles ce (semantic_result_cmd ce st env2 stmts sql ?strip cat)"
      proof (cases errs)
        case Nil
        with run document_data [OF json env2] show ?thesis
          by (simp add: semantic_result_cmd_def StripShellPrompts_def [symmetric] Let_def)
      next
        case (Cons e es)
        have "document ce (renderValidateFailure ce st env2 (map (relocate sql) errs) (ran_checks res))"
          using run(2) Cons by (intro validate_failure_document [OF json, of "relocate sql e"]) simp_all
        with run(1) Cons show ?thesis
          unfolding semantic_result_cmd_def StripShellPrompts_def [symmetric] Let_def adjusts by simp
      qed
      with load Inr ws ce show ?thesis by (simp add: run_eq)
    qed
  qed
qed

text \<open>
  The project path. A file's result is consistent: valid exactly when nothing but warnings was reported
  for it, and then its error count is zero.
\<close>

lemma advisory_tagFile [simp]: "advisory (tagFile e path) = advisory e"
  by (simp add: tagFile_def)

lemma countErrors_advisory: "list_all advisory es \<Longrightarrow> countErrors es = 0"
  by (auto simp: countErrors_def list_all_iff advisory_def)

lemma validateQueryFile_result:
  assumes grave: "grave (ErrorApi (Front (CliTools ce)))" and loc: "locating (Front (CliTools ce))"
  shows "\<exists>es ok. validateQueryFile ce path cat target = Ret (es, ok) \<and> (ok \<longleftrightarrow> list_all advisory es)
    \<and> (\<forall>e \<in> set es. entry_file e = Some path)"
proof -
  have tagged: "entry_file (tagFile e path) = Some path" for e
  proof -
    have "map_of (filter (\<lambda>kv. fst kv \<noteq> ''file'') kvs @ [(''file'', CStr path)]) ''file'' = Some (CStr path)" for kvs
      by (induction kvs) auto
    then show ?thesis by (simp add: entry_file_def tagFile_def)
  qed
  show ?thesis
  proof (cases "os_ReadFile (Files (CliTools ce)) path")
    case (Inl e)
    then show ?thesis by (simp add: validateQueryFile_def entry_file_def)
  next
    case contents: (Inr data)
    let ?sql = "trim_space data"
    show ?thesis
    proof (cases "?sql = []")
      case False
      show ?thesis
      proof (cases "Parse (Front (CliTools ce)) ?sql")
        case (Inl perr)
        with contents False parse_error_grave [OF grave] tagged show ?thesis
          by (simp add: validateQueryFile_def Let_def)
      next
        case (Inr stmts)
        obtain ws where ws: "Inspect stmts target None = Ret ws" using Inspect_returns by blast
        have "located ?sql 0 stmts" using loc Inr by (simp add: locating_def)
        from Run_grave [OF grave this] obtain res errs where run: "Run (Front (CliTools ce)) stmts ?sql cat = Ret (res, errs)"
          "\<forall>e \<in> set errs. \<not> advisory e" by blast
        have "list_all advisory (map (\<lambda>e. tagFile e path) ws)" using Inspect_advisory [OF ws] by (auto simp: list_all_iff)
        with run contents False Inr ws tagged show ?thesis
          by (cases errs) (auto simp: validateQueryFile_def Let_def)
      qed
    qed (use contents in \<open>simp add: validateQueryFile_def Let_def\<close>)
  qed
qed

lemma schemawarn_advisory_iff: "list_all advisory (eerrors (schemawarn_Append env cat)) \<longleftrightarrow> list_all advisory (eerrors env)"
  by (auto simp: schemawarn_Append_def list_all_iff split: option.split)

text \<open>The loops keep the flag equal to what the envelope says, so the exit status agrees with the document.\<close>

lemma validate_queries_run:
  assumes "grave (ErrorApi (Front (CliTools ce)))" "locating (Front (CliTools ce))"
  shows "anyError = (\<not> list_all advisory (eerrors env)) \<Longrightarrow>
    \<exists>results' env'. validate_queries ce target cat qps (results, anyError, env) = Ret (results', \<not> list_all advisory (eerrors env'), env')"
proof (induction qps arbitrary: results anyError env)
  case (Cons qp qps)
  from validateQueryFile_result [OF assms] obtain es ok where
    q: "validateQueryFile ce qp cat target = Ret (es, ok)" "ok \<longleftrightarrow> list_all advisory es" by blast
  have "(if \<not> ok then True else anyError) = (\<not> list_all advisory (eerrors (env\<lparr>eerrors := eerrors env @ es\<rparr>)))"
    using Cons.prems q(2) by auto
  from Cons.IH [OF this] show ?case by (simp add: q(1))
qed simp

lemma validate_pairs_run:
  assumes "json_process ce st" "grave (ErrorApi (Front (CliTools ce)))" "locating (Front (CliTools ce))"
  shows "anyError = (\<not> list_all advisory (eerrors env)) \<Longrightarrow>
    (\<exists>r. validate_pairs ce st baseDir ps (results, anyError, env) = Ret (Inl r) \<and> document ce r)
    \<or> (\<exists>results' env'. validate_pairs ce st baseDir ps (results, anyError, env) = Ret (Inr (results', \<not> list_all advisory (eerrors env'), env')))"
proof (induction ps arbitrary: results anyError env)
  case (Cons p ps)
  let ?load = "\<lambda>paths. if length paths > 0
      then map_sum id Some (LoadFiles (parse_text (Front (CliTools ce))) (Files (CliTools ce)) paths) else Inr None"
  show ?case
  proof (cases "ExpandSchema (CfgApi ce) p baseDir")
    case schema: (Inr schemaPaths)
    show ?thesis
    proof (cases "ExpandQueries (CfgApi ce) p baseDir")
      case queries: (Inr queryPaths)
      show ?thesis
      proof (cases "?load schemaPaths")
        case (Inl e)
        with schema queries document_schema_error [OF assms(1)] show ?thesis by simp
      next
        case (Inr cat)
        obtain results' env' where "validate_queries ce (targetVersion st) cat queryPaths (results, anyError, schemawarn_Append env cat)
            = Ret (results', \<not> list_all advisory (eerrors env'), env')"
          using validate_queries_run [OF assms(2,3), of anyError "schemawarn_Append env cat" "targetVersion st" cat queryPaths results] Cons.prems
          unfolding schemawarn_advisory_iff by blast
        with schema queries Inr Cons.IH [of "\<not> list_all advisory (eerrors env')" env' results'] show ?thesis by simp
      qed
    qed (simp add: schema document_error [OF assms(1)])
  qed (simp add: document_error [OF assms(1)])
qed simp

lemma runValidateConfig_document:
  assumes "json_process ce st" "grave (ErrorApi (Front (CliTools ce)))" "locating (Front (CliTools ce))"
  shows "settles ce (runValidateConfig ce marshalFiles st c)"
proof -
  obtain env e where n: "newEnvelope ce st TierSchemaFile = (env, e)" by fastforce
  show ?thesis
  proof (cases e)
    case (Some m)
    with n show ?thesis by (simp add: runValidateConfig_def document_error [OF assms(1)])
  next
    case None
    have "False = (\<not> list_all advisory (eerrors env))" using newEnvelope_advisory [OF n] by simp
    from validate_pairs_run [OF assms this, of "BaseDir c" "SQLPairs c" "[]"]
    consider r where "validate_pairs ce st (BaseDir c) (SQLPairs c) ([], False, env) = Ret (Inl r)" "document ce r"
      | results env' where "validate_pairs ce st (BaseDir c) (SQLPairs c) ([], False, env)
          = Ret (Inr (results, \<not> list_all advisory (eerrors env'), env'))" by blast
    then show ?thesis
    proof cases
      case 1
      with n None show ?thesis by (simp add: runValidateConfig_def)
    next
      case 2
      with n None show ?thesis
        by (auto simp: runValidateConfig_def Let_def document_error [OF assms(1)]
            intro!: document_render [OF assms(1)] document_failure [OF assms(1)] split: sum.split)
    qed
  qed
qed

lemma ValidateCmd_document:
  assumes "json_process ce st" "grave (ErrorApi (Front (CliTools ce)))" "locating (Front (CliTools ce))"
  shows "settles ce (ValidateCmd ce marshalFiles st schemaFiles expr args)"
proof -
  have one: "settles ce (with_input ce st t None expr args Ret (\<lambda>env sql. validate_input ce st schemaFiles env (trim_space sql)))" for t
    by (rule with_input_cases) (simp_all add: document_error [OF assms(1)] validate_input_document [OF assms])
  show ?thesis
    unfolding ValidateCmd_def by (cases "cfg st") (simp_all add: one runValidateConfig_document [OF assms])
qed

end
