(* ===== verification/Cli_Catalog.thy ===== *)
theory Cli_Catalog
  imports Cli_Connected Mcp_Catalog
begin

text \<open>
  \<open>list-tables\<close> and \<open>describe\<close> of \<open>cmd\<close>: the tables come from \<open>--schema\<close> files, else from the schema globs of the
  project's configuration, else from a live cluster. The commands are the twins of the MCP catalog tools.
\<close>

section \<open>The environment\<close>

record 'e catalog_cmd_env =
  Ctx :: "'e connected_env"
  CatalogApi :: "'e catalog_env"

abbreviation proc_of :: "'e catalog_cmd_env \<Rightarrow> 'e cli_env" where
  "proc_of ke \<equiv> Proc (Ctx ke)"

section \<open>Schema sources\<close>

text \<open>Every pair's schema globs in one list: each path once, sorted.\<close>

fun config_paths :: "config_api \<Rightarrow> string \<Rightarrow> sql_pair list \<Rightarrow> string list \<Rightarrow> string + string list" where
  "config_paths api baseDir [] paths = Inr paths"
| "config_paths api baseDir (p # ps) paths =
     (case ExpandSchema api p baseDir of
        Inl e \<Rightarrow> Inl e
      | Inr expanded \<Rightarrow> config_paths api baseDir ps (fold add_match expanded paths))"

definition expandConfigSchemaPaths :: "config_api \<Rightarrow> config_file \<Rightarrow> string + string list" where
  "expandConfigSchemaPaths api c = map_sum id sort (config_paths api (BaseDir c) (SQLPairs c) [])"

definition stdinSentinel :: string where
  "stdinSentinel = ''-''"

text \<open>The sources of the \<open>--schema\<close> flags; \<open>-\<close> is read once, up to one byte more than the limit.\<close>

fun schema_sources ::
    "(string + string) option \<Rightarrow> string list \<Rightarrow> bool \<Rightarrow> schema_source list \<Rightarrow> (string + schema_source list) outcome" where
  "schema_sources stdin [] stdinUsed srcs = Ret (Inr srcs)"
| "schema_sources stdin (f # fs) stdinUsed srcs =
     (if f \<noteq> stdinSentinel
      then schema_sources stdin fs stdinUsed (srcs @ [\<lparr>src_path = f, src_sql = [], src_label = []\<rparr>])
      else if stdinUsed then Ret (Inl ''--schema - (stdin) can only be specified once'')
      else
        (case stdin of
           None \<Rightarrow> Panic ''nil pointer dereference''
         | Some (Inl e) \<Rightarrow> Ret (Inl (''reading stdin: '' @ e))
         | Some (Inr input) \<Rightarrow>
             (let data = take (Suc (nat MaxSchemaFileSize)) input in
              if int (length data) > MaxSchemaFileSize
              then Ret (Inl (''stdin input is too large ('' @ itoa (int (length data)) @ '' bytes, max '' @ itoa MaxSchemaFileSize @ '')''))
              else schema_sources stdin fs True (srcs @ [\<lparr>src_path = [], src_sql = data, src_label = ''stdin''\<rparr>]))))"

definition buildSchemaSources :: "(string + string) option \<Rightarrow> string list \<Rightarrow> (string + schema_source list) outcome" where
  "buildSchemaSources stdin flags = schema_sources stdin flags False []"

definition no_source :: string where
  "no_source = ''at least one --schema file is required (or a crdb-sql.yaml with matching schema globs, or --dsn / CRDB_DSN to query a live cluster)''"

text \<open>The configuration's catalog, for both commands.\<close>

definition from_config ::
    "'e catalog_cmd_env \<Rightarrow> root_state \<Rightarrow> envelope \<Rightarrow> config_file \<Rightarrow> (catalog \<Rightarrow> run) \<Rightarrow> run" where
  "from_config ke st env c body =
     (case expandConfigSchemaPaths (CfgApi (proc_of ke)) c of
        Inl e \<Rightarrow> renderError (proc_of ke) st env e
      | Inr paths \<Rightarrow>
          if length paths = 0
          then renderError (proc_of ke) st env
                 (''crdb-sql.yaml at '' @ BaseDir c @ '' has no schema files matching its globs; check the schema patterns or pass --schema explicitly'')
          else
            (case LoadFiles (parse_text (Front (cli_tools (Ctx ke)))) (Files (cli_tools (Ctx ke))) paths of
               Inl e \<Rightarrow> renderSchemaLoadError (proc_of ke) st env e
             | Inr cat \<Rightarrow> body cat))"

text \<open>The failure of a catalog query: rendered whatever the format.\<close>

definition live_failure ::
    "'e catalog_cmd_env \<Rightarrow> root_state \<Rightarrow> envelope \<Rightarrow> string \<Rightarrow> wire list \<Rightarrow> run" where
  "live_failure ke st env e sent =
     rendered_failure (render (proc_of ke) st
       (env\<lparr>eerrors := eerrors env @ [FromClusterError (ClusterApi (Server (Ctx ke)) sent) e []], edata := None\<rparr>) [e @ [newline]])"

section \<open>\<open>list-tables\<close>\<close>

definition renderListTables :: "'e catalog_cmd_env \<Rightarrow> root_state \<Rightarrow> envelope \<Rightarrow> catalog \<Rightarrow> run" where
  "renderListTables ke st env cat =
     (let env = schemawarn_Append env (Some cat); names = TableNames cat in
      render_data (proc_of ke) st env (MarshalNames (CatalogApi ke) names) (map (\<lambda>n. n @ [newline]) names))"

definition runListTablesLive :: "'e catalog_cmd_env \<Rightarrow> root_state \<Rightarrow> bool \<Rightarrow> envelope \<Rightarrow> connected_run" where
  "runListTablesLive ke st includeSystem env =
     (let env = env\<lparr>etier := TierConnected\<rparr>; d = Database (CatalogApi ke) in
      case on_new_manager (base d) (root_dsn st) (ListTablesFromCluster d includeSystem) of
        (Inl e, sent, ws) \<Rightarrow> Ret (live_failure ke st env e sent, ws)
      | (Inr refs, sent, ws) \<Rightarrow>
          Ret (render_data (proc_of ke) st (env\<lparr>econnection := ConnectionConnected\<rparr>) (MarshalRefs (CatalogApi ke) refs)
                 (map (\<lambda>(sch, tbl). sch @ ''.'' @ tbl @ [newline]) refs), ws))"

definition ListTablesCmd :: "'e catalog_cmd_env \<Rightarrow> root_state \<Rightarrow> string list \<Rightarrow> bool \<Rightarrow> connected_run" where
  "ListTablesCmd ke st schemaFiles includeSystem =
     (case newEnvelope (proc_of ke) st TierSchemaFile of
        (env, Some e) \<Rightarrow> unsent (renderError (proc_of ke) st env e)
      | (env, None) \<Rightarrow>
          if length schemaFiles = 0
          then (case cfg st of
                  Some c \<Rightarrow> unsent (from_config ke st env c (renderListTables ke st env))
                | None \<Rightarrow>
                    if root_dsn st \<noteq> [] then runListTablesLive ke st includeSystem env
                    else unsent (renderError (proc_of ke) st env no_source))
          else
            (case LoadFiles (parse_text (Front (cli_tools (Ctx ke)))) (Files (cli_tools (Ctx ke))) schemaFiles of
               Inl e \<Rightarrow> unsent (renderSchemaLoadError (proc_of ke) st env e)
             | Inr cat \<Rightarrow> unsent (renderListTables ke st env cat)))"

section \<open>\<open>describe\<close>\<close>

definition bool_word :: "bool \<Rightarrow> string" where
  "bool_word b = (if b then ''true'' else ''false'')"

definition column_row :: "col \<Rightarrow> string" where
  "column_row c =
     ''  '' @ col_name c @ [CHR 0x09] @ col_type c @ [CHR 0x09] @ bool_word (nullable c) @ [CHR 0x09]
     @ (case col_default c of Some d \<Rightarrow> d | None \<Rightarrow> ''-'') @ [newline]"

definition index_row :: "index \<Rightarrow> string" where
  "index_row i =
     ''  '' @ index_name i @ [CHR 0x09] @ join_with '', '' (index_columns i) @ [CHR 0x09] @ bool_word (index_unique i) @ [newline]"

definition renderTableText :: "(string \<Rightarrow> string list) \<Rightarrow> ctable \<Rightarrow> string list" where
  "renderTableText flush tbl =
     [''Table: '' @ tbl_name tbl @ [newline, newline] @ ''Columns:'' @ [newline]]
     @ flush (''  NAME'' @ [CHR 0x09] @ ''TYPE'' @ [CHR 0x09] @ ''NULLABLE'' @ [CHR 0x09] @ ''DEFAULT'' @ [newline]
              @ concat (map column_row (columns tbl)))
     @ (if length (primary_key tbl) > 0 then [[newline] @ ''Primary Key: '' @ join_with '', '' (primary_key tbl) @ [newline]] else [])
     @ (if length (indexes tbl) > 0
        then ([newline] @ ''Indexes:'' @ [newline])
             # flush (''  NAME'' @ [CHR 0x09] @ ''COLUMNS'' @ [CHR 0x09] @ ''UNIQUE'' @ [newline] @ concat (map index_row (indexes tbl)))
        else [])"

definition describeTableFromCatalog :: "'e catalog_cmd_env \<Rightarrow> root_state \<Rightarrow> envelope \<Rightarrow> string \<Rightarrow> catalog \<Rightarrow> run" where
  "describeTableFromCatalog ke st env tableName cat =
     (let env = schemawarn_Append env (Some cat) in
      case Catalog.Table cat tableName of
        None \<Rightarrow>
          (let available = TableNames cat in
           renderError (proc_of ke) st env
             (if length available = 0
              then ''table '' @ quote tableName @ '' not found; schema files contain no tables''
              else ''table '' @ quote tableName @ '' not found; available tables: '' @ join_with '', '' available))
      | Some tbl \<Rightarrow>
          render_data (proc_of ke) st env (MarshalTable (CatalogApi ke) tbl) (renderTableText (FlushTable (Ctx ke)) tbl))"

definition runDescribeLive :: "'e catalog_cmd_env \<Rightarrow> root_state \<Rightarrow> string \<Rightarrow> envelope \<Rightarrow> connected_run" where
  "runDescribeLive ke st tableName env =
     (let env = env\<lparr>etier := TierConnected\<rparr>; d = Database (CatalogApi ke) in
      case on_new_manager (base d) (root_dsn st)
             (DescribeTableFromCluster d (Sanitize (Server (Ctx ke))) (parse_text (Front (cli_tools (Ctx ke))))
                (Files (cli_tools (Ctx ke))) tableName) of
        (Inl (TableNotFound _), sent, ws) \<Rightarrow>
          Ret (renderError (proc_of ke) st env (''table '' @ quote tableName @ '' not found''), ws)
      | (Inl (AmbiguousTable name schemas), sent, ws) \<Rightarrow>
          Ret (renderError (proc_of ke) st env (''table '' @ quote name @ '' exists in multiple schemas (''
                 @ join_with '', '' schemas @ ''); qualify as schema.table''), ws)
      | (Inl (LookupFailed e), sent, ws) \<Rightarrow> Ret (live_failure ke st env e sent, ws)
      | (Inr tbl, sent, ws) \<Rightarrow>
          Ret (render_data (proc_of ke) st (env\<lparr>econnection := ConnectionConnected\<rparr>) (MarshalTable (CatalogApi ke) tbl)
                 (renderTableText (FlushTable (Ctx ke)) tbl), ws))"

definition DescribeCmd :: "'e catalog_cmd_env \<Rightarrow> root_state \<Rightarrow> string list \<Rightarrow> string \<Rightarrow> connected_run" where
  "DescribeCmd ke st schemaFiles tableName =
     (case newEnvelope (proc_of ke) st TierSchemaFile of
        (env, Some e) \<Rightarrow> unsent (renderError (proc_of ke) st env e)
      | (env, None) \<Rightarrow>
          if length schemaFiles = 0
          then (case cfg st of
                  Some c \<Rightarrow> unsent (from_config ke st env c (describeTableFromCatalog ke st env tableName))
                | None \<Rightarrow>
                    if root_dsn st \<noteq> [] then runDescribeLive ke st tableName env
                    else unsent (renderError (proc_of ke) st env no_source))
          else
            obind (buildSchemaSources (Stdin (proc_of ke)) schemaFiles) (\<lambda>srcs.
            (case srcs of
               Inl e \<Rightarrow> unsent (renderError (proc_of ke) st env e)
             | Inr ss \<Rightarrow>
                 (case Load (parse_text (Front (cli_tools (Ctx ke)))) (Files (cli_tools (Ctx ke))) ss of
                    Inl e \<Rightarrow> unsent (renderSchemaLoadError (proc_of ke) st env e)
                  | Inr cat \<Rightarrow> unsent (describeTableFromCatalog ke st env tableName cat)))))"

section \<open>One document each\<close>

lemma from_config_document:
  "json_process (proc_of ke) st \<Longrightarrow> (\<And>cat. document (proc_of ke) (body cat)) \<Longrightarrow> document (proc_of ke) (from_config ke st env c body)"
  by (auto simp: from_config_def document_error document_schema_error split: sum.split)

lemma list_document:
  "json_process (proc_of ke) st \<Longrightarrow> list_all advisory (eerrors env) \<Longrightarrow> document (proc_of ke) (renderListTables ke st env cat)"
  by (simp add: renderListTables_def Let_def document_data schemawarn_advisory)

lemma describe_document:
  "json_process (proc_of ke) st \<Longrightarrow> list_all advisory (eerrors env) \<Longrightarrow> document (proc_of ke) (describeTableFromCatalog ke st env name cat)"
  by (simp add: describeTableFromCatalog_def Let_def document_data document_error schemawarn_advisory split: option.split)

lemma live_failure_document:
  assumes "json_process (proc_of ke) st" "grave (ClusterApi (Server (Ctx ke)) sent)"
  shows "document (proc_of ke) (live_failure ke st env e sent)"
  unfolding live_failure_def by (rule document_failure [OF assms(1)]) (simp add: cluster_error_grave [OF assms(2)])

lemma ListTablesCmd_document:
  assumes json: "json_process (proc_of ke) st" and grave: "\<And>ws. grave (ClusterApi (Server (Ctx ke)) ws)"
  shows "settles_sent (proc_of ke) (ListTablesCmd ke st schemaFiles includeSystem)"
proof -
  obtain env e where n: "newEnvelope (proc_of ke) st TierSchemaFile = (env, e)" by fastforce
  note env = newEnvelope_advisory [OF n] and error = document_error [OF json]
  have live: "settles_sent (proc_of ke) (runListTablesLive ke st includeSystem env)"
    by (auto simp: runListTablesLive_def Let_def live_failure_document [OF json grave] env document_data [OF json]
        split: prod.split sum.split)
  show ?thesis
    by (cases e; cases "cfg st")
      (auto simp: ListTablesCmd_def n error live list_document [OF json env] document_schema_error [OF json]
        intro!: from_config_document [OF json] split: sum.split)
qed

lemma schema_sources_returns: "stdin \<noteq> None \<Longrightarrow> \<exists>r. schema_sources stdin fs used srcs = Ret r"
  by (induction fs arbitrary: used srcs) (auto simp: Let_def split: option.split sum.split)

lemma DescribeCmd_document:
  assumes json: "json_process (proc_of ke) st" and grave: "\<And>ws. grave (ClusterApi (Server (Ctx ke)) ws)"
    and stdin: "Stdin (proc_of ke) \<noteq> None"
  shows "settles_sent (proc_of ke) (DescribeCmd ke st schemaFiles name)"
proof -
  obtain env e where n: "newEnvelope (proc_of ke) st TierSchemaFile = (env, e)" by fastforce
  note env = newEnvelope_advisory [OF n] and error = document_error [OF json]
  have live: "settles_sent (proc_of ke) (runDescribeLive ke st name env)"
    by (auto simp: runDescribeLive_def Let_def live_failure_document [OF json grave] env document_data [OF json] error
        split: prod.split sum.split lookup_error.split)
  obtain r where "buildSchemaSources (Stdin (proc_of ke)) schemaFiles = Ret r"
    unfolding buildSchemaSources_def using schema_sources_returns [OF stdin] by blast
  then show ?thesis
    by (cases e; cases "cfg st")
      (auto simp: DescribeCmd_def n error live describe_document [OF json env] document_schema_error [OF json]
        intro!: from_config_document [OF json] split: sum.split)
qed

text \<open>The schema paths of a project: every path some pattern of some pair matches, once, in order.\<close>

lemma config_paths_spec:
  "config_paths api baseDir ps paths = Inr out \<Longrightarrow> distinct paths \<Longrightarrow>
     distinct out \<and> set out = set paths \<union> (\<Union>p \<in> set ps. \<Union>pat \<in> set (Schema p). matches api baseDir pat)"
proof (induction ps arbitrary: paths)
  case (Cons p ps)
  from Cons.prems(1) obtain ms where ms: "ExpandSchema api p baseDir = Inr ms" "config_paths api baseDir ps (fold add_match ms paths) = Inr out"
    by (auto split: sum.splits)
  have "set ms = (\<Union>pat \<in> set (Schema p). matches api baseDir pat)"
  proof -
    have "finite (\<Union>pat \<in> set (Schema p). matches api baseDir pat)" by (auto simp: matches_def split: sum.split)
    with expandGlobs_lists [OF ms(1) [unfolded ExpandSchema_def]] show ?thesis by simp
  qed
  with Cons.IH [OF ms(2)] Cons.prems(2) add_matches [of ms paths] show ?case by auto
qed simp

lemma expandConfigSchemaPaths_lists:
  assumes "expandConfigSchemaPaths api c = Inr paths"
  shows "paths = sorted_list_of_set (\<Union>p \<in> set (SQLPairs c). \<Union>pat \<in> set (Schema p). matches api (BaseDir c) pat)"
proof -
  from assms obtain out where out: "config_paths api (BaseDir c) (SQLPairs c) [] = Inr out" "paths = sort out"
    unfolding expandConfigSchemaPaths_def by (cases "config_paths api (BaseDir c) (SQLPairs c) []") simp_all
  from config_paths_spec [OF out(1)] have "distinct out"
    "set out = (\<Union>p \<in> set (SQLPairs c). \<Union>pat \<in> set (Schema p). matches api (BaseDir c) pat)" by simp_all
  then show ?thesis using out(2) by (metis sorted_list_of_set_sort_remdups distinct_remdups_id)
qed

end
