(* ===== verification/Builtin_Stubs.thy ===== *)
theory Builtin_Stubs
  imports Route
begin

text \<open>
  \<open>internal/builtinstubs/register.go\<close> and the start of \<open>crdb-sql/main.go\<close>: which set of built-in functions a
  binary registers and under which names the parser then finds them. The generated files
  \<open>stubs_v26_1_gen.go\<close> and \<open>stubs_v26_2_gen.go\<close> are lists of registrations and are arguments, as is
  \<open>tree.QualifyBuiltinFunctionDefinition\<close> of the parser; its registry calls the subscription of \<open>init\<close> for every
  registration in order.
\<close>

section \<open>Registration\<close>

record 'd stub =
  stub_name :: string
  AvailableOnPublicSchema :: bool
  signatures :: 'd

record ('d, 'r) stubs_api =
  StubsV26_1 :: "'d stub list"
  StubsV26_2 :: "'d stub list"
  Qualify :: "'d stub \<Rightarrow> string \<Rightarrow> 'r"
  PgCatalogName :: string
  PublicSchemaName :: string

text \<open>The maps of package \<open>tree\<close> that \<open>init\<close> makes and the registrations fill, and \<open>activeVersion\<close>.\<close>

record ('d, 'r) builtins =
  TreeFunDefs :: "string \<rightharpoonup> 'd stub"
  ResolvedDefs :: "string \<rightharpoonup> 'r"
  active :: string

definition no_builtins :: "('d, 'r) builtins" where
  "no_builtins = \<lparr>TreeFunDefs = Map.empty, ResolvedDefs = Map.empty, active = []\<rparr>"

definition DefaultVersion :: string where
  "DefaultVersion = ''v26.2''"

definition versionRegistry :: "('d, 'r) stubs_api \<Rightarrow> (string \<times> 'd stub list) list" where
  "versionRegistry api = [(''v26.2'', StubsV26_2 api), (''v26.1'', StubsV26_1 api)]"

definition SupportedVersions :: "('d, 'r) stubs_api \<Rightarrow> string list" where
  "SupportedVersions api = sort (map fst (versionRegistry api))"

definition addResolvedFuncDef :: "('d, 'r) stubs_api \<Rightarrow> (string \<rightharpoonup> 'r) \<Rightarrow> 'd stub \<Rightarrow> (string \<rightharpoonup> 'r)" where
  "addResolvedFuncDef api resolved f =
     (let parts = split_on CHR ''.'' (stub_name f) in
      if length parts = 2 then resolved(stub_name f \<mapsto> Qualify api f (parts ! 0))
      else
        (let resolved = resolved(PgCatalogName api @ ''.'' @ stub_name f \<mapsto> Qualify api f (PgCatalogName api)) in
         if AvailableOnPublicSchema f
         then resolved(PublicSchemaName api @ ''.'' @ stub_name f \<mapsto> Qualify api f (PublicSchemaName api))
         else resolved))"

definition subscription :: "('d, 'r) stubs_api \<Rightarrow> 'd stub \<Rightarrow> ('d, 'r) builtins \<Rightarrow> ('d, 'r) builtins" where
  "subscription api f b =
     b\<lparr>TreeFunDefs := (TreeFunDefs b)(stub_name f \<mapsto> f), ResolvedDefs := addResolvedFuncDef api (ResolvedDefs b) f\<rparr>"

definition Init :: "('d, 'r) stubs_api \<Rightarrow> string \<Rightarrow> ('d, 'r) builtins \<Rightarrow> ('d, 'r) builtins outcome" where
  "Init api ver b =
     (let v = (if ver = [] then DefaultVersion else ver) in
      case map_of (versionRegistry api) v of
        None \<Rightarrow> Panic (''builtinstubs: unknown version '' @ quote v @ ''; available: '' @ join_with '', '' (SupportedVersions api))
      | Some fs \<Rightarrow> Ret ((fold (subscription api) fs b)\<lparr>active := v\<rparr>))"

text \<open>\<open>main\<close> between the re-exec decision and the command: the stubs of the quarter this binary was built for.\<close>

definition stubsVersion :: "host \<Rightarrow> string" where
  "stubsVersion h = (case Built h of Some q \<Rightarrow> ''v'' @ quarter_string q | None \<Rightarrow> [])"

definition startup :: "('d, 'r) stubs_api \<Rightarrow> host \<Rightarrow> ('d, 'r) builtins outcome" where
  "startup api h = Init api (stubsVersion h) no_builtins"

section \<open>Names\<close>

text \<open>The schema-qualified names that a stub is found under.\<close>

definition resolved_names :: "('d, 'r) stubs_api \<Rightarrow> 'd stub \<Rightarrow> string set" where
  "resolved_names api f =
     (if length (split_on CHR ''.'' (stub_name f)) = 2 then {stub_name f}
      else insert (PgCatalogName api @ ''.'' @ stub_name f)
             (if AvailableOnPublicSchema f then {PublicSchemaName api @ ''.'' @ stub_name f} else {}))"

lemma addResolvedFuncDef_dom: "dom (addResolvedFuncDef api m f) = dom m \<union> resolved_names api f"
  by (auto simp: addResolvedFuncDef_def resolved_names_def Let_def)

lemma subscriptions_dom:
  "dom (TreeFunDefs (fold (subscription api) fs b)) = dom (TreeFunDefs b) \<union> stub_name ` set fs"
  "dom (ResolvedDefs (fold (subscription api) fs b)) = dom (ResolvedDefs b) \<union> (\<Union>f \<in> set fs. resolved_names api f)"
  by (induction fs arbitrary: b) (auto simp: subscription_def addResolvedFuncDef_dom)

lemma quarter_string_eq:
  assumes "valid_quarter q" "valid_quarter q'"
  shows "quarter_string q = quarter_string q' \<longleftrightarrow> q = q'"
proof
  assume eq: "quarter_string q = quarter_string q'"
  have dot: "CHR ''.'' \<notin> set (itoa_nat n)" for n by (rule digits_no) (simp add: is_digit_def byte_of_def)
  have parts: "split_on CHR ''.'' (quarter_string r) = [itoa_nat (nat (Year r)), itoa_nat (nat (Q r))]" if "valid_quarter r" for r
    using that split_on_append [OF dot, of "nat (Year r)"] split_on_no_sep [OF dot, of "nat (Q r)"]
    by (simp add: quarter_string_def valid_not_zero valid_itoa)
  from eq parts [OF assms(1)] parts [OF assms(2)]
  have "digits_val (itoa_nat (nat (Year q))) = digits_val (itoa_nat (nat (Year q')))"
    "digits_val (itoa_nat (nat (Q q))) = digits_val (itoa_nat (nat (Q q')))" by simp_all
  with assms show "q = q'" by (cases q; cases q') (auto simp: valid_quarter_def eq_nat_nat_iff)
qed simp

abbreviation quarter_26_1 :: quarter where
  "quarter_26_1 \<equiv> \<lparr>Year = 26, Q = 1\<rparr>"

abbreviation quarter_26_2 :: quarter where
  "quarter_26_2 \<equiv> \<lparr>Year = 26, Q = 2\<rparr>"

lemma quarter_names_26: "quarter_string quarter_26_1 = ''26.1''" "quarter_string quarter_26_2 = ''26.2''"
  by code_simp+

lemma stubsVersion_26:
  assumes "Built h = Some q"
  shows "stubsVersion h = ''v26.1'' \<longleftrightarrow> q = quarter_26_1" "stubsVersion h = ''v26.2'' \<longleftrightarrow> q = quarter_26_2"
proof -
  have v: "valid_quarter q" "valid_quarter quarter_26_1" "valid_quarter quarter_26_2"
    using Built_valid [OF assms] by (simp_all add: valid_quarter_def)
  show "stubsVersion h = ''v26.1'' \<longleftrightarrow> q = quarter_26_1" "stubsVersion h = ''v26.2'' \<longleftrightarrow> q = quarter_26_2"
    using quarter_string_eq [OF v(1,2)] quarter_string_eq [OF v(1,3)]
    by (simp_all add: stubsVersion_def assms quarter_names_26)
qed

text \<open>C39: A binary registers the functions of the quarter it was built for, each under its own name and its
  schema-qualified ones and no other; one that does not know its quarter registers those of 26.2, and one
  that knows another quarter than the two compiled in panics before it reads its flags.\<close>

theorem startup_registers:
  "case Built h of
     None \<Rightarrow> (\<exists>b. startup api h = Ret b \<and> active b = ''v26.2'' \<and> dom (TreeFunDefs b) = stub_name ` set (StubsV26_2 api)
       \<and> dom (ResolvedDefs b) = (\<Union>f \<in> set (StubsV26_2 api). resolved_names api f))
   | Some q \<Rightarrow>
       if q = \<lparr>Year = 26, Q = 1\<rparr>
       then (\<exists>b. startup api h = Ret b \<and> active b = ''v26.1'' \<and> dom (TreeFunDefs b) = stub_name ` set (StubsV26_1 api)
         \<and> dom (ResolvedDefs b) = (\<Union>f \<in> set (StubsV26_1 api). resolved_names api f))
       else if q = \<lparr>Year = 26, Q = 2\<rparr>
       then (\<exists>b. startup api h = Ret b \<and> active b = ''v26.2'' \<and> dom (TreeFunDefs b) = stub_name ` set (StubsV26_2 api)
         \<and> dom (ResolvedDefs b) = (\<Union>f \<in> set (StubsV26_2 api). resolved_names api f))
       else (\<exists>e. startup api h = Panic e)"
proof (cases "Built h")
  case None
  then show ?thesis
    by (simp add: startup_def Init_def stubsVersion_def DefaultVersion_def versionRegistry_def subscriptions_dom no_builtins_def)
next
  case (Some q)
  have "stubsVersion h \<noteq> []" by (simp add: stubsVersion_def Some)
  then show ?thesis
    by (simp add: Some startup_def Init_def versionRegistry_def stubsVersion_26 [OF Some] subscriptions_dom no_builtins_def Let_def)
qed

end
