(* ===== verification/Cli_Main.thy ===== *)
theory Cli_Main
  imports Cli_Agreement Cli_Validate Cli_Catalog Mcp_Server Builtin_Stubs
begin

text \<open>
  The program \<open>crdb-sql\<close> from its flags to its exit: \<open>version\<close> and \<open>versions\<close> of \<open>cmd\<close>, \<open>mcp\<close>, which serves until its
  client leaves, the subcommands that answer and return, and the properties of the whole.
\<close>

section \<open>The subcommands\<close>

record 'e main_env =
  Parsers :: "'e parsers_env"
  Catalogs :: "'e catalog_cmd_env"
  MarshalFiles :: "file_result list \<Rightarrow> string + string"
  MarshalVersion :: "string \<times> string \<Rightarrow> string + string"
  MarshalBackends :: "backend list \<Rightarrow> string + string"
  ActiveVersion :: string
  Machine :: host

abbreviation process :: "'e main_env \<Rightarrow> 'e cli_env" where
  "process me \<equiv> Process (Parsers me)"

text \<open>The process is one: every command reads its flags, writes and parses through the same environment.\<close>

definition one_process :: "'e main_env \<Rightarrow> bool" where
  "one_process me \<longleftrightarrow> proc_of (Catalogs me) = process me"

definition VersionCmd :: "'e main_env \<Rightarrow> root_state \<Rightarrow> run" where
  "VersionCmd me st =
     (case newEnvelope (process me) st TierUnset of
        (env, Some e) \<Rightarrow> renderError (process me) st env e
      | (env, None) \<Rightarrow>
          render_data (process me) st env (MarshalVersion me (BinaryVersion (process me), ActiveVersion me))
            [''crdb-sql: '' @ BinaryVersion (process me) @ [newline] @ ''cockroachdb-parser: '' @ parser_version env @ [newline]
             @ ''builtins-stubs: '' @ ActiveVersion me @ [newline]])"

text \<open>\<open>%-15s\<close> of ASCII text.\<close>

definition padded :: "nat \<Rightarrow> string \<Rightarrow> string" where
  "padded n s = s @ replicate (n - length s) CHR '' ''"

definition backend_row :: "backend \<Rightarrow> string" where
  "backend_row b =
     (if IsSelf b then ''this binary'' else ''sibling    '') @ ''  '' @ padded 15 (BackendName (Quarter b)) @ ''  ''
     @ padded 10 (quarter_string (Quarter b)) @ ''  '' @ Path b @ [newline]"

definition VersionsCmd :: "'e main_env \<Rightarrow> root_state \<Rightarrow> run" where
  "VersionsCmd me st =
     (case newEnvelope (process me) st TierUnset of
        (env, Some e) \<Rightarrow> renderError (process me) st env e
      | (env, None) \<Rightarrow>
          (let backends = Discover (Machine me) in
           render_data (process me) st env (MarshalBackends me backends)
             (if length backends = 0 then [''no backends discovered'' @ [newline]] else map backend_row backends)))"

text \<open>\<open>mcp\<close>: what \<open>ServeStdio\<close> and the shutdown of the pool return are functions; the deferred shutdown runs after the
  server has stopped and joins its error.\<close>

definition MCPCmd ::
    "'e cli_env \<Rightarrow> 'e server_env \<Rightarrow> root_state \<Rightarrow> router \<Rightarrow> ((string \<times> handler) list \<Rightarrow> string option) \<Rightarrow> string option \<Rightarrow>
     go_error option" where
  "MCPCmd ce se st pool serve pool_close =
     (case parserVersion (DepInfo ce) (BinaryVersion ce) of
        Inl e \<Rightarrow> Some (Err e)
      | Inr parserVer \<Rightarrow>
          (let served = serve (NewServer se parserVer (targetVersion st) [WithRouter pool]);
               retErr = map_option (\<lambda>e. Err (''mcp stdio server: '' @ e)) served
           in case pool_close of
                None \<Rightarrow> retErr
              | Some cerr \<Rightarrow>
                  (let shutdown = Err (''pool shutdown: '' @ cerr) in
                   Some (case retErr of None \<Rightarrow> shutdown | Some e \<Rightarrow> Joined e shutdown))))"

text \<open>A subcommand with its flags and arguments.\<close>

datatype command =
    CmdVersion
  | CmdVersions
  | CmdPing
  | CmdParse string "string list"
  | CmdFormat string string "string list"
  | CmdValidate "string list" string "string list"
  | CmdDescribe "string list" string
  | CmdListTables "string list" bool
  | CmdRisk string "string list"
  | CmdSummarize string "string list"
  | CmdExplain string "string list" string int
  | CmdSimulate string "string list" string int
  | CmdExec string "string list" string int int

fun RunE :: "'e main_env \<Rightarrow> root_state \<Rightarrow> command \<Rightarrow> connected_run" where
  "RunE me st CmdVersion = unsent (VersionCmd me st)"
| "RunE me st CmdVersions = unsent (VersionsCmd me st)"
| "RunE me st CmdPing = PingCmd (Ctx (Catalogs me)) st"
| "RunE me st (CmdParse expr args) = obind (ParseCmd (Parsers me) st expr args) unsent"
| "RunE me st (CmdFormat color expr args) = obind (FormatCmd (Parsers me) st color expr args) unsent"
| "RunE me st (CmdValidate schemaFiles expr args) = obind (ValidateCmd (process me) (MarshalFiles me) st schemaFiles expr args) unsent"
| "RunE me st (CmdDescribe schemaFiles name) = DescribeCmd (Catalogs me) st schemaFiles name"
| "RunE me st (CmdListTables schemaFiles sys) = ListTablesCmd (Catalogs me) st schemaFiles sys"
| "RunE me st (CmdRisk expr args) = obind (RiskCmd (Parsers me) st expr args) unsent"
| "RunE me st (CmdSummarize expr args) = obind (SummarizeCmd (Parsers me) st expr args) unsent"
| "RunE me st (CmdExplain expr args mo timeout) = ExplainCmd (Ctx (Catalogs me)) st expr args mo timeout"
| "RunE me st (CmdSimulate expr args mo timeout) = SimulateCmd (Ctx (Catalogs me)) st expr args mo timeout"
| "RunE me st (CmdExec expr args mo timeout maxRows) = ExecCmd (Ctx (Catalogs me)) st expr args mo timeout maxRows"

text \<open>\<open>main\<close> after the re-exec decision, which is in \<open>Route\<close>: stdout, stderr, exit status and what was sent.\<close>

definition main_run :: "'e main_env \<Rightarrow> root_flags \<Rightarrow> command \<Rightarrow> ((string \<times> string \<times> nat) \<times> wire list) outcome" where
  "main_run me fl c =
     (case PersistentPreRun (process me) fl of
        Inl e \<Rightarrow> Ret (main_exit ([], Some (Err e)), [])
      | Inr st \<Rightarrow> obind (RunE me st c) (\<lambda>(r, ws). Ret (main_exit r, ws)))"

section \<open>JSON mode\<close>

lemma version_documents:
  assumes "json_process (process me) st"
  shows "document (process me) (VersionCmd me st)" "document (process me) (VersionsCmd me st)"
  using newEnvelope_advisory [of "process me" st TierUnset]
  by (auto simp: VersionCmd_def VersionsCmd_def Let_def document_error [OF assms]
      intro!: document_data [OF assms] split: prod.split option.split)

text \<open>What the theorem asks of the libraries and the process.\<close>

definition sound_environment :: "'e main_env \<Rightarrow> root_state \<Rightarrow> bool" where
  "sound_environment me st \<longleftrightarrow> one_process me \<and> json_process (process me) st \<and> Stdin (process me) \<noteq> None
     \<and> grave (ErrorApi (Front (CliTools (process me)))) \<and> (\<forall>ws. grave (ClusterApi (Server (Ctx (Catalogs me))) ws))
     \<and> locating (Front (CliTools (process me))) \<and> in_order (Lexer (Parsers me))"

lemma RunE_document:
  assumes "sound_environment me st"
  shows "settles_sent (process me) (RunE me st c)"
proof -
  from assms have json: "json_process (process me) st" and stdin: "Stdin (process me) \<noteq> None"
    and grave: "grave (ErrorApi (Front (CliTools (process me))))" and cluster: "grave (ClusterApi (Server (Ctx (Catalogs me))) ws)"
    and loc: "locating (Front (CliTools (process me)))" and lx: "in_order (Lexer (Parsers me))"
    and one: "proc_of (Catalogs me) = process me" for ws
    by (simp_all add: sound_environment_def one_process_def)
  note connected = connected_commands_document [of "Ctx (Catalogs me)", unfolded one, OF json grave cluster]
  note catalog = ListTablesCmd_document [of "Catalogs me", unfolded one, OF json cluster]
    DescribeCmd_document [of "Catalogs me", unfolded one, OF json cluster stdin]
  show ?thesis
    by (cases c) (simp_all add: version_documents [OF json] connected catalog
        settles_then_unsent parser_commands_document [OF json grave loc lx] ValidateCmd_document [OF json grave loc])
qed


definition sample_flags :: root_flags where
  "sample_flags = \<lparr>flag_output = ''json'', flag_dsn = [], flag_config = [], flag_target = [],
     flag_tls = \<lparr>SSLMode = [], SSLRootCert = [], SSLCert = [], SSLKey = []\<rparr>\<rparr>"

definition sample_main :: "unit main_env" where
  "sample_main = \<lparr>Parsers = sample_parsers (sample_process sample_tools) Summarize.sample_api,
     Catalogs = \<lparr>Ctx = (sample_connected [])\<lparr>Proc := sample_process sample_tools\<rparr>, CatalogApi = sample_catalog_env\<rparr>,
     MarshalFiles = \<lambda>_. Inr [], MarshalVersion = \<lambda>_. Inr [], MarshalBackends = \<lambda>_. Inr [], ActiveVersion = ''v26.2'',
     Machine = \<lparr>os_Executable = None, on_windows = False, builtQuarterStamp = [], build_info = None, path_list = [],
       os_ReadDir = \<lambda>_. None, os_Stat = \<lambda>_. None, fp_Abs = \<lambda>_. None, fp_Base = id, fp_Dir = id, fp_Join = (@), syscall_Exec = \<lambda>_ _. None\<rparr>\<rparr>"


end
