(* ===== verification/Spec2Isabelle.thy ===== *)
theory Spec2Isabelle
  imports Columns_Correct Strip_Prompts Diag_Errors Safety Version_Features Catalog Risk Route Pool Semcheck Mcp_Server Cli_Main
begin

text \<open>
  Verification of \<open>crdb-sql\<close>, a command-line tool and MCP server that parses, checks, explains and runs
  CockroachDB SQL for agents.

  \<^bold>\<open>The program and its parts.\<close> A text comes in, from a tool call or a file. The prompts of a pasted session are
  stripped (\<open>internal/sqlformat/strip.go\<close>), the CockroachDB parser gives statements or an error, and
  everything after works on the statements: semantic checks against a catalog of \<open>CREATE TABLE\<close> statements
  (\<open>internal/semcheck\<close>, \<open>internal/catalog\<close>), feature warnings for a target version (\<open>internal/version\<close>), risk
  findings (\<open>internal/risk\<close>), summaries (\<open>internal/summarize\<close>), and, when a cluster is named, the safety check
  (\<open>internal/safety\<close>) in front of the connection manager (\<open>internal/conn\<close>). Errors and results travel in one
  envelope (\<open>internal/output\<close>, \<open>internal/diag\<close>). The MCP server (\<open>internal/mcp\<close>) wires the tools and forwards a
  call for another parser version to a sibling process (\<open>internal/versionroute\<close>, \<open>internal/mcp/proxy\<close>). The command
  line (\<open>cmd\<close>) offers the same operations as subcommands, on a file, \<open>-e\<close>, stdin or the files of a project
  (\<open>internal/config\<close>, \<open>internal/sqlinput\<close>), and prints the envelope or a text.

  \<^bold>\<open>Theories.\<close>
  \<^item> \<open>Go_Prelude\<close>: Go strings as byte lists, the library functions used, \<open>outcome\<close> (a value or a panic), sorting and
    searching; \<open>Located\<close>: statements that occur in the text in order; \<open>Ast\<close>: the part of the parser's syntax tree that
    the code inspects.
  \<^item> \<open>Output\<close>, \<open>Diag_Position\<close>, \<open>Edit_Distance\<close>, \<open>Suggest\<close>, \<open>Diag_Errors\<close>: envelope and renderer, positions, the edit
    distances and both suggestion engines, the conversion of parser and cluster errors.
  \<^item> \<open>Strip_Prompts\<close>: the line scanner, its segment table and \<open>Translate\<close>.
  \<^item> \<open>Catalog\<close>; \<open>Names_Common\<close>, \<open>Names_Tables\<close>, \<open>Names_Columns\<close>, \<open>Columns_Correct\<close>, \<open>Semcheck\<close>: catalog loading and the
    checks of \<open>names.go\<close>, \<open>functions.go\<close>, \<open>expr.go\<close>, \<open>runner.go\<close>; \<open>Columns_Correct\<close> relates the column check to a
    resolution relation.
  \<^item> \<open>Safety\<close>, \<open>Version_Features\<close>, \<open>Risk\<close>, \<open>Summarize\<close>: the rule sets, one definition for each rule or visitor.
  \<^item> \<open>Conn\<close>, \<open>Execute\<close>, \<open>Simulate\<close>, \<open>Introspect\<close>, \<open>Explain_Tree\<close>, \<open>Explain_DDL\<close>, \<open>Tls\<close>: the connection manager. Its
    record keeps the log of what was sent; the driver answers with arbitrary functions of that log, so a
    theorem holds for every behaviour of the cluster.
  \<^item> \<open>Preprocess\<close>, \<open>Mcp_Params\<close>, \<open>Mcp_Tools\<close>, \<open>Mcp_Connected\<close>, \<open>Mcp_Catalog\<close>, \<open>Mcp_Server\<close>: parameters, envelopes and
    every tool handler, up to the server and its routing wrapper.
  \<^item> \<open>Route\<close>, \<open>Pool\<close>: quarters, discovery and re-execution; the warm pool as an interleaving step relation over
    threads, entries and clients.
  \<^item> \<open>Config\<close>, \<open>Highlight\<close>, \<open>Builtin_Stubs\<close>: the project configuration, the colouring of formatted SQL, the
    registration of built-in functions at startup.
  \<^item> \<open>Cli\<close>, \<open>Cli_Parsers\<close>, \<open>Cli_Validate\<close>, \<open>Cli_Connected\<close>, \<open>Cli_Catalog\<close>, \<open>Cli_Main\<close>: flags, input, renderings and every
    subcommand, up to the exit status; a subcommand gives what it wrote and its error. \<open>Cli_Agreement\<close> relates the
    subcommands to the tools of the same name.

  \<^bold>\<open>Conventions.\<close> A definition has the name of the Go function it models; a name that Isabelle has already, or that
  two packages share, gets a suffix or its theory's name. A nil pointer is \<^const>\<open>None\<close>; a Go pair \<open>(v, error)\<close> is a sum;
  a panic is a value of \<open>outcome\<close>; a map that is only read is a function; mutable collector state is a record passed
  along. Durations are nanoseconds, 64-bit where the code multiplies them. The parser, \<open>pgx\<close>, \<open>net/url\<close>, the JSON
  encoder, the file system and the operating system are arguments, collected in records of functions; what a
  property needs of one is a named hypothesis, with a witness that satisfies it.

  \<^bold>\<open>What the lemmas show.\<close> Safety: which batches each mode admits, that the tools send nothing but an admitted
  statement or its \<open>EXPLAIN\<close>, each in a transaction of the mode with the timeout set, and nothing at all after a
  rejection. Positions: what is reported about the stripped text points at the same byte of the paste.
  Checks: what is reported is exactly what the resolution relation says, and every checker returns. Parsers of
  \<open>EXPLAIN\<close> output: round trips with a printer. Algorithms: the edit distances against their specification,
  suggestions as the three best. Pool: invariants by rule induction over every interleaving. Command line: one
  JSON document for every outcome, the exit status that goes with it, and the agreement with the tools.
  Interfaces are locales, each interpreted on the model in the theory that provides it: the segment table
  (\<open>offset_map\<close>), the catalog (\<open>name_store\<close>), name scopes (\<open>folded_set\<close>), the edit distances (\<open>edit_metric\<close>,
  \<open>string_metric\<close>) and the safety gate (\<open>statement_gate\<close>, \<open>gate_escalation\<close>).

  \<^bold>\<open>Termination and bounds.\<close> There is no fuel: loops are structural recursion on the lists they scan or \<open>function\<close>s with
  a measure. Slices whose bounds the code does not check are panics, and the theorems say when there is none.

  \<^bold>\<open>Not modelled.\<close> cobra's parsing of the command line and the help texts; the transport of the MCP protocol
  (\<open>mcp-go\<close>) and the call that replaces the process, whose results are arguments; the generated stubs of the
  built-in functions, which are data; the code generators (\<open>cmd/gen-builtins\<close>, \<open>cmd/extract-builtins\<close>) and the test
  utilities, which are no part of the program.
\<close>

end
